(* ===== verification/Msvm_Prelude.thy ===== *)
theory Msvm_Prelude
  imports Main "HOL-Library.Word" "HOL-Library.Monad_Syntax"
begin

text \<open>
  Shared vocabulary of the development: the machine integers of the firmware, the UEFI
  status codes, memory regions as byte lists whose out-of-range accesses are faults, the
  \<^verbatim>\<open>ASSERT\<close> macro, little-endian fields, and the list and word lemmas that
  the component theories share.

  A C function that reads or writes memory or evaluates an \<^verbatim>\<open>ASSERT\<close> is
  modelled by a function into \<open>'a option\<close>: \<open>None\<close> is an access outside the region or a
  failed assertion, \<open>Some r\<close> is a normal return with result \<open>r\<close>. Error codes of the
  program are ordinary results and never \<open>None\<close>.
\<close>

unbundle bit_operations_syntax

named_theorems unat_facts \<open>word operations of the model read through unat\<close>
named_theorems mem_facts \<open>reads and writes of memory regions\<close>

subsection \<open>Machine integers\<close>

type_synonym u8 = "8 word"
type_synonym u16 = "16 word"
type_synonym u32 = "32 word"
type_synonym u64 = "64 word"

subsection \<open>Status codes\<close>

datatype efi_status =
    EFI_SUCCESS
  | EFI_INVALID_PARAMETER
  | EFI_UNSUPPORTED
  | EFI_BAD_BUFFER_SIZE
  | EFI_BUFFER_TOO_SMALL
  | EFI_NOT_READY
  | EFI_DEVICE_ERROR
  | EFI_OUT_OF_RESOURCES
  | EFI_NOT_FOUND
  | EFI_ALREADY_STARTED
  | EFI_ABORTED
  | EFI_NOT_STARTED
  | EFI_END_OF_FILE
  | EFI_COMPROMISED_DATA
  | EFI_PROTOCOL_ERROR
  | EFI_SECURITY_VIOLATION
  | EFI_RING_CORRUPT_ERROR
  | EFI_RING_NEWLY_EMPTY
  | EFI_RING_SIGNAL_OPPOSITE_ENDPOINT

text \<open>
  \<^verbatim>\<open>EFI_ERROR\<close> tests the sign bit of the code: success and the two ring
  codes built with \<^verbatim>\<open>ENCODE_WARNING\<close> are not errors.
\<close>

definition EFI_ERROR :: "efi_status \<Rightarrow> bool" where
  "EFI_ERROR s \<longleftrightarrow>
     s \<notin> {EFI_SUCCESS, EFI_RING_NEWLY_EMPTY, EFI_RING_SIGNAL_OPPOSITE_ENDPOINT}"

lemma EFI_ERROR_simps [simp]:
  "\<not> EFI_ERROR EFI_SUCCESS"
  "\<not> EFI_ERROR EFI_RING_NEWLY_EMPTY"
  "\<not> EFI_ERROR EFI_RING_SIGNAL_OPPOSITE_ENDPOINT"
  "EFI_ERROR EFI_INVALID_PARAMETER"
  "EFI_ERROR EFI_BUFFER_TOO_SMALL"
  "EFI_ERROR EFI_END_OF_FILE"
  "EFI_ERROR EFI_RING_CORRUPT_ERROR"
  "EFI_ERROR EFI_ALREADY_STARTED"
  "EFI_ERROR EFI_UNSUPPORTED"
  "EFI_ERROR EFI_OUT_OF_RESOURCES"
  "EFI_ERROR EFI_NOT_FOUND"
  "EFI_ERROR EFI_DEVICE_ERROR"
  "EFI_ERROR EFI_NOT_READY"
  "EFI_ERROR EFI_COMPROMISED_DATA"
  "EFI_ERROR EFI_PROTOCOL_ERROR"
  "EFI_ERROR EFI_BAD_BUFFER_SIZE"
  "EFI_ERROR EFI_SECURITY_VIOLATION"
  by (simp_all add: EFI_ERROR_def)

subsection \<open>Build configuration and assertions\<close>

text \<open>
  \<open>ASSERTS\<close>: the build keeps \<^verbatim>\<open>ASSERT\<close> (a debug build); \<open>DBG\<close>: the
  preprocessor symbol of the same name; \<open>DEBUG_CODE\<close>: statements inside
  \<^verbatim>\<open>DEBUG_CODE ()\<close> are executed.
\<close>

record build =
  ASSERTS :: bool
  DBG :: bool
  DEBUG_CODE :: bool

definition ASSERT :: "build \<Rightarrow> bool \<Rightarrow> unit option" where
  "ASSERT b P = (if ASSERTS b \<and> \<not> P then None else Some ())"

lemma ASSERT_True [simp]: "P \<Longrightarrow> ASSERT b P = Some ()"
  by (simp add: ASSERT_def)

lemma ASSERT_bind_Some:
  "(ASSERT b P \<bind> f) = Some r \<longleftrightarrow> (ASSERTS b \<longrightarrow> P) \<and> f () = Some r"
  by (simp add: ASSERT_def)

subsection \<open>Total correctness of faulting computations\<close>

text \<open>
  \<open>runs m Q\<close>: the computation \<open>m\<close> does not fault and its result satisfies \<open>Q\<close>. The rules
  \<open>run_intros\<close> take a monadic definition apart, one rule per construct; a \<open>let\<close> becomes a
  fresh variable with its defining equation, so that intermediate states are not copied.
\<close>

definition runs :: "'a option \<Rightarrow> ('a \<Rightarrow> bool) \<Rightarrow> bool" where
  "runs m Q \<longleftrightarrow> (\<exists>r. m = Some r \<and> Q r)"

lemma runs_SomeI: "Q r \<Longrightarrow> runs (Some r) Q"
  by (simp add: runs_def)

lemma runs_bindI: "runs m (\<lambda>x. runs (f x) Q) \<Longrightarrow> runs (m \<bind> f) Q"
  by (auto simp: runs_def)

lemma runs_ifI: "(P \<Longrightarrow> runs m Q) \<Longrightarrow> (\<not> P \<Longrightarrow> runs m' Q) \<Longrightarrow> runs (if P then m else m') Q"
  by simp

lemma runs_letI: "(\<And>x. x = v \<Longrightarrow> runs (f x) Q) \<Longrightarrow> runs (let x = v in f x) Q"
  by simp

lemma runs_prodI: "(\<And>x y. p = (x, y) \<Longrightarrow> runs (f x y) Q) \<Longrightarrow> runs (case p of (x, y) \<Rightarrow> f x y) Q"
  by (cases p) simp

lemma runs_ASSERTI: "P \<Longrightarrow> Q () \<Longrightarrow> runs (ASSERT b P) Q"
  by (simp add: runs_SomeI)

lemmas run_intros = runs_bindI runs_ifI runs_letI runs_prodI runs_ASSERTI runs_SomeI

lemma runs_mono: "runs m Q \<Longrightarrow> (\<And>r. Q r \<Longrightarrow> Q' r) \<Longrightarrow> runs m Q'"
  by (auto simp: runs_def)

lemma runs_eqI: "m = Some r \<Longrightarrow> Q r \<Longrightarrow> runs m Q"
  by (simp add: runs_def)

lemma runsE: "runs m Q \<Longrightarrow> (\<And>r. m = Some r \<Longrightarrow> Q r \<Longrightarrow> thesis) \<Longrightarrow> thesis"
  by (auto simp: runs_def)

lemma runs_not_None: "runs m Q \<Longrightarrow> m \<noteq> None"
  by (auto simp: runs_def)

lemma runs_result: "runs m Q \<Longrightarrow> m = Some r \<Longrightarrow> Q r"
  by (auto simp: runs_def)

text \<open>
  The idiom \<^verbatim>\<open>Status = f (...); if (EFI_ERROR (Status)) goto Exit;\<close>: go on with
  the new state, unless the status is an error.
\<close>

definition on_success ::
  "(efi_status \<times> 's) option \<Rightarrow> ('s \<Rightarrow> (efi_status \<times> 's) option) \<Rightarrow> (efi_status \<times> 's) option" where
  "on_success m f = do { (Status, s) \<leftarrow> m; if EFI_ERROR Status then Some (Status, s) else f s }"

subsection \<open>Memory regions\<close>

definition mem_read :: "'a list \<Rightarrow> nat \<Rightarrow> nat \<Rightarrow> 'a list option" where
  "mem_read m off len = (if off + len \<le> length m then Some (take len (drop off m)) else None)"

definition mem_write :: "'a list \<Rightarrow> nat \<Rightarrow> 'a list \<Rightarrow> 'a list option" where
  "mem_write m off bs =
     (if off + length bs \<le> length m
      then Some (take off m @ bs @ drop (off + length bs) m) else None)"

lemma mem_read_Some [mem_facts]:
  "mem_read m off len = Some bs \<longleftrightarrow> off + len \<le> length m \<and> bs = take len (drop off m)"
  by (auto simp: mem_read_def)

lemma mem_read_in_range [simp]:
  "off + len \<le> length m \<Longrightarrow> mem_read m off len = Some (take len (drop off m))"
  by (simp add: mem_read_def)

lemma mem_write_Some [mem_facts]:
  "mem_write m off bs = Some m' \<longleftrightarrow>
     off + length bs \<le> length m \<and> m' = take off m @ bs @ drop (off + length bs) m"
  by (auto simp: mem_write_def)

lemma mem_write_ex: "off + length bs \<le> length m \<Longrightarrow> \<exists>m'. mem_write m off bs = Some m'"
  by (simp add: mem_write_def)

lemma mem_write_length [mem_facts]: "mem_write m off bs = Some m' \<Longrightarrow> length m' = length m"
  by (auto simp: mem_write_Some)

lemma mem_write_nth [mem_facts]:
  assumes "mem_write m off bs = Some m'" and "i < length m"
  shows "m' ! i = (if off \<le> i \<and> i < off + length bs then bs ! (i - off) else m ! i)"
  using assms by (auto simp: mem_write_Some nth_append min_def)

lemma mem_read_nth:
  "mem_read m off len = Some bs \<Longrightarrow> i < len \<Longrightarrow> bs ! i = m ! (off + i)"
  by (auto simp: mem_read_Some)

lemma mem_read_length: "mem_read m off len = Some bs \<Longrightarrow> length bs = len"
  by (auto simp: mem_read_Some)

lemma runs_mem_write:
  "off + length bs \<le> length m \<Longrightarrow>
   Q (take off m @ bs @ drop (off + length bs) m) \<Longrightarrow> runs (mem_write m off bs) Q"
  by (simp add: runs_def mem_write_def)

lemma runs_mem_read:
  "off + len \<le> length m \<Longrightarrow> Q (take len (drop off m)) \<Longrightarrow> runs (mem_read m off len) Q"
  by (simp add: runs_def)

text \<open>What was written is read back, and a disjoint write does not change a read.\<close>

lemma mem_write_read_same:
  "mem_write m off bs = Some m' \<Longrightarrow> mem_read m' off (length bs) = Some bs"
  by (auto simp: mem_write_Some mem_read_def)

lemma mem_write_read_disjoint:
  assumes w: "mem_write m off bs = Some m'" and d: "off' + len \<le> off \<or> off + length bs \<le> off'"
  shows "mem_read m' off' len = mem_read m off' len"
proof (cases "off' + len \<le> length m")
  case False
  with mem_write_length [OF w] show ?thesis by (simp add: mem_read_def)
next
  case True
  have "take len (drop off' m') = take len (drop off' m)"
  proof (rule nth_equalityI)
    show "length (take len (drop off' m')) = length (take len (drop off' m))"
      using mem_write_length [OF w] by simp
  next
    fix i assume "i < length (take len (drop off' m'))"
    then show "take len (drop off' m') ! i = take len (drop off' m) ! i"
      using True d mem_write_length [OF w] mem_write_nth [OF w, of "off' + i"] by auto
  qed
  then show ?thesis using mem_write_length [OF w] by (simp add: mem_read_def)
qed

subsection \<open>Little-endian fields\<close>

definition le16 :: "u8 list \<Rightarrow> u16" where
  "le16 bs = ucast (bs ! 0) OR push_bit 8 (ucast (bs ! 1))"

definition le32_bytes :: "u32 \<Rightarrow> u8 list" where
  "le32_bytes w = [ucast w, ucast (drop_bit 8 w), ucast (drop_bit 16 w), ucast (drop_bit 24 w)]"

lemma length_le32_bytes [simp]: "length (le32_bytes w) = 4"
  by (simp add: le32_bytes_def)

text \<open>The memory image of an integer on a little-endian machine, and the integer read from it.\<close>

primrec le_bytes :: "nat \<Rightarrow> 'a::len word \<Rightarrow> u8 list" where
  "le_bytes 0 w = []"
| "le_bytes (Suc n) w = ucast w # le_bytes n (drop_bit 8 w)"

primrec of_le_bytes :: "u8 list \<Rightarrow> 'a::len word" where
  "of_le_bytes [] = 0"
| "of_le_bytes (b # bs) = ucast b OR push_bit 8 (of_le_bytes bs)"

lemma length_le_bytes [simp]: "length (le_bytes n w) = n"
  by (induction n arbitrary: w) simp_all

lemma of_le_bytes_le_bytes_take: "of_le_bytes (le_bytes n w) = take_bit (8 * n) w"
proof (induction n arbitrary: w)
  case 0
  then show ?case by simp
next
  case (Suc n)
  show ?case
  proof (rule bit_eqI)
    fix i assume "possible_bit TYPE('a word) i"
    then show "bit (of_le_bytes (le_bytes (Suc n) w) :: 'a word) i \<longleftrightarrow> bit (take_bit (8 * Suc n) w) i"
      by (auto simp: Suc.IH bit_or_iff bit_push_bit_iff bit_take_bit_iff bit_drop_bit_eq bit_unsigned_iff
          possible_bit_word)
  qed
qed

lemma of_le_bytes_le_bytes [simp]:
  "of_le_bytes (le_bytes n w) = w" if "LENGTH('a) \<le> 8 * n" for w :: "'a::len word"
  using that by (simp add: of_le_bytes_le_bytes_take take_bit_word_eq_self)

lemma nth_le_bytes: "i < n \<Longrightarrow> le_bytes n w ! i = ucast (drop_bit (8 * i) w)"
proof (induction n arbitrary: w i)
  case 0
  then show ?case by simp
next
  case (Suc n)
  then show ?case by (cases i) (simp_all add: drop_bit_drop_bit add.commute)
qed

lemma bit_of_le_bytes:
  "bit (of_le_bytes bs :: 'a::len word) k \<longleftrightarrow>
     k < LENGTH('a) \<and> k < 8 * length bs \<and> bit (bs ! (k div 8)) (k mod 8)"
proof (induction bs arbitrary: k)
  case Nil
  then show ?case by simp
next
  case (Cons b bs)
  show ?case
  proof (cases "k < 8")
    case True
    then show ?thesis by (auto simp: bit_or_iff bit_push_bit_iff bit_unsigned_iff possible_bit_word)
  next
    case False
    then obtain j where k: "k = j + 8" by (metis add.commute le_Suc_ex not_less)
    have "(j + 8) div 8 = Suc (j div 8)" by simp
    moreover have "\<not> bit b (j + 8)" using bit_imp_le_length [of b "j + 8"] by auto
    ultimately show ?thesis
      by (auto simp: k bit_or_iff bit_push_bit_iff bit_unsigned_iff possible_bit_word Cons.IH)
  qed
qed

lemma le_bytes_of_le_bytes:
  assumes "length bs = n" "8 * n \<le> LENGTH('a)"
  shows "le_bytes n (of_le_bytes bs :: 'a::len word) = bs"
proof (rule nth_equalityI)
  show "length (le_bytes n (of_le_bytes bs :: 'a word)) = length bs" using assms by simp
next
  fix i assume "i < length (le_bytes n (of_le_bytes bs :: 'a word))"
  then have i: "i < n" by simp
  have "ucast (drop_bit (8 * i) (of_le_bytes bs :: 'a word)) = bs ! i"
  proof (rule bit_eqI)
    fix k assume "possible_bit TYPE(8 word) k"
    then have k: "k < 8" by (simp add: possible_bit_word)
    then show "bit (ucast (drop_bit (8 * i) (of_le_bytes bs :: 'a word)) :: u8) k \<longleftrightarrow> bit (bs ! i) k"
      using i assms by (auto simp: bit_unsigned_iff bit_drop_bit_eq bit_of_le_bytes possible_bit_word)
  qed
  then show "le_bytes n (of_le_bytes bs :: 'a word) ! i = bs ! i" using i by (simp add: nth_le_bytes)
qed

subsection \<open>Words read as naturals\<close>

lemma mod_once: "(n::nat) \<le> m \<Longrightarrow> m < 2 * n \<Longrightarrow> m mod n = m - n"
  by (simp add: le_mod_geq)

lemma word_eq_of_nat: "unat w = k \<Longrightarrow> w = of_nat k" for w :: "'a::len word"
  by auto

lemma unat_of_nat32: "k < 4294967296 \<Longrightarrow> unat (of_nat k :: u32) = k"
  by (simp add: unat_of_nat take_bit_eq_mod)

lemma unat_lt32: "unat w < 4294967296" for w :: u32
  using unsigned_less [of w] by simp

lemma unat_diff_le [unat_facts]: "b \<le> a \<Longrightarrow> unat (a - b) = unat a - unat b" for a b :: "'a::len word"
  by (simp add: unat_sub)

lemma unat_add_lt [unat_facts]:
  "unat a + unat b < 2 ^ LENGTH('a) \<Longrightarrow> unat (a + b) = unat a + unat b" for a b :: "'a::len word"
  by (simp add: unat_word_ariths)

lemma unat_add32: "unat a + unat b < 4294967296 \<Longrightarrow> unat (a + b) = unat a + unat b" for a b :: u32
  by (simp add: unat_word_ariths)

lemma unat_sub32_wrap:
  "unat a < unat b \<Longrightarrow> unat (a - b) = 4294967296 + unat a - unat b" for a b :: u32
proof -
  assume lt: "unat a < unat b"
  have b: "unat b < 4294967296" using unsigned_less [of b] by simp
  have "int (unat (a - b)) = (int (unat a) - int (unat b)) mod 4294967296"
    by (simp add: uint_word_ariths)
  also have "\<dots> = (int (unat a) - int (unat b) + 4294967296) mod 4294967296"
    by simp
  also have "\<dots> = int (unat a) - int (unat b) + 4294967296"
    using lt b by (intro mod_pos_pos_trivial; linarith)
  finally show ?thesis using lt b by linarith
qed

end
