(* ===== verification/Vmbus_Ring.thy ===== *)
theory Vmbus_Ring
  imports Msvm_Prelude
begin

text \<open>
  The VMBus packet ring of \<^verbatim>\<open>MsvmPkg/EmclDxe/RingBuffer.c\<close> and
  \<^verbatim>\<open>Init.c\<close>, with the structures of
  \<^verbatim>\<open>Include/Vmbus/VmbusPacketFormat.h\<close> and
  \<^verbatim>\<open>VmbusPacketInterface.h\<close>.

  The control block of a ring is memory shared with the opposite endpoint, which may
  write it at any time. Every read of a volatile field is therefore preceded by a step of
  the opposite endpoint: an operation takes a \<open>host\<close>, and its \<open>k\<close>-th volatile read sees
  the control block after \<open>host k\<close> has been applied to it. A theorem for every \<open>host\<close>
  holds whatever the opposite endpoint does. A pointer into a ring is the byte offset from
  \<^verbatim>\<open>Data\<close>.
\<close>

subsection \<open>Structures\<close>

record vmrcb =
  rcb_In :: u32
  rcb_Out :: u32
  rcb_InterruptMask :: u32
  rcb_PendingSendSize :: u32
  rcb_FeatureBits :: u32

record packet_ring_context =
  Control :: vmrcb
  Data :: "u8 list"
  DataBytesInRing :: u32

text \<open>
  \<open>InterruptMaskSkips\<close> is initialised to point at \<open>StaticInterruptMaskSkips\<close> and never
  changed, so the counter itself is the field.
\<close>

record packet_lib_context =
  Outgoing :: packet_ring_context
  Incoming :: packet_ring_context
  IncomingInCache :: u32
  IncomingOut :: u32
  EmptyRingBufferCount :: u32
  NonspuriousInterruptCount :: u32
  OutgoingIn :: u32
  OutgoingOutCache :: u32
  PendingSendSize :: u32
  FullRingBufferCount :: u32
  StaticInterruptMaskSkips :: u64

type_synonym host = "nat \<Rightarrow> vmrcb \<Rightarrow> vmrcb"

text \<open>A volatile access: the control block as the opposite endpoint has left it.\<close>

definition outgoing_host :: "(vmrcb \<Rightarrow> vmrcb) \<Rightarrow> packet_lib_context \<Rightarrow> packet_lib_context" where
  "outgoing_host f c = c\<lparr>Outgoing := (Outgoing c)\<lparr>Control := f (Control (Outgoing c))\<rparr>\<rparr>"

definition incoming_host :: "(vmrcb \<Rightarrow> vmrcb) \<Rightarrow> packet_lib_context \<Rightarrow> packet_lib_context" where
  "incoming_host f c = c\<lparr>Incoming := (Incoming c)\<lparr>Control := f (Control (Incoming c))\<rparr>\<rparr>"

definition set_outgoing_data :: "u8 list \<Rightarrow> packet_lib_context \<Rightarrow> packet_lib_context" where
  "set_outgoing_data d c = c\<lparr>Outgoing := (Outgoing c)\<lparr>Data := d\<rparr>\<rparr>"

text \<open>Sizes of the packet structures in bytes.\<close>

definition sizeof_PREVIOUS_PACKET_OFFSET :: u32 where
  "sizeof_PREVIOUS_PACKET_OFFSET = 8"

definition sizeof_VMPACKET_DESCRIPTOR :: u32 where
  "sizeof_VMPACKET_DESCRIPTOR = 16"

definition MAXIMUM_EXPECTED_INTERRUPT_COUNT :: u32 where
  "MAXIMUM_EXPECTED_INTERRUPT_COUNT = 64"

text \<open>
  \<^verbatim>\<open>ALIGN_UP (x, UINT64)\<close>: the alignment is a \<^verbatim>\<open>sizeof\<close>,
  so the sum is computed in 64 bits.
\<close>

definition ALIGN_UP :: "u32 \<Rightarrow> u64" where
  "ALIGN_UP x = (let v = ucast x in v + ((8 - v) AND 7))"

subsection \<open>Ring arithmetic\<close>

definition PkModuloReduce :: "build \<Rightarrow> u32 \<Rightarrow> u32 \<Rightarrow> u32 option" where
  "PkModuloReduce b Value Modulus =
     (if Modulus \<le> Value
      then do { ASSERT b (Value - Modulus < Modulus); Some (Value - Modulus) }
      else Some Value)"

definition PkpValidatePointer :: "u32 \<Rightarrow> u32 \<Rightarrow> bool" where
  "PkpValidatePointer n Pointer \<longleftrightarrow> Pointer < n \<and> Pointer mod 8 = 0"

definition PkpDataAvailable :: "build \<Rightarrow> u32 \<Rightarrow> u32 \<Rightarrow> u32 \<Rightarrow> u32 option" where
  "PkpDataAvailable b n In' Out' = do {
     ASSERT b (In' < n);
     ASSERT b (Out' < n);
     let bytesAvailable = In' - Out';
     if bytesAvailable < n then Some bytesAvailable else Some (n + bytesAvailable)
   }"

definition PkpFreeBytes :: "build \<Rightarrow> u32 \<Rightarrow> u32 \<Rightarrow> u32 \<Rightarrow> u32 option" where
  "PkpFreeBytes b n In' Out' = do {
     ASSERT b (In' < n);
     ASSERT b (Out' < n);
     let bytesFree = Out' - In' - 1;
     if bytesFree < n then Some bytesFree else Some (n + bytesFree)
   }"

subsection \<open>Expected interrupts\<close>

definition PkpExpectedInterruptCount :: "packet_lib_context \<Rightarrow> u32" where
  "PkpExpectedInterruptCount c =
     EmptyRingBufferCount c + FullRingBufferCount c - NonspuriousInterruptCount c"

definition PkpExpectInterrupt :: "packet_lib_context \<Rightarrow> bool \<Rightarrow> packet_lib_context" where
  "PkpExpectInterrupt c IsIncoming =
     (if PkpExpectedInterruptCount c < MAXIMUM_EXPECTED_INTERRUPT_COUNT
      then if IsIncoming then c\<lparr>EmptyRingBufferCount := EmptyRingBufferCount c + 1\<rparr>
           else c\<lparr>FullRingBufferCount := FullRingBufferCount c + 1\<rparr>
      else c)"

subsection \<open>Initialisation\<close>

definition PkpInitRingBufferControl :: "packet_lib_context \<Rightarrow> efi_status \<times> packet_lib_context" where
  "PkpInitRingBufferControl c =
     (let incomingIn = rcb_In (Control (Incoming c));
          incomingOut = rcb_Out (Control (Incoming c));
          outgoingIn = rcb_In (Control (Outgoing c));
          outgoingOut = rcb_Out (Control (Outgoing c))
      in if \<not> PkpValidatePointer (DataBytesInRing (Incoming c)) incomingIn \<or>
            \<not> PkpValidatePointer (DataBytesInRing (Incoming c)) incomingOut \<or>
            \<not> PkpValidatePointer (DataBytesInRing (Outgoing c)) outgoingIn \<or>
            \<not> PkpValidatePointer (DataBytesInRing (Outgoing c)) outgoingOut
         then (EFI_RING_CORRUPT_ERROR, c)
         else
           let c1 = c\<lparr>IncomingInCache := incomingIn, IncomingOut := incomingOut,
                      OutgoingIn := outgoingIn, OutgoingOutCache := outgoingOut\<rparr>;
               c2 = outgoing_host (\<lambda>r. r\<lparr>rcb_PendingSendSize := 0\<rparr>) c1;
               c3 = incoming_host (\<lambda>r. r\<lparr>rcb_InterruptMask := 0\<rparr>) c2;
               c4 = outgoing_host (\<lambda>r. r\<lparr>rcb_FeatureBits := 1\<rparr>) c3;
               c5 = PkpExpectInterrupt c4 True;
               c6 = PkpExpectInterrupt c5 False
           in (EFI_SUCCESS, c6))"

text \<open>
  The data pages are the byte lists, the page counts are as passed;
  \<^verbatim>\<open>EFI_PAGE_SIZE\<close> is 4096 and the product is truncated to 32 bits.
\<close>

definition PkInitializeSingleMappedRingBuffer ::
  "vmrcb \<Rightarrow> u8 list \<Rightarrow> u32 \<Rightarrow> vmrcb \<Rightarrow> u8 list \<Rightarrow> u32 \<Rightarrow> efi_status \<times> packet_lib_context" where
  "PkInitializeSingleMappedRingBuffer inControl inPages inCount outControl outPages outCount =
     PkpInitRingBufferControl
       \<lparr>Outgoing = \<lparr>Control = outControl, Data = outPages, DataBytesInRing = outCount * 4096\<rparr>,
        Incoming = \<lparr>Control = inControl, Data = inPages, DataBytesInRing = inCount * 4096\<rparr>,
        IncomingInCache = 0, IncomingOut = 0, EmptyRingBufferCount = 0,
        NonspuriousInterruptCount = 0, OutgoingIn = 0, OutgoingOutCache = 0,
        PendingSendSize = 0, FullRingBufferCount = 0, StaticInterruptMaskSkips = 0\<rparr>"

subsection \<open>Sending\<close>

definition PkpCheckSendBufferFreeBytes ::
  "build \<Rightarrow> host \<Rightarrow> packet_lib_context \<Rightarrow> u32 \<Rightarrow> u32 \<Rightarrow> u32 \<Rightarrow> u32
     \<Rightarrow> (efi_status \<times> packet_lib_context) option" where
  "PkpCheckSendBufferFreeBytes b h c totalPacketSize In' Out' n = do {
     free \<leftarrow> PkpFreeBytes b n In' Out';
     if free < totalPacketSize then do {
       let c = outgoing_host (h 0) c;
       let out1 = rcb_Out (Control (Outgoing c));
       if \<not> PkpValidatePointer n out1 then Some (EFI_RING_CORRUPT_ERROR, c)
       else do {
         let c = c\<lparr>OutgoingOutCache := out1\<rparr>;
         free1 \<leftarrow> PkpFreeBytes b n In' out1;
         if free1 < totalPacketSize then
           if n \<le> totalPacketSize then Some (EFI_INVALID_PARAMETER, c)
           else do {
             let c = (if PendingSendSize c = 0 then PkpExpectInterrupt c False else c);
             avail \<leftarrow> PkpDataAvailable b n In' (OutgoingIn c);
             let pending = avail + totalPacketSize;
             let pending = (if n \<le> pending then n - 1 else pending);
             let c = outgoing_host (\<lambda>r. r\<lparr>rcb_PendingSendSize := pending\<rparr>) c;
             let c = c\<lparr>PendingSendSize := totalPacketSize - sizeof_PREVIOUS_PACKET_OFFSET\<rparr>;
             let c = outgoing_host (h 1) c;
             let out2 = rcb_Out (Control (Outgoing c));
             if \<not> PkpValidatePointer n out2 then Some (EFI_RING_CORRUPT_ERROR, c)
             else do {
               let c = c\<lparr>OutgoingOutCache := out2\<rparr>;
               free2 \<leftarrow> PkpFreeBytes b n In' out2;
               if free2 < totalPacketSize then Some (EFI_BUFFER_TOO_SMALL, c) else Some (EFI_SUCCESS, c)
             }
           }
         else Some (EFI_SUCCESS, c)
       }
     }
     else Some (EFI_SUCCESS, c)
   }"

text \<open>
  A store of one 64-bit word at \<open>buffer[k]\<close>, where \<open>buffer\<close> points at byte \<open>base\<close> of the
  data and \<open>k\<close> is signed.
\<close>

definition store_u64_at :: "u8 list \<Rightarrow> u32 \<Rightarrow> int \<Rightarrow> u8 list \<Rightarrow> u8 list option" where
  "store_u64_at d base k bytes =
     (let a = uint base + k * 8 in if a < 0 then None else mem_write d (nat a) bytes)"

text \<open>Division of C: truncation towards zero.\<close>

definition c_div :: "int \<Rightarrow> int \<Rightarrow> int" where
  "c_div x y = sgn x * sgn y * (\<bar>x\<bar> div \<bar>y\<bar>)"

definition PkGetSendBuffer ::
  "build \<Rightarrow> host \<Rightarrow> packet_lib_context \<Rightarrow> u32 \<Rightarrow> u32
     \<Rightarrow> (efi_status \<times> packet_lib_context \<times> u32 \<times> u32) option" where
  "PkGetSendBuffer b h c Offset Size = do {
     let PacketSize = (ucast (ALIGN_UP Size) :: u32);
     let totalPacketSize = PacketSize + sizeof_PREVIOUS_PACKET_OFFSET;
     let n = DataBytesInRing (Outgoing c);
     let In' = Offset;
     let Out' = OutgoingOutCache c;
     last \<leftarrow> PkModuloReduce b (In' + PacketSize - 8) n;
     let PacketOneBeforeEndOffset = c_div (uint last - uint In') 8;
     end' \<leftarrow> PkModuloReduce b (In' + PacketSize) n;
     let PacketEndOffset = c_div (uint end' - uint In') 8;
     ASSERT b (PacketOneBeforeEndOffset \<le> 4294967295);
     ASSERT b (PacketEndOffset \<le> 4294967295);
     (status, c) \<leftarrow> PkpCheckSendBufferFreeBytes b h c totalPacketSize In' Out' n;
     if EFI_ERROR status then Some (status, c, Offset, 0)
     else do {
       d1 \<leftarrow> store_u64_at (Data (Outgoing c)) In' PacketOneBeforeEndOffset (replicate 8 0);
       d2 \<leftarrow> store_u64_at d1 In' PacketEndOffset (replicate 4 0 @ le32_bytes In');
       let c = set_outgoing_data d2 c;
       let c = (if PendingSendSize c \<noteq> 0
                then outgoing_host (\<lambda>r. r\<lparr>rcb_PendingSendSize := 0\<rparr>) (c\<lparr>PendingSendSize := 0\<rparr>)
                else c);
       newOffset \<leftarrow> PkModuloReduce b (In' + totalPacketSize) n;
       Some (EFI_SUCCESS, c, newOffset, In')
     }
   }"

definition PkWritePacketSingleMapped ::
  "build \<Rightarrow> packet_lib_context \<Rightarrow> u8 list \<Rightarrow> u32 \<Rightarrow> u32 \<Rightarrow> packet_lib_context option" where
  "PkWritePacketSingleMapped b c PacketBuf PacketBufSize Offset = do {
     let d = Data (Outgoing c);
     let n = DataBytesInRing (Outgoing c);
     In' \<leftarrow> PkModuloReduce b Offset n;
     let ringBufferEndOffset = n - In';
     if ALIGN_UP PacketBufSize \<le> ucast ringBufferEndOffset then do {
       src \<leftarrow> mem_read PacketBuf 0 (unat PacketBufSize);
       d \<leftarrow> mem_write d (unat In') src;
       Some (set_outgoing_data d c)
     } else do {
       src1 \<leftarrow> mem_read PacketBuf 0 (unat ringBufferEndOffset);
       d \<leftarrow> mem_write d (unat In') src1;
       src2 \<leftarrow> mem_read PacketBuf (unat ringBufferEndOffset)
                  (unat (PacketBufSize - ringBufferEndOffset));
       d \<leftarrow> mem_write d 0 src2;
       Some (set_outgoing_data d c)
     }
   }"

definition PkCompleteInsertion ::
  "build \<Rightarrow> host \<Rightarrow> packet_lib_context \<Rightarrow> u32 \<Rightarrow> (efi_status \<times> packet_lib_context) option" where
  "PkCompleteInsertion b h c NewIn = do {
     let n = DataBytesInRing (Outgoing c);
     ASSERT b (PkpValidatePointer n NewIn);
     let oldIn = OutgoingIn c;
     let c = c\<lparr>OutgoingIn := NewIn\<rparr>;
     let c = outgoing_host (\<lambda>r. r\<lparr>rcb_In := NewIn\<rparr>) c;
     let c = outgoing_host (h 0) c;
     let interruptMask = rcb_InterruptMask (Control (Outgoing c));
     let c = outgoing_host (h 1) c;
     let currentOut = rcb_Out (Control (Outgoing c));
     if \<not> PkpValidatePointer n currentOut then Some (EFI_RING_CORRUPT_ERROR, c)
     else do {
       let c = c\<lparr>OutgoingOutCache := currentOut\<rparr>;
       if oldIn = currentOut then
         if interruptMask = 0 then Some (EFI_RING_SIGNAL_OPPOSITE_ENDPOINT, c)
         else Some (EFI_SUCCESS, c\<lparr>StaticInterruptMaskSkips := StaticInterruptMaskSkips c + 1\<rparr>)
       else Some (EFI_SUCCESS, c)
     }
   }"

text \<open>
  \<open>h\<close> is the opposite endpoint during the reservation, \<open>h'\<close> during the commit.
\<close>

definition PkSendPacketRaw ::
  "build \<Rightarrow> host \<Rightarrow> host \<Rightarrow> packet_lib_context \<Rightarrow> u8 list \<Rightarrow> u32
     \<Rightarrow> (efi_status \<times> packet_lib_context) option" where
  "PkSendPacketRaw b h h' c PacketBuf PacketBufSize = do {
     ASSERT b (0 < PacketBufSize);
     (status, c, newIn, buffer) \<leftarrow> PkGetSendBuffer b h c (OutgoingIn c) PacketBufSize;
     if EFI_ERROR status then Some (status, c)
     else do {
       c \<leftarrow> PkWritePacketSingleMapped b c PacketBuf PacketBufSize buffer;
       PkCompleteInsertion b h' c newIn
     }
   }"

subsection \<open>Receiving\<close>

text \<open>
  The in pointer a receiver works with: the cached one, or the public one when the cache
  shows no data. The status is an error when the public pointer is invalid or shows no
  data either.
\<close>

definition receive_in_pointer ::
  "host \<Rightarrow> packet_lib_context \<Rightarrow> u32 \<Rightarrow> u32 \<Rightarrow> efi_status \<times> packet_lib_context \<times> u32" where
  "receive_in_pointer h c n Out' =
     (if IncomingInCache c = Out' then
        let c = incoming_host (h 0) c;
            In' = rcb_In (Control (Incoming c))
        in if \<not> PkpValidatePointer n In' then (EFI_RING_CORRUPT_ERROR, c, In')
           else let c = c\<lparr>IncomingInCache := In'\<rparr>
                in if In' = Out' then (EFI_END_OF_FILE, c, In') else (EFI_SUCCESS, c, In')
      else (EFI_SUCCESS, c, IncomingInCache c))"

text \<open>
  The result is the status, the context, the new offset, and the offset and length of the
  packet.
\<close>

definition PkGetReceiveBuffer ::
  "build \<Rightarrow> host \<Rightarrow> packet_lib_context \<Rightarrow> u32
     \<Rightarrow> (efi_status \<times> packet_lib_context \<times> u32 \<times> u32 \<times> u32) option" where
  "PkGetReceiveBuffer b h c Offset = do {
     let n = DataBytesInRing (Incoming c);
     let Out' = Offset;
     ASSERT b (Out' < n);
     let (status, c, In') = receive_in_pointer h c n Out';
     if EFI_ERROR status then Some (status, c, Offset, 0, 0)
     else do {
       bytesInRing \<leftarrow> PkpDataAvailable b n In' Out';
       lengthField \<leftarrow> mem_read (Data (Incoming c)) (unat Out' + 4) 2;
       let packetLength = (ucast (le16 lengthField) * 8 :: u32);
       let totalPacketSize = packetLength + sizeof_PREVIOUS_PACKET_OFFSET;
       if packetLength < sizeof_VMPACKET_DESCRIPTOR \<or> bytesInRing < totalPacketSize
       then Some (EFI_RING_CORRUPT_ERROR, c, Offset, 0, 0)
       else do {
         previous \<leftarrow>
           (if DBG b then do {
              trailer \<leftarrow> PkModuloReduce b (Out' + packetLength) n;
              mem_read (Data (Incoming c)) (unat trailer + 4) 4
            } else Some (le32_bytes Out'));
         if previous \<noteq> le32_bytes Out' then Some (EFI_RING_CORRUPT_ERROR, c, Offset, 0, 0)
         else do {
           newOffset \<leftarrow> PkModuloReduce b (Out' + totalPacketSize) n;
           Some (EFI_SUCCESS, c, newOffset, Out', packetLength)
         }
       }
     }
   }"

definition PkReadPacketSingleMapped ::
  "build \<Rightarrow> packet_lib_context \<Rightarrow> u32 \<Rightarrow> u32 \<Rightarrow> u8 list option" where
  "PkReadPacketSingleMapped b c PacketBufSize Out' = do {
     let n = DataBytesInRing (Incoming c);
     let d = Data (Incoming c);
     Out' \<leftarrow> PkModuloReduce b Out' n;
     let ringBufferEndOffset = n - Out';
     if PacketBufSize \<le> ringBufferEndOffset then mem_read d (unat Out') (unat PacketBufSize)
     else do {
       p1 \<leftarrow> mem_read d (unat Out') (unat ringBufferEndOffset);
       p2 \<leftarrow> mem_read d 0 (unat (PacketBufSize - ringBufferEndOffset));
       expected \<leftarrow> (if ASSERTS b
                   then PkModuloReduce b (Out' + PacketBufSize + sizeof_PREVIOUS_PACKET_OFFSET) n
                   else Some 0);
       ASSERT b (PacketBufSize - ringBufferEndOffset + sizeof_PREVIOUS_PACKET_OFFSET = expected);
       Some (p1 @ p2)
     }
   }"

definition PkCompleteRemoval ::
  "build \<Rightarrow> host \<Rightarrow> packet_lib_context \<Rightarrow> u32 \<Rightarrow> (efi_status \<times> packet_lib_context) option" where
  "PkCompleteRemoval b h c NewOut = do {
     let n = DataBytesInRing (Incoming c);
     ASSERT b (PkpValidatePointer n NewOut);
     let c = incoming_host (h 0) c;
     let c = (if rcb_In (Control (Incoming c)) = NewOut then PkpExpectInterrupt c True else c);
     let oldOut = IncomingOut c;
     let c = c\<lparr>IncomingOut := NewOut\<rparr>;
     let c = incoming_host (\<lambda>r. r\<lparr>rcb_Out := NewOut\<rparr>) c;
     let c = incoming_host (h 1) c;
     let pendingSendSize = rcb_PendingSendSize (Control (Incoming c));
     let c = incoming_host (h 2) c;
     let currentIn = rcb_In (Control (Incoming c));
     if \<not> PkpValidatePointer n currentIn then Some (EFI_RING_CORRUPT_ERROR, c)
     else do {
       let c = c\<lparr>IncomingInCache := currentIn\<rparr>;
       signal \<leftarrow>
         (if pendingSendSize \<noteq> 0 then do {
            oldFreeBytes \<leftarrow> PkpFreeBytes b n currentIn oldOut;
            newFreeBytes \<leftarrow> PkpFreeBytes b n currentIn NewOut;
            Some (pendingSendSize \<le> newFreeBytes \<and> oldFreeBytes < pendingSendSize)
          } else Some False);
       if signal then Some (EFI_RING_SIGNAL_OPPOSITE_ENDPOINT, c)
       else if NewOut = currentIn then Some (EFI_RING_NEWLY_EMPTY, c)
       else Some (EFI_SUCCESS, c)
     }
   }"

subsection \<open>Accessors\<close>

definition PkGetOutgoingRingOffset :: "packet_lib_context \<Rightarrow> u32" where
  "PkGetOutgoingRingOffset c = OutgoingIn c"

definition PkGetIncomingRingOffset :: "packet_lib_context \<Rightarrow> u32" where
  "PkGetIncomingRingOffset c = IncomingOut c"

definition PkGetOutgoingRingSize :: "packet_lib_context \<Rightarrow> u32" where
  "PkGetOutgoingRingSize c = DataBytesInRing (Outgoing c)"

definition PkGetOutgoingRingFreeBytes :: "build \<Rightarrow> host \<Rightarrow> packet_lib_context \<Rightarrow> u32 option" where
  "PkGetOutgoingRingFreeBytes b h c = do {
     let n = DataBytesInRing (Outgoing c);
     let currentIn = OutgoingIn c;
     let currentOut = rcb_Out (h 0 (Control (Outgoing c)));
     if \<not> PkpValidatePointer n currentOut then Some 0 else PkpFreeBytes b n currentIn currentOut
   }"

end
