(* ===== verification/Ring_View.thy ===== *)
theory Ring_View
  imports Msvm_Prelude
begin

text \<open>
  A circular buffer seen from an offset: \<open>rotate off d\<close> lists the bytes of \<open>d\<close> in ring
  order, starting at \<open>off\<close>. A physical write that stays inside the buffer is a write into
  that view at the ring distance of its address, so claims about circular buffers reduce
  to \<open>take\<close>, \<open>drop\<close> and \<open>append\<close>.
\<close>

lemma ring_index:
  fixes off j n :: nat
  assumes "off < n" "j < n"
  shows "(off + j) mod n = (if off + j < n then off + j else off + j - n)"
  using assms by (auto intro: mod_once)

text \<open>A write at physical address \<open>(off + k) mod n\<close> is a write at \<open>k\<close> of the view.\<close>

lemma ring_window:
  fixes off j k n len :: nat
  assumes "off < n" "j < n" "k + len \<le> n" "0 < len" "(off + k) mod n + len \<le> n"
  shows "((off + k) mod n \<le> (off + j) mod n \<and> (off + j) mod n < (off + k) mod n + len) \<longleftrightarrow>
         (k \<le> j \<and> j < k + len)"
    and "k \<le> j \<and> j < k + len \<Longrightarrow> (off + j) mod n - (off + k) mod n = j - k"
proof -
  have k: "k < n" using assms by simp
  show "((off + k) mod n \<le> (off + j) mod n \<and> (off + j) mod n < (off + k) mod n + len) \<longleftrightarrow>
         (k \<le> j \<and> j < k + len)"
    using assms unfolding ring_index [OF assms(1) k] ring_index [OF assms(1,2)]
    by (auto split: if_splits)
  show "k \<le> j \<and> j < k + len \<Longrightarrow> (off + j) mod n - (off + k) mod n = j - k"
    using assms unfolding ring_index [OF assms(1) k] ring_index [OF assms(1,2)]
    by (auto split: if_splits)
qed

lemma mem_write_rotate:
  assumes w: "mem_write d p bs = Some d'"
    and off: "off < length d" and k: "k + length bs \<le> length d"
    and p: "p = (off + k) mod length d"
  shows "mem_write (rotate off d) k bs = Some (rotate off d')"
proof (cases "bs = []")
  case True
  with w k show ?thesis by (auto simp: mem_write_def split: if_splits)
next
  case False
  have l: "length d' = length d" using w by (rule mem_write_length)
  have pb: "p + length bs \<le> length d" using w by (auto simp: mem_write_Some)
  have "rotate off d' = take k (rotate off d) @ bs @ drop (k + length bs) (rotate off d)"
  proof (rule nth_equalityI)
    show "length (rotate off d') = length (take k (rotate off d) @ bs @ drop (k + length bs) (rotate off d))"
      using l k by simp
  next
    fix j assume "j < length (rotate off d')"
    then have j: "j < length d" using l by simp
    have i: "(off + j) mod length d < length d" using j by (intro mod_less_divisor) linarith
    note win = ring_window [OF off j k _ pb [unfolded p]]
    have "rotate off d' ! j = d' ! ((off + j) mod length d)"
      using j l by (simp add: nth_rotate)
    also have "\<dots> = (if k \<le> j \<and> j < k + length bs then bs ! (j - k)
                     else d ! ((off + j) mod length d))"
      using mem_write_nth [OF w i] win False p by (auto simp del: length_greater_0_conv)
    also have "\<dots> = (take k (rotate off d) @ bs @ drop (k + length bs) (rotate off d)) ! j"
      using j k by (auto simp: nth_append nth_rotate min_def)
    finally show "rotate off d' ! j = (take k (rotate off d) @ bs @ drop (k + length bs) (rotate off d)) ! j" .
  qed
  then show ?thesis using k by (simp add: mem_write_Some)
qed

text \<open>Two adjacent writes are one.\<close>

lemma mem_write_append:
  assumes "mem_write m k xs = Some m1" "mem_write m1 (k + length xs) ys = Some m2"
  shows "mem_write m k (xs @ ys) = Some m2"
  using assms by (auto simp: mem_write_Some ac_simps)

text \<open>Reading \<open>len\<close> bytes of the view, in one or two physical pieces.\<close>

lemma take_rotate_plain:
  assumes "off < length d" "off + len \<le> length d"
  shows "take len (rotate off d) = take len (drop off d)"
  using assms by (simp add: rotate_drop_take)

lemma take_rotate_wrapped:
  assumes "off < length d" "length d \<le> off + len" "len \<le> length d"
  shows "take len (rotate off d) = drop off d @ take (len - (length d - off)) d"
  using assms by (simp add: rotate_drop_take)

lemma rotate_rotate_mod: "rotate a (rotate b d) = rotate ((b + a) mod length d) d"
  by (metis add.commute rotate_conv_mod rotate_rotate)

text \<open>Dropping the first \<open>k\<close> bytes of the view is moving its origin.\<close>

lemma take_drop_rotate:
  assumes "k + len \<le> length d"
  shows "take len (drop k (rotate off d)) = take len (rotate ((off + k) mod length d) d)"
proof (cases "k < length d")
  case True
  have "rotate ((off + k) mod length d) d = rotate k (rotate off d)"
    by (simp add: rotate_rotate_mod)
  also have "\<dots> = drop k (rotate off d) @ take k (rotate off d)"
    using True rotate_drop_take [of k "rotate off d"] by simp
  finally show ?thesis using assms by simp
next
  case False
  with assms show ?thesis by simp
qed

lemma rotate_full_view: "u \<le> length d \<Longrightarrow> rotate u d = drop u d @ take u d"
proof (cases "u < length d")
  case True
  then show ?thesis using rotate_drop_take [of u d] by (simp only: mod_less)
next
  case False
  moreover assume "u \<le> length d"
  ultimately show ?thesis using rotate_drop_take [of u d] by (simp add: mod_self)
qed

text \<open>
  Appending \<open>F\<close> at position \<open>i\<close>, which is \<open>u\<close> bytes after \<open>off\<close>: the \<open>u\<close> bytes before it stay,
  and \<open>F\<close> follows them.
\<close>

lemma ring_append:
  assumes len: "length d = n" "length d' = n" and n: "off < n" "u + length F \<le> n"
    and i: "i = (off + u) mod n"
    and w: "rotate i d' = F @ drop (length F) (rotate i d)"
  shows "take u (rotate off d') = take u (rotate off d)"
    and "take (u + length F) (rotate off d') = take u (rotate off d) @ F"
proof -
  let ?R = "rotate off d" and ?R' = "rotate off d'"
  have "rotate i d = rotate u ?R" "rotate i d' = rotate u ?R'"
    using len i by (simp_all add: rotate_rotate_mod)
  moreover have "rotate u ?R = drop u ?R @ take u ?R" "rotate u ?R' = drop u ?R' @ take u ?R'"
    using len n by (simp_all add: rotate_full_view)
  ultimately have "drop u ?R' @ take u ?R' = (F @ drop (u + length F) ?R) @ take u ?R"
    using w n len by (simp add: add.commute)
  moreover have "length (take u ?R') = length (take u ?R)" using len by simp
  ultimately have eq: "drop u ?R' = F @ drop (u + length F) ?R \<and> take u ?R' = take u ?R"
    by (metis append_eq_append_conv)
  then show t: "take u ?R' = take u ?R" by simp
  have "take (u + length F) ?R' = take u ?R' @ take (length F) (drop u ?R')"
    by (simp add: take_add)
  then show "take (u + length F) ?R' = take u ?R @ F" using eq by simp
qed

end
