(* ===== verification/Vmbus_Ring_Safety.thy ===== *)
theory Vmbus_Ring_Safety
  imports Vmbus_Ring Ring_View
begin

text \<open>
  Arithmetic of the ring read over the naturals, the invariant of a packet library
  context, and its preservation by every operation of \<^verbatim>\<open>RingBuffer.c\<close> for
  an arbitrary opposite endpoint: no operation faults, whatever the shared control block
  contains.
\<close>

subsection \<open>Ring arithmetic over the naturals\<close>

definition ring_used :: "nat \<Rightarrow> nat \<Rightarrow> nat \<Rightarrow> nat" where
  "ring_used n i j = (if j \<le> i then i - j else n + i - j)"

lemma ring_used_less: "i < n \<Longrightarrow> j < n \<Longrightarrow> ring_used n i j < n"
  by (auto simp: ring_used_def)

lemma ring_used_same [simp]: "ring_used n i i = 0"
  by (simp add: ring_used_def)

lemma ring_used_mod: "i < n \<Longrightarrow> j < n \<Longrightarrow> (j + ring_used n i j) mod n = i"
  by (auto simp: ring_used_def)

lemma ring_used_dvd: "8 dvd n \<Longrightarrow> 8 dvd i \<Longrightarrow> 8 dvd j \<Longrightarrow> j < n \<Longrightarrow> 8 dvd ring_used n i j"
  by (simp add: ring_used_def)

lemma ring_used_0_iff: "i < n \<Longrightarrow> j < n \<Longrightarrow> ring_used n i j = 0 \<longleftrightarrow> i = j"
  by (auto simp: ring_used_def)

text \<open>Advancing the producer by \<open>k\<close> bytes, and the consumer.\<close>

lemma ring_used_advance_in:
  assumes "i < n" "j < n" "ring_used n i j + k < n"
  shows "ring_used n ((i + k) mod n) j = ring_used n i j + k"
proof (cases "i + k < n")
  case True
  then show ?thesis using assms by (auto simp: ring_used_def)
next
  case False
  then have "(i + k) mod n = i + k - n"
    using assms by (intro mod_once) (auto simp: ring_used_def split: if_splits)
  then show ?thesis using False assms by (auto simp: ring_used_def split: if_splits)
qed

lemma ring_used_advance_out:
  assumes "i < n" "j < n" "k \<le> ring_used n i j"
  shows "ring_used n i ((j + k) mod n) = ring_used n i j - k"
proof (cases "j + k < n")
  case True
  then show ?thesis using assms by (auto simp: ring_used_def split: if_splits)
next
  case False
  then have "(j + k) mod n = j + k - n"
    using assms by (intro mod_once) (auto simp: ring_used_def split: if_splits)
  then show ?thesis using False assms by (auto simp: ring_used_def split: if_splits)
qed

lemma validate_iff [unat_facts]:
  "PkpValidatePointer n p \<longleftrightarrow> unat p < unat n \<and> 8 dvd unat p"
proof -
  have "p mod 8 = 0 \<longleftrightarrow> unat (p mod 8) = 0" by (simp add: unat_eq_zero)
  also have "\<dots> \<longleftrightarrow> 8 dvd unat p" by (simp add: unat_mod dvd_eq_mod_eq_0)
  finally show ?thesis by (simp add: PkpValidatePointer_def word_less_nat_alt)
qed

lemma PkpDataAvailable_cases:
  assumes "unat i < unat n" "unat j < unat n"
  shows "PkpDataAvailable b n i j = Some (if i - j < n then i - j else n + (i - j))"
  using assms by (simp add: PkpDataAvailable_def Let_def word_less_nat_alt)

lemma PkpFreeBytes_cases:
  assumes "unat i < unat n" "unat j < unat n"
  shows "PkpFreeBytes b n i j = Some (if j - i - 1 < n then j - i - 1 else n + (j - i - 1))"
  using assms by (simp add: PkpFreeBytes_def Let_def word_less_nat_alt)

lemma PkpDataAvailable_eq:
  assumes i: "unat i < unat n" and j: "unat j < unat n" and n: "unat n \<le> 2147483648"
  shows "PkpDataAvailable b n i j = Some (of_nat (ring_used (unat n) (unat i) (unat j)))"
proof (cases "unat j \<le> unat i")
  case True
  then have u: "unat (i - j) = unat i - unat j"
    by (simp add: unat_diff_le word_le_nat_alt)
  then have "i - j < n" using i unfolding word_less_nat_alt by linarith
  moreover have "i - j = of_nat (unat i - unat j)" using u by (rule word_eq_of_nat)
  ultimately show ?thesis
    using True by (simp only: PkpDataAvailable_cases [OF i j] ring_used_def if_True)
next
  case False
  then have u: "unat (i - j) = 4294967296 + unat i - unat j"
    by (simp add: unat_sub32_wrap)
  then have "\<not> i - j < n" using False j n unfolding word_less_nat_alt by linarith
  moreover have "unat (n + (i - j)) = unat n + unat i - unat j"
  proof -
    have "unat (n + (i - j)) = (unat n + (4294967296 + unat i - unat j)) mod 4294967296"
      by (simp add: unat_word_ariths u)
    also have "\<dots> = unat n + (4294967296 + unat i - unat j) - 4294967296"
      using False j n by (intro mod_once) linarith+
    finally show ?thesis using False j n by linarith
  qed
  then have "n + (i - j) = of_nat (unat n + unat i - unat j)" by (rule word_eq_of_nat)
  ultimately show ?thesis
    using False by (simp only: PkpDataAvailable_cases [OF i j] ring_used_def if_False)
qed

lemma PkpFreeBytes_eq:
  assumes i: "unat i < unat n" and j: "unat j < unat n" and n: "unat n \<le> 2147483648"
  shows "PkpFreeBytes b n i j = Some (of_nat (unat n - 1 - ring_used (unat n) (unat i) (unat j)))"
proof -
  have d: "j - i - 1 = j - (i + 1)" by simp
  have i1: "unat (i + 1) = unat i + 1"
    using i n by (simp add: unat_word_ariths)
  show ?thesis
  proof (cases "unat j \<le> unat i")
    case True
    then have u: "unat (j - i - 1) = 4294967296 + unat j - (unat i + 1)"
      using unat_sub32_wrap [of j "i + 1"] unfolding d i1 by simp
    then have "\<not> j - i - 1 < n" using True i n unfolding word_less_nat_alt by linarith
    moreover have "unat (n + (j - i - 1)) = unat n - 1 - (unat i - unat j)"
    proof -
      have "unat (n + (j - i - 1)) = (unat n + (4294967296 + unat j - (unat i + 1))) mod 4294967296"
        using unat_word_ariths(1) [of n "j - i - 1"] u by simp
      also have "\<dots> = unat n + (4294967296 + unat j - (unat i + 1)) - 4294967296"
        using True i n by (intro mod_once) linarith+
      finally show ?thesis using True i n by linarith
    qed
    then have "n + (j - i - 1) = of_nat (unat n - 1 - (unat i - unat j))" by (rule word_eq_of_nat)
    ultimately show ?thesis
      using True by (simp only: PkpFreeBytes_cases [OF i j] ring_used_def if_True if_False)
  next
    case False
    then have u: "unat (j - i - 1) = unat j - unat i - 1"
      using unat_diff_le [of "i + 1" j] i1 unfolding d by (simp add: word_le_nat_alt)
    then have "j - i - 1 < n" using j unfolding word_less_nat_alt by linarith
    moreover have "unat (j - i - 1) = unat n - 1 - (unat n + unat i - unat j)"
      using u False j by linarith
    then have "j - i - 1 = of_nat (unat n - 1 - (unat n + unat i - unat j))"
      by (rule word_eq_of_nat)
    ultimately show ?thesis
      using False by (simp only: PkpFreeBytes_cases [OF i j] ring_used_def if_True if_False)
  qed
qed

lemma PkModuloReduce_eq:
  assumes v: "unat v < 2 * unat n"
  shows "PkModuloReduce b v n = Some (of_nat (unat v mod unat n))"
proof (cases "n \<le> v")
  case True
  then have u: "unat (v - n) = unat v - unat n" by (simp add: unat_diff_le)
  have "unat v mod unat n = unat v - unat n"
    using True v by (intro mod_once) (simp_all add: word_le_nat_alt)
  then have "v - n = of_nat (unat v mod unat n)" using u by (intro word_eq_of_nat) simp
  moreover have "v - n < n" using v u True by (simp add: word_less_nat_alt word_le_nat_alt)
  ultimately show ?thesis using True by (simp add: PkModuloReduce_def)
next
  case False
  then show ?thesis by (simp add: PkModuloReduce_def word_le_nat_alt)
qed

subsection \<open>The invariant\<close>

definition ring_ok :: "packet_ring_context \<Rightarrow> bool" where
  "ring_ok r \<longleftrightarrow>
     unat (DataBytesInRing r) = length (Data r) \<and> 8 dvd length (Data r) \<and>
     0 < length (Data r) \<and> length (Data r) \<le> 2147483648"

definition pk_inv :: "packet_lib_context \<Rightarrow> bool" where
  "pk_inv c \<longleftrightarrow>
     ring_ok (Outgoing c) \<and> ring_ok (Incoming c) \<and>
     PkpValidatePointer (DataBytesInRing (Outgoing c)) (OutgoingIn c) \<and>
     PkpValidatePointer (DataBytesInRing (Outgoing c)) (OutgoingOutCache c) \<and>
     PkpValidatePointer (DataBytesInRing (Incoming c)) (IncomingInCache c) \<and>
     PkpValidatePointer (DataBytesInRing (Incoming c)) (IncomingOut c) \<and>
     PkpExpectedInterruptCount c \<le> MAXIMUM_EXPECTED_INTERRUPT_COUNT"

lemma outgoing_host_simps [simp]:
  "Control (Outgoing (outgoing_host f c)) = f (Control (Outgoing c))"
  "Data (Outgoing (outgoing_host f c)) = Data (Outgoing c)"
  "DataBytesInRing (Outgoing (outgoing_host f c)) = DataBytesInRing (Outgoing c)"
  "Incoming (outgoing_host f c) = Incoming c"
  "IncomingInCache (outgoing_host f c) = IncomingInCache c"
  "IncomingOut (outgoing_host f c) = IncomingOut c"
  "OutgoingIn (outgoing_host f c) = OutgoingIn c"
  "OutgoingOutCache (outgoing_host f c) = OutgoingOutCache c"
  "PendingSendSize (outgoing_host f c) = PendingSendSize c"
  "PkpExpectedInterruptCount (outgoing_host f c) = PkpExpectedInterruptCount c"
  "ring_ok (Outgoing (outgoing_host f c)) = ring_ok (Outgoing c)"
  by (simp_all add: outgoing_host_def PkpExpectedInterruptCount_def ring_ok_def)

lemma incoming_host_simps [simp]:
  "Control (Incoming (incoming_host f c)) = f (Control (Incoming c))"
  "Data (Incoming (incoming_host f c)) = Data (Incoming c)"
  "DataBytesInRing (Incoming (incoming_host f c)) = DataBytesInRing (Incoming c)"
  "Outgoing (incoming_host f c) = Outgoing c"
  "IncomingInCache (incoming_host f c) = IncomingInCache c"
  "IncomingOut (incoming_host f c) = IncomingOut c"
  "OutgoingIn (incoming_host f c) = OutgoingIn c"
  "OutgoingOutCache (incoming_host f c) = OutgoingOutCache c"
  "PendingSendSize (incoming_host f c) = PendingSendSize c"
  "PkpExpectedInterruptCount (incoming_host f c) = PkpExpectedInterruptCount c"
  "ring_ok (Incoming (incoming_host f c)) = ring_ok (Incoming c)"
  by (simp_all add: incoming_host_def PkpExpectedInterruptCount_def ring_ok_def)

lemma set_outgoing_data_simps [simp]:
  "Control (Outgoing (set_outgoing_data d c)) = Control (Outgoing c)"
  "Data (Outgoing (set_outgoing_data d c)) = d"
  "DataBytesInRing (Outgoing (set_outgoing_data d c)) = DataBytesInRing (Outgoing c)"
  "Incoming (set_outgoing_data d c) = Incoming c"
  "IncomingInCache (set_outgoing_data d c) = IncomingInCache c"
  "IncomingOut (set_outgoing_data d c) = IncomingOut c"
  "OutgoingIn (set_outgoing_data d c) = OutgoingIn c"
  "OutgoingOutCache (set_outgoing_data d c) = OutgoingOutCache c"
  "PendingSendSize (set_outgoing_data d c) = PendingSendSize c"
  "PkpExpectedInterruptCount (set_outgoing_data d c) = PkpExpectedInterruptCount c"
  by (simp_all add: set_outgoing_data_def PkpExpectedInterruptCount_def)

lemma PkpExpectInterrupt_simps [simp]:
  "Outgoing (PkpExpectInterrupt c x) = Outgoing c"
  "Incoming (PkpExpectInterrupt c x) = Incoming c"
  "IncomingInCache (PkpExpectInterrupt c x) = IncomingInCache c"
  "IncomingOut (PkpExpectInterrupt c x) = IncomingOut c"
  "OutgoingIn (PkpExpectInterrupt c x) = OutgoingIn c"
  "OutgoingOutCache (PkpExpectInterrupt c x) = OutgoingOutCache c"
  "PendingSendSize (PkpExpectInterrupt c x) = PendingSendSize c"
  by (simp_all add: PkpExpectInterrupt_def)

lemma PkpExpectInterrupt_count:
  "PkpExpectedInterruptCount (PkpExpectInterrupt c x) =
     (if PkpExpectedInterruptCount c < 64 then PkpExpectedInterruptCount c + 1
      else PkpExpectedInterruptCount c)"
  by (simp add: PkpExpectInterrupt_def PkpExpectedInterruptCount_def
      MAXIMUM_EXPECTED_INTERRUPT_COUNT_def algebra_simps)

lemma PkpExpectInterrupt_bound [simp]:
  assumes "PkpExpectedInterruptCount c \<le> MAXIMUM_EXPECTED_INTERRUPT_COUNT"
  shows "PkpExpectedInterruptCount (PkpExpectInterrupt c x) \<le> MAXIMUM_EXPECTED_INTERRUPT_COUNT"
proof (cases "PkpExpectedInterruptCount c < 64")
  case True
  then have "PkpExpectedInterruptCount c + 1 \<le> 64"
    by (simp add: inc_le)
  with True show ?thesis
    by (simp add: PkpExpectInterrupt_count MAXIMUM_EXPECTED_INTERRUPT_COUNT_def)
next
  case False
  with assms show ?thesis by (simp add: PkpExpectInterrupt_count)
qed

lemma context_update_count [simp]:
  "PkpExpectedInterruptCount (c\<lparr>OutgoingOutCache := v\<rparr>) = PkpExpectedInterruptCount c"
  "PkpExpectedInterruptCount (c\<lparr>OutgoingIn := v\<rparr>) = PkpExpectedInterruptCount c"
  "PkpExpectedInterruptCount (c\<lparr>IncomingInCache := v\<rparr>) = PkpExpectedInterruptCount c"
  "PkpExpectedInterruptCount (c\<lparr>IncomingOut := v\<rparr>) = PkpExpectedInterruptCount c"
  "PkpExpectedInterruptCount (c\<lparr>PendingSendSize := v\<rparr>) = PkpExpectedInterruptCount c"
  "PkpExpectedInterruptCount (c\<lparr>StaticInterruptMaskSkips := w\<rparr>) = PkpExpectedInterruptCount c"
  by (simp_all add: PkpExpectedInterruptCount_def)

text \<open>The invariant after each kind of state update.\<close>

lemma pk_inv_outgoing_host [simp]: "pk_inv (outgoing_host f c) = pk_inv c"
  by (simp add: pk_inv_def)

lemma pk_inv_incoming_host [simp]: "pk_inv (incoming_host f c) = pk_inv c"
  by (simp add: pk_inv_def)

lemma pk_inv_ExpectInterrupt [simp]: "pk_inv c \<Longrightarrow> pk_inv (PkpExpectInterrupt c x)"
  by (simp add: pk_inv_def)

lemma pk_inv_updates [simp]:
  "pk_inv c \<Longrightarrow> PkpValidatePointer (DataBytesInRing (Outgoing c)) v \<Longrightarrow>
     pk_inv (c\<lparr>OutgoingOutCache := v\<rparr>)"
  "pk_inv c \<Longrightarrow> PkpValidatePointer (DataBytesInRing (Outgoing c)) v \<Longrightarrow>
     pk_inv (c\<lparr>OutgoingIn := v\<rparr>)"
  "pk_inv c \<Longrightarrow> PkpValidatePointer (DataBytesInRing (Incoming c)) v \<Longrightarrow>
     pk_inv (c\<lparr>IncomingInCache := v\<rparr>)"
  "pk_inv c \<Longrightarrow> PkpValidatePointer (DataBytesInRing (Incoming c)) v \<Longrightarrow>
     pk_inv (c\<lparr>IncomingOut := v\<rparr>)"
  "pk_inv c \<Longrightarrow> pk_inv (c\<lparr>PendingSendSize := v\<rparr>)"
  "pk_inv c \<Longrightarrow> pk_inv (c\<lparr>StaticInterruptMaskSkips := w\<rparr>)"
  by (simp_all add: pk_inv_def)

lemma pk_inv_set_outgoing_data [simp]:
  "pk_inv c \<Longrightarrow> length d = length (Data (Outgoing c)) \<Longrightarrow> pk_inv (set_outgoing_data d c)"
  by (simp add: pk_inv_def ring_ok_def)

lemma pk_inv_dest:
  assumes "pk_inv c"
  shows "unat (DataBytesInRing (Outgoing c)) \<le> 2147483648"
    and "unat (DataBytesInRing (Incoming c)) \<le> 2147483648"
    and "0 < unat (DataBytesInRing (Outgoing c))"
    and "0 < unat (DataBytesInRing (Incoming c))"
    and "8 dvd unat (DataBytesInRing (Outgoing c))"
    and "8 dvd unat (DataBytesInRing (Incoming c))"
    and "length (Data (Outgoing c)) = unat (DataBytesInRing (Outgoing c))"
    and "length (Data (Incoming c)) = unat (DataBytesInRing (Incoming c))"
    and "PkpValidatePointer (DataBytesInRing (Outgoing c)) (OutgoingIn c)"
    and "PkpValidatePointer (DataBytesInRing (Outgoing c)) (OutgoingOutCache c)"
    and "PkpValidatePointer (DataBytesInRing (Incoming c)) (IncomingInCache c)"
    and "PkpValidatePointer (DataBytesInRing (Incoming c)) (IncomingOut c)"
  using assms by (auto simp: pk_inv_def ring_ok_def)

lemma runs_FreeBytes:
  "PkpValidatePointer n i \<Longrightarrow> PkpValidatePointer n j \<Longrightarrow> unat n \<le> 2147483648 \<Longrightarrow>
     (\<And>w. unat w = unat n - 1 - ring_used (unat n) (unat i) (unat j) \<Longrightarrow> Q w) \<Longrightarrow>
     runs (PkpFreeBytes b n i j) Q"
  by (rule runs_eqI [OF PkpFreeBytes_eq]) (simp_all add: validate_iff unat_of_nat32)

lemma runs_DataAvailable:
  "PkpValidatePointer n i \<Longrightarrow> PkpValidatePointer n j \<Longrightarrow> unat n \<le> 2147483648 \<Longrightarrow>
     (\<And>w. unat w = ring_used (unat n) (unat i) (unat j) \<Longrightarrow> Q w) \<Longrightarrow>
     runs (PkpDataAvailable b n i j) Q"
  using ring_used_less [of "unat i" "unat n" "unat j"]
  by (intro runs_eqI [OF PkpDataAvailable_eq]) (simp_all add: validate_iff unat_of_nat32)

lemma runs_ModuloReduce:
  "unat v < 2 * unat n \<Longrightarrow> unat n \<le> 2147483648 \<Longrightarrow>
     (\<And>w. unat w = unat v mod unat n \<Longrightarrow> Q w) \<Longrightarrow> runs (PkModuloReduce b v n) Q"
  by (rule runs_eqI [OF PkModuloReduce_eq])
    (simp_all add: unat_of_nat32 le_less_trans [OF mod_less_eq_dividend] unat_lt32)

subsection \<open>Frames\<close>

text \<open>What a sending operation leaves alone, and what a receiving one does.\<close>

definition send_frame :: "packet_lib_context \<Rightarrow> packet_lib_context \<Rightarrow> bool" where
  "send_frame c c' \<longleftrightarrow>
     Incoming c' = Incoming c \<and> DataBytesInRing (Outgoing c') = DataBytesInRing (Outgoing c) \<and>
     OutgoingIn c' = OutgoingIn c \<and> IncomingOut c' = IncomingOut c \<and>
     IncomingInCache c' = IncomingInCache c"

lemma send_frame_refl [simp]: "send_frame c c"
  by (simp add: send_frame_def)

lemma send_frame_trans: "send_frame c c' \<Longrightarrow> send_frame c' c'' \<Longrightarrow> send_frame c c''"
  by (simp add: send_frame_def)

lemma send_frame_updates [simp]:
  "send_frame c (outgoing_host f c') = send_frame c c'"
  "send_frame c (PkpExpectInterrupt c' x) = send_frame c c'"
  "send_frame c (c'\<lparr>OutgoingOutCache := v\<rparr>) = send_frame c c'"
  "send_frame c (c'\<lparr>PendingSendSize := v\<rparr>) = send_frame c c'"
  "send_frame c (set_outgoing_data d c') = send_frame c c'"
  by (simp_all add: send_frame_def)

definition recv_frame :: "packet_lib_context \<Rightarrow> packet_lib_context \<Rightarrow> bool" where
  "recv_frame c c' \<longleftrightarrow>
     Outgoing c' = Outgoing c \<and> DataBytesInRing (Incoming c') = DataBytesInRing (Incoming c) \<and>
     Data (Incoming c') = Data (Incoming c) \<and> OutgoingIn c' = OutgoingIn c \<and>
     OutgoingOutCache c' = OutgoingOutCache c"

lemma recv_frame_refl [simp]: "recv_frame c c"
  by (simp add: recv_frame_def)

lemma recv_frame_updates [simp]:
  "recv_frame c (incoming_host f c') = recv_frame c c'"
  "recv_frame c (PkpExpectInterrupt c' x) = recv_frame c c'"
  "recv_frame c (c'\<lparr>IncomingInCache := v\<rparr>) = recv_frame c c'"
  "recv_frame c (c'\<lparr>IncomingOut := v\<rparr>) = recv_frame c c'"
  by (simp_all add: recv_frame_def)

lemma if_context_simps [simp]:
  "Outgoing (if P then PkpExpectInterrupt c x else c) = Outgoing c"
  "Incoming (if P then PkpExpectInterrupt c x else c) = Incoming c"
  "OutgoingIn (if P then PkpExpectInterrupt c x else c) = OutgoingIn c"
  "IncomingOut (if P then PkpExpectInterrupt c x else c) = IncomingOut c"
  "OutgoingOutCache (if P then PkpExpectInterrupt c x else c) = OutgoingOutCache c"
  "IncomingInCache (if P then PkpExpectInterrupt c x else c) = IncomingInCache c"
  "send_frame c0 (if P then PkpExpectInterrupt c x else c) = send_frame c0 c"
  "recv_frame c0 (if P then PkpExpectInterrupt c x else c) = recv_frame c0 c"
  "pk_inv c \<Longrightarrow> pk_inv (if P then PkpExpectInterrupt c x else c)"
  by simp_all

subsection \<open>The free-space check\<close>

text \<open>
  The check never faults, keeps the invariant, changes neither the data nor the producer
  pointer, and reports success only when the out pointer it has cached leaves room for the
  whole packet.
\<close>

definition check_post ::
  "packet_lib_context \<Rightarrow> u32 \<Rightarrow> u32 \<Rightarrow> efi_status \<times> packet_lib_context \<Rightarrow> bool" where
  "check_post c t In' r \<longleftrightarrow> (case r of (s, c') \<Rightarrow>
     pk_inv c' \<and>
     s \<in> {EFI_SUCCESS, EFI_RING_CORRUPT_ERROR, EFI_INVALID_PARAMETER, EFI_BUFFER_TOO_SMALL} \<and>
     send_frame c c' \<and> Data (Outgoing c') = Data (Outgoing c) \<and>
     (s = EFI_SUCCESS \<longrightarrow>
        unat t \<le> unat (DataBytesInRing (Outgoing c)) - 1 -
          ring_used (unat (DataBytesInRing (Outgoing c))) (unat In') (unat (OutgoingOutCache c'))))"

lemma PkpCheckSendBufferFreeBytes_spec:
  assumes inv: "pk_inv c" and i: "PkpValidatePointer (DataBytesInRing (Outgoing c)) In'"
  shows "runs (PkpCheckSendBufferFreeBytes b h c t In' (OutgoingOutCache c)
                (DataBytesInRing (Outgoing c))) (check_post c t In')"
  using inv i pk_inv_dest(1,9,10) [OF inv]
  unfolding PkpCheckSendBufferFreeBytes_def
  by (intro run_intros runs_FreeBytes runs_DataAvailable)
    (simp_all add: check_post_def word_less_nat_alt not_less split del: if_split)

subsection \<open>Packet sizes and 64-bit stores\<close>

definition align8 :: "nat \<Rightarrow> nat" where
  "align8 k = 8 * ((k + 7) div 8)"

lemma align8_ge: "k \<le> align8 k" and align8_less: "align8 k < k + 8" and align8_dvd: "8 dvd align8 k"
  by (auto simp: align8_def)

lemma align8_pos: "0 < k \<Longrightarrow> 8 \<le> align8 k"
  by (simp add: align8_def)

lemma align8_le_iff: "8 dvd m \<Longrightarrow> align8 k \<le> m \<longleftrightarrow> k \<le> m"
  by (auto simp: align8_def)

lemma uint_and_7: "uint (y AND 7) = uint y mod 8" for y :: u64
proof -
  have "uint (y AND 7) = uint y AND 7" by (simp add: unsigned_and_eq)
  also have "\<dots> = take_bit 3 (uint y)" by (simp add: take_bit_eq_mask mask_numeral)
  finally show ?thesis by (simp add: take_bit_eq_mod)
qed

lemma round_up_8: "(x::int) + (8 - x) mod 8 = 8 * ((x + 7) div 8)"
proof -
  define q r where "q = x div 8" and "r = x mod 8"
  have x: "x = 8 * q + r" "0 \<le> r" "r < 8" by (simp_all add: q_def r_def)
  have "8 - x = 8 - r + (- q) * 8" using x(1) by simp
  then have "(8 - x) mod 8 = (8 - r) mod 8" by (simp only: mod_mult_self1)
  moreover have "(x + 7) div 8 = q + (r + 7) div 8" unfolding x(1) by simp
  moreover have "r \<in> {0,1,2,3,4,5,6,7}" using x by auto
  ultimately show ?thesis using x by auto
qed

lemma unat_ALIGN_UP: "unat (ALIGN_UP x) = align8 (unat x)"
proof -
  let ?v = "ucast x :: u64"
  have x: "uint x < 4294967296" using uint_lt2p [of x] by simp
  then have v: "uint ?v = uint x" by (simp add: unsigned_ucast_eq take_bit_int_eq_self)
  have "uint ((8 - ?v) AND 7) = uint (8 - ?v) mod 8"
    by (rule uint_and_7)
  also have "\<dots> = (8 - uint x) mod 8"
    by (simp add: uint_word_ariths v mod_mod_cancel)
  finally have a: "uint ((8 - ?v) AND 7) = (8 - uint x) mod 8" .
  have "uint (ALIGN_UP x) = (uint x + (8 - uint x) mod 8) mod 18446744073709551616"
    unfolding ALIGN_UP_def Let_def by (simp add: uint_word_ariths a v)
  also have "\<dots> = uint x + (8 - uint x) mod 8"
    using x by (intro mod_pos_pos_trivial) auto
  also have "\<dots> = 8 * ((uint x + 7) div 8)" by (rule round_up_8)
  finally have "int (unat (ALIGN_UP x)) = int (align8 (unat x))"
    by (simp add: align8_def zdiv_int)
  then show ?thesis by (simp only: of_nat_eq_iff)
qed

lemma unat_packet_size:
  "unat x \<le> 4294967280 \<Longrightarrow> unat (ucast (ALIGN_UP x) :: u32) = align8 (unat x)"
  using align8_less [of "unat x"]
  by (simp add: unsigned_ucast_eq unat_ALIGN_UP take_bit_eq_mod)

lemma c_div_exact: "8 dvd x \<Longrightarrow> c_div x 8 * 8 = x"
  by (auto simp: c_div_def sgn_if abs_if)

lemma store_u64_at_eq:
  assumes "8 dvd unat base" "8 dvd unat a"
  shows "store_u64_at d base (c_div (uint a - uint base) 8) bytes = mem_write d (unat a) bytes"
proof -
  have "int 8 dvd int (unat a)" "int 8 dvd int (unat base)"
    using assms by (simp_all only: int_dvd_int_iff)
  then have "8 dvd uint a - uint base" by simp
  then have "uint base + c_div (uint a - uint base) 8 * 8 = uint a"
    by (simp add: c_div_exact)
  then show ?thesis by (simp add: store_u64_at_def)
qed

subsection \<open>Reserving space for a packet\<close>

lemma runs_CheckSend:
  assumes "pk_inv c" "PkpValidatePointer n i" "n = DataBytesInRing (Outgoing c)"
    "j = OutgoingOutCache c"
    and "\<And>s c'. check_post c t i (s, c') \<Longrightarrow> Q (s, c')"
  shows "runs (PkpCheckSendBufferFreeBytes b h c t i j n) Q"
  using assms by (auto intro!: runs_mono [OF PkpCheckSendBufferFreeBytes_spec])

lemma runs_store_u64:
  assumes "8 dvd unat base" "8 dvd unat a" "k = c_div (uint a - uint base) 8"
    and "unat a + length bytes \<le> length d"
    and "\<And>d'. mem_write d (unat a) bytes = Some d' \<Longrightarrow> Q d'"
  shows "runs (store_u64_at d base k bytes) Q"
  using assms mem_write_ex [of "unat a" bytes d] by (auto simp: store_u64_at_eq intro: runs_eqI)

definition packet_trailer :: "u32 \<Rightarrow> u8 list" where
  "packet_trailer In' = replicate 4 0 @ le32_bytes In'"

lemma length_packet_trailer [simp]: "length (packet_trailer i) = 8"
  by (simp add: packet_trailer_def)

text \<open>
  On success the buffer starts at the given offset, the new offset is the packet and its
  trailer further on, the whole packet fits into the free part of the ring, and the stores
  set the last word of the packet and the trailer, in the view from the offset.
\<close>

definition send_buffer_post ::
  "packet_lib_context \<Rightarrow> u32 \<Rightarrow> nat \<Rightarrow> efi_status \<times> packet_lib_context \<times> u32 \<times> u32 \<Rightarrow> bool" where
  "send_buffer_post c Offset A r \<longleftrightarrow> (case r of (s, c', off', buf) \<Rightarrow>
     pk_inv c' \<and> send_frame c c' \<and>
     (let n = unat (DataBytesInRing (Outgoing c)); d = Data (Outgoing c); d' = Data (Outgoing c')
      in if s = EFI_SUCCESS then
           buf = Offset \<and> PkpValidatePointer (DataBytesInRing (Outgoing c)) off' \<and>
           unat off' = (unat Offset + A + 8) mod n \<and>
           A + 8 \<le> n - 1 - ring_used n (unat Offset) (unat (OutgoingOutCache c')) \<and>
           (\<exists>d1. mem_write (rotate (unat Offset) d) (A - 8) (replicate 8 0) = Some d1 \<and>
                 mem_write d1 A (packet_trailer Offset) = Some (rotate (unat Offset) d'))
         else s \<in> {EFI_RING_CORRUPT_ERROR, EFI_INVALID_PARAMETER, EFI_BUFFER_TOO_SMALL} \<and>
              d' = d \<and> off' = Offset))"

lemma mem_write_at_ring_end:
  assumes "8 dvd n" "8 dvd p" "p < n" "length d = n" "length (bs :: u8 list) = 8"
  shows "p + length bs \<le> length d"
  using assms by (auto elim!: dvdE)

lemma c_div_le: "x \<le> m \<Longrightarrow> 0 \<le> m \<Longrightarrow> c_div x 8 \<le> m"
  by (auto simp: c_div_def sgn_if abs_if)

lemma c_div_words_bound [simp]: "c_div (uint w - uint v) 8 \<le> 4294967295" for w v :: u32
proof -
  have "uint w < 4294967296" "0 \<le> uint v" using uint_lt2p [of w] by simp_all
  then show ?thesis by (intro c_div_le) linarith+
qed

lemma check_post_no_error:
  "check_post c t i (s, c') \<Longrightarrow> \<not> EFI_ERROR s \<Longrightarrow> s = EFI_SUCCESS"
  by (auto simp: check_post_def)

lemma check_post_error:
  "check_post c t i (s, c') \<Longrightarrow> EFI_ERROR s \<Longrightarrow> send_buffer_post c i A (s, c', i, 0)"
  by (auto simp: check_post_def send_buffer_post_def)

lemma reserve_post:
  assumes inv: "pk_inv c" and off: "PkpValidatePointer (DataBytesInRing (Outgoing c)) Offset"
    and A: "8 \<le> A" "A \<le> unat (DataBytesInRing (Outgoing c))" "8 dvd A" "unat t = A + 8"
    and post: "check_post c t Offset (s, c')" "\<not> EFI_ERROR s"
    and w: "unat w = (unat Offset + A - 8) mod unat (DataBytesInRing (Outgoing c))"
      "mem_write (Data (Outgoing c')) (unat w) (replicate 8 0) = Some d1"
    and v: "unat v = (unat Offset + A) mod unat (DataBytesInRing (Outgoing c))"
      "mem_write d1 (unat v) (replicate 4 0 @ le32_bytes Offset) = Some d2"
    and new: "unat off' = (unat Offset + A + 8) mod unat (DataBytesInRing (Outgoing c))"
    and c2: "c2 = set_outgoing_data d2 c'"
    and c3: "c3 = (if PendingSendSize c2 \<noteq> 0
        then outgoing_host (\<lambda>r. r\<lparr>rcb_PendingSendSize := 0\<rparr>) (c2\<lparr>PendingSendSize := 0\<rparr>) else c2)"
  shows "send_buffer_post c Offset A (EFI_SUCCESS, c3, off', Offset)"
proof -
  let ?n = "unat (DataBytesInRing (Outgoing c))" and ?d = "Data (Outgoing c)"
  note inv' = pk_inv_dest [OF inv]
  note w1 = w(2) [unfolded w(1)] and w2 = v(2) [unfolded v(1), folded packet_trailer_def]
  have chk: "check_post c t Offset (EFI_SUCCESS, c')" using post check_post_no_error [OF post] by simp
  have d: "Data (Outgoing c') = ?d" "length ?d = ?n" using chk inv' by (simp_all add: check_post_def)
  have fits: "A + 8 \<le> ?n - 1 - ring_used ?n (unat Offset) (unat (OutgoingOutCache c'))"
    using chk A by (simp add: check_post_def)
  have o: "unat Offset < length ?d" using off d by (simp add: validate_iff)
  have "mem_write (rotate (unat Offset) ?d) (A - 8) (replicate 8 0) = Some (rotate (unat Offset) d1)"
    using w1 d o A fits by (intro mem_write_rotate [of _ "(unat Offset + (A - 8)) mod ?n"]) auto
  moreover have "mem_write (rotate (unat Offset) d1) A (packet_trailer Offset) = Some (rotate (unat Offset) d2)"
    using w2 d o A fits mem_write_length [OF w1]
    by (intro mem_write_rotate [of _ "(unat Offset + A) mod ?n"]) auto
  moreover have "PkpValidatePointer (DataBytesInRing (Outgoing c)) off'"
    using new inv' off A by (auto simp: validate_iff intro!: dvd_mod)
  ultimately show ?thesis
    using chk c2 c3 new fits mem_write_length [OF w1] mem_write_length [OF w2]
    by (auto simp: send_buffer_post_def check_post_def)
qed

lemma aligned_index:
  fixes x n :: nat
  assumes "8 dvd x" "8 dvd n" "0 < n"
  shows "8 dvd x mod n" "x mod n + 8 \<le> n"
proof -
  show "8 dvd x mod n" using assms by (simp add: dvd_mod)
  moreover have "x mod n < n" using assms by simp
  ultimately show "x mod n + 8 \<le> n" using assms(2) by (auto elim!: dvdE)
qed

lemma PkGetSendBuffer_spec:
  assumes inv: "pk_inv c" and off: "PkpValidatePointer (DataBytesInRing (Outgoing c)) Offset"
    and size: "0 < unat Size" "unat Size \<le> unat (DataBytesInRing (Outgoing c))"
  shows "runs (PkGetSendBuffer b h c Offset Size) (send_buffer_post c Offset (align8 (unat Size)))"
proof -
  let ?n = "DataBytesInRing (Outgoing c)" and ?A = "align8 (unat Size)"
  let ?P = "ucast (ALIGN_UP Size) :: u32"
  note inv' = pk_inv_dest [OF inv]
  have A: "8 \<le> ?A" "?A \<le> unat ?n" "8 dvd ?A"
    using size inv' by (simp_all add: align8_pos align8_le_iff align8_dvd)
  have o: "unat Offset < unat ?n" "8 dvd unat Offset" using off by (simp_all add: validate_iff)
  have ps: "unat ?P = ?A" using size inv' by (intro unat_packet_size) linarith
  have t: "unat (?P + sizeof_PREVIOUS_PACKET_OFFSET) = ?A + 8"
    using A inv' unat_add32 [of ?P 8] by (simp add: ps sizeof_PREVIOUS_PACKET_OFFSET_def)
  have s1: "unat (Offset + ?P) = unat Offset + ?A"
    using o A inv' by (simp add: unat_add32 ps)
  have s2: "unat (Offset + ?P - 8) = unat Offset + ?A - 8"
    using s1 A by (subst unat_diff_le) (simp_all add: word_le_nat_alt)
  have s3: "unat (Offset + (?P + sizeof_PREVIOUS_PACKET_OFFSET)) = unat Offset + ?A + 8 \<and>
      unat Offset + ?A + 8 < 2 * unat ?n"
    if "check_post c (?P + sizeof_PREVIOUS_PACKET_OFFSET) Offset (s, c')" "\<not> EFI_ERROR s" for s c'
  proof -
    have "?A + 8 < unat ?n"
      using check_post_no_error [OF that] that inv' by (auto simp: check_post_def t)
    then show ?thesis
      using o inv' t unat_add32 [of Offset "?P + sizeof_PREVIOUS_PACKET_OFFSET"] by simp
  qed
  have dv: "8 dvd unat Offset + ?A - 8" "8 dvd unat Offset + ?A"
    using o A by (simp_all add: dvd_diff_nat)
  note idx = aligned_index [OF dv(1) inv'(5,3)] aligned_index [OF dv(2) inv'(5,3)]
  show ?thesis
    unfolding PkGetSendBuffer_def
    apply (intro run_intros runs_ModuloReduce runs_CheckSend runs_store_u64)
    using inv inv'(1,3,7) off A o idx s3
                apply (simp_all add: s1 s2 check_post_error split del: if_split)
    subgoal by (simp add: check_post_def)
    subgoal by (simp add: check_post_def mem_write_length)
    subgoal for _ _ _ _ _ w _ v _ s c' _ d1 d2
      by (rule reserve_post [OF inv off A t, of s c' w d1 v d2 _ "set_outgoing_data d2 c'"])
        simp_all
    done
qed

end
