(* ===== verification/Vmbus_Ring_Ops.thy ===== *)
theory Vmbus_Ring_Ops
  imports Vmbus_Ring_Safety
begin

text \<open>
  Specifications of the remaining ring operations: copying packets, publishing and
  consuming, receiving, and sending a whole packet.
\<close>

subsection \<open>Copying a packet into and out of the ring\<close>

lemma runs_ModuloReduce_id:
  "unat v < unat n \<Longrightarrow> Q v \<Longrightarrow> runs (PkModuloReduce b v n) Q"
  by (rule runs_eqI) (auto simp: PkModuloReduce_def word_le_nat_alt)

lemma PkWritePacketSingleMapped_spec:
  assumes inv: "pk_inv c" and off: "PkpValidatePointer (DataBytesInRing (Outgoing c)) Offset"
    and size: "unat Size \<le> unat (DataBytesInRing (Outgoing c))" "unat Size \<le> length buf"
  shows "runs (PkWritePacketSingleMapped b c buf Size Offset)
    (\<lambda>c'. \<exists>d'. c' = set_outgoing_data d' c \<and> pk_inv c' \<and>
       mem_write (rotate (unat Offset) (Data (Outgoing c))) 0 (take (unat Size) buf) =
         Some (rotate (unat Offset) d'))"
proof -
  let ?n = "DataBytesInRing (Outgoing c)" and ?d = "Data (Outgoing c)"
  let ?e = "unat ?n - unat Offset"
  note inv' = pk_inv_dest [OF inv]
  have o: "unat Offset < unat ?n" "8 dvd unat Offset" using off by (simp_all add: validate_iff)
  have e: "unat (?n - Offset) = ?e" using o by (simp add: unat_diff_le word_le_nat_alt)
  have red: "PkModuloReduce b Offset ?n = Some Offset"
    using o by (simp add: PkModuloReduce_def word_le_nat_alt)
  have fits: "ALIGN_UP Size \<le> ucast (?n - Offset) \<longleftrightarrow> unat Size \<le> ?e"
  proof -
    have "unat (ucast (?n - Offset) :: u64) = ?e"
      using e unat_lt32 [of "?n - Offset"] by (simp add: unsigned_ucast_eq take_bit_nat_eq_self)
    then show ?thesis
      using o inv' by (simp add: word_le_nat_alt unat_ALIGN_UP align8_le_iff dvd_diff_nat)
  qed
  show ?thesis
  proof (cases "unat Size \<le> ?e")
    case True
    then have "unat Offset + unat Size \<le> unat ?n" using o by linarith
    then obtain d' where w: "mem_write ?d (unat Offset) (take (unat Size) buf) = Some d'"
      using mem_write_ex [of "unat Offset" "take (unat Size) buf" ?d] inv' size by auto
    have "mem_write (rotate (unat Offset) ?d) 0 (take (unat Size) buf) = Some (rotate (unat Offset) d')"
      using o inv' size by (intro mem_write_rotate [OF w]) auto
    moreover have "PkWritePacketSingleMapped b c buf Size Offset = Some (set_outgoing_data d' c)"
      using True size w by (simp add: PkWritePacketSingleMapped_def Let_def fits red)
    ultimately show ?thesis
      using inv mem_write_length [OF w] by (auto intro!: runs_eqI)
  next
    case False
    let ?b1 = "take ?e buf" and ?b2 = "take (unat Size - ?e) (drop ?e buf)"
    have s: "unat (Size - (?n - Offset)) = unat Size - ?e"
      using False e by (subst unat_diff_le) (simp_all add: word_le_nat_alt)
    have "unat Offset + length ?b1 \<le> length ?d" using o(1) inv'(7) by simp
    then obtain d1 where w1: "mem_write ?d (unat Offset) ?b1 = Some d1"
      using mem_write_ex by blast
    have "0 + length ?b2 \<le> length d1" using mem_write_length [OF w1] inv'(7) size by simp
    then obtain d' where w2: "mem_write d1 0 ?b2 = Some d'"
      using mem_write_ex by blast
    have "mem_write (rotate (unat Offset) ?d) 0 ?b1 = Some (rotate (unat Offset) d1)"
      using o inv' by (intro mem_write_rotate [OF w1]) auto
    moreover have "mem_write (rotate (unat Offset) d1) (0 + length ?b1) ?b2 = Some (rotate (unat Offset) d')"
      using o inv' size False mem_write_length [OF w1] by (intro mem_write_rotate [OF w2]) auto
    ultimately have "mem_write (rotate (unat Offset) ?d) 0 (?b1 @ ?b2) = Some (rotate (unat Offset) d')"
      by (rule mem_write_append)
    moreover have "?b1 @ ?b2 = take (unat Size) buf"
      using False by (metis add_diff_inverse_nat less_or_eq_imp_le not_le take_add)
    moreover have "PkWritePacketSingleMapped b c buf Size Offset = Some (set_outgoing_data d' c)"
      using False size w1 w2 by (simp add: PkWritePacketSingleMapped_def Let_def fits red s e)
    ultimately show ?thesis
      using inv mem_write_length [OF w1] mem_write_length [OF w2] by (auto intro!: runs_eqI)
  qed
qed

lemma PkReadPacketSingleMapped_spec:
  assumes inv: "pk_inv c" and off: "PkpValidatePointer (DataBytesInRing (Incoming c)) Out'"
    and size: "unat Size + 8 \<le> unat (DataBytesInRing (Incoming c))"
  shows "PkReadPacketSingleMapped b c Size Out' =
           Some (take (unat Size) (rotate (unat Out') (Data (Incoming c))))"
proof -
  let ?n = "DataBytesInRing (Incoming c)" and ?d = "Data (Incoming c)"
  let ?e = "unat ?n - unat Out'"
  note inv' = pk_inv_dest [OF inv]
  have o: "unat Out' < unat ?n" "8 dvd unat Out'" using off by (simp_all add: validate_iff)
  have e: "unat (?n - Out') = ?e" using o by (simp add: unat_diff_le word_le_nat_alt)
  have fits: "Size \<le> ?n - Out' \<longleftrightarrow> unat Size \<le> ?e" using e by (simp add: word_le_nat_alt)
  have red: "PkModuloReduce b Out' ?n = Some Out'" using o by (simp add: PkModuloReduce_def word_le_nat_alt)
  show ?thesis
  proof (cases "unat Size \<le> ?e")
    case True
    then show ?thesis
      using o inv' by (simp add: PkReadPacketSingleMapped_def Let_def red fits take_rotate_plain)
  next
    case False
    have s: "unat (Size - (?n - Out')) = unat Size - ?e"
      using False e by (subst unat_diff_le) (simp_all add: word_le_nat_alt)
    have t: "unat (Out' + Size + 8) = unat Out' + unat Size + 8"
      using o size inv' by (simp add: unat_add32)
    have t': "unat (Size - (?n - Out') + 8) = unat Size - ?e + 8"
      using s size inv' by (subst unat_add32) simp_all
    have "PkModuloReduce b (Out' + Size + 8) ?n = Some (of_nat ((unat Out' + unat Size + 8) mod unat ?n))"
      using o size t by (subst PkModuloReduce_eq) simp_all
    also have "(unat Out' + unat Size + 8) mod unat ?n = unat Size - ?e + 8"
      using False o size by (subst mod_once) auto
    also have "of_nat (unat Size - ?e + 8) = Size - (?n - Out') + 8"
      using word_eq_of_nat [OF t'] by simp
    finally have "PkModuloReduce b (Out' + Size + 8) ?n = Some (Size - (?n - Out') + 8)" .
    then show ?thesis
      using False o size inv' s e
      by (simp add: PkReadPacketSingleMapped_def Let_def red fits sizeof_PREVIOUS_PACKET_OFFSET_def
          take_rotate_wrapped ASSERT_def)
  qed
qed

subsection \<open>Publishing and consuming\<close>

lemma PkCompleteInsertion_spec:
  assumes inv: "pk_inv c" and new: "PkpValidatePointer (DataBytesInRing (Outgoing c)) NewIn"
  shows "runs (PkCompleteInsertion b h c NewIn) (\<lambda>(s, c'). pk_inv c' \<and>
     s \<in> {EFI_SUCCESS, EFI_RING_SIGNAL_OPPOSITE_ENDPOINT, EFI_RING_CORRUPT_ERROR} \<and>
     send_frame (c\<lparr>OutgoingIn := NewIn\<rparr>) c' \<and> Data (Outgoing c') = Data (Outgoing c))"
  using inv new unfolding PkCompleteInsertion_def
  by (intro run_intros) (simp_all add: send_frame_def)

lemma PkCompleteRemoval_spec:
  assumes inv: "pk_inv c" and new: "PkpValidatePointer (DataBytesInRing (Incoming c)) NewOut"
  shows "runs (PkCompleteRemoval b h c NewOut) (\<lambda>(s, c'). pk_inv c' \<and>
     s \<in> {EFI_SUCCESS, EFI_RING_SIGNAL_OPPOSITE_ENDPOINT, EFI_RING_NEWLY_EMPTY,
          EFI_RING_CORRUPT_ERROR} \<and>
     recv_frame c c' \<and> IncomingOut c' = NewOut)"
  unfolding PkCompleteRemoval_def
  using inv new pk_inv_dest(2,12) [OF inv]
  by (intro run_intros runs_FreeBytes; (thin_tac "NewOut = _")?; simp split del: if_split)

text \<open>
  The offset a receiver passes lies in the data the other endpoint has published: it is at
  or before the cached in pointer.
\<close>

definition receive_post ::
  "packet_lib_context \<Rightarrow> u32 \<Rightarrow> efi_status \<times> packet_lib_context \<times> u32 \<times> u32 \<times> u32 \<Rightarrow> bool" where
  "receive_post c Offset r \<longleftrightarrow> (case r of (s, c', off', buf, len) \<Rightarrow>
     pk_inv c' \<and> recv_frame c c' \<and> IncomingOut c' = IncomingOut c \<and>
     (let n = unat (DataBytesInRing (Incoming c)) in
      if s = EFI_SUCCESS then
        buf = Offset \<and> PkpValidatePointer (DataBytesInRing (Incoming c)) off' \<and>
        len = ucast (le16 (take 2 (drop (unat Offset + 4) (Data (Incoming c))))) * 8 \<and>
        16 \<le> unat len \<and> 8 dvd unat len \<and>
        unat len + 8 \<le> ring_used n (unat (IncomingInCache c')) (unat Offset) \<and>
        unat off' = (unat Offset + unat len + 8) mod n
      else s \<in> {EFI_RING_CORRUPT_ERROR, EFI_END_OF_FILE} \<and> off' = Offset))"

lemma unat_length8: "unat (ucast x * 8 :: u32) = unat x * 8" for x :: u16
proof -
  have "unat x < 65536" using unsigned_less [of x] by simp
  then show ?thesis
    by (simp add: unat_word_ariths unsigned_ucast_eq take_bit_nat_eq_self)
qed
lemma receive_in_pointer_spec:
  assumes inv: "pk_inv c" and n: "n = DataBytesInRing (Incoming c)"
    and eq: "receive_in_pointer h c n Offset = (s, c', In')"
  shows "pk_inv c' \<and> recv_frame c c' \<and> IncomingOut c' = IncomingOut c \<and>
     s \<in> {EFI_SUCCESS, EFI_RING_CORRUPT_ERROR, EFI_END_OF_FILE} \<and>
     (s = EFI_SUCCESS \<longrightarrow> In' = IncomingInCache c' \<and> PkpValidatePointer n In' \<and> In' \<noteq> Offset)"
  using assms pk_inv_dest(11) [OF inv]
  by (auto simp: receive_in_pointer_def Let_def split: if_splits)

lemma receive_in_pointer_error:
  "pk_inv c \<Longrightarrow> receive_in_pointer h c (DataBytesInRing (Incoming c)) Offset = (s, c', In') \<Longrightarrow> EFI_ERROR s \<Longrightarrow>
     receive_post c Offset (s, c', Offset, x, y)"
  by (drule (1) receive_in_pointer_spec [OF _ refl]) (auto simp: receive_post_def)

lemma PkGetReceiveBuffer_spec:
  assumes inv: "pk_inv c" and off: "PkpValidatePointer (DataBytesInRing (Incoming c)) Offset"
  shows "runs (PkGetReceiveBuffer b h c Offset) (receive_post c Offset)"
proof -
  let ?n = "DataBytesInRing (Incoming c)"
  note inv' = pk_inv_dest [OF inv]
  have o: "unat Offset < unat ?n" "8 dvd unat Offset" using off by (simp_all add: validate_iff)
  have lt: "Offset < ?n" using o by (simp add: word_less_nat_alt)
  have rd: "unat Offset + 8 \<le> unat ?n" using aligned_index [OF o(2) inv'(6,4)] o by simp
  obtain s c1 In' where rip: "receive_in_pointer h c ?n Offset = (s, c1, In')"
    by (cases "receive_in_pointer h c ?n Offset")
  note rs = receive_in_pointer_spec [OF inv refl rip]
  show ?thesis
  proof (cases "EFI_ERROR s")
    case True
    then show ?thesis
      using lt receive_in_pointer_error [OF inv rip True]
      by (simp add: PkGetReceiveBuffer_def Let_def rip runs_SomeI)
  next
    case False
    then have ok: "s = EFI_SUCCESS" "In' = IncomingInCache c1" "PkpValidatePointer ?n In'"
      "pk_inv c1" "recv_frame c c1" "IncomingOut c1 = IncomingOut c"
      using rs by auto
    have d: "Data (Incoming c1) = Data (Incoming c)" using ok(5) by (simp add: recv_frame_def)
    define U where "U = ring_used (unat ?n) (unat In') (unat Offset)"
    define L :: u32 where "L = ucast (le16 (take 2 (drop (unat Offset + 4) (Data (Incoming c))))) * 8"
    have U: "U < unat ?n" using ok(3) o by (auto simp: U_def validate_iff intro: ring_used_less)
    have L: "8 dvd unat L" "unat (L + 8) = unat L + 8"
    proof -
      have "unat (le16 (take 2 (drop (unat Offset + 4) (Data (Incoming c))))) < 65536"
        using unsigned_less [of "le16 (take 2 (drop (unat Offset + 4) (Data (Incoming c))))"] by simp
      then show "8 dvd unat L" "unat (L + 8) = unat L + 8"
        by (simp_all add: L_def unat_length8 unat_add32)
    qed
    have eq: "PkGetReceiveBuffer b h c Offset =
      (if L < 16 \<or> of_nat U < L + 8 then Some (EFI_RING_CORRUPT_ERROR, c1, Offset, 0, 0)
       else do {
         previous \<leftarrow> (if DBG b then do {
              trailer \<leftarrow> PkModuloReduce b (Offset + L) ?n;
              mem_read (Data (Incoming c)) (unat trailer + 4) 4
            } else Some (le32_bytes Offset));
         if previous \<noteq> le32_bytes Offset then Some (EFI_RING_CORRUPT_ERROR, c1, Offset, 0, 0)
         else do {
           newOffset \<leftarrow> PkModuloReduce b (Offset + (L + 8)) ?n;
           Some (EFI_SUCCESS, c1, newOffset, Offset, L)
         }
       })"
      using lt rd ok(1,3) off inv'(2,8)
      by (simp add: PkGetReceiveBuffer_def Let_def rip d PkpDataAvailable_eq validate_iff U_def
          [symmetric] L_def [symmetric] sizeof_VMPACKET_DESCRIPTOR_def
          sizeof_PREVIOUS_PACKET_OFFSET_def cong: if_cong)
    have corrupt: "receive_post c Offset (EFI_RING_CORRUPT_ERROR, c1, Offset, 0, 0)"
      using ok by (simp add: receive_post_def)
    show ?thesis
    proof (cases "L < 16 \<or> of_nat U < L + 8")
      case True
      then show ?thesis using corrupt by (simp add: eq runs_SomeI)
    next
      case False
      then have f: "16 \<le> unat L" "unat L + 8 \<le> U"
        using L(2) U inv'(2) by (auto simp: word_less_nat_alt unat_of_nat32 not_less)
      have t: "unat (Offset + (L + 8)) = unat Offset + unat L + 8" "unat (Offset + L) = unat Offset + unat L"
        using L(2) f U o inv'(2) by (simp_all add: unat_add32)
      have tr: "(unat Offset + unat L) mod unat ?n + 8 \<le> unat ?n"
        using aligned_index(2) [OF _ inv'(6,4), of "unat Offset + unat L"] o L(1) by simp
      have new: "receive_post c Offset (EFI_SUCCESS, c1, w, Offset, L)"
        if "unat w = (unat Offset + unat L + 8) mod unat ?n" for w
      proof -
        have "8 dvd (unat Offset + unat L + 8) mod unat ?n"
          using aligned_index(1) [OF _ inv'(6,4), of "unat Offset + unat L + 8"] o L(1) by simp
        then show ?thesis
          using that ok f L inv'(4) by (simp add: receive_post_def validate_iff U_def L_def)
      qed
      show ?thesis
        unfolding eq if_not_P [OF False]
        by (intro run_intros runs_ModuloReduce runs_mem_read)
          (use t U f o inv' tr corrupt new in simp_all)
    qed
  qed
qed

subsection \<open>Sending a whole packet\<close>

text \<open>A packet as it lies in the ring: padded with zeros to 8 bytes, then its trailer.\<close>

definition frame_packet :: "u32 \<Rightarrow> u8 list \<Rightarrow> u8 list" where
  "frame_packet i p = p @ replicate (align8 (length p) - length p) 0 @ packet_trailer i"

lemma length_frame_packet: "length (frame_packet i p) = align8 (length p) + 8"
  using align8_ge [of "length p"] by (simp add: frame_packet_def)

lemma frame_written:
  assumes A: "A = align8 (length p)" "0 < length p"
    and w: "mem_write R (A - 8) (replicate 8 0) = Some R1" "mem_write R1 A (packet_trailer i) = Some R2"
      "mem_write R2 0 p = Some R3"
  shows "R3 = frame_packet i p @ drop (A + 8) R"
proof -
  have l: "length p \<le> A" "A < length p + 8" "8 \<le> A"
    using align8_ge [of "length p"] align8_less [of "length p"] align8_pos A by simp_all
  have n: "A + 8 \<le> length R"
    using w mem_write_length [OF w(1)] by (simp add: mem_write_Some)
  have R1: "R1 = take (A - 8) R @ replicate 8 0 @ drop A R"
    using w(1) l by (simp add: mem_write_Some)
  have "R2 = take (A - 8) R @ replicate 8 0 @ packet_trailer i @ drop (A + 8) R"
    using w(2) l n unfolding R1 by (simp add: mem_write_Some add.commute)
  moreover have "R3 = p @ drop (length p) R2" using w(3) by (simp add: mem_write_Some)
  ultimately show ?thesis using l n A by (simp add: frame_packet_def)
qed

definition send_post ::
  "packet_lib_context \<Rightarrow> u8 list \<Rightarrow> efi_status \<times> packet_lib_context \<Rightarrow> bool" where
  "send_post c p r \<longleftrightarrow> (case r of (s, c') \<Rightarrow>
     pk_inv c' \<and> Incoming c' = Incoming c \<and> IncomingOut c' = IncomingOut c \<and>
     IncomingInCache c' = IncomingInCache c \<and>
     DataBytesInRing (Outgoing c') = DataBytesInRing (Outgoing c) \<and>
     s \<in> {EFI_SUCCESS, EFI_RING_SIGNAL_OPPOSITE_ENDPOINT, EFI_RING_CORRUPT_ERROR,
          EFI_INVALID_PARAMETER, EFI_BUFFER_TOO_SMALL} \<and>
     (let n = unat (DataBytesInRing (Outgoing c)); i = unat (OutgoingIn c);
          F = frame_packet (OutgoingIn c) p
      in (\<not> EFI_ERROR s \<longrightarrow>
            length F < n \<and> unat (OutgoingIn c') = (i + length F) mod n \<and>
            rotate i (Data (Outgoing c')) = F @ drop (length F) (rotate i (Data (Outgoing c)))) \<and>
         (s \<in> {EFI_INVALID_PARAMETER, EFI_BUFFER_TOO_SMALL} \<longrightarrow>
            Data (Outgoing c') = Data (Outgoing c) \<and> OutgoingIn c' = OutgoingIn c)))"

lemma PkSendPacketRaw_spec:
  assumes inv: "pk_inv c" and size: "0 < length p" "unat Size = length p"
    "length p \<le> unat (DataBytesInRing (Outgoing c))"
  shows "runs (PkSendPacketRaw b h h' c p Size) (send_post c p)"
proof -
  let ?A = "align8 (length p)" and ?i = "OutgoingIn c" and ?n = "DataBytesInRing (Outgoing c)"
  have pos: "0 < Size" using size by (simp add: word_less_nat_alt)
  have "runs (PkGetSendBuffer b h c ?i Size) (send_buffer_post c ?i ?A)"
    using PkGetSendBuffer_spec [OF inv pk_inv_dest(9) [OF inv], of Size b h] size by simp
  then obtain s c1 off buf where g: "PkGetSendBuffer b h c ?i Size = Some (s, c1, off, buf)"
    and gp: "send_buffer_post c ?i ?A (s, c1, off, buf)"
    by (auto elim!: runsE)
  show ?thesis
  proof (cases "EFI_ERROR s")
    case True
    then show ?thesis
      using g gp pos
      by (auto simp: PkSendPacketRaw_def send_post_def send_buffer_post_def send_frame_def Let_def
          intro!: runs_SomeI split: if_splits)
  next
    case False
    then have s: "s = EFI_SUCCESS" using gp by (auto simp: send_buffer_post_def Let_def split: if_splits)
    note gs = gp [unfolded s send_buffer_post_def, simplified]
    have c1: "pk_inv c1" "send_frame c c1" "buf = ?i" "DataBytesInRing (Outgoing c1) = ?n"
      using gs by (simp_all add: Let_def send_frame_def)
    obtain d1 where w12: "mem_write (rotate (unat ?i) (Data (Outgoing c))) (?A - 8) (replicate 8 0) = Some d1"
        "mem_write d1 ?A (packet_trailer ?i) = Some (rotate (unat ?i) (Data (Outgoing c1)))"
      using gs by (auto simp: Let_def)
    have "runs (PkWritePacketSingleMapped b c1 p Size ?i)
      (\<lambda>c'. \<exists>d'. c' = set_outgoing_data d' c1 \<and> pk_inv c' \<and>
         mem_write (rotate (unat ?i) (Data (Outgoing c1))) 0 p = Some (rotate (unat ?i) d'))"
      using PkWritePacketSingleMapped_spec [OF c1(1), of ?i Size p b] c1(4) size pk_inv_dest(9) [OF inv]
      by simp
    then obtain d2 where wr: "PkWritePacketSingleMapped b c1 p Size ?i = Some (set_outgoing_data d2 c1)"
        and i2: "pk_inv (set_outgoing_data d2 c1)"
        and w3: "mem_write (rotate (unat ?i) (Data (Outgoing c1))) 0 p = Some (rotate (unat ?i) d2)"
      by (auto elim!: runsE)
    have off: "PkpValidatePointer (DataBytesInRing (Outgoing (set_outgoing_data d2 c1))) off"
      using gs c1(4) by (simp add: Let_def)
    have data: "rotate (unat ?i) d2 = frame_packet ?i p @
        drop (length (frame_packet ?i p)) (rotate (unat ?i) (Data (Outgoing c)))"
      using frame_written [OF refl size(1) w12 w3] by (simp add: length_frame_packet)
    have eq: "PkSendPacketRaw b h h' c p Size = PkCompleteInsertion b h' (set_outgoing_data d2 c1) off"
      using pos by (simp add: PkSendPacketRaw_def g s c1(3) wr)
    show ?thesis
      unfolding eq
      by (rule runs_mono [OF PkCompleteInsertion_spec [OF i2 off]])
        (use gs c1 data in \<open>auto simp: send_post_def Let_def send_frame_def length_frame_packet add.assoc\<close>)
  qed
qed

subsection \<open>Initialisation\<close>

lemma PkpInitRingBufferControl_inv:
  assumes "ring_ok (Outgoing c)" "ring_ok (Incoming c)"
    "PkpExpectedInterruptCount c \<le> MAXIMUM_EXPECTED_INTERRUPT_COUNT"
    "PkpInitRingBufferControl c = (s, c')" "\<not> EFI_ERROR s"
  shows "pk_inv c'"
proof -
  have "pk_inv (c\<lparr>IncomingInCache := rcb_In (Control (Incoming c)),
      IncomingOut := rcb_Out (Control (Incoming c)), OutgoingIn := rcb_In (Control (Outgoing c)),
      OutgoingOutCache := rcb_Out (Control (Outgoing c))\<rparr>)"
    using assms by (auto simp: PkpInitRingBufferControl_def pk_inv_def Let_def split: if_splits)
  then show ?thesis
    using assms by (auto simp: PkpInitRingBufferControl_def Let_def split: if_splits)
qed

end
