(* ===== verification/Vmbus_Channel.thy ===== *)
theory Vmbus_Channel
  imports Vmbus_Ring_Ops
begin

text \<open>
  Two endpoints sharing one ring. A sender under a rely condition on the opposite endpoint
  (it only consumes) never overwrites unread data; a sender and a receiver together
  implement a first-in first-out queue of packets.
\<close>

subsection \<open>Sending under a rely condition\<close>

text \<open>
  \<open>V\<close> is a condition on the control block and \<open>K\<close> one that relates it to the cached out
  pointer, both stable under the opposite endpoint's steps.
\<close>

lemma PkpCheckSend_rely:
  assumes inv: "pk_inv c" and i: "PkpValidatePointer (DataBytesInRing (Outgoing c)) i"
    and V: "V (Control (Outgoing c))" "\<And>k r. V r \<Longrightarrow> V (h k r)"
      "\<And>r v. V r \<Longrightarrow> V (r\<lparr>rcb_PendingSendSize := v\<rparr>)"
    and K: "K (Control (Outgoing c)) (OutgoingOutCache c)"
      "\<And>k r j. V r \<Longrightarrow> K r j \<Longrightarrow> K (h k r) j"
      "\<And>r v j. K r j \<Longrightarrow> K (r\<lparr>rcb_PendingSendSize := v\<rparr>) j"
      "\<And>r. V r \<Longrightarrow> K r (rcb_Out r)"
  shows "runs (PkpCheckSendBufferFreeBytes b h c t i (OutgoingOutCache c) (DataBytesInRing (Outgoing c)))
    (\<lambda>(s, c'). V (Control (Outgoing c')) \<and> K (Control (Outgoing c')) (OutgoingOutCache c'))"
  using inv i pk_inv_dest(1,9,10) [OF inv] V K
  unfolding PkpCheckSendBufferFreeBytes_def
  by (intro run_intros runs_FreeBytes runs_DataAvailable) (simp_all split del: if_split)

lemma PkGetSendBuffer_check:
  assumes "PkGetSendBuffer b h c i Size = Some (s, c1, off, buf)"
  shows "\<exists>s0 c0. PkpCheckSendBufferFreeBytes b h c
        (ucast (ALIGN_UP Size) + sizeof_PREVIOUS_PACKET_OFFSET) i (OutgoingOutCache c)
      (DataBytesInRing (Outgoing c)) = Some (s0, c0) \<and>
    OutgoingOutCache c1 = OutgoingOutCache c0 \<and>
    (Control (Outgoing c1) = Control (Outgoing c0) \<or>
     Control (Outgoing c1) = (Control (Outgoing c0))\<lparr>rcb_PendingSendSize := 0\<rparr>)"
  using assms by (auto simp: PkGetSendBuffer_def Let_def bind_eq_Some_conv split: if_splits)

text \<open>
  The opposite endpoint, seen by a sender whose in pointer is \<open>i\<close>, only consumes: its out
  pointer stays valid and the unread part of the ring never grows.
\<close>

definition only_consumes :: "u32 \<Rightarrow> u32 \<Rightarrow> host \<Rightarrow> bool" where
  "only_consumes n i h \<longleftrightarrow>
     (\<forall>k r. PkpValidatePointer n (rcb_Out r) \<longrightarrow>
        PkpValidatePointer n (rcb_Out (h k r)) \<and>
        ring_used (unat n) (unat i) (unat (rcb_Out (h k r))) \<le>
          ring_used (unat n) (unat i) (unat (rcb_Out r)))"

definition quiet :: host where
  "quiet k r = r"

lemma only_consumes_quiet [simp]: "only_consumes n i quiet"
  by (simp add: only_consumes_def quiet_def)

definition sender_view :: "packet_lib_context \<Rightarrow> bool" where
  "sender_view c \<longleftrightarrow>
     (let n = DataBytesInRing (Outgoing c); r = Control (Outgoing c) in
      PkpValidatePointer n (rcb_Out r) \<and>
      ring_used (unat n) (unat (OutgoingIn c)) (unat (rcb_Out r)) \<le>
        ring_used (unat n) (unat (OutgoingIn c)) (unat (OutgoingOutCache c)))"

lemma PkGetSendBuffer_rely:
  assumes inv: "pk_inv c" and view: "sender_view c"
    and h: "only_consumes (DataBytesInRing (Outgoing c)) (OutgoingIn c) h"
    and eq: "PkGetSendBuffer b h c (OutgoingIn c) Size = Some (s, c1, off, buf)"
    and fr: "send_frame c c1"
  shows "sender_view c1"
proof -
  let ?n = "DataBytesInRing (Outgoing c)" and ?i = "OutgoingIn c"
  define V where "V r = PkpValidatePointer ?n (rcb_Out r)" for r :: vmrcb
  define K where "K r j = (ring_used (unat ?n) (unat ?i) (unat (rcb_Out r))
    \<le> ring_used (unat ?n) (unat ?i) (unat j))" for r :: vmrcb and j :: u32
  obtain s0 c0 where chk: "PkpCheckSendBufferFreeBytes b h c
        (ucast (ALIGN_UP Size) + sizeof_PREVIOUS_PACKET_OFFSET) ?i (OutgoingOutCache c) ?n = Some (s0, c0)"
    and c1: "OutgoingOutCache c1 = OutgoingOutCache c0"
      "Control (Outgoing c1) = Control (Outgoing c0) \<or>
       Control (Outgoing c1) = (Control (Outgoing c0))\<lparr>rcb_PendingSendSize := 0\<rparr>"
    using PkGetSendBuffer_check [OF eq] by blast
  have "runs (PkpCheckSendBufferFreeBytes b h c
        (ucast (ALIGN_UP Size) + sizeof_PREVIOUS_PACKET_OFFSET) ?i (OutgoingOutCache c) ?n)
    (\<lambda>(s, c'). V (Control (Outgoing c')) \<and> K (Control (Outgoing c')) (OutgoingOutCache c'))"
  proof (rule PkpCheckSend_rely [OF inv pk_inv_dest(9) [OF inv]])
    show "V (h k r)" if "V r" for k r using that h by (simp add: V_def only_consumes_def)
    show "K (h k r) j" if "V r" "K r j" for k r j
    proof -
      have "ring_used (unat ?n) (unat ?i) (unat (rcb_Out (h k r))) \<le>
          ring_used (unat ?n) (unat ?i) (unat (rcb_Out r))"
        using that(1) h by (simp add: V_def only_consumes_def)
      then show ?thesis using that(2) unfolding K_def by (rule order_trans)
    qed
  qed (use view in \<open>simp_all add: V_def K_def sender_view_def Let_def\<close>)
  then have "V (Control (Outgoing c0)) \<and> K (Control (Outgoing c0)) (OutgoingOutCache c0)"
    using chk by (auto dest: runs_result)
  then show ?thesis
    using c1 fr by (auto simp: sender_view_def V_def K_def Let_def send_frame_def)
qed

lemma PkCompleteInsertion_quiet:
  assumes "PkCompleteInsertion b quiet c NewIn = Some (s, c')" "\<not> EFI_ERROR s"
  shows "Control (Outgoing c') = (Control (Outgoing c))\<lparr>rcb_In := NewIn\<rparr> \<and>
    OutgoingOutCache c' = rcb_Out (Control (Outgoing c)) \<and> OutgoingIn c' = NewIn"
  using assms
  by (auto simp: PkCompleteInsertion_def Let_def quiet_def bind_eq_Some_conv split: if_splits)

lemma PkSendPacketRaw_parts:
  assumes "PkSendPacketRaw b h h' c p Size = Some (s, c')" "\<not> EFI_ERROR s"
  shows "\<exists>s1 c1 off buf c2. PkGetSendBuffer b h c (OutgoingIn c) Size = Some (s1, c1, off, buf) \<and>
    \<not> EFI_ERROR s1 \<and> PkWritePacketSingleMapped b c1 p Size buf = Some c2 \<and>
    PkCompleteInsertion b h' c2 off = Some (s, c')"
  using assms by (auto simp: PkSendPacketRaw_def bind_eq_Some_conv split: if_splits)

lemma PkCompleteInsertion_rely:
  assumes eq: "PkCompleteInsertion b h c NewIn = Some (s, c')"
    and h: "only_consumes n i h" and v: "PkpValidatePointer n (rcb_Out (Control (Outgoing c)))"
  shows "PkpValidatePointer n (rcb_Out (Control (Outgoing c'))) \<and>
    ring_used (unat n) (unat i) (unat (rcb_Out (Control (Outgoing c')))) \<le>
      ring_used (unat n) (unat i) (unat (rcb_Out (Control (Outgoing c))))"
proof -
  let ?r0 = "(Control (Outgoing c))\<lparr>rcb_In := NewIn\<rparr>"
  have c': "Control (Outgoing c') = h 1 (h 0 ?r0)"
    using eq by (auto simp: PkCompleteInsertion_def Let_def bind_eq_Some_conv split: if_splits)
  have st: "PkpValidatePointer n (rcb_Out (h k r)) \<and>
      ring_used (unat n) (unat i) (unat (rcb_Out (h k r))) \<le> ring_used (unat n) (unat i) (unat (rcb_Out r))"
    if "PkpValidatePointer n (rcb_Out r)" for k r
    using h that by (simp add: only_consumes_def)
  have 0: "PkpValidatePointer n (rcb_Out ?r0)" using v by simp
  from st [OF 0, of 0] st [OF conjunct1 [OF st [OF 0, of 0]], of 1] show ?thesis
    unfolding c' by (auto intro: order_trans)
qed

lemma PkWritePacketSingleMapped_frame:
  "PkWritePacketSingleMapped b c p Size buf = Some c' \<Longrightarrow> \<exists>d. c' = set_outgoing_data d c"
  by (auto simp: PkWritePacketSingleMapped_def Let_def bind_eq_Some_conv split: if_splits)

text \<open>
  After a successful send, the bytes between the out pointer the opposite endpoint has
  reached and the old in pointer are what they were, and the framed packet follows them.
\<close>

lemma PkSendPacketRaw_appends:
  assumes inv: "pk_inv c" and view: "sender_view c"
    and size: "0 < length p" "unat Size = length p" "length p \<le> unat (DataBytesInRing (Outgoing c))"
    and h: "only_consumes (DataBytesInRing (Outgoing c)) (OutgoingIn c) h"
      "only_consumes (DataBytesInRing (Outgoing c)) (OutgoingIn c) h'"
    and eq: "PkSendPacketRaw b h h' c p Size = Some (s, c')" and ok: "\<not> EFI_ERROR s"
  defines "n \<equiv> unat (DataBytesInRing (Outgoing c))" and "i \<equiv> unat (OutgoingIn c)"
    and "j \<equiv> unat (rcb_Out (Control (Outgoing c')))" and "F \<equiv> frame_packet (OutgoingIn c) p"
  defines "u \<equiv> ring_used n i j"
  shows "j < n" "u + length F < n"
    "take u (rotate j (Data (Outgoing c'))) = take u (rotate j (Data (Outgoing c)))"
    "take (u + length F) (rotate j (Data (Outgoing c'))) = take u (rotate j (Data (Outgoing c))) @ F"
proof -
  note inv' = pk_inv_dest [OF inv]
  obtain s1 c1 off buf c2 where parts:
      "PkGetSendBuffer b h c (OutgoingIn c) Size = Some (s1, c1, off, buf)" "\<not> EFI_ERROR s1"
      "PkWritePacketSingleMapped b c1 p Size buf = Some c2" "PkCompleteInsertion b h' c2 off = Some (s, c')"
    using PkSendPacketRaw_parts [OF eq ok] by blast
  have "runs (PkGetSendBuffer b h c (OutgoingIn c) Size) (send_buffer_post c (OutgoingIn c) (align8 (unat Size)))"
    using size by (intro PkGetSendBuffer_spec [OF inv inv'(9)]) simp_all
  then have sb: "send_buffer_post c (OutgoingIn c) (align8 (length p)) (s1, c1, off, buf)"
    using parts(1) size by (auto dest: runs_result)
  then have s1: "s1 = EFI_SUCCESS" and fr: "send_frame c c1"
    and fit: "length F \<le> n - 1 - ring_used n i (unat (OutgoingOutCache c1))"
    using parts(2) by (auto simp: send_buffer_post_def Let_def n_def i_def F_def length_frame_packet split: if_splits)
  have v1: "sender_view c1" using PkGetSendBuffer_rely [OF inv view h(1) parts(1) fr] .
  obtain d2 where c2: "c2 = set_outgoing_data d2 c1"
    using PkWritePacketSingleMapped_frame [OF parts(3)] by blast
  have v2: "PkpValidatePointer (DataBytesInRing (Outgoing c)) (rcb_Out (Control (Outgoing c2)))"
    and u2: "ring_used n i (unat (rcb_Out (Control (Outgoing c2)))) \<le> ring_used n i (unat (OutgoingOutCache c1))"
    using v1 fr c2 by (auto simp: sender_view_def Let_def send_frame_def n_def i_def)
  note rely = PkCompleteInsertion_rely [OF parts(4) h(2) v2]
  show j: "j < n" using rely by (simp add: j_def n_def validate_iff)
  have i: "i < n" using inv'(9) by (simp add: i_def n_def validate_iff)
  have "u \<le> ring_used n i (unat (OutgoingOutCache c1))"
    using rely u2 by (simp add: u_def j_def n_def i_def)
  moreover have "0 < length F" by (simp add: F_def length_frame_packet)
  ultimately show uF: "u + length F < n" using fit i by linarith
  have "runs (PkSendPacketRaw b h h' c p Size) (send_post c p)"
    using PkSendPacketRaw_spec [OF inv size] .
  then have sp: "send_post c p (s, c')" using eq by (auto dest: runs_result)
  then have w: "rotate i (Data (Outgoing c')) = F @ drop (length F) (rotate i (Data (Outgoing c)))"
    and l: "length (Data (Outgoing c')) = n"
    using ok pk_inv_dest(7) [of c'] by (auto simp: send_post_def Let_def i_def F_def n_def)
  have "i = (j + u) mod n" using ring_used_mod [OF i j] by (simp add: u_def)
  from ring_append [OF _ l j _ this w] uF inv'(7)
  show "take u (rotate j (Data (Outgoing c'))) = take u (rotate j (Data (Outgoing c)))"
    "take (u + length F) (rotate j (Data (Outgoing c'))) = take u (rotate j (Data (Outgoing c))) @ F"
    by (simp_all add: n_def)
qed

subsection \<open>Packets in the ring\<close>

text \<open>The byte length that the header of a packet announces.\<close>

definition announced :: "u8 list \<Rightarrow> nat" where
  "announced bs = 8 * unat (le16 (take 2 (drop 4 bs)))"

function parse_packets :: "u8 list \<Rightarrow> u8 list list option" where
  "parse_packets bs =
     (if bs = [] then Some []
      else if announced bs < 16 \<or> length bs < announced bs + 8 then None
      else map_option (\<lambda>ps. take (announced bs) bs # ps) (parse_packets (drop (announced bs + 8) bs)))"
  by pat_completeness auto
termination by (relation "measure length") auto

declare parse_packets.simps [simp del]

lemma parse_packets_Nil [simp]: "parse_packets [] = Some []"
  by (simp add: parse_packets.simps)

lemma announced_append: "6 \<le> length bs \<Longrightarrow> announced (bs @ ys) = announced bs"
  by (simp add: announced_def)

lemma parse_packets_cons:
  assumes "16 \<le> announced f" "length f = announced f + 8"
  shows "parse_packets (f @ ys) = map_option (\<lambda>ps. take (announced f) f # ps) (parse_packets ys)"
proof -
  have "announced (f @ ys) = announced f" using assms by (intro announced_append) simp
  then show ?thesis using assms by (subst parse_packets.simps) auto
qed

lemma parse_packets_append:
  "parse_packets xs = Some ps \<Longrightarrow> parse_packets (xs @ ys) = map_option (\<lambda>qs. ps @ qs) (parse_packets ys)"
proof (induction xs arbitrary: ps rule: parse_packets.induct)
  case (1 bs)
  show ?case
  proof (cases "bs = []")
    case True
    with "1.prems" show ?thesis by (simp add: option.map_ident)
  next
    case False
    let ?L = "announced bs"
    from "1.prems" False have L: "16 \<le> ?L" "?L + 8 \<le> length bs"
      and p: "map_option (\<lambda>ps. take ?L bs # ps) (parse_packets (drop (?L + 8) bs)) = Some ps"
      by (auto simp: parse_packets.simps [of bs] split: if_splits)
    then obtain qs where q: "parse_packets (drop (?L + 8) bs) = Some qs" "ps = take ?L bs # qs" by auto
    have IH: "parse_packets (drop (?L + 8) bs @ ys) = map_option (\<lambda>rs. qs @ rs) (parse_packets ys)"
      by (rule "1.IH" [OF False _ q(1)]) (use L in simp)
    have t: "announced (take (?L + 8) bs) = ?L" "length (take (?L + 8) bs) = ?L + 8"
      using L announced_append [of "take (?L + 8) bs" "drop (?L + 8) bs"] by simp_all
    have "parse_packets (bs @ ys) =
        map_option (\<lambda>ps. take ?L bs # ps) (parse_packets (drop (?L + 8) bs @ ys))"
      using parse_packets_cons [of "take (?L + 8) bs" "drop (?L + 8) bs @ ys"] L unfolding t
      by (simp add: min_absorb1 flip: append_assoc)
    then show ?thesis unfolding IH q(2) by (simp add: option.map_comp comp_def)
  qed
qed

lemma parse_packets_first:
  assumes "parse_packets bs = Some ps" "bs \<noteq> []"
  shows "16 \<le> announced bs" "announced bs + 8 \<le> length bs"
    "\<exists>qs. ps = take (announced bs) bs # qs \<and> parse_packets (drop (announced bs + 8) bs) = Some qs"
  using assms by (auto simp: parse_packets.simps [of bs] split: if_splits)

text \<open>A packet whose header announces its padded length, and what the receiver sees of it.\<close>

definition wf_packet :: "u8 list \<Rightarrow> bool" where
  "wf_packet p \<longleftrightarrow> 16 \<le> length p \<and> announced p = align8 (length p)"

definition pad_packet :: "u8 list \<Rightarrow> u8 list" where
  "pad_packet p = p @ replicate (align8 (length p) - length p) 0"

lemma length_pad_packet: "length (pad_packet p) = align8 (length p)"
  using align8_ge [of "length p"] by (simp add: pad_packet_def)

lemma parse_frame:
  assumes "wf_packet p"
  shows "parse_packets (frame_packet i p) = Some [pad_packet p]"
proof -
  have f: "frame_packet i p = pad_packet p @ packet_trailer i"
    by (simp add: frame_packet_def pad_packet_def)
  have a: "announced (frame_packet i p) = align8 (length p)"
    using assms by (simp add: wf_packet_def frame_packet_def announced_append)
  have "16 \<le> align8 (length p)" using assms align8_ge [of "length p"] by (simp add: wf_packet_def)
  then show ?thesis
    using parse_packets_cons [of "frame_packet i p" "[]"] a
    by (simp add: length_frame_packet) (simp add: f length_pad_packet)
qed

subsection \<open>Uninterrupted operations\<close>

text \<open>The unread bytes of a ring, as the control block delimits them.\<close>

definition ring_contents :: "packet_ring_context \<Rightarrow> u8 list" where
  "ring_contents r =
     (let n = unat (DataBytesInRing r); i = unat (rcb_In (Control r)); j = unat (rcb_Out (Control r))
      in take (ring_used n i j) (rotate j (Data r)))"

lemma PkpCheckSend_quiet:
  assumes inv: "pk_inv c" and view: "sender_view c"
  shows "runs (PkpCheckSendBufferFreeBytes b quiet c t (OutgoingIn c) (OutgoingOutCache c) (DataBytesInRing (Outgoing c)))
    (\<lambda>(s, c'). rcb_In (Control (Outgoing c')) = rcb_In (Control (Outgoing c)) \<and>
       rcb_Out (Control (Outgoing c')) = rcb_Out (Control (Outgoing c)) \<and>
       s \<noteq> EFI_RING_CORRUPT_ERROR \<and>
       (s = EFI_SUCCESS \<longleftrightarrow> unat t + ring_used (unat (DataBytesInRing (Outgoing c))) (unat (OutgoingIn c))
           (unat (rcb_Out (Control (Outgoing c)))) < unat (DataBytesInRing (Outgoing c))))"
proof -
  let ?n = "DataBytesInRing (Outgoing c)" and ?r = "Control (Outgoing c)"
  have v: "PkpValidatePointer ?n (rcb_Out ?r)"
    and le: "ring_used (unat ?n) (unat (OutgoingIn c)) (unat (rcb_Out ?r)) \<le>
      ring_used (unat ?n) (unat (OutgoingIn c)) (unat (OutgoingOutCache c))"
    using view by (simp_all add: sender_view_def Let_def)
  have lt: "ring_used (unat ?n) (unat (OutgoingIn c)) (unat (rcb_Out ?r)) < unat ?n"
    "ring_used (unat ?n) (unat (OutgoingIn c)) (unat (OutgoingOutCache c)) < unat ?n"
    using v pk_inv_dest(9,10) [OF inv] by (auto simp: validate_iff intro: ring_used_less)
  show ?thesis
    using inv v le lt pk_inv_dest(1,9,10) [OF inv]
    unfolding PkpCheckSendBufferFreeBytes_def
    by (intro run_intros runs_FreeBytes runs_DataAvailable)
      (simp_all add: quiet_def word_less_nat_alt not_less split del: if_split)
qed

lemma PkGetSendBuffer_status:
  assumes "PkGetSendBuffer b h c i Size = Some (s, c1, off, buf)"
  shows "\<exists>c0. PkpCheckSendBufferFreeBytes b h c
        (ucast (ALIGN_UP Size) + sizeof_PREVIOUS_PACKET_OFFSET) i (OutgoingOutCache c)
      (DataBytesInRing (Outgoing c)) = Some (s, c0) \<and>
      rcb_In (Control (Outgoing c1)) = rcb_In (Control (Outgoing c0)) \<and>
      rcb_Out (Control (Outgoing c1)) = rcb_Out (Control (Outgoing c0))
    \<or> s = EFI_SUCCESS \<and> (\<exists>s0. \<not> EFI_ERROR s0 \<and> PkpCheckSendBufferFreeBytes b h c
        (ucast (ALIGN_UP Size) + sizeof_PREVIOUS_PACKET_OFFSET) i (OutgoingOutCache c)
      (DataBytesInRing (Outgoing c)) = Some (s0, c0) \<and>
      rcb_In (Control (Outgoing c1)) = rcb_In (Control (Outgoing c0)) \<and>
      rcb_Out (Control (Outgoing c1)) = rcb_Out (Control (Outgoing c0)))"
  using assms by (auto simp: PkGetSendBuffer_def Let_def bind_eq_Some_conv split: if_splits)

lemma PkGetSendBuffer_quiet:
  assumes inv: "pk_inv c" and view: "sender_view c"
    and size: "0 < unat Size" "unat Size \<le> unat (DataBytesInRing (Outgoing c))"
    and eq: "PkGetSendBuffer b quiet c (OutgoingIn c) Size = Some (s, c1, off, buf)"
  shows "rcb_In (Control (Outgoing c1)) = rcb_In (Control (Outgoing c)) \<and>
       rcb_Out (Control (Outgoing c1)) = rcb_Out (Control (Outgoing c)) \<and> s \<noteq> EFI_RING_CORRUPT_ERROR \<and>
       (s = EFI_SUCCESS \<longleftrightarrow> align8 (unat Size) + 8 +
           ring_used (unat (DataBytesInRing (Outgoing c))) (unat (OutgoingIn c))
             (unat (rcb_Out (Control (Outgoing c)))) < unat (DataBytesInRing (Outgoing c)))"
proof -
  let ?t = "ucast (ALIGN_UP Size) + sizeof_PREVIOUS_PACKET_OFFSET"
  have A: "unat (ucast (ALIGN_UP Size) :: u32) = align8 (unat Size)"
    using size(2) pk_inv_dest(1) [OF inv] by (intro unat_packet_size) linarith
  have "align8 (unat Size) \<le> unat (DataBytesInRing (Outgoing c))"
    using size(2) pk_inv_dest(5) [OF inv] by (simp add: align8_le_iff)
  then have t: "unat ?t = align8 (unat Size) + 8"
    using A pk_inv_dest(1) [OF inv] by (subst unat_add32) (simp_all add: sizeof_PREVIOUS_PACKET_OFFSET_def)
  note q = PkpCheckSend_quiet [OF inv view, of b ?t, unfolded t]
  have p: "check_post c ?t (OutgoingIn c) (s0, c0)"
    if "PkpCheckSendBufferFreeBytes b quiet c ?t (OutgoingIn c) (OutgoingOutCache c)
      (DataBytesInRing (Outgoing c)) = Some (s0, c0)" for s0 c0
    using runs_result [OF PkpCheckSendBufferFreeBytes_spec [OF inv pk_inv_dest(9) [OF inv]] that] .
  show ?thesis
    using PkGetSendBuffer_status [OF eq] runs_result [OF q]
    by (fastforce dest: p check_post_no_error [OF p])
qed

lemma PkSendPacketRaw_quiet_error:
  assumes inv: "pk_inv c" and view: "sender_view c"
    and size: "0 < length p" "unat Size = length p" "length p \<le> unat (DataBytesInRing (Outgoing c))"
    and eq: "PkGetSendBuffer b quiet c (OutgoingIn c) Size = Some (s1, c1, off, buf)" "EFI_ERROR s1"
  shows "PkSendPacketRaw b quiet h' c p Size = Some (s1, c1)" "pk_inv c1" "sender_view c1"
    "send_frame c c1" "ring_contents (Outgoing c1) = ring_contents (Outgoing c)"
proof -
  have pos: "0 < Size" using size by (simp add: word_less_nat_alt)
  then show "PkSendPacketRaw b quiet h' c p Size = Some (s1, c1)"
    using eq by (simp add: PkSendPacketRaw_def)
  have "send_buffer_post c (OutgoingIn c) (align8 (unat Size)) (s1, c1, off, buf)"
    using size eq(1)
    by (intro runs_result [OF PkGetSendBuffer_spec [OF inv pk_inv_dest(9) [OF inv]]]) simp_all
  then show i: "pk_inv c1" and fr: "send_frame c c1"
    and "ring_contents (Outgoing c1) = ring_contents (Outgoing c)"
    using eq(2) PkGetSendBuffer_quiet [OF inv view _ _ eq(1)] size
    by (auto simp: send_buffer_post_def Let_def ring_contents_def send_frame_def split: if_splits)
  show "sender_view c1"
    by (rule PkGetSendBuffer_rely [OF inv view only_consumes_quiet eq(1) fr])
qed

text \<open>
  An uninterrupted send succeeds exactly when the framed packet fits into the free part of
  the ring; it then appends the frame to the contents, and otherwise leaves them alone.
\<close>

definition sent ::
  "packet_lib_context \<Rightarrow> u8 list \<Rightarrow> efi_status \<times> packet_lib_context \<Rightarrow> bool" where
  "sent c p r \<longleftrightarrow> (case r of (s, c') \<Rightarrow>
     pk_inv c' \<and> sender_view c' \<and> rcb_In (Control (Outgoing c')) = OutgoingIn c' \<and>
     rcb_Out (Control (Outgoing c')) = rcb_Out (Control (Outgoing c)) \<and>
     Incoming c' = Incoming c \<and> DataBytesInRing (Outgoing c') = DataBytesInRing (Outgoing c) \<and>
     (\<not> EFI_ERROR s \<longleftrightarrow> length (ring_contents (Outgoing c)) + align8 (length p) + 8
        < unat (DataBytesInRing (Outgoing c))) \<and>
     ring_contents (Outgoing c') = ring_contents (Outgoing c) @
       (if EFI_ERROR s then [] else frame_packet (OutgoingIn c) p))"

lemma length_ring_contents:
  assumes "length (Data r) = unat (DataBytesInRing r)"
    and "unat (rcb_In (Control r)) < unat (DataBytesInRing r)"
    and "unat (rcb_Out (Control r)) < unat (DataBytesInRing r)"
  shows "length (ring_contents r) = ring_used (unat (DataBytesInRing r)) (unat (rcb_In (Control r)))
      (unat (rcb_Out (Control r)))"
  using assms ring_used_less [OF assms(2,3)] by (simp add: ring_contents_def Let_def)

lemma PkSendPacketRaw_quiet:
  assumes inv: "pk_inv c" and view: "sender_view c" and In: "rcb_In (Control (Outgoing c)) = OutgoingIn c"
    and size: "0 < length p" "unat Size = length p" "length p \<le> unat (DataBytesInRing (Outgoing c))"
  shows "runs (PkSendPacketRaw b quiet quiet c p Size) (sent c p)"
proof -
  let ?n = "DataBytesInRing (Outgoing c)" and ?i = "OutgoingIn c"
  note inv9 = pk_inv_dest(9) [OF inv]
  have len: "length (ring_contents (Outgoing c)) =
      ring_used (unat ?n) (unat ?i) (unat (rcb_Out (Control (Outgoing c))))"
    using pk_inv_dest(7) [OF inv] inv9 view In length_ring_contents [of "Outgoing c"]
    by (simp add: sender_view_def Let_def validate_iff)
  have "runs (PkGetSendBuffer b quiet c ?i Size) (send_buffer_post c ?i (align8 (unat Size)))"
    using size by (intro PkGetSendBuffer_spec [OF inv inv9]) simp_all
  then obtain s1 c1 off buf where g: "PkGetSendBuffer b quiet c ?i Size = Some (s1, c1, off, buf)"
    and gp: "send_buffer_post c ?i (align8 (unat Size)) (s1, c1, off, buf)"
    by (auto elim!: runsE)
  have "0 < unat Size" "unat Size \<le> unat ?n" using size by simp_all
  note q = PkGetSendBuffer_quiet [OF inv view this g]
  show ?thesis
  proof (cases "EFI_ERROR s1")
    case True
    have "s1 \<noteq> EFI_SUCCESS" using True by auto
    then show ?thesis
      using PkSendPacketRaw_quiet_error [OF inv view size g True] q len size(2) In True
      by (auto simp: sent_def send_frame_def intro!: runs_eqI)
  next
    case False
    then have s1: "s1 = EFI_SUCCESS"
      using gp by (auto simp: send_buffer_post_def Let_def split: if_splits)
    from PkSendPacketRaw_spec [OF inv size, of b quiet quiet] obtain s c' where
      eq: "PkSendPacketRaw b quiet quiet c p Size = Some (s, c')" and sp: "send_post c p (s, c')"
      by (auto elim!: runsE)
    obtain c2 where w: "PkWritePacketSingleMapped b c1 p Size buf = Some c2"
      and ins: "PkCompleteInsertion b quiet c2 off = Some (s, c')"
      using eq g s1 size by (auto simp: PkSendPacketRaw_def word_less_nat_alt bind_eq_Some_conv)
    obtain d where c2: "c2 = set_outgoing_data d c1" using PkWritePacketSingleMapped_frame [OF w] by blast
    have v: "PkpValidatePointer ?n (rcb_Out (Control (Outgoing c2)))"
      using view q c2 by (simp add: sender_view_def Let_def)
    have n2: "DataBytesInRing (Outgoing c2) = ?n" using gp c2 by (simp add: send_buffer_post_def send_frame_def)
    have ok: "\<not> EFI_ERROR s"
      using ins v n2 by (auto simp: PkCompleteInsertion_def Let_def quiet_def bind_eq_Some_conv split: if_splits)
    note ci = PkCompleteInsertion_quiet [OF ins ok]
    have out: "rcb_Out (Control (Outgoing c')) = rcb_Out (Control (Outgoing c))"
      using ci c2 q by simp
    note ap = PkSendPacketRaw_appends [OF inv view size only_consumes_quiet only_consumes_quiet eq ok]
    have "unat (OutgoingIn c') = (unat ?i + length (frame_packet ?i p)) mod unat ?n"
      using sp ok by (simp add: send_post_def Let_def)
    moreover have "ring_used (unat ?n) ((unat ?i + length (frame_packet ?i p)) mod unat ?n)
        (unat (rcb_Out (Control (Outgoing c)))) =
      ring_used (unat ?n) (unat ?i) (unat (rcb_Out (Control (Outgoing c)))) + length (frame_packet ?i p)"
      using ap(1,2) inv9 unfolding out by (intro ring_used_advance_in) (simp_all add: validate_iff)
    ultimately have "ring_contents (Outgoing c') = ring_contents (Outgoing c) @ frame_packet ?i p"
      using ap(4) ci out sp In by (simp add: ring_contents_def Let_def send_post_def)
    moreover have "sender_view c'"
      using ci out sp v c2 q by (simp add: sender_view_def Let_def send_post_def)
    moreover have "length (ring_contents (Outgoing c)) + align8 (length p) + 8 < unat ?n"
      using q s1 len size(2) by simp
    ultimately show ?thesis
      using sp ci out ok by (intro runs_eqI [OF eq]) (simp add: sent_def send_post_def)
  qed
qed

text \<open>
  The receiving side: its cached in pointer lies on a packet boundary of the contents.
\<close>

definition receiver_view :: "packet_lib_context \<Rightarrow> bool" where
  "receiver_view c \<longleftrightarrow>
     (let r = Incoming c; n = unat (DataBytesInRing r);
          v = ring_used n (unat (IncomingInCache c)) (unat (IncomingOut c))
      in PkpValidatePointer (DataBytesInRing r) (rcb_In (Control r)) \<and>
         rcb_Out (Control r) = IncomingOut c \<and>
         v \<le> length (ring_contents r) \<and>
         parse_packets (take v (ring_contents r)) \<noteq> None \<and> parse_packets (ring_contents r) \<noteq> None)"

text \<open>One packet is received: located, copied out, and its space given back.\<close>

definition receive_packet ::
  "build \<Rightarrow> packet_lib_context \<Rightarrow> (efi_status \<times> u8 list option \<times> packet_lib_context) option" where
  "receive_packet b c = do {
     (s, c, newOffset, buffer, len) \<leftarrow> PkGetReceiveBuffer b quiet c (PkGetIncomingRingOffset c);
     if EFI_ERROR s then Some (s, None, c)
     else do {
       p \<leftarrow> PkReadPacketSingleMapped b c len buffer;
       (s, c) \<leftarrow> PkCompleteRemoval b quiet c newOffset;
       Some (s, Some p, c)
     }
   }"

lemma PkGetReceiveBuffer_success:
  fixes c :: packet_lib_context and Offset :: u32
  defines "n \<equiv> DataBytesInRing (Incoming c)"
    and "L \<equiv> ucast (le16 (take 2 (drop (unat Offset + 4) (Data (Incoming c))))) * 8 :: u32"
  assumes inv: "pk_inv c" and off: "PkpValidatePointer n Offset" and dbg: "\<not> DBG b"
    and rip: "receive_in_pointer h c n Offset = (EFI_SUCCESS, c1, In')"
    and fits: "16 \<le> unat L" "unat L + 8 \<le> ring_used (unat n) (unat In') (unat Offset)"
  shows "PkGetReceiveBuffer b h c Offset =
      Some (EFI_SUCCESS, c1, of_nat ((unat Offset + unat L + 8) mod unat n), Offset, L)"
proof -
  note inv' = pk_inv_dest [OF inv, folded n_def]
  have o: "unat Offset < unat n" "8 dvd unat Offset" using off by (simp_all add: validate_iff)
  have lt: "Offset < n" using o by (simp add: word_less_nat_alt)
  have rd: "unat Offset + 8 \<le> unat n" using aligned_index [OF o(2) inv'(6,4)] o by simp
  have r: "PkpValidatePointer n In'" "Data (Incoming c1) = Data (Incoming c)"
    using receive_in_pointer_spec [OF inv n_def [THEN meta_eq_to_obj_eq] rip] by (auto simp: recv_frame_def)
  have u: "ring_used (unat n) (unat In') (unat Offset) < unat n"
    using r(1) o by (auto simp: validate_iff intro: ring_used_less)
  have t: "unat (L + 8) = unat L + 8" "unat (Offset + (L + 8)) = unat Offset + unat L + 8"
    using u fits o inv'(2) by (simp_all add: unat_add32)
  have nf: "\<not> (L < 16 \<or> of_nat (ring_used (unat n) (unat In') (unat Offset)) < L + 8)"
    using fits t u inv'(2) by (simp add: word_less_nat_alt unat_of_nat32 not_less)
  have red: "PkModuloReduce b (Offset + (L + 8)) n = Some (of_nat ((unat Offset + unat L + 8) mod unat n))"
    using t u fits o by (subst PkModuloReduce_eq) simp_all
  show ?thesis
    using lt rd r o inv'(2,8) dbg nf red
    by (simp add: PkGetReceiveBuffer_def Let_def rip n_def [symmetric] PkpDataAvailable_eq validate_iff
        L_def [symmetric] sizeof_VMPACKET_DESCRIPTOR_def sizeof_PREVIOUS_PACKET_OFFSET_def)
qed

lemma PkCompleteRemoval_quiet:
  assumes inv: "pk_inv c" and new: "PkpValidatePointer (DataBytesInRing (Incoming c)) NewOut"
    and In: "PkpValidatePointer (DataBytesInRing (Incoming c)) (rcb_In (Control (Incoming c)))"
  shows "runs (PkCompleteRemoval b quiet c NewOut) (\<lambda>(s, c').
    \<not> EFI_ERROR s \<and> Control (Incoming c') = (Control (Incoming c))\<lparr>rcb_Out := NewOut\<rparr> \<and>
    IncomingInCache c' = rcb_In (Control (Incoming c)))"
  unfolding PkCompleteRemoval_def
  using inv new In pk_inv_dest(2,12) [OF inv]
  by (intro run_intros runs_FreeBytes; (thin_tac "NewOut = _")?; simp add: quiet_def split del: if_split)

lemma announced_ring:
  assumes "j + 8 \<le> length d" "6 \<le> u"
  shows "announced (take u (rotate j d)) = 8 * unat (le16 (take 2 (drop (j + 4) d)))"
proof -
  have "take 2 (drop 4 (take u (rotate j d))) = drop 4 (take 6 (rotate j d))"
    using assms(2) by (simp add: drop_take min_def)
  also have "take 6 (rotate j d) = take 6 (drop j d)" using assms(1) by (intro take_rotate_plain) auto
  finally show ?thesis by (simp add: announced_def drop_take add.commute)
qed

lemma incoming_host_quiet [simp]: "incoming_host (quiet k) c = c"
  by (simp add: incoming_host_def quiet_def)

lemma receive_in_pointer_quiet:
  assumes "pk_inv c" "PkpValidatePointer (DataBytesInRing (Incoming c)) (rcb_In (Control (Incoming c)))"
  shows "receive_in_pointer quiet c (DataBytesInRing (Incoming c)) j =
    (if IncomingInCache c = j then
       if rcb_In (Control (Incoming c)) = j
       then (EFI_END_OF_FILE, c\<lparr>IncomingInCache := j\<rparr>, j)
       else (EFI_SUCCESS, c\<lparr>IncomingInCache := rcb_In (Control (Incoming c))\<rparr>, rcb_In (Control (Incoming c)))
     else (EFI_SUCCESS, c, IncomingInCache c))"
  using assms by (auto simp: receive_in_pointer_def Let_def)

definition received ::
  "packet_lib_context \<Rightarrow> efi_status \<times> u8 list option \<times> packet_lib_context \<Rightarrow> bool" where
  "received c r \<longleftrightarrow> (case r of (s, p, c') \<Rightarrow>
     pk_inv c' \<and> receiver_view c' \<and> Outgoing c' = Outgoing c \<and>
     DataBytesInRing (Incoming c') = DataBytesInRing (Incoming c) \<and>
     rcb_In (Control (Incoming c')) = rcb_In (Control (Incoming c)) \<and>
     length (ring_contents (Incoming c')) \<le> length (ring_contents (Incoming c)) \<and>
     (case the (parse_packets (ring_contents (Incoming c))) of
        [] \<Rightarrow> s = EFI_END_OF_FILE \<and> p = None \<and> Incoming c' = Incoming c
      | q # qs \<Rightarrow> \<not> EFI_ERROR s \<and> p = Some q \<and> parse_packets (ring_contents (Incoming c')) = Some qs))"

lemma receive_packet_empty:
  assumes inv: "pk_inv c" and view: "receiver_view c" and e: "ring_contents (Incoming c) = []"
  shows "runs (receive_packet b c) (received c)"
proof -
  let ?n = "DataBytesInRing (Incoming c)"
  note inv' = pk_inv_dest [OF inv]
  have v: "PkpValidatePointer ?n (rcb_In (Control (Incoming c)))" "rcb_Out (Control (Incoming c)) = IncomingOut c"
    "ring_used (unat ?n) (unat (IncomingInCache c)) (unat (IncomingOut c)) = 0"
    using view e by (simp_all add: receiver_view_def Let_def)
  have "ring_used (unat ?n) (unat (rcb_In (Control (Incoming c)))) (unat (IncomingOut c)) = 0"
    using length_ring_contents [of "Incoming c"] e v(1,2) inv'(8,12) by (simp add: validate_iff)
  then have i: "rcb_In (Control (Incoming c)) = IncomingOut c" "IncomingInCache c = IncomingOut c"
    using v inv'(11,12) by (simp_all add: ring_used_0_iff validate_iff word_unat_eq_iff)
  have lt: "IncomingOut c < ?n" using inv'(12) by (simp add: PkpValidatePointer_def)
  have "receive_packet b c = Some (EFI_END_OF_FILE, None, c\<lparr>IncomingInCache := IncomingOut c\<rparr>)"
    using receive_in_pointer_quiet [OF inv v(1), of "IncomingOut c"] i lt
    by (simp add: receive_packet_def PkGetReceiveBuffer_def PkGetIncomingRingOffset_def Let_def)
  moreover have "c\<lparr>IncomingInCache := IncomingOut c\<rparr> = c" using i(2) by simp
  ultimately show ?thesis
    using inv view e by (auto simp: received_def intro!: runs_eqI)
qed

lemma receive_in_pointer_packet:
  assumes inv: "pk_inv c" and view: "receiver_view c" and ne: "ring_contents (Incoming c) \<noteq> []"
  defines "n \<equiv> DataBytesInRing (Incoming c)" and "A \<equiv> announced (ring_contents (Incoming c))"
  obtains c1 In' where "receive_in_pointer quiet c n (IncomingOut c) = (EFI_SUCCESS, c1, In')"
    "pk_inv c1" "Incoming c1 = Incoming c" "Outgoing c1 = Outgoing c" "16 \<le> A"
    "A + 8 \<le> ring_used (unat n) (unat In') (unat (IncomingOut c))"
proof -
  let ?r = "Incoming c" and ?C = "ring_contents (Incoming c)"
  let ?v = "ring_used (unat n) (unat (IncomingInCache c)) (unat (IncomingOut c))"
  note inv' = pk_inv_dest [OF inv, folded n_def]
  have v: "PkpValidatePointer n (rcb_In (Control ?r))" "rcb_Out (Control ?r) = IncomingOut c"
    "?v \<le> length ?C" "parse_packets (take ?v ?C) \<noteq> None" "parse_packets ?C \<noteq> None"
    using view by (simp_all add: receiver_view_def Let_def n_def)
  have len: "length ?C = ring_used (unat n) (unat (rcb_In (Control ?r))) (unat (IncomingOut c))"
    using length_ring_contents [of ?r, folded n_def] v(1,2) inv'(8,12) by (simp add: validate_iff)
  note rip = receive_in_pointer_quiet [OF inv v(1) [unfolded n_def], of "IncomingOut c", folded n_def]
  obtain ps where ps: "parse_packets ?C = Some ps" using v(5) by auto
  have A: "16 \<le> A" "A + 8 \<le> length ?C" using parse_packets_first [OF ps ne] by (simp_all add: A_def)
  show thesis
  proof (cases "IncomingInCache c = IncomingOut c")
    case True
    have "rcb_In (Control ?r) \<noteq> IncomingOut c" using len A by auto
    then show thesis
      using rip True inv v(1) A len
      by (intro that [of "c\<lparr>IncomingInCache := rcb_In (Control ?r)\<rparr>" "rcb_In (Control ?r)"]) (simp_all add: n_def)
  next
    case False
    then have "?v \<noteq> 0" using inv'(11,12) by (simp add: ring_used_0_iff validate_iff word_unat_eq_iff)
    then have t: "take ?v ?C \<noteq> []" using ne by simp
    obtain qs where qs: "parse_packets (take ?v ?C) = Some qs" using v(4) by auto
    note f = parse_packets_first [OF qs t]
    have "announced (take ?v ?C) = A"
      using announced_append [of "take ?v ?C" "drop ?v ?C"] f by (simp add: A_def)
    then show thesis
      using rip False inv A f v(3) by (intro that [of c "IncomingInCache c"]) simp_all
  qed
qed

lemma receive_packet_next:
  assumes inv: "pk_inv c" and view: "receiver_view c" and dbg: "\<not> DBG b"
    and ne: "ring_contents (Incoming c) \<noteq> []"
  shows "runs (receive_packet b c) (received c)"
proof -
  let ?r = "Incoming c" and ?C = "ring_contents (Incoming c)" and ?j = "IncomingOut c"
  let ?n = "DataBytesInRing (Incoming c)" and ?d = "Data (Incoming c)"
  define L :: u32 where "L = ucast (le16 (take 2 (drop (unat ?j + 4) ?d))) * 8"
  define A where "A = announced ?C"
  note inv' = pk_inv_dest [OF inv]
  have j: "unat ?j < unat ?n" "8 dvd unat ?j" using inv'(12) by (simp_all add: validate_iff)
  have v: "PkpValidatePointer ?n (rcb_In (Control ?r))" "rcb_Out (Control ?r) = ?j"
    "parse_packets ?C \<noteq> None"
    using view by (simp_all add: receiver_view_def Let_def)
  have i: "unat (rcb_In (Control ?r)) < unat ?n" using v(1) by (simp add: validate_iff)
  have C: "?C = take (length ?C) (rotate (unat ?j) ?d)"
    and len: "length ?C = ring_used (unat ?n) (unat (rcb_In (Control ?r))) (unat ?j)"
    using length_ring_contents [of ?r] v(2) inv'(8) i j by (simp_all add: ring_contents_def Let_def)
  obtain c1 In' where rip: "receive_in_pointer quiet c ?n ?j = (EFI_SUCCESS, c1, In')"
    and c1: "pk_inv c1" "Incoming c1 = Incoming c" "Outgoing c1 = Outgoing c" "16 \<le> A"
    and fit: "A + 8 \<le> ring_used (unat ?n) (unat In') (unat ?j)"
    using receive_in_pointer_packet [OF inv view ne] A_def by metis
  obtain qs where qs: "parse_packets ?C = Some (take A ?C # qs)" "parse_packets (drop (A + 8) ?C) = Some qs"
    and Alen: "A + 8 \<le> length ?C"
    using parse_packets_first [OF _ ne] v(3) by (auto simp: A_def)
  have "unat ?j + 8 \<le> length ?d" using aligned_index [OF j(2) inv'(6,4)] j inv'(8) by simp
  then have L: "unat L = A"
    using announced_ring [of "unat ?j" ?d "length ?C"] Alen c1(4) C by (simp add: A_def L_def unat_length8)
  have g: "PkGetReceiveBuffer b quiet c ?j =
      Some (EFI_SUCCESS, c1, of_nat ((unat ?j + A + 8) mod unat ?n), ?j, L)"
    using PkGetReceiveBuffer_success [OF inv inv'(12) dbg rip, folded L_def, unfolded L] c1(4) fit by blast
  let ?j' = "of_nat ((unat ?j + A + 8) mod unat ?n) :: u32"
  have j': "unat ?j' = (unat ?j + (A + 8)) mod unat ?n"
    using mod_less_divisor [OF inv'(4), of "unat ?j + (A + 8)"] inv'(2) by (simp add: unat_of_nat32 add.assoc)
  have vj': "PkpValidatePointer ?n ?j'"
    using runs_result [OF PkGetReceiveBuffer_spec [OF inv inv'(12)] g] by (simp add: receive_post_def Let_def)
  have rd: "PkReadPacketSingleMapped b c1 L ?j = Some (take A ?C)"
    using PkReadPacketSingleMapped_spec [OF c1(1), of ?j L b] inv'(12) c1(2) L Alen len
      ring_used_less [OF i j(1)] C by (simp add: min_def)
  have "runs (PkCompleteRemoval b quiet c1 ?j') (\<lambda>(s, c'). (pk_inv c' \<and> recv_frame c1 c' \<and> IncomingOut c' = ?j') \<and>
      \<not> EFI_ERROR s \<and> Control (Incoming c') = (Control ?r)\<lparr>rcb_Out := ?j'\<rparr> \<and> IncomingInCache c' = rcb_In (Control ?r))"
    using PkCompleteRemoval_spec [OF c1(1), of ?j' b quiet] PkCompleteRemoval_quiet [OF c1(1), of ?j' b] c1(2) vj' v(1)
    by (auto elim!: runsE intro!: runs_eqI)
  then obtain s c' where rm: "PkCompleteRemoval b quiet c1 ?j' = Some (s, c')" and p: "pk_inv c'" "recv_frame c1 c'"
      "IncomingOut c' = ?j'" "\<not> EFI_ERROR s" "Control (Incoming c') = (Control ?r)\<lparr>rcb_Out := ?j'\<rparr>"
      "IncomingInCache c' = rcb_In (Control ?r)"
    by (auto elim!: runsE)
  have eq: "receive_packet b c = Some (s, Some (take A ?C), c')"
    by (simp add: receive_packet_def PkGetIncomingRingOffset_def g rd rm)
  have fr: "Data (Incoming c') = ?d" "DataBytesInRing (Incoming c') = ?n" "Outgoing c' = Outgoing c"
    using p(2) c1 by (simp_all add: recv_frame_def)
  have used': "ring_used (unat ?n) (unat (rcb_In (Control ?r))) (unat ?j') = length ?C - (A + 8)"
    using ring_used_advance_out [OF i j(1), of "A + 8"] Alen len j' by simp
  have C': "ring_contents (Incoming c') = drop (A + 8) ?C"
    using used' fr p(5) j' inv'(8) C take_drop_rotate [of "A + 8" "length ?C - (A + 8)" ?d "unat ?j"]
      ring_used_less [OF i j(1)] len Alen
    by (simp add: ring_contents_def Let_def drop_take)
  have "receiver_view c'"
    using p fr v(1) C' used' qs(2) by (simp add: receiver_view_def Let_def)
  then show ?thesis
    using p fr C' qs by (intro runs_eqI [OF eq]) (simp add: received_def)
qed

lemma receive_packet_spec:
  "pk_inv c \<Longrightarrow> receiver_view c \<Longrightarrow> \<not> DBG b \<Longrightarrow> runs (receive_packet b c) (received c)"
  using receive_packet_empty receive_packet_next by blast

end
