(* ===== verification/Vmbus_Fifo.thy ===== *)
theory Vmbus_Fifo
  imports Vmbus_Channel
begin

text \<open>
  The contract of a first-in first-out packet channel as a locale, the lemmas of its users,
  and its interpretation on two endpoints that run the operations of
  \<^verbatim>\<open>RingBuffer.c\<close> on one shared ring.
\<close>

subsection \<open>A first-in first-out channel\<close>

datatype 'p channel_op = Send 'p | Receive

text \<open>
  A schedule runs the operations in order and collects the packets that were accepted and
  the packets that were received.
\<close>

fun schedule ::
  "('p \<Rightarrow> 's \<Rightarrow> (bool \<times> 's) option) \<Rightarrow> ('s \<Rightarrow> ('p option \<times> 's) option) \<Rightarrow>
     'p channel_op list \<Rightarrow> 's \<Rightarrow> ('p list \<times> 'p list \<times> 's) option" where
  "schedule send recv [] s = Some ([], [], s)"
| "schedule send recv (Send p # ops) s = do {
     (ok, s) \<leftarrow> send p s;
     (acc, rcv, s) \<leftarrow> schedule send recv ops s;
     Some (if ok then p # acc else acc, rcv, s)
   }"
| "schedule send recv (Receive # ops) s = do {
     (r, s) \<leftarrow> recv s;
     (acc, rcv, s) \<leftarrow> schedule send recv ops s;
     Some (acc, case r of None \<Rightarrow> rcv | Some p \<Rightarrow> p # rcv, s)
   }"

text \<open>
  The contract of a packet channel towards its users. \<open>queue\<close> is the abstract state;
  \<open>deliver\<close> is what the receiver sees of a packet the sender passes; \<open>room\<close> tells when a
  send is accepted.
\<close>

locale packet_channel =
  fixes inv :: "'s \<Rightarrow> bool"
    and queue :: "'s \<Rightarrow> 'p list"
    and send :: "'p \<Rightarrow> 's \<Rightarrow> (bool \<times> 's) option"
    and recv :: "'s \<Rightarrow> ('p option \<times> 's) option"
    and sendable :: "'p \<Rightarrow> bool"
    and deliver :: "'p \<Rightarrow> 'p"
    and room :: "'p \<Rightarrow> 's \<Rightarrow> bool"
  assumes send_law: "inv s \<Longrightarrow> sendable p \<Longrightarrow> runs (send p s) (\<lambda>(ok, s'). inv s' \<and> (ok \<longleftrightarrow> room p s) \<and>
      queue s' = queue s @ (if ok then [deliver p] else []))"
    and recv_law: "inv s \<Longrightarrow> runs (recv s) (\<lambda>(r, s'). inv s' \<and>
      (case queue s of [] \<Rightarrow> r = None \<and> queue s' = [] | q # qs \<Rightarrow> r = Some q \<and> queue s' = qs))"
begin

lemma schedule_fifo:
  assumes "inv s" "\<And>p. Send p \<in> set ops \<Longrightarrow> sendable p"
  shows "runs (schedule send recv ops s) (\<lambda>(acc, rcv, s'). inv s' \<and> rcv @ queue s' = queue s @ map deliver acc)"
  using assms
proof (induction ops arbitrary: s)
  case Nil
  then show ?case by (simp add: runs_SomeI)
next
  case (Cons x ops)
  show ?case
  proof (cases x)
    case (Send p)
    obtain ok s1 where snd: "send p s = Some (ok, s1)" and s1: "inv s1"
        "queue s1 = queue s @ (if ok then [deliver p] else [])"
      using send_law [of s p] Cons.prems Send by (auto elim!: runsE)
    have "runs (schedule send recv ops s1) (\<lambda>(acc, rcv, s'). inv s' \<and> rcv @ queue s' = queue s1 @ map deliver acc)"
      using s1 Cons.prems by (intro Cons.IH) auto
    then show ?thesis using Send snd s1(2) by (auto elim!: runsE intro!: runs_SomeI)
  next
    case Receive
    obtain r s1 where rc: "recv s = Some (r, s1)" and s1: "inv s1"
        "case queue s of [] \<Rightarrow> r = None \<and> queue s1 = [] | q # qs \<Rightarrow> r = Some q \<and> queue s1 = qs"
      using recv_law [of s] Cons.prems by (auto elim!: runsE)
    have "runs (schedule send recv ops s1) (\<lambda>(acc, rcv, s'). inv s' \<and> rcv @ queue s' = queue s1 @ map deliver acc)"
      using s1 Cons.prems by (intro Cons.IH) auto
    then show ?thesis using Receive rc s1(2) by (auto elim!: runsE intro!: runs_SomeI split: list.splits)
  qed
qed

lemma drain:
  "inv s \<Longrightarrow> queue s = qs \<Longrightarrow> runs (schedule send recv (replicate (length qs) Receive) s)
    (\<lambda>(acc, rcv, s'). inv s' \<and> rcv = qs \<and> queue s' = [])"
proof (induction qs arbitrary: s)
  case Nil
  then show ?case by (simp add: runs_SomeI)
next
  case (Cons q qs)
  obtain s1 where rc: "recv s = Some (Some q, s1)" and s1: "inv s1" "queue s1 = qs"
    using recv_law [OF Cons.prems(1)] Cons.prems(2) by (auto elim!: runsE)
  then show ?case using Cons.IH [OF s1] by (auto elim!: runsE intro!: runs_SomeI)
qed

end

text \<open>
  The two endpoints: the context of the sender and the context of the receiver, which share
  the ring. A send publishes to the receiver what it wrote, a receive gives the space back.
\<close>

type_synonym endpoints = "packet_lib_context \<times> packet_lib_context"

definition channel_send :: "build \<Rightarrow> u8 list \<Rightarrow> endpoints \<Rightarrow> (bool \<times> endpoints) option" where
  "channel_send b p ch = (case ch of (P, Q) \<Rightarrow> do {
     (s, P) \<leftarrow> PkSendPacketRaw b quiet quiet P p (of_nat (length p));
     Some (\<not> EFI_ERROR s, P, Q\<lparr>Incoming := Outgoing P\<rparr>)
   })"

definition channel_recv :: "build \<Rightarrow> endpoints \<Rightarrow> (u8 list option \<times> endpoints) option" where
  "channel_recv b ch = (case ch of (P, Q) \<Rightarrow> do {
     (s, p, Q) \<leftarrow> receive_packet b Q;
     Some (p, P\<lparr>Outgoing := Incoming Q\<rparr>, Q)
   })"

definition channel_queue :: "endpoints \<Rightarrow> u8 list list" where
  "channel_queue ch = the (parse_packets (ring_contents (Outgoing (fst ch))))"

definition channel_inv :: "nat \<Rightarrow> endpoints \<Rightarrow> bool" where
  "channel_inv n ch \<longleftrightarrow> (case ch of (P, Q) \<Rightarrow>
     pk_inv P \<and> pk_inv Q \<and> Outgoing P = Incoming Q \<and> unat (DataBytesInRing (Outgoing P)) = n \<and>
     rcb_In (Control (Outgoing P)) = OutgoingIn P \<and> sender_view P \<and> receiver_view Q)"

definition channel_room :: "nat \<Rightarrow> u8 list \<Rightarrow> endpoints \<Rightarrow> bool" where
  "channel_room n p ch \<longleftrightarrow> length (ring_contents (Outgoing (fst ch))) + align8 (length p) + 8 < n"

definition sendable :: "nat \<Rightarrow> u8 list \<Rightarrow> bool" where
  "sendable n p \<longleftrightarrow> wf_packet p \<and> length p \<le> n"

lemma channel_send_law:
  assumes inv: "channel_inv n ch" and p: "sendable n p"
  shows "runs (channel_send b p ch) (\<lambda>(ok, ch'). channel_inv n ch' \<and> (ok \<longleftrightarrow> channel_room n p ch) \<and>
    channel_queue ch' = channel_queue ch @ (if ok then [pad_packet p] else []))"
proof -
  obtain P Q where ch: "ch = (P, Q)" by (cases ch)
  have i: "pk_inv P" "pk_inv Q" "Outgoing P = Incoming Q" "unat (DataBytesInRing (Outgoing P)) = n"
    "rcb_In (Control (Outgoing P)) = OutgoingIn P" "sender_view P" "receiver_view Q"
    using inv unfolding channel_inv_def ch prod.case by blast+
  have w: "wf_packet p" "length p \<le> n" using p by (simp_all add: sendable_def)
  have "n \<le> 2147483648" using pk_inv_dest(1) [OF i(1)] i(4) by simp
  then have size: "0 < length p" "unat (of_nat (length p) :: u32) = length p"
      "length p \<le> unat (DataBytesInRing (Outgoing P))"
    using w i(4) by (auto simp: unat_of_nat32 wf_packet_def)
  obtain s P' where snd: "PkSendPacketRaw b quiet quiet P p (of_nat (length p)) = Some (s, P')"
    and st: "sent P p (s, P')"
    using PkSendPacketRaw_quiet [OF i(1,6,5) size, of b] by (auto elim!: runsE)
  note q = st [unfolded sent_def, simplified]
  obtain ps where ps: "parse_packets (ring_contents (Outgoing P)) = Some ps"
    using i(3,7) by (auto simp: receiver_view_def Let_def)
  have ps': "parse_packets (ring_contents (Outgoing P')) = Some (ps @ (if EFI_ERROR s then [] else [pad_packet p]))"
  proof -
    have "ring_contents (Outgoing P') =
        ring_contents (Outgoing P) @ (if EFI_ERROR s then [] else frame_packet (OutgoingIn P) p)"
      using q by blast
    then show ?thesis using parse_packets_append [OF ps] parse_frame [OF w(1)] by simp
  qed
  have "pk_inv (Q\<lparr>Incoming := Outgoing P'\<rparr>)"
    using i q by (auto simp: pk_inv_def ring_ok_def PkpExpectedInterruptCount_def)
  moreover have "receiver_view (Q\<lparr>Incoming := Outgoing P'\<rparr>)"
    using i q ps' pk_inv_dest(9) [of P'] by (auto simp: receiver_view_def Let_def)
  ultimately show ?thesis
    using snd q i ps ps'
    by (auto simp: channel_send_def ch channel_inv_def channel_room_def channel_queue_def intro!: runs_SomeI)
qed

lemma channel_recv_law:
  assumes inv: "channel_inv n ch" and dbg: "\<not> DBG b"
  shows "runs (channel_recv b ch) (\<lambda>(r, ch'). channel_inv n ch' \<and>
    (case channel_queue ch of [] \<Rightarrow> r = None \<and> channel_queue ch' = []
     | q # qs \<Rightarrow> r = Some q \<and> channel_queue ch' = qs))"
proof -
  obtain P Q where ch: "ch = (P, Q)" by (cases ch)
  have i: "pk_inv P" "pk_inv Q" "Outgoing P = Incoming Q" "unat (DataBytesInRing (Outgoing P)) = n"
    "rcb_In (Control (Outgoing P)) = OutgoingIn P" "sender_view P" "receiver_view Q"
    using inv unfolding channel_inv_def ch prod.case by blast+
  obtain s p Q' where rc: "receive_packet b Q = Some (s, p, Q')" and rd: "received Q (s, p, Q')"
    using receive_packet_spec [OF i(2,7) dbg] by (auto elim!: runsE)
  note q = rd [unfolded received_def, simplified]
  have "pk_inv (P\<lparr>Outgoing := Incoming Q'\<rparr>)"
    using i q by (auto simp: pk_inv_def ring_ok_def PkpExpectedInterruptCount_def)
  moreover have "sender_view (P\<lparr>Outgoing := Incoming Q'\<rparr>)"
  proof -
    have "PkpValidatePointer (DataBytesInRing (Incoming Q')) (rcb_Out (Control (Incoming Q')))"
      "PkpValidatePointer (DataBytesInRing (Incoming Q')) (rcb_In (Control (Incoming Q')))"
      "length (Data (Incoming Q')) = unat (DataBytesInRing (Incoming Q'))"
      using q pk_inv_dest(8,12) [of Q'] by (auto simp: receiver_view_def Let_def)
    moreover have "length (ring_contents (Incoming Q)) \<le>
        ring_used (unat (DataBytesInRing (Incoming Q))) (unat (OutgoingIn P)) (unat (OutgoingOutCache P))"
      using i(3,5,6) by (simp add: sender_view_def ring_contents_def Let_def min.coboundedI2)
    ultimately show ?thesis
      using q i(3,5) length_ring_contents [of "Incoming Q'"] by (simp add: sender_view_def Let_def validate_iff)
  qed
  ultimately show ?thesis
    using rc q i
    by (auto simp: channel_recv_def ch channel_inv_def channel_queue_def intro!: runs_SomeI split: list.splits)
qed

interpretation vmbus: packet_channel "channel_inv n" channel_queue
  "channel_send \<lparr>ASSERTS = a, DBG = False, DEBUG_CODE = True\<rparr>" "channel_recv \<lparr>ASSERTS = a, DBG = False, DEBUG_CODE = True\<rparr>"
  "sendable n" pad_packet "channel_room n" for n a
  by unfold_locales (simp_all add: channel_send_law channel_recv_law)

end
