(* ===== verification/Vmbus_Signals.thy ===== *)
theory Vmbus_Signals
  imports Vmbus_Fifo
begin

text \<open>
  Signalling between the endpoints of a ring: when \<^verbatim>\<open>PkCompleteInsertion\<close> and
  \<^verbatim>\<open>PkCompleteRemoval\<close> ask for an interrupt, what a blocked sender leaves in
  the control block, and the treatment of packets larger than the ring.
\<close>

subsection \<open>Signalling\<close>

lemma outgoing_host_quiet [simp]: "outgoing_host (quiet k) c = c"
  by (simp add: outgoing_host_def quiet_def)

lemma if_Some_pair: "(if P then Some (x, c) else Some (y, c)) = Some (if P then x else y, c)"
  by simp

lemma PkCompleteRemoval_signals:
  assumes inv: "pk_inv c" and new: "PkpValidatePointer (DataBytesInRing (Incoming c)) NewOut"
  shows "runs (PkCompleteRemoval b h c NewOut) (\<lambda>(s, c').
    let n = DataBytesInRing (Incoming c);
        r1 = h 1 ((h 0 (Control (Incoming c)))\<lparr>rcb_Out := NewOut\<rparr>);
        r2 = h 2 r1; i = unat (rcb_In r2); pending = rcb_PendingSendSize r1;
        free = (\<lambda>j. unat n - 1 - ring_used (unat n) i (unat j))
    in Control (Incoming c') = r2 \<and> 
       s = (if \<not> PkpValidatePointer n (rcb_In r2) then EFI_RING_CORRUPT_ERROR
            else if pending \<noteq> 0 \<and> unat pending \<le> free NewOut \<and> free (IncomingOut c) < unat pending
                 then EFI_RING_SIGNAL_OPPOSITE_ENDPOINT
            else if NewOut = rcb_In r2 then EFI_RING_NEWLY_EMPTY else EFI_SUCCESS))"
  using inv new pk_inv_dest(2,12) [OF inv]
  unfolding PkCompleteRemoval_def if_Some_pair
  by (intro run_intros runs_FreeBytes; simp split del: if_split)
    (simp_all only: Let_def word_less_nat_alt word_le_nat_alt simp_thms if_cancel refl split del: if_split)

lemma PkCompleteInsertion_signals:
  assumes "PkpValidatePointer (DataBytesInRing (Outgoing c)) NewIn"
  shows "runs (PkCompleteInsertion b h c NewIn) (\<lambda>(s, c').
    let r1 = h 0 ((Control (Outgoing c))\<lparr>rcb_In := NewIn\<rparr>); r2 = h 1 r1;
        valid = PkpValidatePointer (DataBytesInRing (Outgoing c)) (rcb_Out r2);
        wasEmpty = (OutgoingIn c = rcb_Out r2); masked = (rcb_InterruptMask r1 \<noteq> 0)
    in Control (Outgoing c') = r2 \<and> OutgoingIn c' = NewIn \<and>
       s = (if \<not> valid then EFI_RING_CORRUPT_ERROR
            else if wasEmpty \<and> \<not> masked then EFI_RING_SIGNAL_OPPOSITE_ENDPOINT else EFI_SUCCESS) \<and>
       StaticInterruptMaskSkips c' =
         StaticInterruptMaskSkips c + (if valid \<and> wasEmpty \<and> masked then 1 else 0))"
  using assms unfolding PkCompleteInsertion_def
  by (intro run_intros) (simp_all add: Let_def outgoing_host_def)

text \<open>A receiver that gives back space in several steps.\<close>

fun removals :: "build \<Rightarrow> packet_lib_context \<Rightarrow> u32 list \<Rightarrow> (efi_status list \<times> packet_lib_context) option" where
  "removals b c [] = Some ([], c)"
| "removals b c (off # offs) = do {
     (s, c) \<leftarrow> PkCompleteRemoval b quiet c off;
     (ss, c) \<leftarrow> removals b c offs;
     Some (s # ss, c)
   }"

lemma removals_run:
  "pk_inv c \<Longrightarrow> \<forall>off \<in> set offs. PkpValidatePointer (DataBytesInRing (Incoming c)) off \<Longrightarrow>
     runs (removals b c offs) (\<lambda>_. True)"
proof (induction offs arbitrary: c)
  case Nil
  then show ?case by (simp add: runs_SomeI)
next
  case (Cons off offs)
  have v: "PkpValidatePointer (DataBytesInRing (Incoming c)) off" using Cons.prems(2) by simp
  obtain s c' where rm: "PkCompleteRemoval b quiet c off = Some (s, c')" "pk_inv c'" "recv_frame c c'"
    using PkCompleteRemoval_spec [OF Cons.prems(1) v, of b quiet] by (auto elim!: runsE)
  have "runs (removals b c' offs) (\<lambda>_. True)"
    using rm Cons.prems(2) by (intro Cons.IH) (auto simp: recv_frame_def)
  then show ?case using rm(1) by (auto elim!: runsE intro!: runs_SomeI)
qed

lemma removals_signal:
  fixes c :: packet_lib_context
  assumes "pk_inv c" "\<forall>off \<in> set offs. PkpValidatePointer (DataBytesInRing (Incoming c)) off" "offs \<noteq> []"
    and "PkpValidatePointer (DataBytesInRing (Incoming c)) (rcb_In (Control (Incoming c)))"
    and "unat (DataBytesInRing (Incoming c)) - 1 - ring_used (unat (DataBytesInRing (Incoming c)))
        (unat (rcb_In (Control (Incoming c)))) (unat (IncomingOut c)) <
      unat (rcb_PendingSendSize (Control (Incoming c)))"
    and "unat (rcb_PendingSendSize (Control (Incoming c))) \<le>
      unat (DataBytesInRing (Incoming c)) - 1 - ring_used (unat (DataBytesInRing (Incoming c)))
        (unat (rcb_In (Control (Incoming c)))) (unat (last offs))"
  shows "runs (removals b c offs) (\<lambda>(ss, c'). EFI_RING_SIGNAL_OPPOSITE_ENDPOINT \<in> set ss)"
  using assms
proof (induction offs arbitrary: c)
  case Nil
  then show ?case by simp
next
  case (Cons off offs)
  let ?n = "DataBytesInRing (Incoming c)" and ?r = "Control (Incoming c)"
  let ?free = "\<lambda>j. unat ?n - 1 - ring_used (unat ?n) (unat (rcb_In ?r)) (unat j)"
  have v: "PkpValidatePointer ?n off" using Cons.prems(2) by simp
  have pos: "rcb_PendingSendSize ?r \<noteq> 0" using Cons.prems(5) by auto
  have "runs (PkCompleteRemoval b quiet c off) (\<lambda>(s, c'). pk_inv c' \<and> recv_frame c c' \<and> IncomingOut c' = off \<and>
      Control (Incoming c') = ?r\<lparr>rcb_Out := off\<rparr> \<and>
      (unat (rcb_PendingSendSize ?r) \<le> ?free off \<longrightarrow> s = EFI_RING_SIGNAL_OPPOSITE_ENDPOINT))"
    using PkCompleteRemoval_spec [OF Cons.prems(1) v, of b quiet] Cons.prems(4,5) pos
      PkCompleteRemoval_signals [OF Cons.prems(1) v, of b quiet]
    by (auto simp: runs_def quiet_def Let_def)
  then obtain s c' where rm: "PkCompleteRemoval b quiet c off = Some (s, c')" and c': "pk_inv c'" "recv_frame c c'"
      "IncomingOut c' = off" "Control (Incoming c') = ?r\<lparr>rcb_Out := off\<rparr>"
    and sig: "unat (rcb_PendingSendSize ?r) \<le> ?free off \<Longrightarrow> s = EFI_RING_SIGNAL_OPPOSITE_ENDPOINT"
    by (auto elim!: runsE)
  have n: "DataBytesInRing (Incoming c') = ?n" using c'(2) by (simp add: recv_frame_def)
  have total: "runs (removals b c' offs) (\<lambda>_. True)"
    using Cons.prems(2) c'(1) n by (intro removals_run) auto
  show ?case
  proof (cases "unat (rcb_PendingSendSize ?r) \<le> ?free off")
    case True
    with sig total rm show ?thesis by (auto simp: runs_def)
  next
    case False
    then have "offs \<noteq> []" using Cons.prems(6) by auto
    then have "runs (removals b c' offs) (\<lambda>(ss, c'). EFI_RING_SIGNAL_OPPOSITE_ENDPOINT \<in> set ss)"
      using Cons.prems(2,4,6) c' n False by (intro Cons.IH) auto
    then show ?thesis using rm by (auto elim!: runsE intro!: runs_SomeI)
  qed
qed

lemma PkpCheckSend_blocked:
  assumes inv: "pk_inv c"
  shows "runs (PkpCheckSendBufferFreeBytes b quiet c t (OutgoingIn c) (OutgoingOutCache c) (DataBytesInRing (Outgoing c)))
    (\<lambda>(s, c'). s = EFI_BUFFER_TOO_SMALL \<longrightarrow> rcb_PendingSendSize (Control (Outgoing c')) = t)"
  using inv pk_inv_dest(1,9,10) [OF inv]
  unfolding PkpCheckSendBufferFreeBytes_def
  by (intro run_intros runs_FreeBytes runs_DataAvailable)
    (simp_all add: quiet_def unat_eq_zero split del: if_split del: not_le linorder_not_le)

lemma PkGetSendBuffer_blocked:
  assumes inv: "pk_inv c" and view: "sender_view c"
    and size: "0 < unat Size" "unat Size \<le> unat (DataBytesInRing (Outgoing c))"
    and eq: "PkGetSendBuffer b quiet c (OutgoingIn c) Size = Some (EFI_BUFFER_TOO_SMALL, c1, off, buf)"
  shows "unat (rcb_PendingSendSize (Control (Outgoing c1))) = align8 (unat Size) + 8"
proof -
  let ?t = "ucast (ALIGN_UP Size) + sizeof_PREVIOUS_PACKET_OFFSET"
  have A: "unat (ucast (ALIGN_UP Size) :: u32) = align8 (unat Size)"
    using size(2) pk_inv_dest(1) [OF inv] by (intro unat_packet_size) linarith
  have "align8 (unat Size) \<le> unat (DataBytesInRing (Outgoing c))"
    using size(2) pk_inv_dest(5) [OF inv] by (simp add: align8_le_iff)
  then have t: "unat ?t = align8 (unat Size) + 8"
    using A pk_inv_dest(1) [OF inv] by (subst unat_add32) (simp_all add: sizeof_PREVIOUS_PACKET_OFFSET_def)
  have "PkpCheckSendBufferFreeBytes b quiet c ?t (OutgoingIn c) (OutgoingOutCache c)
      (DataBytesInRing (Outgoing c)) = Some (EFI_BUFFER_TOO_SMALL, c1)"
    using eq by (auto simp: PkGetSendBuffer_def Let_def bind_eq_Some_conv split: if_splits)
  with runs_result [OF PkpCheckSend_blocked [OF inv]] have "rcb_PendingSendSize (Control (Outgoing c1)) = ?t"
    by fastforce
  then show ?thesis using t by simp
qed

lemma PkSendPacketRaw_too_large:
  assumes inv: "pk_inv c" and n: "unat (DataBytesInRing (Outgoing c)) < unat Size" "unat Size \<le> 4294967280"
    and rel: "\<not> ASSERTS b" and out: "\<And>k r. PkpValidatePointer (DataBytesInRing (Outgoing c)) (rcb_Out (h k r))"
  shows "\<exists>c'. PkSendPacketRaw b h h' c p Size = Some (EFI_INVALID_PARAMETER, c') \<and>
    Data (Outgoing c') = Data (Outgoing c) \<and> OutgoingIn c' = OutgoingIn c \<and> pk_inv c'"
proof -
  let ?n = "DataBytesInRing (Outgoing c)"
  let ?t = "ucast (ALIGN_UP Size) + sizeof_PREVIOUS_PACKET_OFFSET :: u32"
  have A: "unat (ucast (ALIGN_UP Size) :: u32) = align8 (unat Size)"
    using n(2) by (rule unat_packet_size)
  have t: "unat ?n < unat ?t" 
    using A n align8_ge [of "unat Size"] align8_less [of "unat Size"]
    by (subst unat_add32) (simp_all add: sizeof_PREVIOUS_PACKET_OFFSET_def)
  have "runs (PkpCheckSendBufferFreeBytes b h c ?t (OutgoingIn c) (OutgoingOutCache c) ?n)
    (\<lambda>(s, c'). s = EFI_INVALID_PARAMETER)"
    using inv pk_inv_dest(1,9,10) [OF inv] t out
    unfolding PkpCheckSendBufferFreeBytes_def
    by (intro run_intros runs_FreeBytes runs_DataAvailable)
      (simp_all add: word_less_nat_alt word_le_nat_alt not_le split del: if_split)
  then obtain c' where chk: "PkpCheckSendBufferFreeBytes b h c ?t (OutgoingIn c) (OutgoingOutCache c) ?n =
      Some (EFI_INVALID_PARAMETER, c')" by (auto elim!: runsE)
  have "check_post c ?t (OutgoingIn c) (EFI_INVALID_PARAMETER, c')"
    using runs_result [OF PkpCheckSendBufferFreeBytes_spec [OF inv pk_inv_dest(9) [OF inv]] chk] .
  then show ?thesis
    using rel chk
    by (auto simp: PkSendPacketRaw_def PkGetSendBuffer_def PkModuloReduce_def ASSERT_def Let_def
        check_post_def send_frame_def)
qed

lemma PkSendPacketRaw_too_large_asserts:
  assumes inv: "pk_inv c" and dbg: "ASSERTS b"
    and n: "2 * unat (DataBytesInRing (Outgoing c)) \<le> unat (OutgoingIn c) + align8 (unat Size) - 8"
      "unat (OutgoingIn c) + unat Size \<le> 4294967280"
  shows "PkSendPacketRaw b h h' c p Size = None"
proof -
  let ?n = "DataBytesInRing (Outgoing c)" and ?i = "OutgoingIn c"
  have "unat Size \<le> 4294967280" using n(2) by linarith
  then have A: "unat (ucast (ALIGN_UP Size) :: u32) = align8 (unat Size)" by (rule unat_packet_size)
  have "unat (?i + ucast (ALIGN_UP Size)) = unat ?i + align8 (unat Size)"
    using n(2) A align8_less [of "unat Size"] by (subst unat_add32) simp_all
  moreover have "8 \<le> unat ?i + align8 (unat Size)" using n(1) pk_inv_dest(3) [OF inv] by linarith
  ultimately have v: "unat (?i + ucast (ALIGN_UP Size) - 8) = unat ?i + align8 (unat Size) - 8"
    by (simp add: unat_diff_le word_le_nat_alt)
  have "PkModuloReduce b (?i + ucast (ALIGN_UP Size) - 8) ?n = None"
    using v n(1) dbg by (simp add: PkModuloReduce_def word_le_nat_alt word_less_nat_alt unat_diff_le ASSERT_def)
  then show ?thesis by (simp add: PkSendPacketRaw_def PkGetSendBuffer_def Let_def ASSERT_def)
qed

end
