(* ===== verification/Vmbus_Properties.thy ===== *)
theory Vmbus_Properties
  imports Vmbus_Signals
begin

text \<open>
  The properties of the VMBus packet ring, each with an instance at a concrete input.
\<close>

subsection \<open>Initial endpoints\<close>

definition idle_ring :: "nat \<Rightarrow> packet_ring_context" where
  "idle_ring n = \<lparr>Control = \<lparr>rcb_In = 0, rcb_Out = 0, rcb_InterruptMask = 0, rcb_PendingSendSize = 0,
     rcb_FeatureBits = 0\<rparr>, Data = replicate n 0, DataBytesInRing = of_nat n\<rparr>"

definition idle_endpoint :: "nat \<Rightarrow> packet_lib_context" where
  "idle_endpoint n = \<lparr>Outgoing = idle_ring n, Incoming = idle_ring n, IncomingInCache = 0,
     IncomingOut = 0, EmptyRingBufferCount = 0, NonspuriousInterruptCount = 0, OutgoingIn = 0,
     OutgoingOutCache = 0, PendingSendSize = 0, FullRingBufferCount = 0, StaticInterruptMaskSkips = 0\<rparr>"

lemma ring_contents_empty:
  "rcb_In (Control r) = rcb_Out (Control r) \<Longrightarrow> ring_contents r = []"
  by (simp add: ring_contents_def)

lemma idle_endpoint_ok:
  assumes "8 dvd n" "0 < n" "n \<le> 2147483648"
  shows "pk_inv (idle_endpoint n)" "sender_view (idle_endpoint n)" "receiver_view (idle_endpoint n)"
    "channel_inv n (idle_endpoint n, idle_endpoint n)"
    "channel_queue (idle_endpoint n, idle_endpoint n) = []"
proof -
  have n: "unat (of_nat n :: u32) = n" using assms by (simp add: unat_of_nat32)
  show p: "pk_inv (idle_endpoint n)"
    using assms n by (simp add: pk_inv_def ring_ok_def idle_endpoint_def idle_ring_def validate_iff
        PkpExpectedInterruptCount_def)
  show s: "sender_view (idle_endpoint n)"
    using assms n by (simp add: sender_view_def idle_endpoint_def idle_ring_def validate_iff)
  show r: "receiver_view (idle_endpoint n)"
    using assms n by (simp add: receiver_view_def ring_contents_empty idle_endpoint_def idle_ring_def validate_iff)
  show "channel_inv n (idle_endpoint n, idle_endpoint n)"
    using p s r n by (simp add: channel_inv_def idle_endpoint_def idle_ring_def)
  show "channel_queue (idle_endpoint n, idle_endpoint n) = []"
    by (simp add: channel_queue_def ring_contents_empty idle_endpoint_def idle_ring_def)
qed

text \<open>A packet of 16 bytes: type 6, no data, length 2 in units of 8 bytes.\<close>

definition small_packet :: "u8 list" where
  "small_packet = [6, 0, 2, 0, 2, 0, 0, 0, 1, 2, 3, 4, 5, 6, 7, 8]"

lemma small_packet_ok: "wf_packet small_packet" "length small_packet = 16" "sendable 64 small_packet"
  by (simp_all add: small_packet_def wf_packet_def sendable_def announced_def le16_def align8_def)

lemma pad_small_packet: "pad_packet small_packet = small_packet"
  by (simp add: pad_packet_def small_packet_ok align8_def)

text \<open>The two endpoints after one send.\<close>

definition loaded_channel :: endpoints where
  "loaded_channel = snd (the (channel_send \<lparr>ASSERTS = True, DBG = False, DEBUG_CODE = True\<rparr> small_packet
     (idle_endpoint 64, idle_endpoint 64)))"

lemma loaded_channel_ok: "channel_inv 64 loaded_channel" "channel_queue loaded_channel = [small_packet]"
proof -
  note idle = idle_endpoint_ok [of 64, simplified]
  have room: "channel_room 64 small_packet (idle_endpoint 64, idle_endpoint 64)"
    by (simp add: channel_room_def ring_contents_empty idle_endpoint_def idle_ring_def small_packet_ok align8_def)
  have "channel_inv 64 loaded_channel \<and> channel_queue loaded_channel = [small_packet]"
    using channel_send_law [OF idle(4) small_packet_ok(3), of "\<lparr>ASSERTS = True, DBG = False, DEBUG_CODE = True\<rparr>"] room
    by (auto simp: loaded_channel_def idle(5) pad_small_packet elim!: runsE)
  then show "channel_inv 64 loaded_channel" "channel_queue loaded_channel = [small_packet]" by simp_all
qed

subsection \<open>First in, first out\<close>

text \<open>
  C5: For every interleaving of sends and receives of the two endpoints of a ring, no
  operation faults and no assertion fails, and the packets received so far followed by
  those still in the ring are the packets that were in the ring at the start followed by
  those accepted, in order and padded to a multiple of 8 bytes.
\<close>

theorem vmbus_ring_fifo:
  assumes "channel_inv n ch" and "\<forall>p. Send p \<in> set ops \<longrightarrow> sendable n p"
  shows "runs (schedule (channel_send \<lparr>ASSERTS = a, DBG = False, DEBUG_CODE = True\<rparr>) (channel_recv \<lparr>ASSERTS = a, DBG = False, DEBUG_CODE = True\<rparr>) ops ch)
    (\<lambda>(acc, rcv, ch'). channel_inv n ch' \<and> rcv @ channel_queue ch' = channel_queue ch @ map pad_packet acc)"
  using assms by (intro vmbus.schedule_fifo) auto

theorem vmbus_ring_fifo_witness:
  "runs (schedule (channel_send \<lparr>ASSERTS = True, DBG = False, DEBUG_CODE = True\<rparr>) (channel_recv \<lparr>ASSERTS = True, DBG = False, DEBUG_CODE = True\<rparr>)
       [Send small_packet, Receive, Send small_packet] (idle_endpoint 64, idle_endpoint 64))
    (\<lambda>(acc, rcv, ch'). channel_inv 64 ch' \<and> rcv @ channel_queue ch' = [] @ map pad_packet acc)"
  using vmbus_ring_fifo [of 64 "(idle_endpoint 64, idle_endpoint 64)"
      "[Send small_packet, Receive, Send small_packet]" True]
    idle_endpoint_ok [of 64] small_packet_ok by simp

text \<open>
  C32: A receiver that keeps receiving gets every packet in the ring, in order, and leaves
  the ring empty.
\<close>

theorem vmbus_ring_drains:
  assumes "channel_inv n ch"
  shows "runs (schedule (channel_send \<lparr>ASSERTS = a, DBG = False, DEBUG_CODE = True\<rparr>) (channel_recv \<lparr>ASSERTS = a, DBG = False, DEBUG_CODE = True\<rparr>)
       (replicate (length (channel_queue ch)) Receive) ch)
    (\<lambda>(acc, rcv, ch'). rcv = channel_queue ch \<and> channel_queue ch' = [])"
  by (rule runs_mono [OF vmbus.drain [OF assms refl]]) auto

theorem vmbus_ring_drains_witness:
  "runs (schedule (channel_send \<lparr>ASSERTS = True, DBG = False, DEBUG_CODE = True\<rparr>) (channel_recv \<lparr>ASSERTS = True, DBG = False, DEBUG_CODE = True\<rparr>)
       [Receive] loaded_channel) (\<lambda>(acc, rcv, ch'). rcv = [small_packet] \<and> channel_queue ch' = [])"
  using vmbus_ring_drains [of 64 loaded_channel True] loaded_channel_ok by simp

text \<open>
  C33: A send is accepted exactly when the padded packet and its 8-byte trailer fit strictly
  below the ring size next to the unread bytes.
\<close>

theorem vmbus_send_accepted_iff_room:
  assumes "channel_inv n ch" "sendable n p"
  shows "runs (channel_send b p ch)
    (\<lambda>(ok, ch'). ok \<longleftrightarrow> length (ring_contents (Outgoing (fst ch))) + align8 (length p) + 8 < n)"
  by (rule runs_mono [OF channel_send_law [OF assms]]) (auto simp: channel_room_def)

theorem vmbus_send_accepted_iff_room_witness:
  "runs (channel_send \<lparr>ASSERTS = True, DBG = False, DEBUG_CODE = True\<rparr> small_packet (idle_endpoint 64, idle_endpoint 64))
    (\<lambda>(ok, ch'). ok \<longleftrightarrow> length (ring_contents (idle_ring 64)) + align8 16 + 8 < 64)"
  using vmbus_send_accepted_iff_room [of 64 "(idle_endpoint 64, idle_endpoint 64)" small_packet]
    idle_endpoint_ok [of 64] small_packet_ok by (simp add: idle_endpoint_def)

subsection \<open>Safety against an arbitrary opposite endpoint\<close>

text \<open>
  C11: Whatever the opposite endpoint writes into the control block while the code runs,
  sending a packet that is not larger than the ring never accesses memory outside the ring
  or the packet and never fails an assertion; it keeps the invariant, and on success the
  framed packet stands at the old in pointer and the rest of the ring is unchanged.
\<close>

theorem send_safe:
  assumes "pk_inv c" and "0 < length p" "unat Size = length p" "length p \<le> unat (DataBytesInRing (Outgoing c))"
  shows "runs (PkSendPacketRaw b h h' c p Size) (send_post c p)"
  using assms by (rule PkSendPacketRaw_spec)

theorem send_safe_witness:
  "runs (PkSendPacketRaw \<lparr>ASSERTS = True, DBG = False, DEBUG_CODE = True\<rparr> (\<lambda>k r. r\<lparr>rcb_Out := 13\<rparr>)
     (\<lambda>k r. r\<lparr>rcb_Out := 4294967295\<rparr>) (idle_endpoint 64) small_packet 16) (send_post (idle_endpoint 64) small_packet)"
  using send_safe [of "idle_endpoint 64" small_packet 16] idle_endpoint_ok [of 64] small_packet_ok
  by (simp add: idle_endpoint_def idle_ring_def)

text \<open>
  C12: Whatever the opposite endpoint writes into the control block, receiving never reads
  outside the ring and never fails an assertion. A packet that is returned lies inside
  the data published by the in pointer, and copying it out yields exactly its bytes in ring
  order.
\<close>

theorem receive_safe:
  assumes "pk_inv c" "PkpValidatePointer (DataBytesInRing (Incoming c)) Offset"
  shows "runs (PkGetReceiveBuffer b h c Offset) (\<lambda>(s, c', off', buf, len).
    receive_post c Offset (s, c', off', buf, len) \<and>
    (s = EFI_SUCCESS \<longrightarrow> PkReadPacketSingleMapped b c' len buf =
       Some (take (unat len) (rotate (unat Offset) (Data (Incoming c))))))"
proof (rule runs_mono [OF PkGetReceiveBuffer_spec [OF assms]])
  fix r
  assume r: "receive_post c Offset r"
  obtain s c' off' buf len where rr: "r = (s, c', off', buf, len)" by (cases r)
  note p = r [unfolded rr]
  have "PkReadPacketSingleMapped b c' len buf = Some (take (unat len) (rotate (unat Offset) (Data (Incoming c))))"
    if "s = EFI_SUCCESS"
  proof -
    have c': "pk_inv c'" "DataBytesInRing (Incoming c') = DataBytesInRing (Incoming c)"
      "Data (Incoming c') = Data (Incoming c)" "buf = Offset"
      and f: "unat len + 8 \<le> ring_used (unat (DataBytesInRing (Incoming c))) (unat (IncomingInCache c')) (unat Offset)"
      using p that unfolding receive_post_def recv_frame_def Let_def by simp_all metis+
    have "ring_used (unat (DataBytesInRing (Incoming c))) (unat (IncomingInCache c')) (unat Offset)
        < unat (DataBytesInRing (Incoming c))"
      using pk_inv_dest(11) [OF c'(1)] c'(2) assms(2) by (auto simp: validate_iff intro: ring_used_less)
    then show ?thesis
      using PkReadPacketSingleMapped_spec [OF c'(1), of Offset len b] c' f assms(2) by simp
  qed
  with p show "case r of (s, c', off', buf, len) \<Rightarrow> receive_post c Offset (s, c', off', buf, len) \<and>
    (s = EFI_SUCCESS \<longrightarrow> PkReadPacketSingleMapped b c' len buf =
       Some (take (unat len) (rotate (unat Offset) (Data (Incoming c)))))" unfolding rr by simp
qed

theorem receive_safe_witness:
  "runs (PkGetReceiveBuffer \<lparr>ASSERTS = True, DBG = True, DEBUG_CODE = True\<rparr> (\<lambda>k r. r\<lparr>rcb_In := 56\<rparr>) (idle_endpoint 64) 0)
    (\<lambda>(s, c', off', buf, len). receive_post (idle_endpoint 64) 0 (s, c', off', buf, len) \<and>
    (s = EFI_SUCCESS \<longrightarrow> PkReadPacketSingleMapped \<lparr>ASSERTS = True, DBG = True, DEBUG_CODE = True\<rparr> c' len buf =
       Some (take (unat len) (rotate (unat (0 :: u32)) (Data (Incoming (idle_endpoint 64)))))))"
  using receive_safe [of "idle_endpoint 64" 0 "\<lparr>ASSERTS = True, DBG = True, DEBUG_CODE = True\<rparr>" "\<lambda>k r. r\<lparr>rcb_In := 56\<rparr>"]
    idle_endpoint_ok [of 64] by (simp add: idle_endpoint_def idle_ring_def validate_iff)

text \<open>
  C13: While the opposite endpoint only consumes, a successful send leaves every unread byte
  of the ring as it was and appends the framed packet to the unread bytes; the ring is
  never filled completely.
\<close>

theorem send_keeps_unread_data:
  assumes "pk_inv c" "sender_view c"
    and "0 < length p" "unat Size = length p" "length p \<le> unat (DataBytesInRing (Outgoing c))"
    and "only_consumes (DataBytesInRing (Outgoing c)) (OutgoingIn c) h"
      "only_consumes (DataBytesInRing (Outgoing c)) (OutgoingIn c) h'"
    and "PkSendPacketRaw b h h' c p Size = Some (s, c')" "\<not> EFI_ERROR s"
  shows "let n = unat (DataBytesInRing (Outgoing c)); j = unat (rcb_Out (Control (Outgoing c')));
             u = ring_used n (unat (OutgoingIn c)) j; F = frame_packet (OutgoingIn c) p
         in u + length F < n \<and>
            take (u + length F) (rotate j (Data (Outgoing c'))) = take u (rotate j (Data (Outgoing c))) @ F"
  using PkSendPacketRaw_appends [OF assms] by (simp add: Let_def)

theorem send_keeps_unread_data_witness:
  "\<exists>s c'. PkSendPacketRaw \<lparr>ASSERTS = True, DBG = False, DEBUG_CODE = True\<rparr> quiet quiet (idle_endpoint 64) small_packet 16 = Some (s, c') \<and>
     (let j = unat (rcb_Out (Control (Outgoing c'))); u = ring_used 64 0 j; F = frame_packet 0 small_packet
      in u + length F < 64 \<and> take (u + length F) (rotate j (Data (Outgoing c'))) =
           take u (rotate j (replicate 64 0)) @ F)"
proof -
  note idle = idle_endpoint_ok [of 64, simplified]
  have In: "rcb_In (Control (Outgoing (idle_endpoint 64))) = OutgoingIn (idle_endpoint 64)"
    and n: "unat (DataBytesInRing (Outgoing (idle_endpoint 64))) = 64"
      "unat (OutgoingIn (idle_endpoint 64)) = 0" "Data (Outgoing (idle_endpoint 64)) = replicate 64 0"
      "OutgoingIn (idle_endpoint 64) = 0"
    and e: "ring_contents (Outgoing (idle_endpoint 64)) = []"
    by (simp_all add: idle_endpoint_def idle_ring_def ring_contents_empty)
  have l: "0 < length small_packet" "unat (16 :: u32) = length small_packet"
      "length small_packet \<le> unat (DataBytesInRing (Outgoing (idle_endpoint 64)))"
    using n small_packet_ok by simp_all
  obtain s c' where eq: "PkSendPacketRaw \<lparr>ASSERTS = True, DBG = False, DEBUG_CODE = True\<rparr> quiet quiet (idle_endpoint 64) small_packet 16 = Some (s, c')"
    and ok: "\<not> EFI_ERROR s"
    using PkSendPacketRaw_quiet [OF idle(1,2) In l, of "\<lparr>ASSERTS = True, DBG = False, DEBUG_CODE = True\<rparr>"] n e small_packet_ok(2)
    by (auto simp: sent_def align8_def elim!: runsE)
  show ?thesis
    using send_keeps_unread_data [OF idle(1,2) l only_consumes_quiet only_consumes_quiet eq ok] eq n
    by (simp only: Let_def) blast
qed

subsection \<open>Copying, arithmetic and initialisation\<close>

text \<open>
  C34: A packet written at an offset and read back from the same offset of the same ring is
  the packet, also when it wraps around the end of the ring.
\<close>

theorem write_read_packet:
  assumes "pk_inv c" "PkpValidatePointer (DataBytesInRing (Outgoing c)) Offset"
    and "unat Size = length p" "length p + 8 \<le> unat (DataBytesInRing (Outgoing c))"
  shows "runs (PkWritePacketSingleMapped b c p Size Offset)
    (\<lambda>c'. PkReadPacketSingleMapped b (c'\<lparr>Incoming := Outgoing c', IncomingInCache := 0, IncomingOut := 0\<rparr>)
      Size Offset = Some p)"
proof -
  have "runs (PkWritePacketSingleMapped b c p Size Offset)
    (\<lambda>c'. \<exists>d'. c' = set_outgoing_data d' c \<and> pk_inv c' \<and>
       mem_write (rotate (unat Offset) (Data (Outgoing c))) 0 (take (unat Size) p) = Some (rotate (unat Offset) d'))"
    using assms by (intro PkWritePacketSingleMapped_spec) simp_all
  then show ?thesis
  proof (rule runs_mono, clarify)
    fix d'
    let ?c = "set_outgoing_data d' c"
    let ?q = "?c\<lparr>Incoming := Outgoing ?c, IncomingInCache := 0, IncomingOut := 0\<rparr>"
    assume i: "pk_inv ?c"
      and w: "mem_write (rotate (unat Offset) (Data (Outgoing c))) 0 (take (unat Size) p) = Some (rotate (unat Offset) d')"
    have "pk_inv ?q" using i pk_inv_dest(3) [OF i] by (auto simp: pk_inv_def validate_iff PkpExpectedInterruptCount_def)
    then have "PkReadPacketSingleMapped b ?q Size Offset =
        Some (take (unat Size) (rotate (unat Offset) (Data (Incoming ?q))))"
      using assms by (intro PkReadPacketSingleMapped_spec) simp_all
    moreover have "take (unat Size) (rotate (unat Offset) d') = p"
      using w assms(3) by (simp add: mem_write_Some)
    ultimately show "PkReadPacketSingleMapped b ?q Size Offset = Some p" by simp
  qed
qed

theorem write_read_packet_witness:
  "runs (PkWritePacketSingleMapped \<lparr>ASSERTS = True, DBG = False, DEBUG_CODE = True\<rparr> (idle_endpoint 64) small_packet 16 56)
    (\<lambda>c'. PkReadPacketSingleMapped \<lparr>ASSERTS = True, DBG = False, DEBUG_CODE = True\<rparr>
      (c'\<lparr>Incoming := Outgoing c', IncomingInCache := 0, IncomingOut := 0\<rparr>) 16 56 = Some small_packet)"
  using write_read_packet [of "idle_endpoint 64" 56 16 small_packet "\<lparr>ASSERTS = True, DBG = False, DEBUG_CODE = True\<rparr>"]
    idle_endpoint_ok [of 64] small_packet_ok
  by (simp add: idle_endpoint_def idle_ring_def validate_iff)

text \<open>
  For valid pointers into a ring of at most 2 GB, the 32-bit subtraction with wrap-around
  computes the number of unread bytes, and free and unread bytes always add up to one less
  than the ring size.
\<close>

theorem free_and_available_bytes:
  assumes "unat i < unat n" "unat j < unat n" "unat n \<le> 2147483648"
  shows "\<exists>f u. PkpFreeBytes b n i j = Some f \<and> PkpDataAvailable b n i j = Some u \<and>
    unat f + unat u + 1 = unat n \<and> (unat j + unat u) mod unat n = unat i"
proof -
  let ?u = "ring_used (unat n) (unat i) (unat j)"
  have u: "?u < unat n" using assms by (intro ring_used_less)
  then have "unat (of_nat (unat n - 1 - ?u) :: u32) = unat n - 1 - ?u" "unat (of_nat ?u :: u32) = ?u"
    using assms(3) by (intro unat_of_nat32; linarith)+
  then show ?thesis
    using u assms ring_used_mod [OF assms(1,2)]
    by (intro exI conjI) (rule PkpFreeBytes_eq PkpDataAvailable_eq | simp del: of_nat_diff)+
qed

theorem free_and_available_bytes_witness:
  "\<exists>f u. PkpFreeBytes \<lparr>ASSERTS = True, DBG = False, DEBUG_CODE = True\<rparr> 4096 8 4088 = Some f \<and>
    PkpDataAvailable \<lparr>ASSERTS = True, DBG = False, DEBUG_CODE = True\<rparr> 4096 8 4088 = Some u \<and>
    unat f + unat u + 1 = 4096 \<and> (4088 + unat u) mod 4096 = 8"
  using free_and_available_bytes [of 8 4096 4088 "\<lparr>ASSERTS = True, DBG = False, DEBUG_CODE = True\<rparr>"] by simp

text \<open>
  Initialising over page-sized rings succeeds exactly when the four pointers found in the
  shared control blocks are aligned and inside their rings, and then establishes the
  invariant; otherwise the ring is reported corrupt.
\<close>

theorem ring_initialisation:
  assumes "0 < kin" "kin \<le> 524288" "0 < kout" "kout \<le> 524288"
    and "length inPages = kin * 4096" "length outPages = kout * 4096"
    and "PkInitializeSingleMappedRingBuffer inC inPages (of_nat kin) outC outPages (of_nat kout) = (s, c)"
  shows "if PkpValidatePointer (of_nat kin * 4096) (rcb_In inC) \<and> PkpValidatePointer (of_nat kin * 4096) (rcb_Out inC) \<and>
            PkpValidatePointer (of_nat kout * 4096) (rcb_In outC) \<and> PkpValidatePointer (of_nat kout * 4096) (rcb_Out outC)
         then s = EFI_SUCCESS \<and> pk_inv c \<and> rcb_PendingSendSize (Control (Outgoing c)) = 0 \<and>
              rcb_InterruptMask (Control (Incoming c)) = 0
         else s = EFI_RING_CORRUPT_ERROR"
proof -
  have w: "(of_nat k :: u32) * 4096 = of_nat (k * 4096)" for k by simp
  have u: "unat (of_nat (kin * 4096) :: u32) = kin * 4096" "unat (of_nat (kout * 4096) :: u32) = kout * 4096"
    using assms(2,4) by (intro unat_of_nat32; linarith)+
  show ?thesis
  proof (cases "EFI_ERROR s")
    case True
    then show ?thesis
      using assms(7) by (auto simp: PkInitializeSingleMappedRingBuffer_def PkpInitRingBufferControl_def Let_def split: if_splits)
  next
    case False
    let ?c = "\<lparr>Outgoing = \<lparr>Control = outC, Data = outPages, DataBytesInRing = of_nat kout * 4096\<rparr>,
        Incoming = \<lparr>Control = inC, Data = inPages, DataBytesInRing = of_nat kin * 4096\<rparr>,
        IncomingInCache = 0, IncomingOut = 0, EmptyRingBufferCount = 0,
        NonspuriousInterruptCount = 0, OutgoingIn = 0, OutgoingOutCache = 0,
        PendingSendSize = 0, FullRingBufferCount = 0, StaticInterruptMaskSkips = 0\<rparr>"
    have "pk_inv c"
      using assms u [folded w] False
      by (intro PkpInitRingBufferControl_inv [of ?c s])
        (auto simp: ring_ok_def PkInitializeSingleMappedRingBuffer_def PkpExpectedInterruptCount_def)
    then show ?thesis
      using assms(7) False by (auto simp: PkInitializeSingleMappedRingBuffer_def PkpInitRingBufferControl_def Let_def split: if_splits)
  qed
qed

theorem ring_initialisation_witness:
  "\<exists>s c. PkInitializeSingleMappedRingBuffer (Control (idle_ring 0)) (replicate 4096 0) 1
       (Control (idle_ring 0)) (replicate 8192 0) 2 = (s, c) \<and> s = EFI_SUCCESS \<and> pk_inv c"
proof -
  obtain s c where eq: "PkInitializeSingleMappedRingBuffer (Control (idle_ring 0)) (replicate (1 * 4096) 0) (of_nat 1)
       (Control (idle_ring 0)) (replicate (2 * 4096) 0) (of_nat 2) = (s, c)" by (metis surj_pair)
  from ring_initialisation [OF _ _ _ _ _ _ eq] show ?thesis
    using eq by (simp add: idle_ring_def validate_iff)
qed

subsection \<open>Signalling and blocking\<close>

text \<open>
  Publishing a packet asks for an interrupt exactly when the ring was empty, as the out
  pointer read after the new in pointer was written shows, and the receiver has not
  masked interrupts; a masked signal is counted.
\<close>

theorem insertion_signals_iff_was_empty:
  assumes "PkpValidatePointer (DataBytesInRing (Outgoing c)) NewIn"
  shows "runs (PkCompleteInsertion b h c NewIn) (\<lambda>(s, c').
    let r1 = h 0 ((Control (Outgoing c))\<lparr>rcb_In := NewIn\<rparr>); r2 = h 1 r1;
        valid = PkpValidatePointer (DataBytesInRing (Outgoing c)) (rcb_Out r2);
        wasEmpty = (OutgoingIn c = rcb_Out r2); masked = (rcb_InterruptMask r1 \<noteq> 0)
    in s = (if \<not> valid then EFI_RING_CORRUPT_ERROR
            else if wasEmpty \<and> \<not> masked then EFI_RING_SIGNAL_OPPOSITE_ENDPOINT else EFI_SUCCESS) \<and>
       StaticInterruptMaskSkips c' =
         StaticInterruptMaskSkips c + (if valid \<and> wasEmpty \<and> masked then 1 else 0))"
  by (rule runs_mono [OF PkCompleteInsertion_signals [OF assms]]) (auto simp: Let_def)

theorem insertion_signals_iff_was_empty_witness:
  "runs (PkCompleteInsertion \<lparr>ASSERTS = True, DBG = False, DEBUG_CODE = True\<rparr> quiet (idle_endpoint 64) 24)
     (\<lambda>(s, c'). s = EFI_RING_SIGNAL_OPPOSITE_ENDPOINT)"
  using insertion_signals_iff_was_empty [of "idle_endpoint 64" 24 "\<lparr>ASSERTS = True, DBG = False, DEBUG_CODE = True\<rparr>" quiet]
  by (auto simp: runs_def idle_endpoint_def idle_ring_def validate_iff quiet_def Let_def)

text \<open>
  C14: No wake-up is lost. When a sender was refused for lack of space, and the receiver then
  gives space back in any number of steps until the packet and its trailer fit, one of
  these steps asks to signal the sender.
\<close>

theorem no_lost_wakeup:
  assumes "pk_inv P" "sender_view P" "rcb_In (Control (Outgoing P)) = OutgoingIn P"
    and "0 < unat Size" "unat Size \<le> unat (DataBytesInRing (Outgoing P))"
    and "PkGetSendBuffer b quiet P (OutgoingIn P) Size = Some (EFI_BUFFER_TOO_SMALL, P', off, buf)"
    and "pk_inv Q" "Incoming Q = Outgoing P'" "IncomingOut Q = rcb_Out (Control (Outgoing P'))"
    and "offs \<noteq> []" "list_all (PkpValidatePointer (DataBytesInRing (Outgoing P))) offs"
    and "align8 (unat Size) + 8 + ring_used (unat (DataBytesInRing (Outgoing P))) (unat (OutgoingIn P)) (unat (last offs))
       < unat (DataBytesInRing (Outgoing P))"
  shows "runs (removals b Q offs) (\<lambda>(ss, Q'). EFI_RING_SIGNAL_OPPOSITE_ENDPOINT \<in> set ss)"
proof -
  note q = PkGetSendBuffer_quiet [OF assms(1,2,4,5,6)]
  have "send_buffer_post P (OutgoingIn P) (align8 (unat Size)) (EFI_BUFFER_TOO_SMALL, P', off, buf)"
    using assms(4,5) by (intro runs_result [OF PkGetSendBuffer_spec [OF assms(1) pk_inv_dest(9) [OF assms(1)]] assms(6)]) simp_all
  then have n: "DataBytesInRing (Outgoing P') = DataBytesInRing (Outgoing P)"
    by (simp add: send_buffer_post_def send_frame_def)
  have pend: "unat (rcb_PendingSendSize (Control (Outgoing P'))) = align8 (unat Size) + 8"
    using PkGetSendBuffer_blocked [OF assms(1,2,4,5,6)] .
  show ?thesis
    using q n pend assms pk_inv_dest(9) [OF assms(1)]
    by (intro removals_signal) (auto simp: list_all_iff)
qed

text \<open>A sender with 40 unread bytes in a ring of 64, refused a packet of 16 bytes.\<close>

definition full_sender :: packet_lib_context where
  "full_sender = (idle_endpoint 64)\<lparr>OutgoingIn := 40,
     Outgoing := (idle_ring 64)\<lparr>Control := (Control (idle_ring 64))\<lparr>rcb_In := 40\<rparr>\<rparr>\<rparr>"

definition refused_sender :: packet_lib_context where
  "refused_sender = fst (snd (the (PkGetSendBuffer \<lparr>ASSERTS = True, DBG = False, DEBUG_CODE = True\<rparr> quiet full_sender 40 16)))"

lemma refused_sender_eq:
  "PkGetSendBuffer \<lparr>ASSERTS = True, DBG = False, DEBUG_CODE = True\<rparr> quiet full_sender 40 16 =
     Some (EFI_BUFFER_TOO_SMALL, refused_sender, 40, 0)"
  "Outgoing refused_sender = (Outgoing full_sender)\<lparr>Control :=
     (Control (Outgoing full_sender))\<lparr>rcb_PendingSendSize := 24\<rparr>\<rparr>"
proof -
  have "\<exists>c. PkGetSendBuffer \<lparr>ASSERTS = True, DBG = False, DEBUG_CODE = True\<rparr> quiet full_sender 40 16 = Some (EFI_BUFFER_TOO_SMALL, c, 40, 0) \<and>
    Outgoing c = (Outgoing full_sender)\<lparr>Control := (Control (Outgoing full_sender))\<lparr>rcb_PendingSendSize := 24\<rparr>\<rparr>"
    by (simp add: PkGetSendBuffer_def PkpCheckSendBufferFreeBytes_def PkModuloReduce_def PkpFreeBytes_def
        PkpDataAvailable_def full_sender_def idle_endpoint_def idle_ring_def ALIGN_UP_def ASSERT_def quiet_def
        c_div_def PkpValidatePointer_def sizeof_PREVIOUS_PACKET_OFFSET_def PkpExpectInterrupt_def
        PkpExpectedInterruptCount_def MAXIMUM_EXPECTED_INTERRUPT_COUNT_def outgoing_host_def Let_def)
  then show "PkGetSendBuffer \<lparr>ASSERTS = True, DBG = False, DEBUG_CODE = True\<rparr> quiet full_sender 40 16 =
       Some (EFI_BUFFER_TOO_SMALL, refused_sender, 40, 0)"
    "Outgoing refused_sender = (Outgoing full_sender)\<lparr>Control :=
       (Control (Outgoing full_sender))\<lparr>rcb_PendingSendSize := 24\<rparr>\<rparr>"
    by (auto simp: refused_sender_def)
qed

lemma full_sender_in: "OutgoingIn full_sender = 40"
  by (simp add: full_sender_def)

theorem no_lost_wakeup_witness:
  "runs (removals \<lparr>ASSERTS = True, DBG = False, DEBUG_CODE = True\<rparr> ((idle_endpoint 64)\<lparr>Incoming := Outgoing refused_sender\<rparr>) [8, 24])
     (\<lambda>(ss, Q'). EFI_RING_SIGNAL_OPPOSITE_ENDPOINT \<in> set ss)"
proof (rule no_lost_wakeup [OF _ _ _ _ _ refused_sender_eq(1) [folded full_sender_in]])
qed (simp_all add: refused_sender_eq(2) full_sender_def idle_endpoint_def idle_ring_def validate_iff align8_def ring_used_def
  pk_inv_def ring_ok_def PkpExpectedInterruptCount_def sender_view_def)

text \<open>
  In a build without assertions, a packet larger than the ring is refused with
  \<^verbatim>\<open>EFI_INVALID_PARAMETER\<close>, nothing is written into the ring and the in pointer
  stays.
\<close>

theorem oversized_packet_refused:
  assumes "pk_inv c" "unat (DataBytesInRing (Outgoing c)) < unat Size" "unat Size \<le> 4294967280"
    and "\<not> ASSERTS b" "\<And>k r. PkpValidatePointer (DataBytesInRing (Outgoing c)) (rcb_Out (h k r))"
  shows "\<exists>c'. PkSendPacketRaw b h h' c p Size = Some (EFI_INVALID_PARAMETER, c') \<and>
    Data (Outgoing c') = Data (Outgoing c) \<and> OutgoingIn c' = OutgoingIn c \<and> pk_inv c'"
  using assms by (rule PkSendPacketRaw_too_large)

theorem oversized_packet_refused_witness:
  "\<exists>c'. PkSendPacketRaw \<lparr>ASSERTS = False, DBG = False, DEBUG_CODE = True\<rparr> (\<lambda>k r. r\<lparr>rcb_Out := 8\<rparr>) quiet (idle_endpoint 64) [] 100 =
      Some (EFI_INVALID_PARAMETER, c') \<and>
    Data (Outgoing c') = Data (Outgoing (idle_endpoint 64)) \<and> OutgoingIn c' = OutgoingIn (idle_endpoint 64) \<and> pk_inv c'"
  using oversized_packet_refused [of "idle_endpoint 64" 100 "\<lparr>ASSERTS = False, DBG = False, DEBUG_CODE = True\<rparr>" "\<lambda>k r. r\<lparr>rcb_Out := 8\<rparr>" quiet "[]"]
    idle_endpoint_ok [of 64] by (simp add: idle_endpoint_def idle_ring_def validate_iff)

text \<open>
  C35: In a build with assertions, a packet so large that its last word would lie two ring
  sizes or more from the start of the ring does not get that status: the assertion in
  \<^verbatim>\<open>PkModuloReduce\<close>, which runs before the size check, fails.
\<close>

theorem oversized_packet_asserts:
  assumes "pk_inv c" "ASSERTS b"
    and "2 * unat (DataBytesInRing (Outgoing c)) \<le> unat (OutgoingIn c) + align8 (unat Size) - 8"
      "unat (OutgoingIn c) + unat Size \<le> 4294967280"
  shows "PkSendPacketRaw b h h' c p Size = None"
  using assms by (rule PkSendPacketRaw_too_large_asserts)

theorem oversized_packet_asserts_witness:
  "PkSendPacketRaw \<lparr>ASSERTS = True, DBG = False, DEBUG_CODE = True\<rparr> quiet quiet (idle_endpoint 64) [] 200 = None"
  using oversized_packet_asserts [of "idle_endpoint 64" "\<lparr>ASSERTS = True, DBG = False, DEBUG_CODE = True\<rparr>" 200 quiet quiet "[]"]
    idle_endpoint_ok [of 64] by (simp add: idle_endpoint_def idle_ring_def align8_def)
end
