(* ===== verification/Mbor.thy ===== *)
theory Mbor
  imports Msvm_Prelude
begin

text \<open>
  The MBOR encoder and decoder of \<^verbatim>\<open>MsvmPkg/AziHsmDxe/AziHsmMbor.c\<close>.

  A pointer argument is an option, \<open>None\<close> the null pointer: an encoder or decoder object, a
  byte region, or the variable an output is stored into (\<open>Some\<close> of its contents, returned
  updated). The byte swapping functions belong to the platform's base library and are a
  parameter, a \<open>base_lib\<close>; \<open>swaps_bytes\<close> says what their documentation promises.
\<close>

subsection \<open>Byte order\<close>

record base_lib =
  SwapBytes16 :: "u16 \<Rightarrow> u16"
  SwapBytes32 :: "u32 \<Rightarrow> u32"
  SwapBytes64 :: "u64 \<Rightarrow> u64"

definition swaps_bytes :: "base_lib \<Rightarrow> bool" where
  "swaps_bytes L \<longleftrightarrow>
     (\<forall>x. le_bytes 2 (SwapBytes16 L x) = rev (le_bytes 2 x)) \<and>
     (\<forall>x. le_bytes 4 (SwapBytes32 L x) = rev (le_bytes 4 x)) \<and>
     (\<forall>x. le_bytes 8 (SwapBytes64 L x) = rev (le_bytes 8 x))"

text \<open>X64 and AArch64 are little-endian, so all six conversions swap.\<close>

definition ConvertToBigEndian16 :: "base_lib \<Rightarrow> u16 \<Rightarrow> u16" where
  "ConvertToBigEndian16 L Value = SwapBytes16 L Value"

definition ConvertToBigEndian32 :: "base_lib \<Rightarrow> u32 \<Rightarrow> u32" where
  "ConvertToBigEndian32 L Value = SwapBytes32 L Value"

definition ConvertToBigEndian64 :: "base_lib \<Rightarrow> u64 \<Rightarrow> u64" where
  "ConvertToBigEndian64 L Value = SwapBytes64 L Value"

definition ConvertToLittleEndian16 :: "base_lib \<Rightarrow> u16 \<Rightarrow> u16" where
  "ConvertToLittleEndian16 L Value = SwapBytes16 L Value"

definition ConvertToLittleEndian32 :: "base_lib \<Rightarrow> u32 \<Rightarrow> u32" where
  "ConvertToLittleEndian32 L Value = SwapBytes32 L Value"

definition ConvertToLittleEndian64 :: "base_lib \<Rightarrow> u64 \<Rightarrow> u64" where
  "ConvertToLittleEndian64 L Value = SwapBytes64 L Value"

subsection \<open>Markers\<close>

definition MBOR_U8_MARKER :: u8 where "MBOR_U8_MARKER = 0x18 OR 0x00"
definition MBOR_U16_MARKER :: u8 where "MBOR_U16_MARKER = 0x18 OR 0x01"
definition MBOR_U32_MARKER :: u8 where "MBOR_U32_MARKER = 0x18 OR 0x02"
definition MBOR_U64_MARKER :: u8 where "MBOR_U64_MARKER = 0x18 OR 0x03"
definition MBOR_BOOLEAN_FALSE :: u8 where "MBOR_BOOLEAN_FALSE = 0x14"
definition MBOR_BOOLEAN_TRUE :: u8 where "MBOR_BOOLEAN_TRUE = 0x15"
definition MBOR_MAP_MARKER :: u8 where "MBOR_MAP_MARKER = 0xA0"
definition MBOR_MAP_MARKER_MASK :: u8 where "MBOR_MAP_MARKER_MASK = 0xF0"
definition MBOR_MAP_FIELD_MASK :: u8 where "MBOR_MAP_FIELD_MASK = 0x0F"
definition MBOR_BYTES_MARKER :: u8 where "MBOR_BYTES_MARKER = 0x80"
definition MBOR_BYTES_PADDING_MASK :: u8 where "MBOR_BYTES_PADDING_MASK = 0x03"

subsection \<open>Encoder\<close>

record azihsm_mbor_encoder =
  enc_Buffer :: "u8 list option"
  enc_Capacity :: u16
  enc_Position :: u16

type_synonym enc_result = "(efi_status \<times> azihsm_mbor_encoder option) option"

text \<open>
  \<^verbatim>\<open>AZIHSM_MBOR_IS_POSITION_EXCEEDS_CAPACITY\<close>: the position is promoted to
  32 bits before the length is added.
\<close>

definition POSITION_EXCEEDS_CAPACITY :: "u16 \<Rightarrow> u16 \<Rightarrow> u32 \<Rightarrow> bool" where
  "POSITION_EXCEEDS_CAPACITY Position Capacity len \<longleftrightarrow> (ucast Capacity :: u32) < ucast Position + len"

text \<open>\<^verbatim>\<open>CopyMem\<close> into a region; nothing can be copied to the null pointer.\<close>

definition copy_into :: "u8 list option \<Rightarrow> nat \<Rightarrow> u8 list \<Rightarrow> u8 list option option" where
  "copy_into dst off bs = (case dst of
     None \<Rightarrow> if bs = [] then Some None else None
   | Some m \<Rightarrow> map_option Some (mem_write m off bs))"

definition copy_from :: "u8 list option \<Rightarrow> nat \<Rightarrow> nat \<Rightarrow> u8 list option" where
  "copy_from src off len = (case src of
     None \<Rightarrow> if len = 0 then Some [] else None
   | Some m \<Rightarrow> mem_read m off len)"

definition AziHsmMborEncoderInit ::
  "azihsm_mbor_encoder option \<Rightarrow> u8 list option \<Rightarrow> u16 \<Rightarrow> efi_status \<times> azihsm_mbor_encoder option" where
  "AziHsmMborEncoderInit Encoder Buffer Capacity = (case Encoder of
     None \<Rightarrow> (EFI_INVALID_PARAMETER, Encoder)
   | Some e \<Rightarrow>
       if Buffer = None \<or> Capacity = 0 then (EFI_INVALID_PARAMETER, Encoder)
       else if enc_Buffer e \<noteq> None then (EFI_ALREADY_STARTED, Encoder)
       else (EFI_SUCCESS, Some (e\<lparr>enc_Buffer := Buffer, enc_Capacity := Capacity, enc_Position := 0\<rparr>)))"

definition AziHsmMborEncoderReset ::
  "azihsm_mbor_encoder option \<Rightarrow> efi_status \<times> azihsm_mbor_encoder option" where
  "AziHsmMborEncoderReset Encoder = (case Encoder of
     None \<Rightarrow> (EFI_INVALID_PARAMETER, Encoder)
   | Some e \<Rightarrow> (EFI_SUCCESS, Some (e\<lparr>enc_Buffer := None, enc_Capacity := 0, enc_Position := 0\<rparr>)))"

definition AziHsmMborEncoderSkip ::
  "azihsm_mbor_encoder option \<Rightarrow> u16 \<Rightarrow> efi_status \<times> azihsm_mbor_encoder option" where
  "AziHsmMborEncoderSkip Encoder Length = (case Encoder of
     None \<Rightarrow> (EFI_INVALID_PARAMETER, Encoder)
   | Some e \<Rightarrow>
       if POSITION_EXCEEDS_CAPACITY (enc_Position e) (enc_Capacity e) (ucast Length)
       then (EFI_BUFFER_TOO_SMALL, Encoder)
       else (EFI_SUCCESS, Some (e\<lparr>enc_Position := enc_Position e + Length\<rparr>)))"

definition AziHsmMborEncoderEncode ::
  "azihsm_mbor_encoder option \<Rightarrow> u8 list option \<Rightarrow> u16 \<Rightarrow> enc_result" where
  "AziHsmMborEncoderEncode Encoder Buffer Length = (case (Encoder, Buffer) of
     (Some e, Some src) \<Rightarrow>
       if POSITION_EXCEEDS_CAPACITY (enc_Position e) (enc_Capacity e) (ucast Length)
       then Some (EFI_BUFFER_TOO_SMALL, Encoder)
       else do {
         bytes \<leftarrow> mem_read src 0 (unat Length);
         m \<leftarrow> copy_into (enc_Buffer e) (unat (enc_Position e)) bytes;
         Some (EFI_SUCCESS, Some (e\<lparr>enc_Buffer := m, enc_Position := enc_Position e + Length\<rparr>))
       }
   | _ \<Rightarrow> Some (EFI_INVALID_PARAMETER, Encoder))"

definition AziHsmMborEncodeMarker :: "azihsm_mbor_encoder option \<Rightarrow> u8 \<Rightarrow> enc_result" where
  "AziHsmMborEncodeMarker Encoder Marker = (case Encoder of
     None \<Rightarrow> Some (EFI_INVALID_PARAMETER, Encoder)
   | Some e \<Rightarrow>
       (case enc_Buffer e of
          None \<Rightarrow> Some (EFI_INVALID_PARAMETER, Encoder)
        | Some m \<Rightarrow>
            if POSITION_EXCEEDS_CAPACITY (enc_Position e) (enc_Capacity e) 1
            then Some (EFI_BUFFER_TOO_SMALL, Encoder)
            else do {
              m \<leftarrow> mem_write m (unat (enc_Position e)) [Marker];
              Some (EFI_SUCCESS, Some (e\<lparr>enc_Buffer := Some m, enc_Position := enc_Position e + 1\<rparr>))
            }))"

definition AziHsmMborEncodeU8 :: "azihsm_mbor_encoder option \<Rightarrow> u8 \<Rightarrow> enc_result" where
  "AziHsmMborEncodeU8 Encoder Value =
     (if Encoder = None then Some (EFI_INVALID_PARAMETER, Encoder)
      else on_success (AziHsmMborEncodeMarker Encoder MBOR_U8_MARKER) (\<lambda>Encoder.
        AziHsmMborEncoderEncode Encoder (Some (le_bytes 1 Value)) 1))"

definition AziHsmMborEncodeU16 :: "base_lib \<Rightarrow> azihsm_mbor_encoder option \<Rightarrow> u16 \<Rightarrow> enc_result" where
  "AziHsmMborEncodeU16 L Encoder Value =
     (if Encoder = None then Some (EFI_INVALID_PARAMETER, Encoder)
      else on_success (AziHsmMborEncodeMarker Encoder MBOR_U16_MARKER) (\<lambda>Encoder.
        AziHsmMborEncoderEncode Encoder (Some (le_bytes 2 (ConvertToBigEndian16 L Value))) 2))"

definition AziHsmMborEncodeU32 :: "base_lib \<Rightarrow> azihsm_mbor_encoder option \<Rightarrow> u32 \<Rightarrow> enc_result" where
  "AziHsmMborEncodeU32 L Encoder Value =
     (if Encoder = None then Some (EFI_INVALID_PARAMETER, Encoder)
      else on_success (AziHsmMborEncodeMarker Encoder MBOR_U32_MARKER) (\<lambda>Encoder.
        AziHsmMborEncoderEncode Encoder (Some (le_bytes 4 (ConvertToBigEndian32 L Value))) 4))"

definition AziHsmMborEncodeU64 :: "base_lib \<Rightarrow> azihsm_mbor_encoder option \<Rightarrow> u64 \<Rightarrow> enc_result" where
  "AziHsmMborEncodeU64 L Encoder Value =
     (if Encoder = None then Some (EFI_INVALID_PARAMETER, Encoder)
      else on_success (AziHsmMborEncodeMarker Encoder MBOR_U64_MARKER) (\<lambda>Encoder.
        AziHsmMborEncoderEncode Encoder (Some (le_bytes 8 (ConvertToBigEndian64 L Value))) 8))"

definition AziHsmMborEncodeBoolean :: "azihsm_mbor_encoder option \<Rightarrow> bool \<Rightarrow> enc_result" where
  "AziHsmMborEncodeBoolean Encoder Value =
     (if Encoder = None then Some (EFI_INVALID_PARAMETER, Encoder)
      else AziHsmMborEncodeMarker Encoder (if Value then MBOR_BOOLEAN_TRUE else MBOR_BOOLEAN_FALSE))"

definition AziHsmMborEncodeMap :: "azihsm_mbor_encoder option \<Rightarrow> u8 \<Rightarrow> enc_result" where
  "AziHsmMborEncodeMap Encoder FieldCount =
     (let Marker = MBOR_MAP_MARKER OR (FieldCount AND MBOR_MAP_FIELD_MASK) in
      if MBOR_MAP_FIELD_MASK < FieldCount then Some (EFI_INVALID_PARAMETER, Encoder)
      else if Encoder = None then Some (EFI_INVALID_PARAMETER, Encoder)
      else AziHsmMborEncodeMarker Encoder Marker)"

definition AziHsmMborEncodeBytes ::
  "base_lib \<Rightarrow> azihsm_mbor_encoder option \<Rightarrow> u8 list option \<Rightarrow> u16 \<Rightarrow> enc_result" where
  "AziHsmMborEncodeBytes L Encoder Buffer Length =
     (if Encoder = None \<or> Buffer = None then Some (EFI_INVALID_PARAMETER, Encoder)
      else
        on_success (AziHsmMborEncodeMarker Encoder MBOR_BYTES_MARKER) (\<lambda>Encoder.
        on_success (AziHsmMborEncoderEncode Encoder (Some (le_bytes 2 (ConvertToBigEndian16 L Length))) 2) (\<lambda>Encoder.
        AziHsmMborEncoderEncode Encoder Buffer Length)))"

text \<open>The loop that writes \<open>n\<close> padding bytes.\<close>

primrec encode_padding :: "nat \<Rightarrow> azihsm_mbor_encoder option \<Rightarrow> enc_result" where
  "encode_padding 0 Encoder = Some (EFI_SUCCESS, Encoder)"
| "encode_padding (Suc n) Encoder =
     on_success (AziHsmMborEncoderEncode Encoder (Some (le_bytes 1 (0 :: u8))) 1) (encode_padding n)"

definition AziHsmMborEncodePaddedBytes ::
  "build \<Rightarrow> base_lib \<Rightarrow> azihsm_mbor_encoder option \<Rightarrow> u8 list option \<Rightarrow> u16 \<Rightarrow> enc_result" where
  "AziHsmMborEncodePaddedBytes b L Encoder Buffer Length = (case (Encoder, Buffer) of
     (Some e, Some _) \<Rightarrow>
       let CurrentTotalLength = ucast (enc_Position e) + 1 + 2 :: u32;
           PaddingLength = ucast ((4 - CurrentTotalLength mod 4) mod 4) :: u8;
           Marker = MBOR_BYTES_MARKER OR (PaddingLength AND MBOR_BYTES_PADDING_MASK)
       in if MBOR_BYTES_PADDING_MASK < PaddingLength then Some (EFI_INVALID_PARAMETER, Encoder)
          else
            on_success (AziHsmMborEncodeMarker Encoder Marker) (\<lambda>Encoder.
            on_success (AziHsmMborEncoderEncode Encoder (Some (le_bytes 2 (ConvertToBigEndian16 L Length))) 2) (\<lambda>Encoder.
            on_success (encode_padding (unat PaddingLength) Encoder) (\<lambda>Encoder. do {
              ASSERT b (enc_Position (the Encoder) mod 4 = 0);
              AziHsmMborEncoderEncode Encoder Buffer Length
            })))
   | _ \<Rightarrow> Some (EFI_INVALID_PARAMETER, Encoder))"

subsection \<open>Decoder\<close>

record azihsm_mbor_decoder =
  dec_Buffer :: "u8 list option"
  dec_Capacity :: u16
  dec_Position :: u16

text \<open>
  A decoding operation returns the status, the decoder and the variable it stores into.
\<close>

type_synonym 'v dec_result = "(efi_status \<times> azihsm_mbor_decoder option \<times> 'v option) option"

definition AziHsmMborDecoderInit ::
  "azihsm_mbor_decoder option \<Rightarrow> u8 list option \<Rightarrow> u16 \<Rightarrow> efi_status \<times> azihsm_mbor_decoder option" where
  "AziHsmMborDecoderInit Decoder Buffer Capacity = (case Decoder of
     None \<Rightarrow> (EFI_INVALID_PARAMETER, Decoder)
   | Some d \<Rightarrow>
       if Buffer = None \<or> Capacity = 0 then (EFI_INVALID_PARAMETER, Decoder)
       else if dec_Buffer d \<noteq> None then (EFI_ALREADY_STARTED, Decoder)
       else (EFI_SUCCESS, Some (d\<lparr>dec_Buffer := Buffer, dec_Capacity := Capacity, dec_Position := 0\<rparr>)))"

definition AziHsmMborDecoderReset ::
  "azihsm_mbor_decoder option \<Rightarrow> efi_status \<times> azihsm_mbor_decoder option" where
  "AziHsmMborDecoderReset Decoder = (case Decoder of
     None \<Rightarrow> (EFI_INVALID_PARAMETER, Decoder)
   | Some d \<Rightarrow> (EFI_SUCCESS, Some (d\<lparr>dec_Buffer := None, dec_Capacity := 0, dec_Position := 0\<rparr>)))"

definition AziHsmMborDecoderSkip ::
  "azihsm_mbor_decoder option \<Rightarrow> u16 \<Rightarrow> efi_status \<times> azihsm_mbor_decoder option" where
  "AziHsmMborDecoderSkip Decoder Length = (case Decoder of
     None \<Rightarrow> (EFI_INVALID_PARAMETER, Decoder)
   | Some d \<Rightarrow>
       if dec_Buffer d = None then (EFI_NOT_READY, Decoder)
       else if POSITION_EXCEEDS_CAPACITY (dec_Position d) (dec_Capacity d) (ucast Length)
       then (EFI_BUFFER_TOO_SMALL, Decoder)
       else (EFI_SUCCESS, Some (d\<lparr>dec_Position := dec_Position d + Length\<rparr>)))"

text \<open>Copies \<open>Length\<close> bytes to the start of the region \<open>Buffer\<close>.\<close>

definition AziHsmMborDecoderDecode ::
  "azihsm_mbor_decoder option \<Rightarrow> u8 list option \<Rightarrow> u16 \<Rightarrow> u8 list dec_result" where
  "AziHsmMborDecoderDecode Decoder Buffer Length = (case (Decoder, Buffer) of
     (Some d, Some dst) \<Rightarrow>
       (case dec_Buffer d of
          None \<Rightarrow> Some (EFI_NOT_READY, Decoder, Buffer)
        | Some m \<Rightarrow>
            if POSITION_EXCEEDS_CAPACITY (dec_Position d) (dec_Capacity d) (ucast Length)
            then Some (EFI_BUFFER_TOO_SMALL, Decoder, Buffer)
            else do {
              bytes \<leftarrow> mem_read m (unat (dec_Position d)) (unat Length);
              dst \<leftarrow> mem_write dst 0 bytes;
              Some (EFI_SUCCESS, Some (d\<lparr>dec_Position := dec_Position d + Length\<rparr>), Some dst)
            })
   | _ \<Rightarrow> Some (EFI_INVALID_PARAMETER, Decoder, Buffer))"

text \<open>
  Decoding into a local integer variable of \<open>n\<close> bytes, initially 0.
\<close>

definition decode_variable :: "nat \<Rightarrow> azihsm_mbor_decoder option \<Rightarrow> u8 list dec_result" where
  "decode_variable n Decoder = AziHsmMborDecoderDecode Decoder (Some (replicate n 0)) (of_nat n)"

definition AziHsmMborDecodeU8 :: "azihsm_mbor_decoder option \<Rightarrow> u8 option \<Rightarrow> u8 dec_result" where
  "AziHsmMborDecodeU8 Decoder Value =
     (if Decoder = None \<or> Value = None then Some (EFI_INVALID_PARAMETER, Decoder, Value)
      else do {
        (Status, Decoder, Marker) \<leftarrow> decode_variable 1 Decoder;
        if EFI_ERROR Status then Some (Status, Decoder, Value)
        else if of_le_bytes (the Marker) \<noteq> MBOR_U8_MARKER then Some (EFI_COMPROMISED_DATA, Decoder, Value)
        else do {
          (Status, Decoder, DecodedValue) \<leftarrow> decode_variable 1 Decoder;
          if EFI_ERROR Status then Some (Status, Decoder, Value)
          else Some (Status, Decoder, Some (of_le_bytes (the DecodedValue)))
        }
      })"

definition AziHsmMborDecodeU16 ::
  "base_lib \<Rightarrow> azihsm_mbor_decoder option \<Rightarrow> u16 option \<Rightarrow> u16 dec_result" where
  "AziHsmMborDecodeU16 L Decoder Value =
     (if Decoder = None \<or> Value = None then Some (EFI_INVALID_PARAMETER, Decoder, Value)
      else do {
        (Status, Decoder, Marker) \<leftarrow> decode_variable 1 Decoder;
        if EFI_ERROR Status then Some (Status, Decoder, Value)
        else if of_le_bytes (the Marker) \<noteq> MBOR_U16_MARKER then Some (EFI_COMPROMISED_DATA, Decoder, Value)
        else do {
          (Status, Decoder, DecodedValue) \<leftarrow> decode_variable 2 Decoder;
          if EFI_ERROR Status then Some (Status, Decoder, Value)
          else Some (Status, Decoder, Some (ConvertToLittleEndian16 L (of_le_bytes (the DecodedValue))))
        }
      })"

definition AziHsmMborDecodeU32 ::
  "base_lib \<Rightarrow> azihsm_mbor_decoder option \<Rightarrow> u32 option \<Rightarrow> u32 dec_result" where
  "AziHsmMborDecodeU32 L Decoder Value =
     (if Decoder = None \<or> Value = None then Some (EFI_INVALID_PARAMETER, Decoder, Value)
      else do {
        (Status, Decoder, Marker) \<leftarrow> decode_variable 1 Decoder;
        if EFI_ERROR Status then Some (Status, Decoder, Value)
        else if of_le_bytes (the Marker) \<noteq> MBOR_U32_MARKER then Some (EFI_COMPROMISED_DATA, Decoder, Value)
        else do {
          (Status, Decoder, DecodedValue) \<leftarrow> decode_variable 4 Decoder;
          if EFI_ERROR Status then Some (Status, Decoder, Value)
          else Some (Status, Decoder, Some (ConvertToLittleEndian32 L (of_le_bytes (the DecodedValue))))
        }
      })"

definition AziHsmMborDecodeU64 ::
  "base_lib \<Rightarrow> azihsm_mbor_decoder option \<Rightarrow> u64 option \<Rightarrow> u64 dec_result" where
  "AziHsmMborDecodeU64 L Decoder Value =
     (if Decoder = None \<or> Value = None then Some (EFI_INVALID_PARAMETER, Decoder, Value)
      else do {
        (Status, Decoder, Marker) \<leftarrow> decode_variable 1 Decoder;
        if EFI_ERROR Status then Some (Status, Decoder, Value)
        else if of_le_bytes (the Marker) \<noteq> MBOR_U64_MARKER then Some (EFI_COMPROMISED_DATA, Decoder, Value)
        else do {
          (Status, Decoder, DecodedValue) \<leftarrow> decode_variable 8 Decoder;
          if EFI_ERROR Status then Some (Status, Decoder, Value)
          else Some (Status, Decoder, Some (ConvertToLittleEndian64 L (of_le_bytes (the DecodedValue))))
        }
      })"

definition AziHsmMborDecodeBoolean :: "azihsm_mbor_decoder option \<Rightarrow> bool option \<Rightarrow> bool dec_result" where
  "AziHsmMborDecodeBoolean Decoder Value =
     (if Decoder = None \<or> Value = None then Some (EFI_INVALID_PARAMETER, Decoder, Value)
      else do {
        (Status, Decoder, Marker) \<leftarrow> decode_variable 1 Decoder;
        if EFI_ERROR Status then Some (Status, Decoder, Value)
        else Some (Status, Decoder, Some (of_le_bytes (the Marker) = MBOR_BOOLEAN_TRUE))
      })"

definition AziHsmMborDecodeMap :: "azihsm_mbor_decoder option \<Rightarrow> u8 option \<Rightarrow> u8 dec_result" where
  "AziHsmMborDecodeMap Decoder FieldCount =
     (if Decoder = None \<or> FieldCount = None then Some (EFI_INVALID_PARAMETER, Decoder, FieldCount)
      else do {
        (Status, Decoder, Marker) \<leftarrow> decode_variable 1 Decoder;
        if EFI_ERROR Status then Some (Status, Decoder, FieldCount)
        else if of_le_bytes (the Marker) AND MBOR_MAP_MARKER_MASK \<noteq> MBOR_MAP_MARKER
        then Some (EFI_COMPROMISED_DATA, Decoder, FieldCount)
        else Some (Status, Decoder, Some (of_le_bytes (the Marker) AND MBOR_MAP_FIELD_MASK))
      })"

text \<open>
  Decoding bytes stores into two variables, the destination region and the length. The
  incoming value of the length is not looked at.
\<close>

type_synonym bytes_result =
  "(efi_status \<times> azihsm_mbor_decoder option \<times> u8 list option \<times> u16 option) option"

definition AziHsmMborDecodeBytes ::
  "base_lib \<Rightarrow> azihsm_mbor_decoder option \<Rightarrow> u8 list option \<Rightarrow> u16 option \<Rightarrow> bytes_result" where
  "AziHsmMborDecodeBytes L Decoder Buffer Length =
     (if Decoder = None \<or> Buffer = None \<or> Length = None
      then Some (EFI_INVALID_PARAMETER, Decoder, Buffer, Length)
      else do {
        (Status, Decoder, Marker) \<leftarrow> decode_variable 1 Decoder;
        if EFI_ERROR Status then Some (Status, Decoder, Buffer, Length)
        else if of_le_bytes (the Marker) \<noteq> MBOR_BYTES_MARKER
        then Some (EFI_COMPROMISED_DATA, Decoder, Buffer, Length)
        else do {
          (Status, Decoder, LengthBigEndian) \<leftarrow> decode_variable 2 Decoder;
          if EFI_ERROR Status then Some (Status, Decoder, Buffer, Length)
          else do {
            let len = ConvertToLittleEndian16 L (of_le_bytes (the LengthBigEndian));
            let Length = Some len;
            if POSITION_EXCEEDS_CAPACITY (dec_Position (the Decoder)) (dec_Capacity (the Decoder)) (ucast len)
            then Some (EFI_BUFFER_TOO_SMALL, Decoder, Buffer, Length)
            else do {
              (Status, Decoder, Buffer) \<leftarrow> AziHsmMborDecoderDecode Decoder Buffer len;
              Some (Status, Decoder, Buffer, Length)
            }
          }
        }
      })"

text \<open>The loop that reads \<open>n\<close> padding bytes, which must be zero.\<close>

primrec decode_padding ::
  "nat \<Rightarrow> azihsm_mbor_decoder option \<Rightarrow> (efi_status \<times> azihsm_mbor_decoder option) option" where
  "decode_padding 0 Decoder = Some (EFI_SUCCESS, Decoder)"
| "decode_padding (Suc n) Decoder = do {
     (Status, Decoder, PaddedByte) \<leftarrow> decode_variable 1 Decoder;
     if EFI_ERROR Status then Some (Status, Decoder)
     else if of_le_bytes (the PaddedByte) \<noteq> (0 :: u8) then Some (EFI_COMPROMISED_DATA, Decoder)
     else decode_padding n Decoder
   }"

definition AziHsmMborDecodePaddedBytes ::
  "base_lib \<Rightarrow> azihsm_mbor_decoder option \<Rightarrow> u8 list option \<Rightarrow> u16 option \<Rightarrow> bytes_result" where
  "AziHsmMborDecodePaddedBytes L Decoder Buffer Length =
     (if Decoder = None \<or> Buffer = None \<or> Length = None
      then Some (EFI_INVALID_PARAMETER, Decoder, Buffer, Length)
      else do {
        (Status, Decoder, Marker) \<leftarrow> decode_variable 1 Decoder;
        if EFI_ERROR Status then Some (Status, Decoder, Buffer, Length)
        else if of_le_bytes (the Marker) AND NOT MBOR_BYTES_PADDING_MASK \<noteq> MBOR_BYTES_MARKER
        then Some (EFI_COMPROMISED_DATA, Decoder, Buffer, Length)
        else do {
          let NumberOfPaddedBytes = (of_le_bytes (the Marker) AND MBOR_BYTES_PADDING_MASK :: u8);
          (Status, Decoder, LengthBigEndian) \<leftarrow> decode_variable 2 Decoder;
          if EFI_ERROR Status then Some (Status, Decoder, Buffer, Length)
          else do {
            let len = ConvertToLittleEndian16 L (of_le_bytes (the LengthBigEndian));
            let Length = Some len;
            if POSITION_EXCEEDS_CAPACITY (dec_Position (the Decoder)) (dec_Capacity (the Decoder))
                 (ucast len + ucast NumberOfPaddedBytes)
            then Some (EFI_BUFFER_TOO_SMALL, Decoder, Buffer, Length)
            else do {
              (Status, Decoder) \<leftarrow> decode_padding (unat NumberOfPaddedBytes) Decoder;
              if EFI_ERROR Status then Some (Status, Decoder, Buffer, Length)
              else do {
                (Status, Decoder, Buffer) \<leftarrow> AziHsmMborDecoderDecode Decoder Buffer len;
                Some (Status, Decoder, Buffer, Length)
              }
            }
          }
        }
      })"

definition AziHsmMborPeekByte :: "azihsm_mbor_decoder option \<Rightarrow> u8 option \<Rightarrow> u8 dec_result" where
  "AziHsmMborPeekByte Decoder Value = (case (Decoder, Value) of
     (Some d, Some _) \<Rightarrow>
       if POSITION_EXCEEDS_CAPACITY (dec_Position d) (dec_Capacity d) 1
       then Some (EFI_BUFFER_TOO_SMALL, Decoder, Value)
       else do {
         bytes \<leftarrow> copy_from (dec_Buffer d) (unat (dec_Position d)) 1;
         Some (EFI_SUCCESS, Decoder, Some (hd bytes))
       }
   | _ \<Rightarrow> Some (EFI_INVALID_PARAMETER, Decoder, Value))"

end
