(* ===== verification/Azihsm_Ddi.thy ===== *)
theory Azihsm_Ddi
  imports Mbor
begin

text \<open>
  The messages to and from the hardware security module,
  \<^verbatim>\<open>MsvmPkg/AziHsmDxe/AziHsmDdi.c\<close>: requests are written with the MBOR
  encoder, responses are read with the MBOR decoder. As in \<open>Mbor\<close>, a pointer argument is an
  option. Several functions store through \<^verbatim>\<open>EncodedSize\<close> or read a field of
  the encoder before or without the null check; there the model faults.
\<close>

subsection \<open>Structures and codes\<close>

text \<open>The enumerations are cast from 32-bit values that are not checked, so they are words.\<close>

definition DDI_OP_GET_API_REV :: u32 where "DDI_OP_GET_API_REV = 1002"
definition DDI_OP_INIT_BKS3 :: u32 where "DDI_OP_INIT_BKS3 = 1111"
definition DDI_OP_GET_SEALED_BKS3 :: u32 where "DDI_OP_GET_SEALED_BKS3 = 1112"
definition DDI_OP_SET_SEALED_BKS3 :: u32 where "DDI_OP_SET_SEALED_BKS3 = 1113"

definition DDI_STATUS_SUCCESS :: u32 where "DDI_STATUS_SUCCESS = 0"
definition DDI_STATUS_INVALID_ARG :: u32 where "DDI_STATUS_INVALID_ARG = 134217731"
definition DDI_STATUS_INTERNAL_ERROR :: u32 where "DDI_STATUS_INTERNAL_ERROR = 134217736"
definition DDI_STATUS_UNSUPPORTED_CMD :: u32 where "DDI_STATUS_UNSUPPORTED_CMD = 134217737"
definition DDI_STATUS_DDI_ENCODE_FAILED :: u32 where "DDI_STATUS_DDI_ENCODE_FAILED = 141033473"
definition DDI_STATUS_DDI_DECODE_FAILED :: u32 where "DDI_STATUS_DDI_DECODE_FAILED = 141033474"

record azihsm_ddi_api_rev =
  Major :: u32
  Minor :: u32

record azihsm_ddi_api_rev_response =
  rev_min :: azihsm_ddi_api_rev
  rev_max :: azihsm_ddi_api_rev

record azihsm_ddi_req_hdr =
  req_Revision_Valid :: bool
  req_Revision_Value :: azihsm_ddi_api_rev
  req_DdiOp :: u32
  req_SessionId_Valid :: bool
  req_SessionId_Value :: u16

record azihsm_ddi_rsp_hdr =
  rsp_Revision_Valid :: bool
  rsp_Revision_Value :: azihsm_ddi_api_rev
  rsp_DdiOp :: u32
  rsp_SessionId_Valid :: bool
  rsp_SessionId_Value :: u16
  rsp_DdiStatus :: u32
  fips_approved :: bool

text \<open>A pointer to a byte region and a length.\<close>

record ddi_data =
  ddi_Data :: "u8 list option"
  ddi_Length :: u16

record azihsm_ddi_init_bks3_resp =
  Bks3 :: ddi_data
  Guid :: "u8 list"

definition ConvertDdiStatusToEfiStatus :: "u32 \<Rightarrow> efi_status" where
  "ConvertDdiStatusToEfiStatus DdiStatus =
     (if DdiStatus = DDI_STATUS_SUCCESS then EFI_SUCCESS
      else if DdiStatus = DDI_STATUS_INVALID_ARG then EFI_INVALID_PARAMETER
      else if DdiStatus = DDI_STATUS_INTERNAL_ERROR then EFI_DEVICE_ERROR
      else if DdiStatus = DDI_STATUS_UNSUPPORTED_CMD then EFI_UNSUPPORTED
      else if DdiStatus = DDI_STATUS_DDI_ENCODE_FAILED \<or> DdiStatus = DDI_STATUS_DDI_DECODE_FAILED
      then EFI_PROTOCOL_ERROR
      else EFI_DEVICE_ERROR)"

subsection \<open>Encoding requests\<close>

type_synonym size_result = "(efi_status \<times> azihsm_mbor_encoder option \<times> u64 option) option"

text \<open>\<^verbatim>\<open>*EncodedSize = Encoder->Position - EncoderStartMark\<close>, in 32 bits.\<close>

definition size_since :: "u16 \<Rightarrow> u16 \<Rightarrow> u64" where
  "size_since mark position = ucast (ucast position - ucast mark :: u32)"

definition exit_encode :: "u16 \<Rightarrow> enc_result \<Rightarrow> size_result" where
  "exit_encode mark m = do {
     (Status, E) \<leftarrow> m;
     Some (Status, E, Some (size_since mark (enc_Position (the E))))
   }"

definition AziHsmMborEncodeFieldId :: "azihsm_mbor_encoder option \<Rightarrow> u8 \<Rightarrow> enc_result" where
  "AziHsmMborEncodeFieldId Encoder FieldId =
     (if Encoder = None then Some (EFI_INVALID_PARAMETER, Encoder) else AziHsmMborEncodeU8 Encoder FieldId)"

definition EncodeApiRevision ::
  "base_lib \<Rightarrow> azihsm_mbor_encoder option \<Rightarrow> azihsm_ddi_api_rev option \<Rightarrow> u64 option \<Rightarrow> size_result" where
  "EncodeApiRevision L Encoder ApiRev EncodedSize = (case (ApiRev, Encoder, EncodedSize) of
     (Some r, Some e, Some _) \<Rightarrow>
       exit_encode (enc_Position e)
         (on_success (AziHsmMborEncodeMap Encoder 2) (\<lambda>E.
          on_success (AziHsmMborEncodeFieldId E 1) (\<lambda>E.
          on_success (AziHsmMborEncodeU32 L E (Major r)) (\<lambda>E.
          on_success (AziHsmMborEncodeFieldId E 2) (\<lambda>E.
          AziHsmMborEncodeU32 L E (Minor r))))))
   | (_, _, None) \<Rightarrow> None
   | _ \<Rightarrow> Some (EFI_INVALID_PARAMETER, Encoder, Some 0))"

text \<open>Drops the size of an inner call, which the callers ignore.\<close>

definition inner :: "size_result \<Rightarrow> enc_result" where
  "inner m = do { (Status, E, _) \<leftarrow> m; Some (Status, E) }"

definition EncodeRequestHeader ::
  "base_lib \<Rightarrow> azihsm_mbor_encoder option \<Rightarrow> azihsm_ddi_req_hdr option \<Rightarrow> u64 option \<Rightarrow> size_result" where
  "EncodeRequestHeader L Encoder ReqHdr EncodedSize = (case (Encoder, ReqHdr, EncodedSize) of
     (Some e, Some hdr, Some _) \<Rightarrow>
       let FieldCount = (0 :: u8);
           FieldCount = (if req_Revision_Valid hdr then FieldCount + 1 else FieldCount);
           FieldCount = (if req_SessionId_Valid hdr then FieldCount + 1 else FieldCount);
           FieldCount = FieldCount + 1
       in exit_encode (enc_Position e)
         (if 3 < FieldCount then Some (EFI_PROTOCOL_ERROR, Encoder)
          else
            on_success (AziHsmMborEncodeMap Encoder FieldCount) (\<lambda>E.
            on_success
              (if req_Revision_Valid hdr then
                 on_success (AziHsmMborEncodeFieldId E 1) (\<lambda>E.
                 inner (EncodeApiRevision L E (Some (req_Revision_Value hdr)) (Some 0)))
               else Some (EFI_SUCCESS, E)) (\<lambda>E.
            on_success (AziHsmMborEncodeFieldId E 2) (\<lambda>E.
            on_success (AziHsmMborEncodeU32 L E (req_DdiOp hdr)) (\<lambda>E.
            if req_SessionId_Valid hdr then
              on_success (AziHsmMborEncodeFieldId E 3) (\<lambda>E.
              AziHsmMborEncodeU16 L E (req_SessionId_Value hdr))
            else Some (EFI_SUCCESS, E))))))
   | (_, _, None) \<Rightarrow> None
   | _ \<Rightarrow> Some (EFI_INVALID_PARAMETER, Encoder, Some 0))"

definition EncodeCommandRequestHeader ::
  "base_lib \<Rightarrow> azihsm_mbor_encoder option \<Rightarrow> u32 \<Rightarrow> azihsm_ddi_api_rev option \<Rightarrow> u16 option \<Rightarrow> u64 option
     \<Rightarrow> size_result" where
  "EncodeCommandRequestHeader L Encoder DdiOp ApiRev SessionId EncodedSize = (case (Encoder, EncodedSize) of
     (Some e, Some _) \<Rightarrow>
       let Hdr = \<lparr>req_Revision_Valid = False, req_Revision_Value = \<lparr>Major = 0, Minor = 0\<rparr>, req_DdiOp = DdiOp,
                  req_SessionId_Valid = False, req_SessionId_Value = 0\<rparr>;
           Hdr = (case ApiRev of None \<Rightarrow> Hdr
                  | Some r \<Rightarrow> Hdr\<lparr>req_Revision_Valid := True, req_Revision_Value := r\<rparr>);
           Hdr = (case SessionId of None \<Rightarrow> Hdr
                  | Some s \<Rightarrow> Hdr\<lparr>req_SessionId_Valid := True, req_SessionId_Value := s\<rparr>)
       in exit_encode (enc_Position e)
         (on_success (AziHsmMborEncodeMap Encoder 2) (\<lambda>E.
          on_success (AziHsmMborEncodeFieldId E 0) (\<lambda>E.
          inner (EncodeRequestHeader L E (Some Hdr) (Some 0)))))
   | (_, None) \<Rightarrow> None
   | _ \<Rightarrow> Some (EFI_INVALID_PARAMETER, Encoder, Some 0))"

definition AzihsmEncodeGetApiRevReq ::
  "base_lib \<Rightarrow> azihsm_mbor_encoder option \<Rightarrow> azihsm_ddi_api_rev option \<Rightarrow> u16 option \<Rightarrow> u64 option
     \<Rightarrow> size_result" where
  "AzihsmEncodeGetApiRevReq L Encoder ApiRev SessionId EncodedSize = (case (Encoder, EncodedSize) of
     (Some e, Some _) \<Rightarrow>
       exit_encode (enc_Position e)
         (on_success (inner (EncodeCommandRequestHeader L Encoder DDI_OP_GET_API_REV ApiRev SessionId (Some 0))) (\<lambda>E.
          on_success (AziHsmMborEncodeFieldId E 1) (\<lambda>E.
          AziHsmMborEncodeMap E 0)))
   | (_, None) \<Rightarrow> None
   | _ \<Rightarrow> Some (EFI_INVALID_PARAMETER, Encoder, Some 0))"

definition AzihsmEncodeInitBks3Req ::
  "build \<Rightarrow> base_lib \<Rightarrow> azihsm_mbor_encoder option \<Rightarrow> azihsm_ddi_api_rev option \<Rightarrow> u16 option
     \<Rightarrow> ddi_data option \<Rightarrow> u64 option \<Rightarrow> size_result" where
  "AzihsmEncodeInitBks3Req b L Encoder ApiRev SessionId Request EncodedSize =
     (case (Encoder, EncodedSize, Request) of
     (Some e, Some _, Some r) \<Rightarrow>
       exit_encode (enc_Position e)
         (on_success (inner (EncodeCommandRequestHeader L Encoder DDI_OP_INIT_BKS3 ApiRev SessionId (Some 0))) (\<lambda>E.
          on_success (AziHsmMborEncodeFieldId E 1) (\<lambda>E.
          on_success (AziHsmMborEncodeMap E 1) (\<lambda>E.
          on_success (AziHsmMborEncodeFieldId E 1) (\<lambda>E.
          AziHsmMborEncodePaddedBytes b L E (ddi_Data r) (ddi_Length r))))))
   | _ \<Rightarrow> Some (EFI_INVALID_PARAMETER, Encoder, map_option (\<lambda>_. 0) EncodedSize))"

text \<open>The position is read before the null check of the encoder.\<close>

definition AzihsmEncodeSetSealedBks3Req ::
  "build \<Rightarrow> base_lib \<Rightarrow> azihsm_mbor_encoder option \<Rightarrow> azihsm_ddi_api_rev option \<Rightarrow> u16 option
     \<Rightarrow> ddi_data option \<Rightarrow> u64 option \<Rightarrow> size_result" where
  "AzihsmEncodeSetSealedBks3Req b L Encoder ApiRev SessionId SealedBks3Request EncodedSize =
     (case (Encoder, SealedBks3Request, EncodedSize) of
     (None, _, _) \<Rightarrow> None
   | (Some e, Some r, Some _) \<Rightarrow>
       exit_encode (enc_Position e)
         (on_success (inner (EncodeCommandRequestHeader L Encoder DDI_OP_SET_SEALED_BKS3 ApiRev SessionId (Some 0))) (\<lambda>E.
          on_success (AziHsmMborEncodeFieldId E 1) (\<lambda>E.
          on_success (AziHsmMborEncodeMap E 1) (\<lambda>E.
          on_success (AziHsmMborEncodeFieldId E 1) (\<lambda>E.
          AziHsmMborEncodePaddedBytes b L E (ddi_Data r) (ddi_Length r))))))
   | _ \<Rightarrow> Some (EFI_INVALID_PARAMETER, Encoder, map_option (\<lambda>_. 0) EncodedSize))"

text \<open>The size is the position itself, not the distance from the start.\<close>

definition AzihsmEncodeGetSealedBks3Req ::
  "base_lib \<Rightarrow> azihsm_mbor_encoder option \<Rightarrow> azihsm_ddi_api_rev option \<Rightarrow> u16 option \<Rightarrow> u64 option
     \<Rightarrow> size_result" where
  "AzihsmEncodeGetSealedBks3Req L Encoder ApiRev SessionId EncodedSize = (case (Encoder, EncodedSize) of
     (Some e, Some _) \<Rightarrow> do {
       (Status, E) \<leftarrow>
         on_success (inner (EncodeCommandRequestHeader L Encoder DDI_OP_GET_SEALED_BKS3 ApiRev SessionId (Some 0))) (\<lambda>E.
         on_success (AziHsmMborEncodeFieldId E 1) (\<lambda>E.
         AziHsmMborEncodeMap E 0));
       Some (Status, E, Some (ucast (enc_Position (the E))))
     }
   | _ \<Rightarrow> Some (EFI_INVALID_PARAMETER, Encoder, map_option (\<lambda>_. 0) EncodedSize))"

subsection \<open>Decoding responses\<close>

definition AziHsmMborDecodeFieldId :: "azihsm_mbor_decoder option \<Rightarrow> u8 option \<Rightarrow> u8 dec_result" where
  "AziHsmMborDecodeFieldId Decoder FieldId =
     (if Decoder = None \<or> FieldId = None then Some (EFI_INVALID_PARAMETER, Decoder, FieldId)
      else AziHsmMborDecodeU8 Decoder FieldId)"

text \<open>
  The result of a decoder of a structure \<open>'r\<close>, before the size is stored, and with it.
\<close>

type_synonym 'r dec_body = "(efi_status \<times> azihsm_mbor_decoder option \<times> 'r) option"
type_synonym 'r dec_sized = "(efi_status \<times> azihsm_mbor_decoder option \<times> 'r option \<times> u64 option) option"

definition exit_decode :: "u16 \<Rightarrow> 'r dec_body \<Rightarrow> 'r dec_sized" where
  "exit_decode mark m = do {
     (Status, D, r) \<leftarrow> m;
     Some (Status, D, Some r, Some (size_since mark (dec_Position (the D))))
   }"

definition inner_dec :: "'r dec_sized \<Rightarrow> 'r dec_body" where
  "inner_dec m = do { (Status, D, r, _) \<leftarrow> m; Some (Status, D, the r) }"

text \<open>The loop over the fields of a single revision.\<close>

primrec decode_api_rev_fields ::
  "base_lib \<Rightarrow> nat \<Rightarrow> azihsm_mbor_decoder option \<Rightarrow> azihsm_ddi_api_rev \<Rightarrow> azihsm_ddi_api_rev dec_body" where
  "decode_api_rev_fields L 0 D ApiRev = Some (EFI_SUCCESS, D, ApiRev)"
| "decode_api_rev_fields L (Suc n) D ApiRev = do {
     (Status, D, FieldId) \<leftarrow> AziHsmMborDecodeFieldId D (Some 0);
     if EFI_ERROR Status then Some (Status, D, ApiRev)
     else do {
       (Status, D, ApiRev) \<leftarrow>
         (if FieldId = Some 1 then do {
            (Status, D, v) \<leftarrow> AziHsmMborDecodeU32 L D (Some (Major ApiRev));
            Some (Status, D, ApiRev\<lparr>Major := the v\<rparr>)
          } else if FieldId = Some 2 then do {
            (Status, D, v) \<leftarrow> AziHsmMborDecodeU32 L D (Some (Minor ApiRev));
            Some (Status, D, ApiRev\<lparr>Minor := the v\<rparr>)
          } else Some (EFI_UNSUPPORTED, D, ApiRev));
       if EFI_ERROR Status then Some (Status, D, ApiRev)
       else decode_api_rev_fields L n D ApiRev
     }
   }"

definition DecodeApiRevision ::
  "base_lib \<Rightarrow> azihsm_mbor_decoder option \<Rightarrow> azihsm_ddi_api_rev option \<Rightarrow> u64 option
     \<Rightarrow> azihsm_ddi_api_rev dec_sized" where
  "DecodeApiRevision L Decoder ApiRev DecodedSize = (case (ApiRev, Decoder, DecodedSize) of
     (Some r, Some d, Some _) \<Rightarrow>
       exit_decode (dec_Position d) (do {
         (Status, D, FieldCount) \<leftarrow> AziHsmMborDecodeMap Decoder (Some 0);
         if EFI_ERROR Status then Some (Status, D, r)
         else if FieldCount \<noteq> Some 2 then Some (EFI_PROTOCOL_ERROR, D, r)
         else decode_api_rev_fields L (unat (the FieldCount)) D r
       })
   | (_, _, None) \<Rightarrow> None
   | _ \<Rightarrow> Some (EFI_INVALID_PARAMETER, Decoder, ApiRev, Some 0))"

primrec decode_api_rev_response_fields ::
  "base_lib \<Rightarrow> nat \<Rightarrow> azihsm_mbor_decoder option \<Rightarrow> azihsm_ddi_api_rev_response
     \<Rightarrow> azihsm_ddi_api_rev_response dec_body" where
  "decode_api_rev_response_fields L 0 D ApiRev = Some (EFI_SUCCESS, D, ApiRev)"
| "decode_api_rev_response_fields L (Suc n) D ApiRev = do {
     (Status, D, FieldId) \<leftarrow> AziHsmMborDecodeFieldId D (Some 0);
     if EFI_ERROR Status then Some (Status, D, ApiRev)
     else do {
       (Status, D, ApiRev) \<leftarrow>
         (if FieldId = Some 1 then do {
            (Status, D, v) \<leftarrow> inner_dec (DecodeApiRevision L D (Some (rev_min ApiRev)) (Some 0));
            Some (Status, D, ApiRev\<lparr>rev_min := v\<rparr>)
          } else if FieldId = Some 2 then do {
            (Status, D, v) \<leftarrow> inner_dec (DecodeApiRevision L D (Some (rev_max ApiRev)) (Some 0));
            Some (Status, D, ApiRev\<lparr>rev_max := v\<rparr>)
          } else Some (EFI_UNSUPPORTED, D, ApiRev));
       if EFI_ERROR Status then Some (Status, D, ApiRev)
       else decode_api_rev_response_fields L n D ApiRev
     }
   }"

definition DecodeApiRevisionResponse ::
  "base_lib \<Rightarrow> azihsm_mbor_decoder option \<Rightarrow> azihsm_ddi_api_rev_response option \<Rightarrow> u64 option
     \<Rightarrow> azihsm_ddi_api_rev_response dec_sized" where
  "DecodeApiRevisionResponse L Decoder ApiRev DecodedSize = (case (ApiRev, Decoder, DecodedSize) of
     (Some r, Some d, Some _) \<Rightarrow>
       exit_decode (dec_Position d) (do {
         (Status, D, FieldCount) \<leftarrow> AziHsmMborDecodeMap Decoder (Some 0);
         if EFI_ERROR Status then Some (Status, D, r)
         else if FieldCount \<noteq> Some 2 then Some (EFI_PROTOCOL_ERROR, D, r)
         else decode_api_rev_response_fields L (unat (the FieldCount)) D r
       })
   | (_, _, None) \<Rightarrow> None
   | _ \<Rightarrow> Some (EFI_INVALID_PARAMETER, Decoder, ApiRev, Some 0))"

text \<open>The header loop and the fields it has seen.\<close>

record rsp_found =
  DdiOpFound :: bool
  RevisionFound :: bool
  SessionIdFound :: bool
  DdiStatusFound :: bool
  FipsApprovedFound :: bool

definition decode_rsp_field ::
  "base_lib \<Rightarrow> u8 \<Rightarrow> azihsm_mbor_decoder option \<Rightarrow> azihsm_ddi_rsp_hdr \<times> rsp_found
     \<Rightarrow> (azihsm_ddi_rsp_hdr \<times> rsp_found) dec_body" where
  "decode_rsp_field L FieldId D hf = (case hf of (h, f) \<Rightarrow>
     if 5 < FieldId then Some (EFI_PROTOCOL_ERROR, D, h, f)
     else if FieldId = 1 then
       if RevisionFound f then Some (EFI_PROTOCOL_ERROR, D, h, f)
       else do {
         let f = f\<lparr>RevisionFound := True\<rparr>;
         let h = h\<lparr>rsp_Revision_Valid := True\<rparr>;
         (Status, D, v) \<leftarrow> inner_dec (DecodeApiRevision L D (Some (rsp_Revision_Value h)) (Some 0));
         Some (Status, D, h\<lparr>rsp_Revision_Value := v\<rparr>, f)
       }
     else if FieldId = 2 then
       if DdiOpFound f then Some (EFI_PROTOCOL_ERROR, D, h, f)
       else do {
         let f = f\<lparr>DdiOpFound := True\<rparr>;
         (Status, D, v) \<leftarrow> AziHsmMborDecodeU32 L D (Some 0);
         Some (Status, D, if EFI_ERROR Status then h else h\<lparr>rsp_DdiOp := the v\<rparr>, f)
       }
     else if FieldId = 3 then
       if SessionIdFound f then Some (EFI_PROTOCOL_ERROR, D, h, f)
       else do {
         let f = f\<lparr>SessionIdFound := True\<rparr>;
         (Status, D, v) \<leftarrow> AziHsmMborDecodeU16 L D (Some 0);
         Some (Status, D, if EFI_ERROR Status then h
           else h\<lparr>rsp_SessionId_Valid := True, rsp_SessionId_Value := the v\<rparr>, f)
       }
     else if FieldId = 4 then
       if DdiStatusFound f then Some (EFI_PROTOCOL_ERROR, D, h, f)
       else do {
         let f = f\<lparr>DdiStatusFound := True\<rparr>;
         (Status, D, v) \<leftarrow> AziHsmMborDecodeU32 L D (Some 0);
         Some (Status, D, if EFI_ERROR Status then h else h\<lparr>rsp_DdiStatus := the v\<rparr>, f)
       }
     else if FieldId = 5 then
       if FipsApprovedFound f then Some (EFI_PROTOCOL_ERROR, D, h, f)
       else do {
         let f = f\<lparr>FipsApprovedFound := True\<rparr>;
         (Status, D, v) \<leftarrow> AziHsmMborDecodeBoolean D (Some (fips_approved h));
         Some (Status, D, h\<lparr>fips_approved := the v\<rparr>, f)
       }
     else Some (EFI_UNSUPPORTED, D, h, f))"

primrec decode_rsp_fields ::
  "base_lib \<Rightarrow> nat \<Rightarrow> azihsm_mbor_decoder option \<Rightarrow> azihsm_ddi_rsp_hdr \<times> rsp_found
     \<Rightarrow> (azihsm_ddi_rsp_hdr \<times> rsp_found) dec_body" where
  "decode_rsp_fields L 0 D hf = Some (EFI_SUCCESS, D, hf)"
| "decode_rsp_fields L (Suc n) D hf = do {
     (Status, D, FieldId) \<leftarrow> AziHsmMborDecodeFieldId D (Some 0);
     if EFI_ERROR Status then Some (Status, D, hf)
     else do {
       (Status, D, hf) \<leftarrow> decode_rsp_field L (the FieldId) D hf;
       if EFI_ERROR Status then Some (Status, D, hf) else decode_rsp_fields L n D hf
     }
   }"

text \<open>The position of the decoder is read before its null check.\<close>

definition DecodeResponseHeader ::
  "base_lib \<Rightarrow> azihsm_mbor_decoder option \<Rightarrow> azihsm_ddi_rsp_hdr option \<Rightarrow> u64 option
     \<Rightarrow> azihsm_ddi_rsp_hdr dec_sized" where
  "DecodeResponseHeader L Decoder RspHdr DecodedSize = (case (Decoder, RspHdr, DecodedSize) of
     (None, _, _) \<Rightarrow> None
   | (Some d, Some h, Some _) \<Rightarrow>
       exit_decode (dec_Position d) (do {
         let h = h\<lparr>rsp_Revision_Valid := False, rsp_SessionId_Valid := False\<rparr>;
         (Status, D, FieldCount) \<leftarrow> AziHsmMborDecodeMap Decoder (Some 0);
         if EFI_ERROR Status then Some (Status, D, h)
         else if 5 < the FieldCount \<or> the FieldCount < 3 then Some (EFI_PROTOCOL_ERROR, D, h)
         else do {
           (Status, D, h, f) \<leftarrow> decode_rsp_fields L (unat (the FieldCount)) D
              (h, \<lparr>DdiOpFound = False, RevisionFound = False, SessionIdFound = False,
                   DdiStatusFound = False, FipsApprovedFound = False\<rparr>);
           if EFI_ERROR Status then Some (Status, D, h)
           else if \<not> DdiOpFound f \<or> \<not> DdiStatusFound f \<or> \<not> FipsApprovedFound f
           then Some (EFI_PROTOCOL_ERROR, D, h)
           else Some (Status, D, h)
         }
       })
   | _ \<Rightarrow> Some (EFI_INVALID_PARAMETER, Decoder, RspHdr, map_option (\<lambda>_. 0) DecodedSize))"

definition DecodeCommandResponseHeader ::
  "base_lib \<Rightarrow> azihsm_mbor_decoder option \<Rightarrow> azihsm_ddi_rsp_hdr option \<Rightarrow> u64 option
     \<Rightarrow> azihsm_ddi_rsp_hdr dec_sized" where
  "DecodeCommandResponseHeader L Decoder RspHdr DecodedSize = (case (RspHdr, Decoder, DecodedSize) of
     (Some h, Some d, Some _) \<Rightarrow>
       exit_decode (dec_Position d) (do {
         (Status, D, FieldCount) \<leftarrow> AziHsmMborDecodeMap Decoder (Some 0);
         if EFI_ERROR Status then Some (Status, D, h)
         else if the FieldCount < 2 \<or> 3 < the FieldCount then Some (EFI_PROTOCOL_ERROR, D, h)
         else do {
           (Status, D, FieldId) \<leftarrow> AziHsmMborDecodeFieldId D (Some 0);
           if EFI_ERROR Status then Some (Status, D, h)
           else if FieldId \<noteq> Some 0 then Some (EFI_PROTOCOL_ERROR, D, h)
           else inner_dec (DecodeResponseHeader L D (Some h) (Some 0))
         }
       })
   | (_, _, None) \<Rightarrow> None
   | _ \<Rightarrow> Some (EFI_INVALID_PARAMETER, Decoder, RspHdr, Some 0))"

definition DecodeApiRevisionCommandResponseData ::
  "base_lib \<Rightarrow> azihsm_mbor_decoder option \<Rightarrow> azihsm_ddi_api_rev_response option \<Rightarrow> u64 option
     \<Rightarrow> azihsm_ddi_api_rev_response dec_sized" where
  "DecodeApiRevisionCommandResponseData L Decoder ApiRevData DecodedSize =
     (case (ApiRevData, Decoder, DecodedSize) of
     (Some r, Some d, Some _) \<Rightarrow>
       exit_decode (dec_Position d) (do {
         (Status, D, FieldId) \<leftarrow> AziHsmMborDecodeFieldId Decoder (Some 0);
         if EFI_ERROR Status then Some (Status, D, r)
         else if FieldId \<noteq> Some 1 then Some (EFI_PROTOCOL_ERROR, D, r)
         else inner_dec (DecodeApiRevisionResponse L D (Some r) (Some 0))
       })
   | (_, _, None) \<Rightarrow> None
   | _ \<Rightarrow> Some (EFI_INVALID_PARAMETER, Decoder, ApiRevData, Some 0))"

text \<open>The local header variable \<open>RspHdr\<close> is not initialised; its first contents are an argument.\<close>

definition AzihsmDecodeGetApiRevReq ::
  "base_lib \<Rightarrow> azihsm_ddi_rsp_hdr \<Rightarrow> azihsm_mbor_decoder option \<Rightarrow> azihsm_ddi_api_rev_response option
     \<Rightarrow> u64 option \<Rightarrow> azihsm_ddi_api_rev_response dec_sized" where
  "AzihsmDecodeGetApiRevReq L RspHdr Decoder ApiRevData DecodedSize =
     (case (Decoder, ApiRevData, DecodedSize) of
     (Some d, Some r, Some _) \<Rightarrow>
       exit_decode (dec_Position d) (do {
         (Status, D, RspHdr) \<leftarrow> inner_dec (DecodeCommandResponseHeader L Decoder (Some RspHdr) (Some 0));
         if EFI_ERROR Status then Some (Status, D, r)
         else if rsp_DdiOp RspHdr \<noteq> DDI_OP_GET_API_REV then Some (EFI_PROTOCOL_ERROR, D, r)
         else if rsp_DdiStatus RspHdr \<noteq> DDI_STATUS_SUCCESS
         then Some (ConvertDdiStatusToEfiStatus (rsp_DdiStatus RspHdr), D, r)
         else inner_dec (DecodeApiRevisionCommandResponseData L D (Some r) (Some 0))
       })
   | (_, _, None) \<Rightarrow> None
   | _ \<Rightarrow> Some (EFI_INVALID_PARAMETER, Decoder, ApiRevData, Some 0))"

definition zero_rsp_hdr :: azihsm_ddi_rsp_hdr where
  "zero_rsp_hdr = \<lparr>rsp_Revision_Valid = False, rsp_Revision_Value = \<lparr>Major = 0, Minor = 0\<rparr>, rsp_DdiOp = 0,
     rsp_SessionId_Valid = False, rsp_SessionId_Value = 0, rsp_DdiStatus = 0, fips_approved = False\<rparr>"

definition AzihsmDecodeInitBks3Resp ::
  "base_lib \<Rightarrow> azihsm_mbor_decoder option \<Rightarrow> azihsm_ddi_init_bks3_resp option \<Rightarrow> u64 option
     \<Rightarrow> azihsm_ddi_init_bks3_resp dec_sized" where
  "AzihsmDecodeInitBks3Resp L Decoder Response DecodedSize = (case (Decoder, Response, DecodedSize) of
     (Some d, Some r, Some _) \<Rightarrow>
       exit_decode (dec_Position d) (do {
         (Status, D, RspHdr) \<leftarrow> inner_dec (DecodeCommandResponseHeader L Decoder (Some zero_rsp_hdr) (Some 0));
         if EFI_ERROR Status then Some (Status, D, r)
         else if rsp_DdiOp RspHdr \<noteq> DDI_OP_INIT_BKS3 then Some (EFI_PROTOCOL_ERROR, D, r)
         else if rsp_DdiStatus RspHdr \<noteq> DDI_STATUS_SUCCESS
         then Some (ConvertDdiStatusToEfiStatus (rsp_DdiStatus RspHdr), D, r)
         else do {
           (Status, D, FieldId) \<leftarrow> AziHsmMborDecodeFieldId D (Some 0);
           if EFI_ERROR Status then Some (Status, D, r)
           else if FieldId \<noteq> Some 1 then Some (EFI_PROTOCOL_ERROR, D, r)
           else do {
             (Status, D, DataFieldCount) \<leftarrow> AziHsmMborDecodeMap D (Some 0);
             if EFI_ERROR Status then Some (Status, D, r)
             else if DataFieldCount \<noteq> Some 2 then Some (EFI_PROTOCOL_ERROR, D, r)
             else do {
               (Status, D, FieldId) \<leftarrow> AziHsmMborDecodeFieldId D (Some 0);
               if EFI_ERROR Status then Some (Status, D, r)
               else if FieldId \<noteq> Some 1 then Some (EFI_PROTOCOL_ERROR, D, r)
               else do {
                 (Status, D, dst, DataDecodedSize) \<leftarrow> AziHsmMborDecodePaddedBytes L D (ddi_Data (Bks3 r)) (Some 0);
                 let r = r\<lparr>Bks3 := (Bks3 r)\<lparr>ddi_Data := dst\<rparr>\<rparr>;
                 if EFI_ERROR Status then Some (Status, D, r)
                 else do {
                   let r = r\<lparr>Bks3 := (Bks3 r)\<lparr>ddi_Length := the DataDecodedSize\<rparr>\<rparr>;
                   (Status, D, FieldId) \<leftarrow> AziHsmMborDecodeFieldId D (Some 0);
                   if EFI_ERROR Status then Some (Status, D, r)
                   else if FieldId \<noteq> Some 2 then Some (EFI_PROTOCOL_ERROR, D, r)
                   else do {
                     (Status, D, guid, DataDecodedSize) \<leftarrow> AziHsmMborDecodeBytes L D (Some (Guid r)) DataDecodedSize;
                     let r = r\<lparr>Guid := the guid\<rparr>;
                     if EFI_ERROR Status then Some (Status, D, r)
                     else if DataDecodedSize \<noteq> Some 16 then Some (EFI_PROTOCOL_ERROR, D, r)
                     else Some (Status, D, r)
                   }
                 }
               }
             }
           }
         }
       })
   | _ \<Rightarrow> Some (EFI_INVALID_PARAMETER, Decoder, Response, map_option (\<lambda>_. 0) DecodedSize))"

definition AzihsmDecodeSetSealedBks3Resp ::
  "base_lib \<Rightarrow> azihsm_mbor_decoder option \<Rightarrow> bool option \<Rightarrow> u64 option \<Rightarrow> bool dec_sized" where
  "AzihsmDecodeSetSealedBks3Resp L Decoder Response DecodedSize = (case (Decoder, Response, DecodedSize) of
     (Some d, Some r, Some _) \<Rightarrow>
       exit_decode (dec_Position d) (do {
         (Status, D, RspHdr) \<leftarrow> inner_dec (DecodeCommandResponseHeader L Decoder (Some zero_rsp_hdr) (Some 0));
         if EFI_ERROR Status then Some (Status, D, r)
         else if rsp_DdiOp RspHdr \<noteq> DDI_OP_SET_SEALED_BKS3 then Some (EFI_PROTOCOL_ERROR, D, r)
         else do {
           let r = (rsp_DdiStatus RspHdr = DDI_STATUS_SUCCESS);
           (Status, D, FieldId) \<leftarrow> AziHsmMborDecodeFieldId D (Some 0);
           if EFI_ERROR Status then Some (Status, D, r)
           else if FieldId \<noteq> Some 1 then Some (EFI_PROTOCOL_ERROR, D, r)
           else do {
             (Status, D, DataFieldCount) \<leftarrow> AziHsmMborDecodeMap D (Some 0);
             if EFI_ERROR Status then Some (Status, D, r)
             else if DataFieldCount \<noteq> Some 0 then Some (EFI_PROTOCOL_ERROR, D, r)
             else Some (Status, D, r)
           }
         }
       })
   | _ \<Rightarrow> Some (EFI_INVALID_PARAMETER, Decoder, Response, map_option (\<lambda>_. 0) DecodedSize))"

definition AzihsmDecodeGetSealedBks3Resp ::
  "base_lib \<Rightarrow> azihsm_mbor_decoder option \<Rightarrow> ddi_data option \<Rightarrow> u64 option \<Rightarrow> ddi_data dec_sized" where
  "AzihsmDecodeGetSealedBks3Resp L Decoder Response DecodedSize = (case (Decoder, Response, DecodedSize) of
     (Some d, Some r, Some _) \<Rightarrow>
       exit_decode (dec_Position d) (do {
         (Status, D, RspHdr) \<leftarrow> inner_dec (DecodeCommandResponseHeader L Decoder (Some zero_rsp_hdr) (Some 0));
         if EFI_ERROR Status then Some (Status, D, r)
         else if rsp_DdiOp RspHdr \<noteq> DDI_OP_GET_SEALED_BKS3 then Some (EFI_PROTOCOL_ERROR, D, r)
         else if rsp_DdiStatus RspHdr \<noteq> DDI_STATUS_SUCCESS
         then Some (ConvertDdiStatusToEfiStatus (rsp_DdiStatus RspHdr), D, r)
         else do {
           (Status, D, FieldId) \<leftarrow> AziHsmMborDecodeFieldId D (Some 0);
           if EFI_ERROR Status then Some (Status, D, r)
           else if FieldId \<noteq> Some 1 then Some (EFI_PROTOCOL_ERROR, D, r)
           else do {
             (Status, D, DataFieldCount) \<leftarrow> AziHsmMborDecodeMap D (Some 0);
             if EFI_ERROR Status then Some (Status, D, r)
             else if DataFieldCount \<noteq> Some 1 then Some (EFI_PROTOCOL_ERROR, D, r)
             else do {
               (Status, D, FieldId) \<leftarrow> AziHsmMborDecodeFieldId D (Some 0);
               if EFI_ERROR Status then Some (Status, D, r)
               else if FieldId \<noteq> Some 1 then Some (EFI_PROTOCOL_ERROR, D, r)
               else do {
                 (Status, D, dst, len) \<leftarrow> AziHsmMborDecodePaddedBytes L D (ddi_Data r) (Some (ddi_Length r));
                 Some (Status, D, r\<lparr>ddi_Data := dst, ddi_Length := the len\<rparr>)
               }
             }
           }
         }
       })
   | _ \<Rightarrow> Some (EFI_INVALID_PARAMETER, Decoder, Response, map_option (\<lambda>_. 0) DecodedSize))"

end
