(* ===== verification/Mbor_Codec.thy ===== *)
theory Mbor_Codec
  imports Mbor
begin

text \<open>
  The MBOR wire format as an abstract specification, and that the encoder writes it, the
  decoder reads it back, and neither leaves its buffer.
\<close>

subsection \<open>Arithmetic\<close>

lemma unat_lt16: "unat x < 65536" for x :: u16
  using unsigned_less [of x] by simp

lemma unat_ucast16_32 [simp]: "unat (ucast x :: u32) = unat x" for x :: u16
  using unat_lt16 [of x] by (simp add: unsigned_ucast_eq take_bit_nat_eq_self)

lemma exceeds_iff:
  "unat len \<le> 131072 \<Longrightarrow> POSITION_EXCEEDS_CAPACITY p c len \<longleftrightarrow> unat c < unat p + unat len"
  using unat_lt16 [of p] by (simp add: POSITION_EXCEEDS_CAPACITY_def word_less_nat_alt unat_add32)

lemma exceeds_iff16:
  "POSITION_EXCEEDS_CAPACITY p c (ucast len) \<longleftrightarrow> unat c < unat p + unat len" for len :: u16
  using unat_lt16 [of len] by (subst exceeds_iff) simp_all

lemma unat_add16: "unat a + unat b < 65536 \<Longrightarrow> unat (a + b) = unat a + unat b" for a b :: u16
  by (simp add: unat_word_ariths)

lemma unat_of_nat16: "k < 65536 \<Longrightarrow> unat (of_nat k :: u16) = k"
  by (simp add: unat_of_nat take_bit_eq_mod)

subsection \<open>What an encoding step does\<close>

definition enc_ok :: "azihsm_mbor_encoder \<Rightarrow> bool" where
  "enc_ok e \<longleftrightarrow> (case enc_Buffer e of None \<Rightarrow> enc_Capacity e = 0 | Some m \<Rightarrow> unat (enc_Capacity e) \<le> length m) \<and>
     unat (enc_Position e) \<le> unat (enc_Capacity e)"

text \<open>
  \<open>encoded e bs (s, e')\<close>: \<open>bs\<close> was appended at the position of \<open>e\<close>, or there was no room
  for it. In both cases the bytes before the position are unchanged.
\<close>

definition encoded ::
  "azihsm_mbor_encoder \<Rightarrow> u8 list \<Rightarrow> efi_status \<times> azihsm_mbor_encoder option \<Rightarrow> bool" where
  "encoded e bs r \<longleftrightarrow> (case r of (s, E') \<Rightarrow> \<exists>e' m m'.
     E' = Some e' \<and> enc_ok e' \<and> enc_Buffer e = Some m \<and> enc_Buffer e' = Some m' \<and>
     enc_Capacity e' = enc_Capacity e \<and> length m' = length m \<and>
     unat (enc_Position e) \<le> unat (enc_Position e') \<and>
     take (unat (enc_Position e)) m' = take (unat (enc_Position e)) m \<and>
     (if unat (enc_Position e) + length bs \<le> unat (enc_Capacity e)
      then s = EFI_SUCCESS \<and> unat (enc_Position e') = unat (enc_Position e) + length bs \<and>
           take (unat (enc_Position e) + length bs) m' = take (unat (enc_Position e)) m @ bs
      else s = EFI_BUFFER_TOO_SMALL))"

lemma encoded_status: "encoded e bs (s, E') \<Longrightarrow> s = EFI_SUCCESS \<or> s = EFI_BUFFER_TOO_SMALL"
  by (auto simp: encoded_def split: if_splits)

lemma take_prefix: "take n xs = take n ys \<Longrightarrow> k \<le> n \<Longrightarrow> take k xs = take k ys"
  by (metis min.absorb1 take_take)

lemma encoded_seq:
  assumes m: "runs m (encoded e xs)"
    and f: "\<And>e'. enc_ok e' \<Longrightarrow> enc_Buffer e' \<noteq> None \<Longrightarrow>
      unat (enc_Position e') = unat (enc_Position e) + length xs \<Longrightarrow> runs (f (Some e')) (encoded e' ys)"
  shows "runs (on_success m f) (encoded e (xs @ ys))"
proof -
  obtain s E' where m1: "m = Some (s, E')" and en: "encoded e xs (s, E')" using m by (auto elim!: runsE)
  obtain e' b b' where e': "E' = Some e'" "enc_ok e'" "enc_Buffer e = Some b" "enc_Buffer e' = Some b'"
    "enc_Capacity e' = enc_Capacity e" "length b' = length b" "unat (enc_Position e) \<le> unat (enc_Position e')"
    "take (unat (enc_Position e)) b' = take (unat (enc_Position e)) b"
    and st: "if unat (enc_Position e) + length xs \<le> unat (enc_Capacity e)
      then s = EFI_SUCCESS \<and> unat (enc_Position e') = unat (enc_Position e) + length xs \<and>
           take (unat (enc_Position e) + length xs) b' = take (unat (enc_Position e)) b @ xs
      else s = EFI_BUFFER_TOO_SMALL"
    using en unfolding encoded_def by auto
  show ?thesis
  proof (cases "unat (enc_Position e) + length xs \<le> unat (enc_Capacity e)")
    case False
    then show ?thesis using m1 e' st by (auto simp: on_success_def encoded_def intro!: runs_SomeI)
  next
    case True
    then have s: "s = EFI_SUCCESS" and p: "unat (enc_Position e') = unat (enc_Position e) + length xs"
      and t: "take (unat (enc_Position e) + length xs) b' = take (unat (enc_Position e)) b @ xs"
      using st by auto
    have "runs (f (Some e')) (encoded e' ys)" using f [OF e'(2) _ p] e'(4) by simp
    then obtain s2 E2 where f2: "f (Some e') = Some (s2, E2)" and en2: "encoded e' ys (s2, E2)"
      by (auto elim!: runsE)
    obtain e2 b2 where e2: "E2 = Some e2" "enc_ok e2" "enc_Buffer e2 = Some b2" "enc_Capacity e2 = enc_Capacity e'"
      "length b2 = length b'" "unat (enc_Position e') \<le> unat (enc_Position e2)"
      "take (unat (enc_Position e')) b2 = take (unat (enc_Position e')) b'"
      and st2: "if unat (enc_Position e') + length ys \<le> unat (enc_Capacity e')
        then s2 = EFI_SUCCESS \<and> unat (enc_Position e2) = unat (enc_Position e') + length ys \<and>
             take (unat (enc_Position e') + length ys) b2 = take (unat (enc_Position e')) b' @ ys
        else s2 = EFI_BUFFER_TOO_SMALL"
      using en2 e'(4) unfolding encoded_def by auto
    have "take (unat (enc_Position e)) b2 = take (unat (enc_Position e)) b"
      using take_prefix [OF e2(7)] e'(7,8) by simp
    then have "encoded e (xs @ ys) (s2, E2)"
      using e2 e' p t st2 by (auto simp: encoded_def add.assoc split: if_splits)
    then show ?thesis using m1 s e'(1) f2 by (simp add: on_success_def runs_SomeI)
  qed
qed

lemma EncoderEncode_law:
  assumes ok: "enc_ok e" "enc_Buffer e \<noteq> None" and len: "unat len \<le> length src"
  shows "runs (AziHsmMborEncoderEncode (Some e) (Some src) len) (encoded e (take (unat len) src))"
proof -
  obtain m where m: "enc_Buffer e = Some m" using ok(2) by auto
  have cap: "unat (enc_Capacity e) \<le> length m" "unat (enc_Position e) \<le> unat (enc_Capacity e)"
    using ok(1) m by (simp_all add: enc_ok_def)
  show ?thesis
  proof (cases "unat (enc_Position e) + unat len \<le> unat (enc_Capacity e)")
    case False
    then show ?thesis
      using m ok len by (simp add: AziHsmMborEncoderEncode_def exceeds_iff16 encoded_def runs_SomeI)
  next
    case True
    then have p: "unat (enc_Position e + len) = unat (enc_Position e) + unat len"
      using unat_lt16 [of "enc_Capacity e"] by (simp add: unat_add16)
    have w: "mem_write m (unat (enc_Position e)) (take (unat len) src) =
        Some (take (unat (enc_Position e)) m @ take (unat len) src @ drop (unat (enc_Position e) + unat len) m)"
      using True cap len by (simp add: mem_write_def min_def)
    show ?thesis
    proof (rule runs_eqI)
      show "AziHsmMborEncoderEncode (Some e) (Some src) len = Some (EFI_SUCCESS, Some (e\<lparr>enc_Buffer :=
          Some (take (unat (enc_Position e)) m @ take (unat len) src @ drop (unat (enc_Position e) + unat len) m),
          enc_Position := enc_Position e + len\<rparr>))"
        using True m len w by (simp add: AziHsmMborEncoderEncode_def exceeds_iff16 copy_into_def)
    next
      have "unat (enc_Position e) \<le> length m" "unat (enc_Position e) + unat len \<le> length m"
        using True cap by linarith+
      then show "encoded e (take (unat len) src) (EFI_SUCCESS, Some (e\<lparr>enc_Buffer :=
          Some (take (unat (enc_Position e)) m @ take (unat len) src @ drop (unat (enc_Position e) + unat len) m),
          enc_Position := enc_Position e + len\<rparr>))"
        using True m cap len p by (simp add: encoded_def enc_ok_def min.absorb1 min.absorb2)
    qed
  qed
qed

lemma EncodeMarker_law:
  assumes "enc_ok e" "enc_Buffer e \<noteq> None"
  shows "runs (AziHsmMborEncodeMarker (Some e) x) (encoded e [x])"
proof -
  obtain m where m: "enc_Buffer e = Some m" using assms(2) by auto
  have "AziHsmMborEncodeMarker (Some e) x = AziHsmMborEncoderEncode (Some e) (Some [x]) 1"
    using m by (cases "mem_write m (unat (enc_Position e)) [x]")
      (simp_all add: AziHsmMborEncodeMarker_def AziHsmMborEncoderEncode_def copy_into_def)
  then show ?thesis using EncoderEncode_law [OF assms, of 1 "[x]"] by simp
qed

subsection \<open>The wire format\<close>

datatype mbor_item =
    ItemU8 u8 | ItemU16 u16 | ItemU32 u32 | ItemU64 u64
  | ItemBoolean bool | ItemMap u8 | ItemBytes "u8 list" | ItemPadded "u8 list"

definition be16 :: "u16 \<Rightarrow> u8 list" where "be16 v = rev (le_bytes 2 v)"

text \<open>
  Padding makes the data of a padded byte string start at a multiple of 4; \<open>pos\<close> is the
  position of the marker.
\<close>

definition padding_at :: "nat \<Rightarrow> nat" where
  "padding_at pos = (4 - (pos + 3) mod 4) mod 4"

fun mbor_bytes :: "nat \<Rightarrow> mbor_item \<Rightarrow> u8 list" where
  "mbor_bytes pos (ItemU8 v) = [0x18, v]"
| "mbor_bytes pos (ItemU16 v) = 0x19 # rev (le_bytes 2 v)"
| "mbor_bytes pos (ItemU32 v) = 0x1A # rev (le_bytes 4 v)"
| "mbor_bytes pos (ItemU64 v) = 0x1B # rev (le_bytes 8 v)"
| "mbor_bytes pos (ItemBoolean v) = [if v then 0x15 else 0x14]"
| "mbor_bytes pos (ItemMap n) = [0xA0 OR n]"
| "mbor_bytes pos (ItemBytes bs) = 0x80 # be16 (of_nat (length bs)) @ bs"
| "mbor_bytes pos (ItemPadded bs) =
     (0x80 OR of_nat (padding_at pos)) # be16 (of_nat (length bs)) @ replicate (padding_at pos) 0 @ bs"

fun item_valid :: "mbor_item \<Rightarrow> bool" where
  "item_valid (ItemMap n) \<longleftrightarrow> n \<le> 15"
| "item_valid (ItemBytes bs) \<longleftrightarrow> length bs < 65536"
| "item_valid (ItemPadded bs) \<longleftrightarrow> length bs < 65536"
| "item_valid _ \<longleftrightarrow> True"

text \<open>The source's encoding function for each kind of item.\<close>

fun encode_item :: "build \<Rightarrow> base_lib \<Rightarrow> azihsm_mbor_encoder option \<Rightarrow> mbor_item \<Rightarrow> enc_result" where
  "encode_item b L E (ItemU8 v) = AziHsmMborEncodeU8 E v"
| "encode_item b L E (ItemU16 v) = AziHsmMborEncodeU16 L E v"
| "encode_item b L E (ItemU32 v) = AziHsmMborEncodeU32 L E v"
| "encode_item b L E (ItemU64 v) = AziHsmMborEncodeU64 L E v"
| "encode_item b L E (ItemBoolean v) = AziHsmMborEncodeBoolean E v"
| "encode_item b L E (ItemMap n) = AziHsmMborEncodeMap E n"
| "encode_item b L E (ItemBytes bs) = AziHsmMborEncodeBytes L E (Some bs) (of_nat (length bs))"
| "encode_item b L E (ItemPadded bs) = AziHsmMborEncodePaddedBytes b L E (Some bs) (of_nat (length bs))"

lemmas marker_defs = MBOR_U8_MARKER_def MBOR_U16_MARKER_def MBOR_U32_MARKER_def MBOR_U64_MARKER_def
  MBOR_BOOLEAN_FALSE_def MBOR_BOOLEAN_TRUE_def MBOR_MAP_MARKER_def MBOR_MAP_MARKER_MASK_def
  MBOR_MAP_FIELD_MASK_def MBOR_BYTES_MARKER_def MBOR_BYTES_PADDING_MASK_def

lemmas convert_defs = ConvertToBigEndian16_def ConvertToBigEndian32_def ConvertToBigEndian64_def
  ConvertToLittleEndian16_def ConvertToLittleEndian32_def ConvertToLittleEndian64_def

lemma EncoderEncode_all:
  assumes "enc_ok e" "enc_Buffer e \<noteq> None" "unat len = length src"
  shows "runs (AziHsmMborEncoderEncode (Some e) (Some src) len) (encoded e src)"
  using EncoderEncode_law [OF assms(1,2), of len src] assms(3) by simp

lemma marker_then:
  assumes "enc_ok e" "enc_Buffer e \<noteq> None" "unat len = length src"
  shows "runs (on_success (AziHsmMborEncodeMarker (Some e) x) (\<lambda>E. AziHsmMborEncoderEncode E (Some src) len))
    (encoded e (x # src))"
  using encoded_seq [OF EncodeMarker_law [OF assms(1,2), of x], of "\<lambda>E. AziHsmMborEncoderEncode E (Some src) len" src]
    EncoderEncode_all assms(3) by simp

lemma encode_padding_law:
  "enc_ok e \<Longrightarrow> enc_Buffer e \<noteq> None \<Longrightarrow> runs (encode_padding n (Some e)) (encoded e (replicate n 0))"
proof (induction n arbitrary: e)
  case 0
  then show ?case by (auto simp: encoded_def enc_ok_def intro!: runs_SomeI)
next
  case (Suc n)
  have "runs (encode_padding (Suc n) (Some e)) (encoded e (le_bytes 1 (0 :: u8) @ replicate n 0))"
    unfolding encode_padding.simps
    by (rule encoded_seq [OF EncoderEncode_all [OF Suc.prems] Suc.IH]) simp_all
  then show ?case by simp
qed

lemma swaps_bytesD:
  assumes "swaps_bytes L"
  shows "le_bytes 2 (SwapBytes16 L x) = rev (le_bytes 2 x)" "le_bytes 4 (SwapBytes32 L y) = rev (le_bytes 4 y)"
    "le_bytes 8 (SwapBytes64 L z) = rev (le_bytes 8 z)"
  using assms by (simp_all add: swaps_bytes_def)

lemma EncodeU8_law:
  assumes "enc_ok e" "enc_Buffer e \<noteq> None"
  shows "runs (AziHsmMborEncodeU8 (Some e) v) (encoded e [0x18, v])"
  using marker_then [where e = e and len = 1 and src = "le_bytes 1 v" and x = "0x18"]
  assms by (simp add: AziHsmMborEncodeU8_def marker_defs)

lemma EncodeU16_law:
  assumes "enc_ok e" "enc_Buffer e \<noteq> None" "swaps_bytes L"
  shows "runs (AziHsmMborEncodeU16 L (Some e) v) (encoded e (0x19 # rev (le_bytes 2 v)))"
  using marker_then [where e = e and len = 2 and src = "rev (le_bytes 2 v)" and x = "0x19"]
  assms by (simp add: AziHsmMborEncodeU16_def marker_defs convert_defs swaps_bytesD [OF assms(3)])

lemma EncodeU32_law:
  assumes "enc_ok e" "enc_Buffer e \<noteq> None" "swaps_bytes L"
  shows "runs (AziHsmMborEncodeU32 L (Some e) v) (encoded e (0x1A # rev (le_bytes 4 v)))"
  using marker_then [where e = e and len = 4 and src = "rev (le_bytes 4 v)" and x = "0x1A"]
  assms by (simp add: AziHsmMborEncodeU32_def marker_defs convert_defs swaps_bytesD [OF assms(3)])

lemma EncodeU64_law:
  assumes "enc_ok e" "enc_Buffer e \<noteq> None" "swaps_bytes L"
  shows "runs (AziHsmMborEncodeU64 L (Some e) v) (encoded e (0x1B # rev (le_bytes 8 v)))"
  using marker_then [where e = e and len = 8 and src = "rev (le_bytes 8 v)" and x = "0x1B"]
  assms by (simp add: AziHsmMborEncodeU64_def marker_defs convert_defs swaps_bytesD [OF assms(3)])

lemma and_mask_le: "n \<le> 15 \<Longrightarrow> n AND 15 = n" for n :: u8
proof -
  assume "n \<le> 15"
  then have "unat n < 2 ^ 4" by (simp add: word_le_nat_alt)
  then have "take_bit 4 n = n" by (simp add: word_unat_eq_iff unsigned_take_bit_eq take_bit_nat_eq_self)
  then show ?thesis by (simp add: take_bit_eq_mask mask_eq_exp_minus_1)
qed

lemma EncodeMap_law:
  assumes "enc_ok e" "enc_Buffer e \<noteq> None" "n \<le> 15"
  shows "runs (AziHsmMborEncodeMap (Some e) n) (encoded e [0xA0 OR n])"
  using EncodeMarker_law [OF assms(1,2), of "0xA0 OR n"] assms(3)
  by (simp add: AziHsmMborEncodeMap_def marker_defs and_mask_le linorder_not_less [symmetric])

lemma EncodeBoolean_law:
  assumes "enc_ok e" "enc_Buffer e \<noteq> None"
  shows "runs (AziHsmMborEncodeBoolean (Some e) v) (encoded e [if v then 0x15 else 0x14])"
  using EncodeMarker_law [OF assms] by (simp add: AziHsmMborEncodeBoolean_def marker_defs)

lemma EncodeBytes_law:
  assumes ok: "enc_ok e" "enc_Buffer e \<noteq> None" and L: "swaps_bytes L" and len: "unat len \<le> length bs"
  shows "runs (AziHsmMborEncodeBytes L (Some e) (Some bs) len) (encoded e (0x80 # be16 len @ take (unat len) bs))"
proof -
  have "runs (AziHsmMborEncodeBytes L (Some e) (Some bs) len) (encoded e ([0x80] @ be16 len @ take (unat len) bs))"
    unfolding AziHsmMborEncodeBytes_def convert_defs swaps_bytesD [OF L] be16_def [symmetric] marker_defs
    by (simp only: option.distinct simp_thms if_False)
      (intro encoded_seq EncodeMarker_law EncoderEncode_all EncoderEncode_law ok len; simp add: be16_def)
  then show ?thesis by simp
qed

lemma padding_at_le: "padding_at p \<le> 3" and padding_at_aligned: "(p + 3 + padding_at p) mod 4 = 0"
proof -
  define r where "r = (p + 3) mod 4"
  have r: "r = 0 \<or> r = 1 \<or> r = 2 \<or> r = 3" unfolding r_def by linarith
  show "padding_at p \<le> 3" using r by (auto simp: padding_at_def r_def [symmetric])
  have "(p + 3 + padding_at p) mod 4 = (r + padding_at p) mod 4" unfolding r_def by (simp add: mod_add_left_eq)
  also have "\<dots> = 0" using r by (auto simp: padding_at_def r_def [symmetric])
  finally show "(p + 3 + padding_at p) mod 4 = 0" .
qed

lemma unat_padding_length:
  "unat (ucast ((4 - (ucast p + 1 + 2) mod 4) mod 4 :: u32) :: u8) = padding_at (unat p)" for p :: u16
proof -
  have "unat (ucast p + 1 + 2 :: u32) = unat p + 3"
    using unat_lt16 [of p] by (simp add: unat_add32 add.assoc)
  then have m: "unat ((ucast p + 1 + 2) mod 4 :: u32) = (unat p + 3) mod 4" by (simp add: unat_mod)
  have "unat ((4 - (ucast p + 1 + 2) mod 4) :: u32) = 4 - (unat p + 3) mod 4"
    using m by (subst unat_diff_le) (simp_all add: word_le_nat_alt)
  then have "unat ((4 - (ucast p + 1 + 2) mod 4) mod 4 :: u32) = padding_at (unat p)"
    by (simp add: unat_mod padding_at_def)
  then show ?thesis using padding_at_le [of "unat p"]
    by (simp add: unsigned_ucast_eq take_bit_nat_eq_self)
qed

lemma and_mask_3: "unat n \<le> 3 \<Longrightarrow> n AND 3 = n" for n :: u8
proof -
  assume "unat n \<le> 3"
  then have "take_bit 2 n = n" by (simp add: word_unat_eq_iff unsigned_take_bit_eq take_bit_nat_eq_self)
  then show ?thesis by (simp add: take_bit_eq_mask mask_eq_exp_minus_1)
qed

lemma EncodePaddedBytes_law:
  assumes ok: "enc_ok e" "enc_Buffer e \<noteq> None" and L: "swaps_bytes L" and len: "unat len \<le> length bs"
  defines "k \<equiv> padding_at (unat (enc_Position e))"
  shows "runs (AziHsmMborEncodePaddedBytes b L (Some e) (Some bs) len)
    (encoded e ((0x80 OR of_nat k) # be16 len @ replicate k 0 @ take (unat len) bs))"
proof -
  define w :: u8 where "w = ucast ((4 - (ucast (enc_Position e) + 1 + 2) mod 4) mod 4 :: u32)"
  have w: "unat w = k" unfolding w_def k_def by (rule unat_padding_length)
  have k: "k \<le> 3" unfolding k_def by (rule padding_at_le)
  have wk: "w = of_nat k" using w by (rule word_eq_of_nat)
  have m: "MBOR_BYTES_MARKER OR (w AND MBOR_BYTES_PADDING_MASK) = 0x80 OR of_nat k"
    using and_mask_3 [of w] w k wk by (simp add: marker_defs)
  have nl: "\<not> MBOR_BYTES_PADDING_MASK < w" using w k by (simp add: marker_defs word_less_nat_alt)
  have eq: "AziHsmMborEncodePaddedBytes b L (Some e) (Some bs) len =
    on_success (AziHsmMborEncodeMarker (Some e) (0x80 OR of_nat k)) (\<lambda>E.
    on_success (AziHsmMborEncoderEncode E (Some (be16 len)) 2) (\<lambda>E.
    on_success (encode_padding k E) (\<lambda>E. do {
      ASSERT b (enc_Position (the E) mod 4 = 0);
      AziHsmMborEncoderEncode E (Some bs) len })))"
    unfolding AziHsmMborEncodePaddedBytes_def Let_def prod.case option.case w_def [symmetric] m w
      if_not_P [OF nl] convert_defs swaps_bytesD [OF L] be16_def ..
  have al: "enc_Position e' mod 4 = 0"
    if "unat (enc_Position e') = unat (enc_Position e) + 3 + k" for e' :: azihsm_mbor_encoder
    using that padding_at_aligned [of "unat (enc_Position e)"] by (simp add: word_unat_eq_iff unat_mod k_def)
  have "runs (AziHsmMborEncodePaddedBytes b L (Some e) (Some bs) len)
    (encoded e ([0x80 OR of_nat k] @ be16 len @ replicate k 0 @ take (unat len) bs))"
    unfolding eq
  proof (rule encoded_seq [OF EncodeMarker_law [OF ok]])
    fix e1 assume e1: "enc_ok e1" "enc_Buffer e1 \<noteq> None"
      and p1: "unat (enc_Position e1) = unat (enc_Position e) + length [0x80 OR of_nat k :: u8]"
    have l2: "unat (2 :: u16) = length (be16 len)" by (simp add: be16_def)
    show "runs (on_success (AziHsmMborEncoderEncode (Some e1) (Some (be16 len)) 2) (\<lambda>E.
        on_success (encode_padding k E) (\<lambda>E. do {
          ASSERT b (enc_Position (the E) mod 4 = 0);
          AziHsmMborEncoderEncode E (Some bs) len }))) (encoded e1 (be16 len @ replicate k 0 @ take (unat len) bs))"
    proof (rule encoded_seq [OF EncoderEncode_all [OF e1 l2]])
      fix e2 assume e2: "enc_ok e2" "enc_Buffer e2 \<noteq> None"
        and p2: "unat (enc_Position e2) = unat (enc_Position e1) + length (be16 len)"
      show "runs (on_success (encode_padding k (Some e2)) (\<lambda>E. do {
          ASSERT b (enc_Position (the E) mod 4 = 0);
          AziHsmMborEncoderEncode E (Some bs) len })) (encoded e2 (replicate k 0 @ take (unat len) bs))"
      proof (rule encoded_seq [OF encode_padding_law [OF e2]])
        fix e3 assume e3: "enc_ok e3" "enc_Buffer e3 \<noteq> None"
          and p3: "unat (enc_Position e3) = unat (enc_Position e2) + length (replicate k (0 :: u8))"
        have "enc_Position e3 mod 4 = 0" using al [of e3] p1 p2 p3 by (simp add: be16_def)
        then show "runs (do { ASSERT b (enc_Position (the (Some e3)) mod 4 = 0);
            AziHsmMborEncoderEncode (Some e3) (Some bs) len }) (encoded e3 (take (unat len) bs))"
          using EncoderEncode_law [OF e3 len] by simp
      qed
    qed
  qed
  then show ?thesis by simp
qed

lemma encode_item_law:
  assumes "enc_ok e" "enc_Buffer e \<noteq> None" "swaps_bytes L" "item_valid it"
  shows "runs (encode_item b L (Some e) it) (encoded e (mbor_bytes (unat (enc_Position e)) it))"
proof (cases it)
  case (ItemBytes bs)
  then show ?thesis using EncodeBytes_law [OF assms(1-3), of "of_nat (length bs)" bs] assms(4) by (simp add: unat_of_nat16)
next
  case (ItemPadded bs)
  then show ?thesis using EncodePaddedBytes_law [OF assms(1-3), of "of_nat (length bs)" bs b] assms(4)
    by (simp add: unat_of_nat16)
qed (use assms in \<open>simp_all add: EncodeU8_law EncodeU16_law EncodeU32_law EncodeU64_law
  EncodeMap_law EncodeBoolean_law split del: if_split\<close>)

subsection \<open>What a decoding step reads\<close>

definition dec_ok :: "azihsm_mbor_decoder \<Rightarrow> bool" where
  "dec_ok d \<longleftrightarrow> (case dec_Buffer d of None \<Rightarrow> dec_Capacity d = 0 | Some m \<Rightarrow> unat (dec_Capacity d) \<le> length m) \<and>
     unat (dec_Position d) \<le> unat (dec_Capacity d)"

text \<open>\<open>bs\<close> are the next bytes the decoder will read.\<close>

definition upcoming :: "azihsm_mbor_decoder \<Rightarrow> u8 list \<Rightarrow> bool" where
  "upcoming d bs \<longleftrightarrow> (\<exists>m. dec_Buffer d = Some m \<and>
     unat (dec_Position d) + length bs \<le> unat (dec_Capacity d) \<and>
     take (length bs) (drop (unat (dec_Position d)) m) = bs)"

definition advance :: "azihsm_mbor_decoder \<Rightarrow> nat \<Rightarrow> azihsm_mbor_decoder" where
  "advance d n = d\<lparr>dec_Position := dec_Position d + of_nat n\<rparr>"

lemma advance_simps [simp]:
  "dec_Buffer (advance d n) = dec_Buffer d" "dec_Capacity (advance d n) = dec_Capacity d" "advance d 0 = d"
  "advance (advance d n) k = advance d (n + k)"
  by (simp_all add: advance_def add.assoc)

lemma unat_advance:
  "unat (dec_Position d) + n \<le> unat (dec_Capacity d) \<Longrightarrow>
     unat (dec_Position (advance d n)) = unat (dec_Position d) + n"
  using unat_lt16 [of "dec_Capacity d"] by (simp add: advance_def unat_add16 unat_of_nat16)

lemma upcoming_length: "upcoming d bs \<Longrightarrow> unat (dec_Position d) + length bs \<le> unat (dec_Capacity d)"
  by (auto simp: upcoming_def)

lemma dec_ok_advance: "dec_ok d \<Longrightarrow> upcoming d bs \<Longrightarrow> dec_ok (advance d (length bs))"
  using unat_advance [of d "length bs"] upcoming_length [of d bs] by (auto simp: dec_ok_def split: option.splits)

lemma upcoming_append:
  assumes "upcoming d (xs @ ys)"
  shows "upcoming d xs" "upcoming (advance d (length xs)) ys"
proof -
  obtain m where m: "dec_Buffer d = Some m" "unat (dec_Position d) + length (xs @ ys) \<le> unat (dec_Capacity d)"
    "take (length (xs @ ys)) (drop (unat (dec_Position d)) m) = xs @ ys"
    using assms by (auto simp: upcoming_def)
  have a: "unat (dec_Position (advance d (length xs))) = unat (dec_Position d) + length xs"
    using m(2) by (intro unat_advance) simp
  have "take (length xs) (drop (unat (dec_Position d)) m) = xs"
    using m(3) by (metis append_eq_conv_conj length_append min.absorb1 le_add1 take_take)
  moreover have "take (length ys) (drop (unat (dec_Position d) + length xs) m) = ys"
    using arg_cong [OF m(3), of "drop (length xs)"] by (simp add: drop_take add.commute)
  ultimately show "upcoming d xs" "upcoming (advance d (length xs)) ys"
    using m(1,2) a by (auto simp: upcoming_def)
qed

lemma DecoderDecode_upcoming:
  assumes "dec_ok d" "upcoming d bs" "unat len = length bs" "length bs \<le> length dst"
  shows "AziHsmMborDecoderDecode (Some d) (Some dst) len =
    Some (EFI_SUCCESS, Some (advance d (length bs)), Some (bs @ drop (length bs) dst))"
proof -
  obtain m where m: "dec_Buffer d = Some m" "unat (dec_Position d) + length bs \<le> unat (dec_Capacity d)"
    "take (length bs) (drop (unat (dec_Position d)) m) = bs" "unat (dec_Capacity d) \<le> length m"
    using assms by (auto simp: upcoming_def dec_ok_def)
  have "len = of_nat (length bs)" using assms(3) by (rule word_eq_of_nat)
  then show ?thesis
    using m assms(3,4) by (simp add: AziHsmMborDecoderDecode_def exceeds_iff16 advance_def mem_write_def)
qed

lemma decode_variable_upcoming:
  assumes "dec_ok d" "upcoming d bs" "length bs = n" "n < 65536"
  shows "decode_variable n (Some d) = Some (EFI_SUCCESS, Some (advance d n), Some bs)"
  using DecoderDecode_upcoming [OF assms(1,2), of "of_nat n" "replicate n 0"] assms(3,4)
  by (simp add: decode_variable_def unat_of_nat16)

text \<open>Decoding the marker, then the rest.\<close>

lemma decode_marker:
  assumes "dec_ok d" "upcoming d (x # bs)"
  shows "decode_variable 1 (Some d) = Some (EFI_SUCCESS, Some (advance d 1), Some [x])"
    and "dec_ok (advance d 1)" and "upcoming (advance d 1) bs" and "of_le_bytes [x] = x"
proof -
  have u: "upcoming d [x]" "upcoming (advance d 1) bs"
    using upcoming_append [of d "[x]" bs] assms(2) by simp_all
  show "decode_variable 1 (Some d) = Some (EFI_SUCCESS, Some (advance d 1), Some [x])"
    by (rule decode_variable_upcoming [OF assms(1) u(1)]) simp_all
  show "dec_ok (advance d 1)" using dec_ok_advance [OF assms(1) u(1)] by simp
  show "upcoming (advance d 1) bs" by (rule u(2))
  show "of_le_bytes [x] = x" by simp
qed

lemma swap_back:
  assumes "swaps_bytes L"
  shows "SwapBytes16 L (of_le_bytes (rev (le_bytes 2 x))) = x" "SwapBytes32 L (of_le_bytes (rev (le_bytes 4 y))) = y"
    "SwapBytes64 L (of_le_bytes (rev (le_bytes 8 z))) = z"
proof -
  note s = swaps_bytesD [OF assms]
  have "le_bytes 2 (SwapBytes16 L (of_le_bytes (rev (le_bytes 2 x)))) = le_bytes 2 x"
    unfolding s by (subst le_bytes_of_le_bytes) simp_all
  then show "SwapBytes16 L (of_le_bytes (rev (le_bytes 2 x))) = x"
    using of_le_bytes_le_bytes [of 2 x] of_le_bytes_le_bytes [of 2 "SwapBytes16 L (of_le_bytes (rev (le_bytes 2 x)))"] by simp
  have "le_bytes 4 (SwapBytes32 L (of_le_bytes (rev (le_bytes 4 y)))) = le_bytes 4 y"
    unfolding s by (subst le_bytes_of_le_bytes) simp_all
  then show "SwapBytes32 L (of_le_bytes (rev (le_bytes 4 y))) = y"
    using of_le_bytes_le_bytes [of 4 y] of_le_bytes_le_bytes [of 4 "SwapBytes32 L (of_le_bytes (rev (le_bytes 4 y)))"] by simp
  have "le_bytes 8 (SwapBytes64 L (of_le_bytes (rev (le_bytes 8 z)))) = le_bytes 8 z"
    unfolding s by (subst le_bytes_of_le_bytes) simp_all
  then show "SwapBytes64 L (of_le_bytes (rev (le_bytes 8 z))) = z"
    using of_le_bytes_le_bytes [of 8 z] of_le_bytes_le_bytes [of 8 "SwapBytes64 L (of_le_bytes (rev (le_bytes 8 z)))"] by simp
qed

lemma DecodeU8_upcoming:
  assumes "dec_ok d" "upcoming d [0x18, v]"
  shows "AziHsmMborDecodeU8 (Some d) (Some old) = Some (EFI_SUCCESS, Some (advance d 2), Some v)"
  using decode_marker [OF assms] decode_marker [of "advance d 1" v "[]"]
  by (simp add: AziHsmMborDecodeU8_def marker_defs numeral_2_eq_2)

lemma DecodeU16_upcoming:
  assumes "dec_ok d" "upcoming d (0x19 # rev (le_bytes 2 v))" "swaps_bytes L"
  shows "AziHsmMborDecodeU16 L (Some d) (Some old) = Some (EFI_SUCCESS, Some (advance d 3), Some v)"
  using decode_marker [OF assms(1,2)] decode_variable_upcoming [of "advance d 1" "rev (le_bytes 2 v)" 2]
  by (simp add: AziHsmMborDecodeU16_def marker_defs convert_defs swap_back [OF assms(3)] del: One_nat_def)

lemma DecodeU32_upcoming:
  assumes "dec_ok d" "upcoming d (0x1A # rev (le_bytes 4 v))" "swaps_bytes L"
  shows "AziHsmMborDecodeU32 L (Some d) (Some old) = Some (EFI_SUCCESS, Some (advance d 5), Some v)"
  using decode_marker [OF assms(1,2)] decode_variable_upcoming [of "advance d 1" "rev (le_bytes 4 v)" 4]
  by (simp add: AziHsmMborDecodeU32_def marker_defs convert_defs swap_back [OF assms(3)] del: One_nat_def)

lemma DecodeU64_upcoming:
  assumes "dec_ok d" "upcoming d (0x1B # rev (le_bytes 8 v))" "swaps_bytes L"
  shows "AziHsmMborDecodeU64 L (Some d) (Some old) = Some (EFI_SUCCESS, Some (advance d 9), Some v)"
  using decode_marker [OF assms(1,2)] decode_variable_upcoming [of "advance d 1" "rev (le_bytes 8 v)" 8]
  by (simp add: AziHsmMborDecodeU64_def marker_defs convert_defs swap_back [OF assms(3)] del: One_nat_def)

lemma DecodeBoolean_upcoming:
  assumes "dec_ok d" "upcoming d [if v then 0x15 else 0x14]"
  shows "AziHsmMborDecodeBoolean (Some d) (Some old) = Some (EFI_SUCCESS, Some (advance d 1), Some v)"
  using decode_marker [OF assms] by (simp add: AziHsmMborDecodeBoolean_def marker_defs)

lemma map_marker:
  assumes "n \<le> 15"
  shows "(0xA0 OR n) AND 0xF0 = (0xA0 :: u8)" "(0xA0 OR n) AND 0x0F = n"
proof -
  have n: "n AND 15 = n" using and_mask_le [OF assms] .
  have "(0xA0 OR n) AND 0xF0 = (0xA0 AND 0xF0) OR ((n AND 15) AND 0xF0)"
    unfolding n by (simp add: bit.conj_disj_distrib2)
  also have "(n AND 15) AND 0xF0 = 0" by (simp add: and.assoc)
  finally show "(0xA0 OR n) AND 0xF0 = (0xA0 :: u8)" by simp
  show "(0xA0 OR n) AND 0x0F = n" using n by (simp add: bit.conj_disj_distrib2)
qed

lemma DecodeMap_upcoming:
  assumes "dec_ok d" "upcoming d [0xA0 OR n]" "n \<le> 15"
  shows "AziHsmMborDecodeMap (Some d) (Some old) = Some (EFI_SUCCESS, Some (advance d 1), Some n)"
  using decode_marker [OF assms(1,2)] map_marker [OF assms(3)]
  by (simp add: AziHsmMborDecodeMap_def marker_defs)

text \<open>The length field and the data, after the marker and the padding.\<close>

lemma decode_length:
  assumes "dec_ok d" "upcoming d (be16 len @ bs)" "swaps_bytes L"
  shows "decode_variable 2 (Some d) = Some (EFI_SUCCESS, Some (advance d 2), Some (be16 len))"
    and "ConvertToLittleEndian16 L (of_le_bytes (be16 len)) = len"
    and "dec_ok (advance d 2)" and "upcoming (advance d 2) bs"
proof -
  have l: "length (be16 len) = 2" by (simp add: be16_def)
  note u = upcoming_append [OF assms(2), unfolded l]
  show "decode_variable 2 (Some d) = Some (EFI_SUCCESS, Some (advance d 2), Some (be16 len))"
    using decode_variable_upcoming [OF assms(1) u(1) l] by simp
  show "ConvertToLittleEndian16 L (of_le_bytes (be16 len)) = len"
    by (simp add: convert_defs be16_def swap_back [OF assms(3)])
  show "dec_ok (advance d 2)" using dec_ok_advance [OF assms(1) u(1)] l by simp
  show "upcoming (advance d 2) bs" by (rule u(2))
qed

lemma DecodeBytes_upcoming:
  assumes "dec_ok d" "upcoming d (0x80 # be16 len @ bs)" "swaps_bytes L" "unat len = length bs"
    and "length bs \<le> length dst"
  shows "AziHsmMborDecodeBytes L (Some d) (Some dst) (Some old) =
    Some (EFI_SUCCESS, Some (advance d (3 + length bs)), Some (bs @ drop (length bs) dst), Some len)"
proof -
  note m = decode_marker [OF assms(1,2)]
  note l = decode_length [OF m(2,3) assms(3)]
  have "\<not> POSITION_EXCEEDS_CAPACITY (dec_Position (advance d 3)) (dec_Capacity d) (ucast len)"
    using upcoming_length [OF l(4)] assms(4) by (simp add: exceeds_iff16 del: One_nat_def)
  then show ?thesis
    using m(1) l DecoderDecode_upcoming [OF l(3,4) assms(4,5)]
    by (simp add: AziHsmMborDecodeBytes_def marker_defs del: One_nat_def)
qed

lemma decode_padding_upcoming:
  "dec_ok d \<Longrightarrow> upcoming d (replicate n 0 @ bs) \<Longrightarrow>
     decode_padding n (Some d) = Some (EFI_SUCCESS, Some (advance d n)) \<and>
     dec_ok (advance d n) \<and> upcoming (advance d n) bs"
proof (induction n arbitrary: d)
  case 0
  then show ?case by simp
next
  case (Suc n)
  then show ?case
    using decode_marker [of d 0 "replicate n 0 @ bs"] Suc.IH [of "advance d 1"] by simp
qed

lemma padding_marker:
  assumes "k \<le> 3"
  shows "(0x80 OR of_nat k) AND NOT 3 = (0x80 :: u8)" "(0x80 OR of_nat k) AND 3 = (of_nat k :: u8)"
    "unat (of_nat k :: u8) = k"
proof -
  have "k = 0 \<or> k = 1 \<or> k = 2 \<or> k = 3" using assms by linarith
  then show "(0x80 OR of_nat k) AND NOT 3 = (0x80 :: u8)" "(0x80 OR of_nat k) AND 3 = (of_nat k :: u8)"
    "unat (of_nat k :: u8) = k"
    by auto
qed

lemma unat_ucast8_32 [simp]: "unat (ucast x :: u32) = unat x" for x :: u8
  using unsigned_less [of x, where ?'a = nat] by (simp add: unsigned_ucast_eq take_bit_nat_eq_self)

lemma DecodePaddedBytes_upcoming:
  assumes "dec_ok d" "upcoming d ((0x80 OR of_nat k) # be16 len @ replicate k 0 @ bs)" "k \<le> 3"
    and "swaps_bytes L" "unat len = length bs" "length bs \<le> length dst"
  shows "AziHsmMborDecodePaddedBytes L (Some d) (Some dst) (Some old) =
    Some (EFI_SUCCESS, Some (advance d (3 + k + length bs)), Some (bs @ drop (length bs) dst), Some len)"
proof -
  note m = decode_marker [OF assms(1,2)]
  note l = decode_length [OF m(2,3) assms(4)]
  note p = decode_padding_upcoming [OF l(3,4)]
  note pm = padding_marker [OF assms(3)]
  have "unat (ucast len + ucast (of_nat k :: u8) :: u32) = length bs + k"
    using pm(3) assms(3,5) unat_lt16 [of len] by (simp add: unat_add32)
  then have "\<not> POSITION_EXCEEDS_CAPACITY (dec_Position (advance d 3)) (dec_Capacity d)
      (ucast len + ucast (of_nat k :: u8))"
    using upcoming_length [OF l(4)] assms(3,5) unat_lt16 [of len]
    by (subst exceeds_iff) (simp_all del: One_nat_def)
  then show ?thesis
    using m(1) l p pm DecoderDecode_upcoming [OF _ _ assms(5,6), of "advance d (3 + k)"]
    by (simp add: AziHsmMborDecodePaddedBytes_def marker_defs Let_def add.assoc del: One_nat_def)
qed

subsection \<open>Items and sequences of items\<close>

text \<open>What a reader asks for; the number is the size of the destination of a byte string.\<close>

datatype mbor_kind = KU8 | KU16 | KU32 | KU64 | KBoolean | KMap | KBytes nat | KPadded nat

fun kind_of :: "mbor_item \<Rightarrow> mbor_kind" where
  "kind_of (ItemU8 _) = KU8"
| "kind_of (ItemU16 _) = KU16"
| "kind_of (ItemU32 _) = KU32"
| "kind_of (ItemU64 _) = KU64"
| "kind_of (ItemBoolean _) = KBoolean"
| "kind_of (ItemMap _) = KMap"
| "kind_of (ItemBytes bs) = KBytes (length bs)"
| "kind_of (ItemPadded bs) = KPadded (length bs)"

definition read_value :: "('v \<Rightarrow> mbor_item) \<Rightarrow> 'v dec_result \<Rightarrow> mbor_item dec_result" where
  "read_value f m = do {
     (Status, D, v) \<leftarrow> m;
     Some (Status, D, if EFI_ERROR Status then None else map_option f v)
   }"

definition read_bytes :: "(u8 list \<Rightarrow> mbor_item) \<Rightarrow> bytes_result \<Rightarrow> mbor_item dec_result" where
  "read_bytes f m = do {
     (Status, D, dst, len) \<leftarrow> m;
     Some (Status, D, if EFI_ERROR Status then None else Some (f (take (unat (the len)) (the dst))))
   }"

fun decode_item :: "base_lib \<Rightarrow> mbor_kind \<Rightarrow> azihsm_mbor_decoder option \<Rightarrow> mbor_item dec_result" where
  "decode_item L KU8 D = read_value ItemU8 (AziHsmMborDecodeU8 D (Some 0))"
| "decode_item L KU16 D = read_value ItemU16 (AziHsmMborDecodeU16 L D (Some 0))"
| "decode_item L KU32 D = read_value ItemU32 (AziHsmMborDecodeU32 L D (Some 0))"
| "decode_item L KU64 D = read_value ItemU64 (AziHsmMborDecodeU64 L D (Some 0))"
| "decode_item L KBoolean D = read_value ItemBoolean (AziHsmMborDecodeBoolean D (Some False))"
| "decode_item L KMap D = read_value ItemMap (AziHsmMborDecodeMap D (Some 0))"
| "decode_item L (KBytes n) D =
     read_bytes ItemBytes (AziHsmMborDecodeBytes L D (Some (replicate n 0)) (Some 0))"
| "decode_item L (KPadded n) D =
     read_bytes ItemPadded (AziHsmMborDecodePaddedBytes L D (Some (replicate n 0)) (Some 0))"

lemma decode_item_law:
  assumes "dec_ok d" "item_valid it" "upcoming d (mbor_bytes (unat (dec_Position d)) it)" "swaps_bytes L"
  shows "decode_item L (kind_of it) (Some d) =
    Some (EFI_SUCCESS, Some (advance d (length (mbor_bytes (unat (dec_Position d)) it))), Some it)"
proof (cases it)
  case (ItemBytes bs)
  then show ?thesis
    using DecodeBytes_upcoming [OF assms(1) _ assms(4), of "of_nat (length bs)" bs "replicate (length bs) 0" 0] assms(2,3)
    by (simp add: read_bytes_def unat_of_nat16 be16_def numeral_3_eq_3)
next
  case (ItemPadded bs)
  then show ?thesis
    using DecodePaddedBytes_upcoming [OF assms(1) _ padding_at_le assms(4), of "unat (dec_Position d)"
        "of_nat (length bs)" bs "replicate (length bs) 0" 0] assms(2,3)
    by (simp add: read_bytes_def unat_of_nat16 be16_def add.assoc numeral_3_eq_3)
qed (use assms in \<open>simp_all add: read_value_def DecodeU8_upcoming DecodeU16_upcoming DecodeU32_upcoming
  DecodeU64_upcoming DecodeBoolean_upcoming DecodeMap_upcoming numeral_2_eq_2 numeral_3_eq_3 split del: if_split\<close>)

text \<open>Sequences, for any kind of field.\<close>

primrec stream :: "(nat \<Rightarrow> 'a \<Rightarrow> u8 list) \<Rightarrow> nat \<Rightarrow> 'a list \<Rightarrow> u8 list" where
  "stream bytes pos [] = []"
| "stream bytes pos (x # xs) = bytes pos x @ stream bytes (pos + length (bytes pos x)) xs"

primrec encode_seq ::
  "(azihsm_mbor_encoder option \<Rightarrow> 'a \<Rightarrow> enc_result) \<Rightarrow> 'a list \<Rightarrow> azihsm_mbor_encoder option \<Rightarrow> enc_result" where
  "encode_seq enc [] E = Some (EFI_SUCCESS, E)"
| "encode_seq enc (x # xs) E = on_success (enc E x) (encode_seq enc xs)"

primrec decode_seq ::
  "('k \<Rightarrow> azihsm_mbor_decoder option \<Rightarrow> 'a dec_result) \<Rightarrow> 'k list \<Rightarrow> azihsm_mbor_decoder option \<Rightarrow>
     (efi_status \<times> azihsm_mbor_decoder option \<times> 'a list) option" where
  "decode_seq dec [] D = Some (EFI_SUCCESS, D, [])"
| "decode_seq dec (k # ks) D = do {
     (Status, D, v) \<leftarrow> dec k D;
     if EFI_ERROR Status then Some (Status, D, [])
     else do {
       (Status, D, vs) \<leftarrow> decode_seq dec ks D;
       Some (Status, D, the v # vs)
     }
   }"

text \<open>
  The contract of a pair of encoding and decoding functions: the encoder appends the bytes
  of the wire format or reports that there is no room, and the decoder reads them back.
\<close>

locale mbor_field =
  fixes valid :: "'a \<Rightarrow> bool"
    and bytes :: "nat \<Rightarrow> 'a \<Rightarrow> u8 list"
    and kind :: "'a \<Rightarrow> 'k"
    and enc :: "azihsm_mbor_encoder option \<Rightarrow> 'a \<Rightarrow> enc_result"
    and dec :: "'k \<Rightarrow> azihsm_mbor_decoder option \<Rightarrow> 'a dec_result"
  assumes enc_law: "enc_ok e \<Longrightarrow> enc_Buffer e \<noteq> None \<Longrightarrow> valid x \<Longrightarrow>
      runs (enc (Some e) x) (encoded e (bytes (unat (enc_Position e)) x))"
    and dec_law: "dec_ok d \<Longrightarrow> valid x \<Longrightarrow> upcoming d (bytes (unat (dec_Position d)) x) \<Longrightarrow>
      dec (kind x) (Some d) =
        Some (EFI_SUCCESS, Some (advance d (length (bytes (unat (dec_Position d)) x))), Some x)"
begin

lemma encode_seq_law:
  "enc_ok e \<Longrightarrow> enc_Buffer e \<noteq> None \<Longrightarrow> \<forall>x \<in> set xs. valid x \<Longrightarrow>
     runs (encode_seq enc xs (Some e)) (encoded e (stream bytes (unat (enc_Position e)) xs))"
proof (induction xs arbitrary: e)
  case Nil
  then show ?case by (auto simp: encoded_def enc_ok_def intro!: runs_SomeI)
next
  case (Cons x xs)
  show ?case
    unfolding encode_seq.simps stream.simps
  proof (rule encoded_seq)
    show "runs (enc (Some e) x) (encoded e (bytes (unat (enc_Position e)) x))"
      using Cons.prems by (intro enc_law) auto
    fix e' assume "enc_ok e'" "enc_Buffer e' \<noteq> None"
      "unat (enc_Position e') = unat (enc_Position e) + length (bytes (unat (enc_Position e)) x)"
    then show "runs (encode_seq enc xs (Some e'))
        (encoded e' (stream bytes (unat (enc_Position e) + length (bytes (unat (enc_Position e)) x)) xs))"
      using Cons.IH [of e'] Cons.prems by simp
  qed
qed

lemma decode_seq_law:
  "dec_ok d \<Longrightarrow> \<forall>x \<in> set xs. valid x \<Longrightarrow> upcoming d (stream bytes (unat (dec_Position d)) xs) \<Longrightarrow>
     decode_seq dec (map kind xs) (Some d) =
       Some (EFI_SUCCESS, Some (advance d (length (stream bytes (unat (dec_Position d)) xs))), xs)"
proof (induction xs arbitrary: d)
  case Nil
  then show ?case by simp
next
  case (Cons x xs)
  let ?b = "bytes (unat (dec_Position d)) x"
  have up: "upcoming d ?b" "upcoming (advance d (length ?b)) (stream bytes (unat (dec_Position d) + length ?b) xs)"
    using upcoming_append Cons.prems(3) by simp_all
  have p: "unat (dec_Position (advance d (length ?b))) = unat (dec_Position d) + length ?b"
    using upcoming_length [OF up(1)] by (rule unat_advance)
  have "decode_seq dec (map kind xs) (Some (advance d (length ?b))) =
      Some (EFI_SUCCESS, Some (advance (advance d (length ?b))
        (length (stream bytes (unat (dec_Position d) + length ?b) xs))), xs)"
    using Cons.IH [of "advance d (length ?b)"] dec_ok_advance [OF Cons.prems(1) up(1)] Cons.prems(2) up(2)
    unfolding p by simp
  then show ?case using dec_law [OF Cons.prems(1) _ up(1)] Cons.prems(2) by simp
qed

text \<open>
  What was encoded from the position of \<open>e\<close> on is read back by a decoder placed there.
\<close>

lemma encode_decode:
  assumes e: "enc_ok e" "enc_Buffer e \<noteq> None" and v: "\<forall>x \<in> set xs. valid x"
    and enc: "encode_seq enc xs (Some e) = Some (EFI_SUCCESS, Some e')"
    and d: "dec_Buffer d = enc_Buffer e'" "dec_Position d = enc_Position e" "dec_Capacity d = enc_Capacity e'"
  shows "\<exists>d'. decode_seq dec (map kind xs) (Some d) = Some (EFI_SUCCESS, Some d', xs) \<and>
    dec_Position d' = enc_Position e'"
proof -
  let ?s = "stream bytes (unat (enc_Position e)) xs" and ?p = "unat (enc_Position e)"
  have "encoded e ?s (EFI_SUCCESS, Some e')" using runs_result [OF encode_seq_law [OF e v] enc] .
  then obtain m m' where m: "enc_ok e'" "enc_Buffer e = Some m" "enc_Buffer e' = Some m'" "length m' = length m"
    "enc_Capacity e' = enc_Capacity e" "?p + length ?s \<le> unat (enc_Capacity e)"
    "unat (enc_Position e') = ?p + length ?s" "take (?p + length ?s) m' = take ?p m @ ?s"
    by (auto simp: encoded_def split: if_splits)
  have p: "?p \<le> length m" using e(1) m(2) by (simp add: enc_ok_def)
  have "take (length ?s) (drop ?p m') = drop ?p (take (?p + length ?s) m')" by (simp add: drop_take)
  also have "\<dots> = ?s" using m(8) p by simp
  finally have up: "upcoming d ?s" using m d by (simp add: upcoming_def)
  have ok: "dec_ok d" using e(1) m d by (simp add: dec_ok_def enc_ok_def)
  have "unat (dec_Position (advance d (length ?s))) = unat (enc_Position e')"
    using unat_advance [OF upcoming_length [OF up]] d(2) m(7) by simp
  then show ?thesis
    using decode_seq_law [OF ok v] up d(2) by (simp add: word_unat_eq_iff)
qed

end

text \<open>
  On every platform whose byte swapping functions do what they promise, the items of the
  format are such fields.
\<close>

locale mbor_platform =
  fixes L :: base_lib
  assumes swaps: "swaps_bytes L"
begin

lemma item_field: "mbor_field item_valid mbor_bytes kind_of (encode_item b L) (decode_item L)"
  by unfold_locales (auto intro: encode_item_law decode_item_law swaps)

end

sublocale mbor_platform \<subseteq> items: mbor_field item_valid mbor_bytes kind_of "encode_item b L" "decode_item L" for b
  by (rule item_field)

text \<open>Byte swapping as the base library documents it.\<close>

definition little_endian_lib :: base_lib where
  "little_endian_lib = \<lparr>SwapBytes16 = (\<lambda>x. of_le_bytes (rev (le_bytes 2 x))),
     SwapBytes32 = (\<lambda>x. of_le_bytes (rev (le_bytes 4 x))), SwapBytes64 = (\<lambda>x. of_le_bytes (rev (le_bytes 8 x)))\<rparr>"

lemma swaps_bytes_little_endian_lib: "swaps_bytes little_endian_lib"
  by (simp add: swaps_bytes_def little_endian_lib_def le_bytes_of_le_bytes)

interpretation le_platform: mbor_platform little_endian_lib
  by unfold_locales (rule swaps_bytes_little_endian_lib)

end
