(* ===== verification/Mbor_Safety.thy ===== *)
theory Mbor_Safety
  imports Mbor_Codec
begin

text \<open>
  Decoding of arbitrary bytes. Nothing is assumed of the contents of the buffer: the
  lemmas show that no function of the decoder reads outside it, that the decoder stays well
  formed, and that every successful step moves the position forward, so that a loop of
  successful decoding steps ends.
\<close>

subsection \<open>Steps of a decoder\<close>

definition dec_step :: "azihsm_mbor_decoder \<Rightarrow> azihsm_mbor_decoder option \<Rightarrow> bool" where
  "dec_step d D \<longleftrightarrow> (\<exists>d'. D = Some d' \<and> dec_ok d' \<and> dec_Buffer d' = dec_Buffer d \<and>
     dec_Capacity d' = dec_Capacity d \<and> unat (dec_Position d) \<le> unat (dec_Position d'))"

lemma dec_step_refl: "dec_ok d \<Longrightarrow> dec_step d (Some d)"
  by (simp add: dec_step_def)

lemma dec_step_trans [trans]: "dec_step d (Some d') \<Longrightarrow> dec_step d' D \<Longrightarrow> dec_step d D"
  by (auto simp: dec_step_def)

lemma dec_step_ok: "dec_step d0 (Some d) \<Longrightarrow> dec_ok d"
  by (simp add: dec_step_def)

lemma dec_stepE:
  assumes "dec_step d D"
  obtains d' where "D = Some d'" "dec_ok d'" "dec_step d (Some d')"
  using assms by (auto simp: dec_step_def)

text \<open>
  The post-condition of a decoding function: on success the position has moved forward.
\<close>

definition dec_post :: "azihsm_mbor_decoder \<Rightarrow> efi_status \<times> azihsm_mbor_decoder option \<times> 'v option \<Rightarrow> bool" where
  "dec_post d r \<longleftrightarrow> (case r of (s, D, v) \<Rightarrow> dec_step d D \<and> v \<noteq> None \<and>
     (\<not> EFI_ERROR s \<longrightarrow> s = EFI_SUCCESS \<and> unat (dec_Position d) < unat (dec_Position (the D))))"

lemma dec_postI:
  "dec_step d (Some d') \<Longrightarrow> (\<not> EFI_ERROR s \<Longrightarrow> s = EFI_SUCCESS \<and> unat (dec_Position d) < unat (dec_Position d')) \<Longrightarrow>
     dec_post d (s, Some d', Some v)"
  by (simp add: dec_post_def)

lemma upcoming_take:
  assumes "dec_ok d" "dec_Buffer d = Some m" "unat (dec_Position d) + n \<le> unat (dec_Capacity d)"
  shows "upcoming d (take n (drop (unat (dec_Position d)) m))"
    and "length (take n (drop (unat (dec_Position d)) m)) = n"
  using assms by (auto simp: upcoming_def dec_ok_def)

lemma dec_step_advance:
  assumes "dec_ok d" "upcoming d bs"
  shows "dec_step d (Some (advance d (length bs)))"
  using dec_ok_advance [OF assms] unat_advance [OF upcoming_length [OF assms(2)]]
  by (simp add: dec_step_def)

lemma DecoderDecode_runs:
  assumes "dec_ok d" "unat (dec_Position d) + unat len \<le> unat (dec_Capacity d) \<Longrightarrow> unat len \<le> length dst"
  shows "runs (AziHsmMborDecoderDecode (Some d) (Some dst) len) (\<lambda>(s, D, v).
    (s = EFI_SUCCESS \<and> (\<exists>bs. upcoming d bs \<and> length bs = unat len \<and> D = Some (advance d (length bs)) \<and>
       v = Some (bs @ drop (length bs) dst))) \<or>
    (s \<in> {EFI_NOT_READY, EFI_BUFFER_TOO_SMALL} \<and> D = Some d \<and> v = Some dst))"
proof (cases "dec_Buffer d")
  case None
  then show ?thesis by (simp add: AziHsmMborDecoderDecode_def runs_def)
next
  case (Some m)
  show ?thesis
  proof (cases "unat (dec_Position d) + unat len \<le> unat (dec_Capacity d)")
    case True
    note u = upcoming_take [OF assms(1) Some True]
    show ?thesis
      using DecoderDecode_upcoming [OF assms(1) u(1) u(2) [symmetric]] assms(2) [OF True] u
      by (intro runs_eqI) auto
  next
    case False
    then show ?thesis using Some by (simp add: AziHsmMborDecoderDecode_def runs_def exceeds_iff16)
  qed
qed

lemma decode_variable_runs:
  assumes "dec_ok d" "n < 65536"
  shows "runs (decode_variable n (Some d)) (\<lambda>(s, D, v).
    (s = EFI_SUCCESS \<and> (\<exists>bs. upcoming d bs \<and> length bs = n \<and> D = Some (advance d n) \<and> v = Some bs)) \<or>
    (s \<in> {EFI_NOT_READY, EFI_BUFFER_TOO_SMALL} \<and> D = Some d))"
proof -
  have n: "unat (of_nat n :: u16) = n" by (rule unat_of_nat16 [OF assms(2)])
  show ?thesis
    unfolding decode_variable_def
    by (rule runs_mono [OF DecoderDecode_runs [OF assms(1)]]) (auto simp: n)
qed

text \<open>
  The rule for a bound step: it either succeeds, and the continuation starts \<open>n\<close> bytes
  further, or fails and leaves the decoder as it was.
\<close>

lemma unat_advance_upcoming:
  "upcoming d bs \<Longrightarrow> unat (dec_Position (advance d (length bs))) = unat (dec_Position d) + length bs"
  by (rule unat_advance) (rule upcoming_length)

lemma runs_decode_variable:
  assumes d: "dec_step d0 (Some d)" and "n < 65536"
    and ok: "\<And>d' bs. upcoming d bs \<Longrightarrow> length bs = n \<Longrightarrow> dec_step d0 (Some d') \<Longrightarrow>
      unat (dec_Position d') = unat (dec_Position d) + n \<Longrightarrow> runs (f EFI_SUCCESS (Some d') (Some bs)) Q"
    and error: "\<And>s v. EFI_ERROR s \<Longrightarrow> runs (f s (Some d) v) Q"
  shows "runs (decode_variable n (Some d) \<bind> (\<lambda>(s, D, v). f s D v)) Q"
proof (rule runs_bindI, rule runs_mono [OF decode_variable_runs [OF dec_step_ok [OF d] assms(2)]], clarify)
  fix s D v
  assume "s = EFI_SUCCESS \<and> (\<exists>bs. upcoming d bs \<and> length bs = n \<and> D = Some (advance d n) \<and> v = Some bs) \<or>
    s \<in> {EFI_NOT_READY, EFI_BUFFER_TOO_SMALL} \<and> D = Some d"
  then show "runs (f s D v) Q"
  proof (elim disjE conjE exE)
    fix bs
    assume bs: "s = EFI_SUCCESS" "upcoming d bs" "length bs = n" "D = Some (advance d n)" "v = Some bs"
    show ?thesis
      using ok [OF bs(2,3) dec_step_trans [OF d dec_step_advance [OF dec_step_ok [OF d] bs(2), unfolded bs(3)]]]
        unat_advance_upcoming [OF bs(2)] bs by simp
  qed (use error in auto)
qed

subsection \<open>Every decoding function is safe on arbitrary bytes\<close>

lemmas decode_value_defs = AziHsmMborDecodeU8_def AziHsmMborDecodeU16_def AziHsmMborDecodeU32_def
  AziHsmMborDecodeU64_def AziHsmMborDecodeBoolean_def AziHsmMborDecodeMap_def

lemma dec_post_error: "EFI_ERROR s \<Longrightarrow> dec_step d (Some d') \<Longrightarrow> dec_post d (s, Some d', Some v)"
  by (rule dec_postI) simp_all

lemma decode_value_safe:
  assumes "dec_ok d"
  shows "runs (AziHsmMborDecodeU8 (Some d) (Some v8)) (dec_post d)"
    and "runs (AziHsmMborDecodeU16 L (Some d) (Some v16)) (dec_post d)"
    and "runs (AziHsmMborDecodeU32 L (Some d) (Some v32)) (dec_post d)"
    and "runs (AziHsmMborDecodeU64 L (Some d) (Some v64)) (dec_post d)"
    and "runs (AziHsmMborDecodeBoolean (Some d) (Some vb)) (dec_post d)"
    and "runs (AziHsmMborDecodeMap (Some d) (Some v8)) (dec_post d)"
  unfolding decode_value_defs
  by (simp_all del: One_nat_def, (intro runs_decode_variable [where ?d0.0 = d] runs_ifI runs_SomeI dec_post_error dec_postI;
        simp add: dec_step_refl [OF assms])+)

text \<open>
  Decoding bytes needs a destination that is large enough for the length the message
  announces, since the functions do not know its size. \<open>announced_length\<close> is that length; a
  length that leads past the end of the message is refused before anything is copied.
\<close>

definition announced_length :: "base_lib \<Rightarrow> azihsm_mbor_decoder \<Rightarrow> nat" where
  "announced_length L d = (case dec_Buffer d of None \<Rightarrow> 0
   | Some m \<Rightarrow> unat (ConvertToLittleEndian16 L (of_le_bytes (take 2 (drop (unat (dec_Position d) + 1) m)))))"

definition dest_fits :: "base_lib \<Rightarrow> azihsm_mbor_decoder \<Rightarrow> u8 list \<Rightarrow> bool" where
  "dest_fits L d dst \<longleftrightarrow>
     (unat (dec_Position d) + 3 + announced_length L d \<le> unat (dec_Capacity d) \<longrightarrow> announced_length L d \<le> length dst)"

lemma dest_fits_capacity: "unat (dec_Capacity d) \<le> length dst \<Longrightarrow> dest_fits L d dst"
  by (simp add: dest_fits_def)

lemma announced_length_upcoming:
  assumes "dec_step d (Some d')" "unat (dec_Position d') = unat (dec_Position d) + 1" "upcoming d' ys" "length ys = 2"
  shows "announced_length L d = unat (ConvertToLittleEndian16 L (of_le_bytes ys))"
  using assms by (auto simp: announced_length_def upcoming_def dec_step_def)

definition bytes_post :: "azihsm_mbor_decoder \<Rightarrow> nat \<Rightarrow>
  efi_status \<times> azihsm_mbor_decoder option \<times> u8 list option \<times> u16 option \<Rightarrow> bool" where
  "bytes_post d n r \<longleftrightarrow> (case r of (s, D, v, len) \<Rightarrow> dec_post d (s, D, v) \<and> len \<noteq> None \<and>
     length (the v) = n \<and> (\<not> EFI_ERROR s \<longrightarrow> unat (the len) \<le> n))"

lemma runs_DecoderDecode:
  assumes d: "dec_step d0 (Some d)"
    and fits: "unat (dec_Position d) + unat len \<le> unat (dec_Capacity d0) \<Longrightarrow> unat len \<le> length dst"
    and ok: "\<And>d' v. dec_step d0 (Some d') \<Longrightarrow> unat (dec_Position d) \<le> unat (dec_Position d') \<Longrightarrow>
      unat len \<le> length dst \<Longrightarrow> length v = length dst \<Longrightarrow> runs (f EFI_SUCCESS (Some d') (Some v)) Q"
    and error: "\<And>s. EFI_ERROR s \<Longrightarrow> runs (f s (Some d) (Some dst)) Q"
  shows "runs (AziHsmMborDecoderDecode (Some d) (Some dst) len \<bind> (\<lambda>(s, D, v). f s D v)) Q"
proof -
  have cap: "dec_Capacity d = dec_Capacity d0" using d by (simp add: dec_step_def)
  show ?thesis
  proof (rule runs_bindI, rule runs_mono [OF DecoderDecode_runs [OF dec_step_ok [OF d] fits [folded cap]]], simp, clarify)
    fix s D v
    assume "s = EFI_SUCCESS \<and> (\<exists>bs. upcoming d bs \<and> length bs = unat len \<and> D = Some (advance d (length bs)) \<and>
        v = Some (bs @ drop (length bs) dst)) \<or>
      s \<in> {EFI_NOT_READY, EFI_BUFFER_TOO_SMALL} \<and> D = Some d \<and> v = Some dst"
    then show "runs (f s D v) Q"
    proof (elim disjE conjE exE)
      fix bs
      assume bs: "s = EFI_SUCCESS" "upcoming d bs" "length bs = unat len" "D = Some (advance d (length bs))"
        "v = Some (bs @ drop (length bs) dst)"
      show ?thesis
        using ok [OF dec_step_trans [OF d dec_step_advance [OF dec_step_ok [OF d] bs(2)]]]
          unat_advance_upcoming [OF bs(2)] bs fits upcoming_length [OF bs(2)] by (simp add: cap)
    qed (use error in auto)
  qed
qed

lemma decode_padding_safe:
  "dec_step d0 (Some d) \<Longrightarrow> runs (decode_padding n (Some d)) (\<lambda>(s, D). dec_step d0 D \<and>
     unat (dec_Position d) \<le> unat (dec_Position (the D)) \<and> (EFI_ERROR s \<or> s = EFI_SUCCESS))"
proof (induction n arbitrary: d)
  case (Suc n)
  have "runs (decode_padding n (Some d')) (\<lambda>(s, D). dec_step d0 D \<and>
      unat (dec_Position d) \<le> unat (dec_Position (the D)) \<and> (EFI_ERROR s \<or> s = EFI_SUCCESS))"
    if "dec_step d0 (Some d')" "unat (dec_Position d') = unat (dec_Position d) + 1" for d'
    by (rule runs_mono [OF Suc.IH [OF that(1)]]) (use that(2) in auto)
  then show ?case
    by (simp del: One_nat_def, intro runs_decode_variable [OF Suc.prems] runs_ifI runs_SomeI)
      (simp_all add: Suc.prems)
qed (auto intro: runs_SomeI)

lemma runs_decode_padding:
  assumes "dec_step d0 (Some d)"
    and "\<And>s d'. EFI_ERROR s \<or> s = EFI_SUCCESS \<Longrightarrow> dec_step d0 (Some d') \<Longrightarrow>
      unat (dec_Position d) \<le> unat (dec_Position d') \<Longrightarrow> runs (f s (Some d')) Q"
  shows "runs (decode_padding n (Some d) \<bind> (\<lambda>(s, D). f s D)) Q"
  by (rule runs_bindI, rule runs_mono [OF decode_padding_safe [OF assms(1)]])
    (clarify, erule dec_stepE, simp add: assms(2))

lemma bytes_postI:
  assumes "dec_step d (Some d')" "length v = k" "EFI_ERROR s \<or> s = EFI_SUCCESS \<and> unat n \<le> k"
    "EFI_ERROR s \<or> unat (dec_Position d) < unat (dec_Position d')"
  shows "bytes_post d k (s, Some d', Some v, Some n)"
  using assms by (auto simp: bytes_post_def intro: dec_post_error dec_postI)

lemma announced_fits:
  assumes "dest_fits L d dst"
    and "dec_step d (Some d')" "unat (dec_Position d') = unat (dec_Position d) + 1" "upcoming d' ys" "length ys = 2"
    and "unat (dec_Position d) + 3 + unat (ConvertToLittleEndian16 L (of_le_bytes ys)) \<le> unat (dec_Capacity d)"
  shows "unat (ConvertToLittleEndian16 L (of_le_bytes ys)) \<le> length dst"
  using assms by (simp add: dest_fits_def announced_length_upcoming)

lemma decode_bytes_safe:
  assumes "dec_ok d" "dest_fits L d dst"
  shows "runs (AziHsmMborDecodeBytes L (Some d) (Some dst) (Some len)) (bytes_post d (length dst))"
    and "runs (AziHsmMborDecodePaddedBytes L (Some d) (Some dst) (Some len)) (bytes_post d (length dst))"
  using announced_fits [OF assms(2)]
  unfolding AziHsmMborDecodeBytes_def AziHsmMborDecodePaddedBytes_def Let_def
  by (simp_all del: One_nat_def,
      (intro runs_decode_variable [where ?d0.0 = d] runs_DecoderDecode [where ?d0.0 = d]
        runs_decode_padding [where ?d0.0 = d] runs_ifI runs_SomeI bytes_postI;
        (simp add: dec_step_refl [OF assms(1)])?)+)

end
