(* ===== verification/Azihsm_Ddi_Safety.thy ===== *)
theory Azihsm_Ddi_Safety
  imports Azihsm_Ddi Mbor_Safety
begin

text \<open>
  The response decoders of \<^verbatim>\<open>AziHsmDdi.c\<close> on arbitrary bytes: none of them
  reads outside the message, the decoder stays well formed, the reported size is the number of
  bytes consumed, and the only way to fault is a byte string longer than its destination.
\<close>

subsection \<open>Contracts of a decoder of a structure\<close>

definition body_post :: "azihsm_mbor_decoder \<Rightarrow> efi_status \<times> azihsm_mbor_decoder option \<times> 'r \<Rightarrow> bool" where
  "body_post d res \<longleftrightarrow> (case res of (s, D, r) \<Rightarrow> dec_step d D \<and> (EFI_ERROR s \<or> s = EFI_SUCCESS))"

definition sized_post ::
  "azihsm_mbor_decoder \<Rightarrow> efi_status \<times> azihsm_mbor_decoder option \<times> 'r option \<times> u64 option \<Rightarrow> bool" where
  "sized_post d res \<longleftrightarrow> (case res of (s, D, r, n) \<Rightarrow>
     dec_step d D \<and> (EFI_ERROR s \<or> s = EFI_SUCCESS) \<and> r \<noteq> None \<and>
     n = Some (of_nat (unat (dec_Position (the D)) - unat (dec_Position d))))"

lemma body_postI: "dec_step d (Some d') \<Longrightarrow> EFI_ERROR s \<or> s = EFI_SUCCESS \<Longrightarrow> body_post d (s, Some d', r)"
  by (simp add: body_post_def)

lemma size_since_eq:
  assumes "unat mark \<le> unat position"
  shows "size_since mark position = of_nat (unat position - unat mark)"
  unfolding size_since_def
proof (rule word_eq_of_nat)
  have "unat (ucast position - ucast mark :: u32) = unat position - unat mark"
    using assms by (subst unat_diff_le) (simp_all add: word_le_nat_alt)
  then show "unat (ucast (ucast position - ucast mark :: u32) :: u64) = unat position - unat mark"
    using unat_lt16 [of position] by (simp add: unsigned_ucast_eq take_bit_nat_eq_self)
qed

lemma exit_decode_safe:
  assumes "runs m (body_post d)"
  shows "runs (exit_decode (dec_Position d) m) (sized_post d)"
  using assms unfolding exit_decode_def
  by (auto simp: runs_def body_post_def sized_post_def dec_step_def size_since_eq)

lemma inner_dec_safe:
  assumes "dec_step d0 (Some d)" "dec_ok d \<Longrightarrow> runs m (sized_post d)"
  shows "runs (inner_dec m) (body_post d0)"
  using assms(2) [OF dec_step_ok [OF assms(1)]] dec_step_trans [OF assms(1)] unfolding inner_dec_def
  by (auto simp: runs_def body_post_def sized_post_def)

text \<open>Rules for the calls inside a body.\<close>

lemma runs_dec_post:
  fixes m :: "'v dec_result"
  assumes "dec_step d0 (Some d)" "dec_ok d \<Longrightarrow> runs m (dec_post d)"
    and "\<And>s d' v. dec_step d0 (Some d') \<Longrightarrow> EFI_ERROR s \<or> s = EFI_SUCCESS \<Longrightarrow> runs (f s (Some d') (Some v)) Q"
  shows "runs (m \<bind> (\<lambda>(s, D, v). f s D v)) Q"
proof (rule runs_bindI, rule runs_mono [OF assms(2) [OF dec_step_ok [OF assms(1)]]], clarify)
  fix s D and v :: "'v option"
  assume p: "dec_post d (s, D, v)"
  then obtain d' w where "D = Some d'" "v = Some w"
    by (auto simp: dec_post_def dec_step_def)
  then show "runs (f s D v) Q"
    using assms(3) dec_step_trans [OF assms(1)] p by (auto simp: dec_post_def)
qed

lemma runs_body:
  assumes "runs m (body_post d0)"
    and "\<And>s d' r. dec_step d0 (Some d') \<Longrightarrow> EFI_ERROR s \<or> s = EFI_SUCCESS \<Longrightarrow> runs (f s (Some d') r) Q"
  shows "runs (m \<bind> (\<lambda>(s, D, x). f s D x)) Q"
  by (rule runs_bindI, rule runs_mono [OF assms(1)]) (auto simp: body_post_def dec_step_def intro!: assms(2))

lemma runs_bytes_post:
  assumes "dec_step d0 (Some d)" "dec_ok d \<Longrightarrow> runs m (bytes_post d n)"
    and "\<And>s d' v k. dec_step d0 (Some d') \<Longrightarrow> EFI_ERROR s \<or> s = EFI_SUCCESS \<Longrightarrow> length v = n \<Longrightarrow>
      runs (f s (Some d') (Some v) (Some k)) Q"
  shows "runs (m \<bind> (\<lambda>(s, D, v, k). f s D v k)) Q"
proof (rule runs_bindI, rule runs_mono [OF assms(2) [OF dec_step_ok [OF assms(1)]]], clarify)
  fix s D v k
  assume p: "bytes_post d n (s, D, v, k)"
  then obtain d' w l where "D = Some d'" "v = Some w" "k = Some l"
    by (auto simp: dec_post_def bytes_post_def dec_step_def)
  then show "runs (f s D v k) Q"
    using assms(3) dec_step_trans [OF assms(1)] p by (auto simp: bytes_post_def dec_post_def)
qed

subsection \<open>The decoders\<close>

lemma DecodeFieldId_safe: "dec_ok d \<Longrightarrow> runs (AziHsmMborDecodeFieldId (Some d) (Some v)) (dec_post d)"
  by (simp add: AziHsmMborDecodeFieldId_def decode_value_safe)

lemmas runs_fields = runs_dec_post [OF _ DecodeFieldId_safe] runs_dec_post [OF _ decode_value_safe(2)]
  runs_dec_post [OF _ decode_value_safe(3)] runs_dec_post [OF _ decode_value_safe(5)]
  runs_dec_post [OF _ decode_value_safe(6)]

lemma decode_api_rev_fields_safe:
  "dec_step d0 (Some d) \<Longrightarrow> runs (decode_api_rev_fields L n (Some d) r) (body_post d0)"
proof (induction n arbitrary: d r)
  case (Suc n)
  show ?case
    by (simp, (intro runs_fields runs_body [where ?d0.0 = d0] runs_ifI runs_SomeI body_postI Suc.IH; (assumption | simp add: Suc.prems)))
qed (simp add: runs_SomeI body_postI)

lemma DecodeApiRevision_safe:
  assumes "dec_ok d"
  shows "runs (DecodeApiRevision L (Some d) (Some r) (Some n)) (sized_post d)"
  unfolding DecodeApiRevision_def
  by (simp, rule exit_decode_safe,
      (intro runs_fields [where ?d0.0 = d] runs_ifI runs_SomeI body_postI decode_api_rev_fields_safe;
        (assumption | simp add: dec_step_refl [OF assms])))

text \<open>An inner call of a structure decoder, with its size dropped.\<close>

lemmas inner_api_rev_safe = inner_dec_safe [OF _ DecodeApiRevision_safe]

lemma decode_api_rev_response_fields_safe:
  "dec_step d0 (Some d) \<Longrightarrow> runs (decode_api_rev_response_fields L n (Some d) r) (body_post d0)"
proof (induction n arbitrary: d r)
  case (Suc n)
  show ?case
    by (simp, (intro runs_fields runs_body [where ?d0.0 = d0] inner_api_rev_safe [where ?d0.0 = d0] runs_ifI runs_SomeI
          body_postI Suc.IH; (assumption | simp add: Suc.prems)))
qed (simp add: runs_SomeI body_postI)

lemma DecodeApiRevisionResponse_safe:
  assumes "dec_ok d"
  shows "runs (DecodeApiRevisionResponse L (Some d) (Some r) (Some n)) (sized_post d)"
  unfolding DecodeApiRevisionResponse_def
  by (simp, rule exit_decode_safe,
      (intro runs_fields [where ?d0.0 = d] runs_ifI runs_SomeI body_postI decode_api_rev_response_fields_safe;
        (assumption | simp add: dec_step_refl [OF assms])))

lemma decode_rsp_field_safe:
  assumes "dec_step d0 (Some d)"
  shows "runs (decode_rsp_field L i (Some d) hf) (body_post d0)"
  unfolding decode_rsp_field_def Let_def
  by (cases hf, simp only: prod.case, (intro runs_fields [where ?d0.0 = d0] runs_body [where ?d0.0 = d0]
        inner_api_rev_safe [where ?d0.0 = d0] runs_ifI runs_SomeI body_postI; (assumption | simp add: assms)))

lemma decode_rsp_fields_safe:
  "dec_step d0 (Some d) \<Longrightarrow> runs (decode_rsp_fields L n (Some d) hf) (body_post d0)"
proof (induction n arbitrary: d hf)
  case (Suc n)
  show ?case
    by (simp del: split_paired_All, (intro runs_fields runs_body [where ?d0.0 = d0] decode_rsp_field_safe runs_ifI runs_SomeI
          body_postI Suc.IH; (assumption | simp add: Suc.prems)))
qed (simp add: runs_SomeI body_postI)

lemma DecodeResponseHeader_safe:
  assumes "dec_ok d"
  shows "runs (DecodeResponseHeader L (Some d) (Some h) (Some n)) (sized_post d)"
  unfolding DecodeResponseHeader_def Let_def
  by (simp, rule exit_decode_safe,
      (intro runs_fields [where ?d0.0 = d] runs_body [where ?d0.0 = d] runs_ifI runs_SomeI runs_prodI body_postI
        decode_rsp_fields_safe; (assumption | simp add: dec_step_refl [OF assms])))

lemma DecodeCommandResponseHeader_safe:
  assumes "dec_ok d"
  shows "runs (DecodeCommandResponseHeader L (Some d) (Some h) (Some n)) (sized_post d)"
  unfolding DecodeCommandResponseHeader_def
  by (simp, rule exit_decode_safe,
      (intro runs_fields [where ?d0.0 = d] runs_ifI runs_SomeI body_postI
        inner_dec_safe [OF _ DecodeResponseHeader_safe, where ?d0.0 = d];
        (assumption | simp add: dec_step_refl [OF assms])))

lemma DecodeApiRevisionCommandResponseData_safe:
  assumes "dec_ok d"
  shows "runs (DecodeApiRevisionCommandResponseData L (Some d) (Some h) (Some n)) (sized_post d)"
  unfolding DecodeApiRevisionCommandResponseData_def
  by (simp, rule exit_decode_safe,
      (intro runs_fields [where ?d0.0 = d] runs_ifI runs_SomeI body_postI
        inner_dec_safe [OF _ DecodeApiRevisionResponse_safe, where ?d0.0 = d];
        (assumption | simp add: dec_step_refl [OF assms])))

lemma AzihsmDecodeGetApiRevReq_safe:
  assumes "dec_ok d"
  shows "runs (AzihsmDecodeGetApiRevReq L h (Some d) (Some r) (Some n)) (sized_post d)"
  unfolding AzihsmDecodeGetApiRevReq_def
  by (simp, rule exit_decode_safe,
      (intro runs_fields [where ?d0.0 = d] runs_body [where ?d0.0 = d] runs_ifI runs_SomeI body_postI
        inner_dec_safe [OF _ DecodeCommandResponseHeader_safe, where ?d0.0 = d]
        inner_dec_safe [OF _ DecodeApiRevisionCommandResponseData_safe, where ?d0.0 = d];
        (assumption | simp add: dec_step_refl [OF assms] ConvertDdiStatusToEfiStatus_def)))

lemma AzihsmDecodeSetSealedBks3Resp_safe:
  assumes "dec_ok d"
  shows "runs (AzihsmDecodeSetSealedBks3Resp L (Some d) (Some r) (Some n)) (sized_post d)"
  unfolding AzihsmDecodeSetSealedBks3Resp_def Let_def
  by (simp, rule exit_decode_safe,
      (intro runs_fields [where ?d0.0 = d] runs_body [where ?d0.0 = d] runs_ifI runs_SomeI body_postI
        inner_dec_safe [OF _ DecodeCommandResponseHeader_safe, where ?d0.0 = d];
        (assumption | simp add: dec_step_refl [OF assms])))

text \<open>No byte string announced anywhere in the message exceeds the destination.\<close>

definition message_fits :: "base_lib \<Rightarrow> azihsm_mbor_decoder \<Rightarrow> u8 list \<Rightarrow> bool" where
  "message_fits L d dst \<longleftrightarrow> (\<forall>d'. dec_step d (Some d') \<longrightarrow> dest_fits L d' dst)"

lemma message_fits_capacity: "unat (dec_Capacity d) \<le> length dst \<Longrightarrow> message_fits L d dst"
  by (auto simp: message_fits_def dec_step_def intro: dest_fits_capacity)

lemma message_fits_length: "message_fits L d dst \<Longrightarrow> length dst' = length dst \<Longrightarrow> message_fits L d dst'"
  by (simp add: message_fits_def dest_fits_def)

lemma runs_DecodeBytes:
  assumes "dec_step d0 (Some d)" "message_fits L d0 dst"
    and "\<And>s d' v k. dec_step d0 (Some d') \<Longrightarrow> EFI_ERROR s \<or> s = EFI_SUCCESS \<Longrightarrow> length v = length dst \<Longrightarrow>
      runs (f s (Some d') (Some v) (Some k)) Q"
  shows "runs (AziHsmMborDecodeBytes L (Some d) (Some dst) (Some len) \<bind> (\<lambda>(s, D, v, k). f s D v k)) Q"
    and "runs (AziHsmMborDecodePaddedBytes L (Some d) (Some dst) (Some len) \<bind> (\<lambda>(s, D, v, k). f s D v k)) Q"
  using assms(1,2) by (auto simp: message_fits_def intro!: runs_bytes_post [OF assms(1)] decode_bytes_safe assms(3))

lemmas runs_header = runs_body [OF inner_dec_safe [OF _ DecodeCommandResponseHeader_safe]]

lemma AzihsmDecodeGetSealedBks3Resp_safe:
  assumes "dec_ok d" "ddi_Data r = Some dst" "message_fits L d dst"
  shows "runs (AzihsmDecodeGetSealedBks3Resp L (Some d) (Some r) (Some n)) (sized_post d)"
  unfolding AzihsmDecodeGetSealedBks3Resp_def
  by (simp add: assms(2) cong del: if_weak_cong, rule exit_decode_safe,
      (intro runs_fields [where ?d0.0 = d] runs_DecodeBytes [where ?d0.0 = d] runs_header [where ?d0.0 = d] runs_ifI runs_SomeI body_postI;
        (assumption | simp add: dec_step_refl [OF assms(1)] ConvertDdiStatusToEfiStatus_def assms message_fits_length [OF assms(3)])))

lemma AzihsmDecodeInitBks3Resp_safe:
  assumes "dec_ok d" "ddi_Data (Bks3 r) = Some dst" "message_fits L d dst" "message_fits L d (Guid r)"
  shows "runs (AzihsmDecodeInitBks3Resp L (Some d) (Some r) (Some n)) (sized_post d)"
  unfolding AzihsmDecodeInitBks3Resp_def Let_def
  by (simp add: assms(2) cong del: if_weak_cong, rule exit_decode_safe,
      (intro runs_fields [where ?d0.0 = d] runs_DecodeBytes [where ?d0.0 = d] runs_header [where ?d0.0 = d] runs_ifI runs_SomeI body_postI;
        (assumption | simp add: dec_step_refl [OF assms(1)] ConvertDdiStatusToEfiStatus_def assms message_fits_length [OF assms(3)])))

end
