(* ===== verification/Azihsm_Ddi_Format.thy ===== *)
theory Azihsm_Ddi_Format
  imports Azihsm_Ddi_Safety
begin

text \<open>
  The messages of \<^verbatim>\<open>AziHsmDdi.c\<close> as sequences of MBOR items. The request
  encoders write exactly the items of the request, and report the number of bytes written;
  the response decoders read the values back from the items of a response.
\<close>

subsection \<open>Writers of item sequences\<close>

text \<open>
  A part of a request encoder is the same as writing its items one after the other, on every
  well-formed encoder and also when the buffer runs out.
\<close>

lemma on_success_assoc: "on_success (on_success m f) g = on_success m (\<lambda>E. on_success (f E) g)"
  by (cases m) (auto simp: on_success_def)

lemma encode_seq_Nil: "encode_seq enc [] = (\<lambda>E. Some (EFI_SUCCESS, E))"
  by (rule ext) simp

lemma encode_seq_append: "encode_seq enc (xs @ ys) = (\<lambda>E. on_success (encode_seq enc xs E) (encode_seq enc ys))"
proof (induction xs)
  case (Cons x xs)
  show ?case by (rule ext) (simp add: on_success_assoc Cons.IH)
qed (rule ext, simp add: on_success_def)

definition same_as :: "build \<Rightarrow> base_lib \<Rightarrow> (azihsm_mbor_encoder option \<Rightarrow> enc_result) \<Rightarrow> mbor_item list \<Rightarrow> bool" where
  "same_as b L f its \<longleftrightarrow> (\<forall>x \<in> set its. item_valid x) \<and> (\<forall>e. enc_ok e \<longrightarrow> enc_Buffer e \<noteq> None \<longrightarrow>
     f (Some e) = encode_seq (encode_item b L) its (Some e))"

lemma same_asD: "same_as b L f its \<Longrightarrow> enc_ok e \<Longrightarrow> enc_Buffer e \<noteq> None \<Longrightarrow>
    f (Some e) = encode_seq (encode_item b L) its (Some e)"
  by (simp add: same_as_def)

lemma same_as_cong: "(\<And>e. f (Some e) = g (Some e)) \<Longrightarrow> same_as b L g its \<Longrightarrow> same_as b L f its"
  by (simp add: same_as_def)

lemma same_as_nothing: "same_as b L (\<lambda>E. Some (EFI_SUCCESS, E)) []"
  by (simp add: same_as_def)

lemma on_success_id: "runs m (encoded e bs) \<Longrightarrow> on_success m (\<lambda>E. Some (EFI_SUCCESS, E)) = m"
  by (auto simp: runs_def on_success_def dest!: encoded_status)

lemma on_success_cong:
  assumes "runs m (encoded e bs)"
    and "\<And>e'. enc_ok e' \<Longrightarrow> enc_Buffer e' \<noteq> None \<Longrightarrow> f (Some e') = g (Some e')"
  shows "on_success m f = on_success m g"
  using assms by (auto simp: runs_def on_success_def encoded_def)

lemma EncodePaddedBytes_take:
  assumes "unat len \<le> length bs"
  shows "AziHsmMborEncodePaddedBytes b L E (Some bs) len = AziHsmMborEncodePaddedBytes b L E (Some (take (unat len) bs)) len"
proof -
  have "AziHsmMborEncoderEncode E (Some bs) len = AziHsmMborEncoderEncode E (Some (take (unat len) bs)) len" for E
    using assms by (simp add: AziHsmMborEncoderEncode_def mem_read_def split: option.splits)
  then show ?thesis by (cases E) (simp_all add: AziHsmMborEncodePaddedBytes_def Let_def cong del: if_weak_cong)
qed

context mbor_platform
begin

lemma same_as_item:
  assumes "item_valid it"
  shows "same_as b L (\<lambda>E. encode_item b L E it) [it]"
  using assms on_success_id [OF encode_item_law [OF _ _ swaps assms]] by (simp add: same_as_def encode_seq_Nil)

lemma same_as_seq:
  assumes "same_as b L f xs" "same_as b L g ys"
  shows "same_as b L (\<lambda>E. on_success (f E) g) (xs @ ys)"
  unfolding same_as_def
proof (intro conjI allI impI)
  have v: "\<forall>x \<in> set xs. item_valid x" using assms(1) by (simp add: same_as_def)
  then show "\<forall>x \<in> set (xs @ ys). item_valid x" using assms(2) by (auto simp: same_as_def)
  fix e assume e: "enc_ok e" "enc_Buffer e \<noteq> None"
  show "on_success (f (Some e)) g = encode_seq (encode_item b L) (xs @ ys) (Some e)"
    unfolding same_asD [OF assms(1) e] encode_seq_append
    by (rule on_success_cong [OF items.encode_seq_law [OF e v]]) (rule same_asD [OF assms(2)])
qed

lemma same_as_Cons:
  assumes "same_as b L f [it]" "same_as b L g its"
  shows "same_as b L (\<lambda>E. on_success (f E) g) (it # its)"
  using same_as_seq [OF assms] by simp

lemma same_as_value:
  "same_as b L (\<lambda>E. AziHsmMborEncodeFieldId E i) [ItemU8 i]"
  "same_as b L (\<lambda>E. AziHsmMborEncodeU16 L E v16) [ItemU16 v16]"
  "same_as b L (\<lambda>E. AziHsmMborEncodeU32 L E v32) [ItemU32 v32]"
  using same_as_item [of "ItemU8 i"] same_as_item [of "ItemU16 v16"] same_as_item [of "ItemU32 v32"]
  by (simp_all add: same_as_def AziHsmMborEncodeFieldId_def)

lemma same_as_map: "n \<le> 15 \<Longrightarrow> same_as b L (\<lambda>E. AziHsmMborEncodeMap E n) [ItemMap n]"
  using same_as_item [of "ItemMap n"] by simp

lemma same_as_padded:
  assumes "unat len \<le> length bs"
  shows "same_as b L (\<lambda>E. AziHsmMborEncodePaddedBytes b L E (Some bs) len) [ItemPadded (take (unat len) bs)]"
  using same_as_item [of "ItemPadded (take (unat len) bs)"] assms unat_lt16 [of len]
  by (simp add: EncodePaddedBytes_take [OF assms])

end

lemma inner_exit_encode [simp]: "inner (exit_encode p m) = m"
  by (cases m) (auto simp: inner_def exit_encode_def)

subsection \<open>Requests\<close>

definition api_rev_items :: "azihsm_ddi_api_rev \<Rightarrow> mbor_item list" where
  "api_rev_items r = [ItemMap 2, ItemU8 1, ItemU32 (Major r), ItemU8 2, ItemU32 (Minor r)]"

definition req_hdr_items :: "u32 \<Rightarrow> azihsm_ddi_api_rev option \<Rightarrow> u16 option \<Rightarrow> mbor_item list" where
  "req_hdr_items op rv ses =
     ItemMap (1 + (if rv = None then 0 else 1) + (if ses = None then 0 else 1)) #
     (case rv of None \<Rightarrow> [] | Some r \<Rightarrow> ItemU8 1 # api_rev_items r) @
     [ItemU8 2, ItemU32 op] @
     (case ses of None \<Rightarrow> [] | Some s \<Rightarrow> [ItemU8 3, ItemU16 s])"

definition request_items :: "u32 \<Rightarrow> azihsm_ddi_api_rev option \<Rightarrow> u16 option \<Rightarrow> mbor_item list \<Rightarrow> mbor_item list" where
  "request_items op rv ses data = ItemMap 2 # ItemU8 0 # req_hdr_items op rv ses @ ItemU8 1 # data"

text \<open>The header as \<^verbatim>\<open>EncodeCommandRequestHeader\<close> fills it in.\<close>

definition req_hdr_of :: "u32 \<Rightarrow> azihsm_ddi_api_rev option \<Rightarrow> u16 option \<Rightarrow> azihsm_ddi_req_hdr" where
  "req_hdr_of op rv ses = \<lparr>req_Revision_Valid = (rv \<noteq> None),
     req_Revision_Value = (case rv of None \<Rightarrow> \<lparr>Major = 0, Minor = 0\<rparr> | Some r \<Rightarrow> r), req_DdiOp = op,
     req_SessionId_Valid = (ses \<noteq> None), req_SessionId_Value = (case ses of None \<Rightarrow> 0 | Some s \<Rightarrow> s)\<rparr>"

context mbor_platform
begin

lemma same_as_api_rev: "same_as b L (\<lambda>E. inner (EncodeApiRevision L E (Some r) (Some n))) (api_rev_items r)"
  unfolding api_rev_items_def
  by (rule same_as_cong [where g = "\<lambda>E. on_success (AziHsmMborEncodeMap E 2) (\<lambda>E.
          on_success (AziHsmMborEncodeFieldId E 1) (\<lambda>E.
          on_success (AziHsmMborEncodeU32 L E (Major r)) (\<lambda>E.
          on_success (AziHsmMborEncodeFieldId E 2) (\<lambda>E.
          AziHsmMborEncodeU32 L E (Minor r)))))"], simp add: EncodeApiRevision_def)
    (intro same_as_Cons same_as_map same_as_value(1) same_as_value; simp)

lemma same_as_request_header:
  "same_as b L (\<lambda>E. inner (EncodeRequestHeader L E (Some (req_hdr_of op rv ses)) (Some n))) (req_hdr_items op rv ses)"
proof -
  let ?k = "1 + (if rv = None then 0 else 1) + (if ses = None then 0 else 1) :: u8"
  let ?rev = "\<lambda>E. (if rv = None then Some (EFI_SUCCESS, E) else on_success (AziHsmMborEncodeFieldId E 1) (\<lambda>E.
    inner (EncodeApiRevision L E rv (Some 0))))"
  let ?ses = "\<lambda>E. (if ses = None then Some (EFI_SUCCESS, E) else on_success (AziHsmMborEncodeFieldId E 3) (\<lambda>E.
    AziHsmMborEncodeU16 L E (the ses)))"
  have 1: "same_as b L ?rev (case rv of None \<Rightarrow> [] | Some r \<Rightarrow> ItemU8 1 # api_rev_items r)"
    using same_as_nothing same_as_Cons [OF same_as_value(1) same_as_api_rev] by (cases rv) simp_all
  have 2: "same_as b L ?ses (case ses of None \<Rightarrow> [] | Some s \<Rightarrow> [ItemU8 3, ItemU16 s])"
    using same_as_nothing same_as_Cons [OF same_as_value(1) same_as_value(2)] by (cases ses) simp_all
  have "same_as b L (\<lambda>E. on_success (AziHsmMborEncodeMap E ?k) (\<lambda>E. on_success (?rev E)
      (\<lambda>E. on_success (AziHsmMborEncodeFieldId E 2) (\<lambda>E. on_success (AziHsmMborEncodeU32 L E op) ?ses))))
      (req_hdr_items op rv ses)"
    unfolding req_hdr_items_def append.simps
    by (intro same_as_Cons same_as_seq same_as_map same_as_value(1) same_as_value 1 2) (simp_all)
  moreover have "inner (EncodeRequestHeader L (Some e) (Some (req_hdr_of op rv ses)) (Some n)) =
      on_success (AziHsmMborEncodeMap (Some e) ?k) (\<lambda>E. on_success (?rev E)
      (\<lambda>E. on_success (AziHsmMborEncodeFieldId E 2) (\<lambda>E. on_success (AziHsmMborEncodeU32 L E op) ?ses)))" for e
    by (cases rv; cases ses) (simp_all add: EncodeRequestHeader_def req_hdr_of_def)
  ultimately show ?thesis by (simp add: same_as_def)
qed

lemma same_as_command_header:
  "same_as b L (\<lambda>E. inner (EncodeCommandRequestHeader L E op rv ses (Some n)))
     (ItemMap 2 # ItemU8 0 # req_hdr_items op rv ses)"
proof -
  have "inner (EncodeCommandRequestHeader L (Some e) op rv ses (Some n)) =
      on_success (AziHsmMborEncodeMap (Some e) 2) (\<lambda>E. on_success (AziHsmMborEncodeFieldId E 0) (\<lambda>E.
        inner (EncodeRequestHeader L E (Some (req_hdr_of op rv ses)) (Some 0))))" for e
    by (cases rv; cases ses) (simp_all add: EncodeCommandRequestHeader_def req_hdr_of_def)
  then show ?thesis
    by (rule same_as_cong) (intro same_as_Cons same_as_map same_as_value(1) same_as_request_header; simp)
qed

text \<open>The message after the header, and the reported size.\<close>

lemma same_as_command:
  assumes "same_as b L f data"
  shows "same_as b L (\<lambda>E. on_success (inner (EncodeCommandRequestHeader L E op rv ses (Some n)))
      (\<lambda>E. on_success (AziHsmMborEncodeFieldId E 1) f)) (request_items op rv ses data)"
  using same_as_seq [OF same_as_command_header same_as_Cons [OF same_as_value(1) assms]]
  by (simp add: request_items_def)

end

text \<open>The four requests, without the reported size.\<close>

lemma inner_position [simp]: "inner (m \<bind> (\<lambda>(s, E). Some (s, E, f E))) = m"
  by (cases m) (auto simp: inner_def)

context mbor_platform
begin

lemma payload_same_as:
  assumes "unat len \<le> length bs"
  shows "same_as b L (\<lambda>E. on_success (AziHsmMborEncodeMap E 1) (\<lambda>E. on_success (AziHsmMborEncodeFieldId E 1)
    (\<lambda>E. AziHsmMborEncodePaddedBytes b L E (Some bs) len))) [ItemMap 1, ItemU8 1, ItemPadded (take (unat len) bs)]"
  by (intro same_as_Cons same_as_map same_as_value same_as_padded assms) simp

lemma requests_same_as:
  assumes "enc_ok e" "enc_Buffer e \<noteq> None"
  shows "inner (AzihsmEncodeGetApiRevReq L (Some e) rv ses (Some n)) =
      encode_seq (encode_item b L) (request_items DDI_OP_GET_API_REV rv ses [ItemMap 0]) (Some e)"
    and "ddi_Data r = Some bs \<Longrightarrow> unat (ddi_Length r) \<le> length bs \<Longrightarrow>
      inner (AzihsmEncodeInitBks3Req b L (Some e) rv ses (Some r) (Some n)) =
      encode_seq (encode_item b L) (request_items DDI_OP_INIT_BKS3 rv ses
        [ItemMap 1, ItemU8 1, ItemPadded (take (unat (ddi_Length r)) bs)]) (Some e)"
    and "ddi_Data r = Some bs \<Longrightarrow> unat (ddi_Length r) \<le> length bs \<Longrightarrow>
      inner (AzihsmEncodeSetSealedBks3Req b L (Some e) rv ses (Some r) (Some n)) =
      encode_seq (encode_item b L) (request_items DDI_OP_SET_SEALED_BKS3 rv ses
        [ItemMap 1, ItemU8 1, ItemPadded (take (unat (ddi_Length r)) bs)]) (Some e)"
    and "inner (AzihsmEncodeGetSealedBks3Req L (Some e) rv ses (Some n)) =
      encode_seq (encode_item b L) (request_items DDI_OP_GET_SEALED_BKS3 rv ses [ItemMap 0]) (Some e)"
  using same_asD [OF same_as_command [OF same_as_map [of 0]] assms] same_asD [OF same_as_command [OF payload_same_as] assms]
  by (simp_all add: AzihsmEncodeGetApiRevReq_def AzihsmEncodeInitBks3Req_def AzihsmEncodeSetSealedBks3Req_def
    AzihsmEncodeGetSealedBks3Req_def del: encode_seq.simps)

end

definition request_post ::
  "azihsm_mbor_encoder \<Rightarrow> mbor_item list \<Rightarrow> efi_status \<times> azihsm_mbor_encoder option \<times> u64 option \<Rightarrow> bool" where
  "request_post e its r \<longleftrightarrow> (case r of (s, E, n) \<Rightarrow>
     encoded e (stream mbor_bytes (unat (enc_Position e)) its) (s, E) \<and>
     (s = EFI_SUCCESS \<longrightarrow> n = Some (of_nat (length (stream mbor_bytes (unat (enc_Position e)) its)))))"

context mbor_platform
begin

lemma same_as_encoded:
  assumes "same_as b L f its" "enc_ok e" "enc_Buffer e \<noteq> None"
  shows "runs (f (Some e)) (encoded e (stream mbor_bytes (unat (enc_Position e)) its))"
  using items.encode_seq_law [OF assms(2,3)] assms(1) unfolding same_asD [OF assms] by (simp add: same_as_def)

lemma exit_encode_same_as:
  assumes "same_as b L f its" "enc_ok e" "enc_Buffer e \<noteq> None"
  shows "runs (exit_encode (enc_Position e) (f (Some e))) (request_post e its)"
proof -
  obtain s E where f: "f (Some e) = Some (s, E)" "encoded e (stream mbor_bytes (unat (enc_Position e)) its) (s, E)"
    using same_as_encoded [OF assms] by (auto elim!: runsE)
  have "size_since (enc_Position e) (enc_Position (the E)) =
      of_nat (length (stream mbor_bytes (unat (enc_Position e)) its))" if "s = EFI_SUCCESS"
    using f(2) that by (auto simp: encoded_def size_since_eq split: if_splits)
  then show ?thesis using f by (simp add: exit_encode_def request_post_def runs_def)
qed

lemma GetApiRev_request:
  assumes "enc_ok e" "enc_Buffer e \<noteq> None"
  shows "runs (AzihsmEncodeGetApiRevReq L (Some e) rv ses (Some n))
    (request_post e (request_items DDI_OP_GET_API_REV rv ses [ItemMap 0]))"
  using exit_encode_same_as [OF same_as_command [OF same_as_map] assms, of 0]
  by (simp add: AzihsmEncodeGetApiRevReq_def)

lemma InitBks3_request:
  assumes "enc_ok e" "enc_Buffer e \<noteq> None" "ddi_Data r = Some bs" "unat (ddi_Length r) \<le> length bs"
  shows "runs (AzihsmEncodeInitBks3Req b L (Some e) rv ses (Some r) (Some n))
    (request_post e (request_items DDI_OP_INIT_BKS3 rv ses
      [ItemMap 1, ItemU8 1, ItemPadded (take (unat (ddi_Length r)) bs)]))"
  using exit_encode_same_as [OF same_as_command [OF payload_same_as [OF assms(4)]] assms(1,2)] assms(3)
  by (simp add: AzihsmEncodeInitBks3Req_def)

lemma SetSealedBks3_request:
  assumes "enc_ok e" "enc_Buffer e \<noteq> None" "ddi_Data r = Some bs" "unat (ddi_Length r) \<le> length bs"
  shows "runs (AzihsmEncodeSetSealedBks3Req b L (Some e) rv ses (Some r) (Some n))
    (request_post e (request_items DDI_OP_SET_SEALED_BKS3 rv ses
      [ItemMap 1, ItemU8 1, ItemPadded (take (unat (ddi_Length r)) bs)]))"
  using exit_encode_same_as [OF same_as_command [OF payload_same_as [OF assms(4)]] assms(1,2)] assms(3)
  by (simp add: AzihsmEncodeSetSealedBks3Req_def)

text \<open>Here the reported size is the position after the request.\<close>

lemma GetSealedBks3_request:
  assumes "enc_ok e" "enc_Buffer e \<noteq> None"
  shows "runs (AzihsmEncodeGetSealedBks3Req L (Some e) rv ses (Some n)) (\<lambda>(s, E, n).
    encoded e (stream mbor_bytes (unat (enc_Position e)) (request_items DDI_OP_GET_SEALED_BKS3 rv ses [ItemMap 0])) (s, E) \<and>
    n = Some (ucast (enc_Position (the E))))"
proof -
  have "same_as undefined L (\<lambda>E. AziHsmMborEncodeMap E 0) [ItemMap 0]" by (rule same_as_map) simp
  then show ?thesis
    using same_as_encoded [OF same_as_command assms, of undefined _ _ DDI_OP_GET_SEALED_BKS3 rv ses 0]
    by (fastforce simp: AzihsmEncodeGetSealedBks3Req_def runs_def)
qed

end

subsection \<open>Readers of item sequences\<close>

text \<open>The next items a decoder will read.\<close>

definition at_items :: "azihsm_mbor_decoder \<Rightarrow> mbor_item list \<Rightarrow> bool" where
  "at_items d its \<longleftrightarrow> dec_ok d \<and> upcoming d (stream mbor_bytes (unat (dec_Position d)) its)"

lemma at_items_Cons:
  assumes "at_items d (it # its)"
  shows "dec_ok d" "upcoming d (mbor_bytes (unat (dec_Position d)) it)"
    and "at_items (advance d (length (mbor_bytes (unat (dec_Position d)) it))) its"
proof -
  have a: "dec_ok d" "upcoming d (mbor_bytes (unat (dec_Position d)) it @
      stream mbor_bytes (unat (dec_Position d) + length (mbor_bytes (unat (dec_Position d)) it)) its)"
    using assms by (simp_all add: at_items_def)
  note u = upcoming_append [OF a(2)]
  show "dec_ok d" "upcoming d (mbor_bytes (unat (dec_Position d)) it)" by (rule a, rule u)
  show "at_items (advance d (length (mbor_bytes (unat (dec_Position d)) it))) its"
    using dec_ok_advance [OF a(1) u(1)] u(2) unat_advance [OF upcoming_length [OF u(1)]]
    by (simp add: at_items_def)
qed

lemma runs_item:
  assumes "at_items d (it # its)"
    and "dec_ok d \<Longrightarrow> upcoming d (mbor_bytes (unat (dec_Position d)) it) \<Longrightarrow>
      m = Some (EFI_SUCCESS, Some (advance d (length (mbor_bytes (unat (dec_Position d)) it))), Some v)"
    and "\<And>d'. at_items d' its \<Longrightarrow> runs (f (EFI_SUCCESS, Some d', Some v)) Q"
  shows "runs (m \<bind> f) Q"
  using assms(2) [OF at_items_Cons(1,2) [OF assms(1)]] assms(3) [OF at_items_Cons(3) [OF assms(1)]] by simp

lemma runs_FieldId:
  "at_items d (ItemU8 i # its) \<Longrightarrow> (\<And>d'. at_items d' its \<Longrightarrow> runs (f (EFI_SUCCESS, Some d', Some i)) Q) \<Longrightarrow>
     runs (AziHsmMborDecodeFieldId (Some d) (Some old) \<bind> f) Q"
  by (erule runs_item) (simp_all add: AziHsmMborDecodeFieldId_def DecodeU8_upcoming numeral_2_eq_2)

lemma runs_Map:
  "at_items d (ItemMap n # its) \<Longrightarrow> n \<le> 15 \<Longrightarrow> (\<And>d'. at_items d' its \<Longrightarrow> runs (f (EFI_SUCCESS, Some d', Some n)) Q) \<Longrightarrow>
     runs (AziHsmMborDecodeMap (Some d) (Some old) \<bind> f) Q"
  by (erule runs_item) (simp_all add: DecodeMap_upcoming)

lemma runs_Boolean:
  "at_items d (ItemBoolean v # its) \<Longrightarrow> (\<And>d'. at_items d' its \<Longrightarrow> runs (f (EFI_SUCCESS, Some d', Some v)) Q) \<Longrightarrow>
     runs (AziHsmMborDecodeBoolean (Some d) (Some old) \<bind> f) Q"
  by (erule runs_item) (simp_all add: DecodeBoolean_upcoming split del: if_split)

context mbor_platform
begin

lemma runs_U16:
  "at_items d (ItemU16 v # its) \<Longrightarrow> (\<And>d'. at_items d' its \<Longrightarrow> runs (f (EFI_SUCCESS, Some d', Some v)) Q) \<Longrightarrow>
     runs (AziHsmMborDecodeU16 L (Some d) (Some old) \<bind> f) Q"
  by (erule runs_item) (simp_all add: DecodeU16_upcoming swaps numeral_3_eq_3)

lemma runs_U32:
  "at_items d (ItemU32 v # its) \<Longrightarrow> (\<And>d'. at_items d' its \<Longrightarrow> runs (f (EFI_SUCCESS, Some d', Some v)) Q) \<Longrightarrow>
     runs (AziHsmMborDecodeU32 L (Some d) (Some old) \<bind> f) Q"
  by (erule runs_item) (simp_all add: DecodeU32_upcoming swaps)

lemma runs_Padded:
  assumes "at_items d (ItemPadded bs # its)" "length bs < 65536" "length bs \<le> length dst"
    and "\<And>d'. at_items d' its \<Longrightarrow>
      runs (f (EFI_SUCCESS, Some d', Some (bs @ drop (length bs) dst), Some (of_nat (length bs)))) Q"
  shows "runs (AziHsmMborDecodePaddedBytes L (Some d) (Some dst) (Some old) \<bind> f) Q"
  using DecodePaddedBytes_upcoming [OF at_items_Cons(1) [OF assms(1)] _ padding_at_le swaps _ assms(3), of "unat (dec_Position d)"
      "of_nat (length bs)" old] at_items_Cons(2) [OF assms(1)] assms(2) assms(4) [OF at_items_Cons(3) [OF assms(1)]]
  by (simp add: unat_of_nat16 be16_def add.assoc numeral_3_eq_3)

lemma runs_Bytes:
  assumes "at_items d (ItemBytes bs # its)" "length bs < 65536" "length bs \<le> length dst"
    and "\<And>d'. at_items d' its \<Longrightarrow>
      runs (f (EFI_SUCCESS, Some d', Some (bs @ drop (length bs) dst), Some (of_nat (length bs)))) Q"
  shows "runs (AziHsmMborDecodeBytes L (Some d) (Some dst) (Some old) \<bind> f) Q"
  using DecodeBytes_upcoming [OF at_items_Cons(1) [OF assms(1)] _ swaps _ assms(3), of "of_nat (length bs)" old]
    at_items_Cons(2) [OF assms(1)] assms(2) assms(4) [OF at_items_Cons(3) [OF assms(1)]]
  by (simp add: unat_of_nat16 be16_def add.assoc numeral_3_eq_3)

end

subsection \<open>Responses\<close>

definition read_post :: "'r \<Rightarrow> mbor_item list \<Rightarrow> efi_status \<times> azihsm_mbor_decoder option \<times> 'r \<Rightarrow> bool" where
  "read_post v rest r \<longleftrightarrow> (case r of (s, D, w) \<Rightarrow>
     s = EFI_SUCCESS \<and> w = v \<and> (\<exists>d'. D = Some d' \<and> at_items d' rest))"

lemma read_postI: "at_items d rest \<Longrightarrow> read_post v rest (EFI_SUCCESS, Some d, v)"
  by (simp add: read_post_def)

lemma runs_read:
  assumes "runs m (read_post v rest)" "\<And>d'. at_items d' rest \<Longrightarrow> runs (f (EFI_SUCCESS, Some d', v)) Q"
  shows "runs (m \<bind> f) Q"
  by (rule runs_bindI, rule runs_mono [OF assms(1)]) (auto simp: read_post_def intro!: assms(2))

lemma inner_exit_decode [simp]: "inner_dec (exit_decode p m) = m"
  by (cases m) (auto simp: inner_dec_def exit_decode_def)

text \<open>The fields of a response header, which may come in any order.\<close>

datatype rsp_field =
    RspRevision azihsm_ddi_api_rev | RspDdiOp u32 | RspSessionId u16 | RspDdiStatus u32 | RspFipsApproved bool

fun rsp_field_id :: "rsp_field \<Rightarrow> u8" where
  "rsp_field_id (RspRevision _) = 1"
| "rsp_field_id (RspDdiOp _) = 2"
| "rsp_field_id (RspSessionId _) = 3"
| "rsp_field_id (RspDdiStatus _) = 4"
| "rsp_field_id (RspFipsApproved _) = 5"

fun rsp_value_items :: "rsp_field \<Rightarrow> mbor_item list" where
  "rsp_value_items (RspRevision r) = api_rev_items r"
| "rsp_value_items (RspDdiOp v) = [ItemU32 v]"
| "rsp_value_items (RspSessionId v) = [ItemU16 v]"
| "rsp_value_items (RspDdiStatus v) = [ItemU32 v]"
| "rsp_value_items (RspFipsApproved v) = [ItemBoolean v]"

fun store_field :: "rsp_field \<Rightarrow> azihsm_ddi_rsp_hdr \<Rightarrow> azihsm_ddi_rsp_hdr" where
  "store_field (RspRevision r) h = h\<lparr>rsp_Revision_Valid := True, rsp_Revision_Value := r\<rparr>"
| "store_field (RspDdiOp v) h = h\<lparr>rsp_DdiOp := v\<rparr>"
| "store_field (RspSessionId v) h = h\<lparr>rsp_SessionId_Valid := True, rsp_SessionId_Value := v\<rparr>"
| "store_field (RspDdiStatus v) h = h\<lparr>rsp_DdiStatus := v\<rparr>"
| "store_field (RspFipsApproved v) h = h\<lparr>fips_approved := v\<rparr>"

fun mark_field :: "rsp_field \<Rightarrow> rsp_found \<Rightarrow> rsp_found" where
  "mark_field (RspRevision _) f = f\<lparr>RevisionFound := True\<rparr>"
| "mark_field (RspDdiOp _) f = f\<lparr>DdiOpFound := True\<rparr>"
| "mark_field (RspSessionId _) f = f\<lparr>SessionIdFound := True\<rparr>"
| "mark_field (RspDdiStatus _) f = f\<lparr>DdiStatusFound := True\<rparr>"
| "mark_field (RspFipsApproved _) f = f\<lparr>FipsApprovedFound := True\<rparr>"

text \<open>The identifiers of the fields a header loop has seen.\<close>

definition seen :: "rsp_found \<Rightarrow> u8 set" where
  "seen f = (if RevisionFound f then {1} else {}) \<union> (if DdiOpFound f then {2} else {}) \<union>
     (if SessionIdFound f then {3} else {}) \<union> (if DdiStatusFound f then {4} else {}) \<union>
     (if FipsApprovedFound f then {5} else {})"

lemma seen_mark: "seen (mark_field x f) = insert (rsp_field_id x) (seen f)"
  by (cases x) (auto simp: seen_def)

definition api_rev_response_items :: "azihsm_ddi_api_rev_response \<Rightarrow> mbor_item list" where
  "api_rev_response_items v = [ItemMap 2, ItemU8 1] @ api_rev_items (rev_min v) @ [ItemU8 2] @ api_rev_items (rev_max v)"

lemma two_fields:
  "decode_api_rev_fields L 2 = decode_api_rev_fields L (Suc (Suc 0))"
  "decode_api_rev_response_fields L 2 = decode_api_rev_response_fields L (Suc (Suc 0))"
  by (simp_all only: numeral_2_eq_2)

text \<open>
  A header with the fields \<open>xs\<close>: no field twice, and the operation, the status and the FIPS
  flag present.
\<close>

definition rsp_hdr_items :: "rsp_field list \<Rightarrow> mbor_item list" where
  "rsp_hdr_items xs =
     ItemMap (of_nat (length xs)) # concat (map (\<lambda>x. ItemU8 (rsp_field_id x) # rsp_value_items x) xs)"

definition rsp_hdr_valid :: "rsp_field list \<Rightarrow> bool" where
  "rsp_hdr_valid xs \<longleftrightarrow> distinct (map rsp_field_id xs) \<and> {2, 4, 5} \<subseteq> set (map rsp_field_id xs)"

definition rsp_hdr_of :: "rsp_field list \<Rightarrow> azihsm_ddi_rsp_hdr \<Rightarrow> azihsm_ddi_rsp_hdr" where
  "rsp_hdr_of xs h = fold store_field xs (h\<lparr>rsp_Revision_Valid := False, rsp_SessionId_Valid := False\<rparr>)"

definition response_items :: "rsp_field list \<Rightarrow> mbor_item list \<Rightarrow> mbor_item list" where
  "response_items xs data = ItemMap 2 # ItemU8 0 # rsp_hdr_items xs @ ItemU8 1 # data"

lemma rsp_hdr_valid_length:
  assumes "rsp_hdr_valid xs"
  shows "3 \<le> length xs" "length xs \<le> 5"
proof -
  have "card (set (map rsp_field_id xs)) = length xs"
    using assms by (simp only: rsp_hdr_valid_def distinct_card length_map)
  moreover have "set (map rsp_field_id xs) \<subseteq> {1, 2, 3, 4, 5}"
  proof (clarsimp)
    fix x show "rsp_field_id x = 5" if "rsp_field_id x \<noteq> 1" "rsp_field_id x \<noteq> 2" "rsp_field_id x \<noteq> 3" "rsp_field_id x \<noteq> 4"
      using that by (cases x) simp_all
  qed
  ultimately show "3 \<le> length xs" "length xs \<le> 5"
    using card_mono [of "set (map rsp_field_id xs)" "{2, 4, 5}"] card_mono [of "{1, 2, 3, 4, 5}" "set (map rsp_field_id xs)"] assms
    by (auto simp: rsp_hdr_valid_def)
qed

lemma seen_iff: "2 \<in> seen f \<longleftrightarrow> DdiOpFound f" "4 \<in> seen f \<longleftrightarrow> DdiStatusFound f" "5 \<in> seen f \<longleftrightarrow> FipsApprovedFound f"
  by (auto simp: seen_def)

lemma seen_fold_mark: "seen (fold mark_field xs f) = set (map rsp_field_id xs) \<union> seen f"
  by (induction xs arbitrary: f) (auto simp: seen_mark)

text \<open>The header holds the value of a field.\<close>

fun field_in :: "rsp_field \<Rightarrow> azihsm_ddi_rsp_hdr \<Rightarrow> bool" where
  "field_in (RspRevision r) h \<longleftrightarrow> rsp_Revision_Valid h \<and> rsp_Revision_Value h = r"
| "field_in (RspDdiOp v) h \<longleftrightarrow> rsp_DdiOp h = v"
| "field_in (RspSessionId v) h \<longleftrightarrow> rsp_SessionId_Valid h \<and> rsp_SessionId_Value h = v"
| "field_in (RspDdiStatus v) h \<longleftrightarrow> rsp_DdiStatus h = v"
| "field_in (RspFipsApproved v) h \<longleftrightarrow> fips_approved h = v"

lemma field_in_store: "field_in x (store_field x h)"
  by (cases x) simp_all

lemma field_in_store_other: "rsp_field_id y \<noteq> rsp_field_id x \<Longrightarrow> field_in x (store_field y h) = field_in x h"
  by (cases x; cases y) simp_all

lemma field_in_fold_other: "rsp_field_id x \<notin> set (map rsp_field_id xs) \<Longrightarrow> field_in x (fold store_field xs h) = field_in x h"
  by (induction xs arbitrary: h) (auto simp: field_in_store_other)

lemma field_in_fold:
  assumes "distinct (map rsp_field_id xs)" "x \<in> set xs"
  shows "field_in x (fold store_field xs h)"
proof -
  obtain ys zs where "xs = ys @ x # zs" using assms(2) by (auto dest: split_list)
  then show ?thesis using assms(1) by (simp add: field_in_fold_other field_in_store)
qed

lemma valid_store:
  "rsp_Revision_Valid (store_field x h) \<longleftrightarrow> rsp_field_id x = 1 \<or> rsp_Revision_Valid h"
  "rsp_SessionId_Valid (store_field x h) \<longleftrightarrow> rsp_field_id x = 3 \<or> rsp_SessionId_Valid h"
  by (cases x; simp)+

lemma valid_fold:
  "rsp_Revision_Valid (fold store_field xs h) \<longleftrightarrow> 1 \<in> set (map rsp_field_id xs) \<or> rsp_Revision_Valid h"
  "rsp_SessionId_Valid (fold store_field xs h) \<longleftrightarrow> 3 \<in> set (map rsp_field_id xs) \<or> rsp_SessionId_Valid h"
  by (induction xs arbitrary: h) (auto simp: valid_store)

lemma rsp_hdr_of_fields:
  assumes "rsp_hdr_valid xs"
  shows "x \<in> set xs \<Longrightarrow> field_in x (rsp_hdr_of xs h)"
    and "rsp_Revision_Valid (rsp_hdr_of xs h) \<longleftrightarrow> 1 \<in> set (map rsp_field_id xs)"
    and "rsp_SessionId_Valid (rsp_hdr_of xs h) \<longleftrightarrow> 3 \<in> set (map rsp_field_id xs)"
  using field_in_fold assms by (auto simp: rsp_hdr_valid_def rsp_hdr_of_def valid_fold)

text \<open>A response to the operation \<open>op\<close> with the device status \<open>st\<close>.\<close>

definition answers :: "rsp_field list \<Rightarrow> u32 \<Rightarrow> u32 \<Rightarrow> bool" where
  "answers xs op st \<longleftrightarrow> rsp_hdr_valid xs \<and> RspDdiOp op \<in> set xs \<and> RspDdiStatus st \<in> set xs"

lemma answersD:
  assumes "answers xs op st"
  shows "rsp_hdr_valid xs" "rsp_DdiOp (rsp_hdr_of xs h) = op" "rsp_DdiStatus (rsp_hdr_of xs h) = st"
  using assms rsp_hdr_of_fields(1) [of xs "RspDdiOp op" h] rsp_hdr_of_fields(1) [of xs "RspDdiStatus st" h]
  by (simp_all add: answers_def)

context mbor_platform
begin

lemma api_rev_read:
  assumes "at_items d (api_rev_items v @ rest)"
  shows "runs (inner_dec (DecodeApiRevision L (Some d) (Some r) (Some n))) (read_post v rest)"
  by (insert assms, unfold DecodeApiRevision_def api_rev_items_def, simp, rule runs_Map, assumption, simp, simp add: two_fields,
      (rule runs_FieldId runs_U32, assumption, simp)+)
    (rule runs_SomeI, simp add: read_post_def)

lemma api_rev_response_read:
  assumes "at_items d (api_rev_response_items v @ rest)"
  shows "runs (inner_dec (DecodeApiRevisionResponse L (Some d) (Some r) (Some n))) (read_post v rest)"
  by (insert assms, unfold DecodeApiRevisionResponse_def api_rev_response_items_def, simp, rule runs_Map, assumption, simp, simp add: two_fields,
      (rule runs_FieldId runs_read [OF api_rev_read], assumption, simp)+)
    (rule runs_SomeI, simp add: read_post_def)

lemma rsp_field_read:
  assumes "at_items d (rsp_value_items x @ rest)" "rsp_field_id x \<notin> seen f"
  shows "runs (decode_rsp_field L (rsp_field_id x) (Some d) (h, f)) (read_post (store_field x h, mark_field x f) rest)"
  using assms
  by (cases x; simp add: decode_rsp_field_def seen_def Let_def split: if_splits)
    (rule runs_read [OF api_rev_read] runs_U32 runs_U16 runs_Boolean, assumption, simp add: runs_SomeI read_post_def)+

lemma rsp_fields_read:
  assumes "at_items d (concat (map (\<lambda>x. ItemU8 (rsp_field_id x) # rsp_value_items x) xs) @ rest)"
    and "distinct (map rsp_field_id xs)" "set (map rsp_field_id xs) \<inter> seen f = {}"
  shows "runs (decode_rsp_fields L (length xs) (Some d) (h, f))
    (read_post (fold store_field xs h, fold mark_field xs f) rest)"
  using assms
proof (induction xs arbitrary: d h f)
  case Nil
  then show ?case by (simp add: runs_SomeI read_post_def)
next
  case (Cons x xs)
  have "at_items d (ItemU8 (rsp_field_id x) # rsp_value_items x @
      (concat (map (\<lambda>x. ItemU8 (rsp_field_id x) # rsp_value_items x) xs) @ rest))"
    using Cons.prems(1) by simp
  then show ?case
  proof (simp, elim runs_FieldId, simp, elim runs_read [OF rsp_field_read])
    show "rsp_field_id x \<notin> seen f" using Cons.prems(3) by auto
    fix d' assume "at_items d' (concat (map (\<lambda>x. ItemU8 (rsp_field_id x) # rsp_value_items x) xs) @ rest)"
    then show "runs (case (EFI_SUCCESS, Some d', store_field x h, mark_field x f) of
        (Status, D, hf) \<Rightarrow> if EFI_ERROR Status then Some (Status, D, hf) else decode_rsp_fields L (length xs) D hf)
        (read_post (fold store_field xs (store_field x h), fold mark_field xs (mark_field x f)) rest)"
      using Cons.IH [of d' "mark_field x f" "store_field x h"] Cons.prems(2,3) by (auto simp: seen_mark)
  qed
qed

lemma rsp_hdr_read:
  assumes "at_items d (rsp_hdr_items xs @ rest)" "rsp_hdr_valid xs"
  shows "runs (inner_dec (DecodeResponseHeader L (Some d) (Some h) (Some n))) (read_post (rsp_hdr_of xs h) rest)"
proof -
  let ?f = "\<lparr>DdiOpFound = False, RevisionFound = False, SessionIdFound = False, DdiStatusFound = False,
    FipsApprovedFound = False\<rparr>" and ?h = "h\<lparr>rsp_Revision_Valid := False, rsp_SessionId_Valid := False\<rparr>"
  note len = rsp_hdr_valid_length [OF assms(2)]
  have k: "unat (of_nat (length xs) :: u8) = length xs"
    using len by (simp add: unat_of_nat take_bit_nat_eq_self)
  then have bounds: "of_nat (length xs) \<le> (15 :: u8)" "\<not> 5 < (of_nat (length xs) :: u8)" "\<not> (of_nat (length xs) :: u8) < 3"
    using len by (simp_all add: word_le_nat_alt word_less_nat_alt)
  have "seen (fold mark_field xs ?f) = set (map rsp_field_id xs)"
    by (simp add: seen_fold_mark) (simp add: seen_def)
  then have found: "DdiOpFound (fold mark_field xs ?f)" "DdiStatusFound (fold mark_field xs ?f)"
      "FipsApprovedFound (fold mark_field xs ?f)"
    using assms(2) unfolding rsp_hdr_valid_def seen_iff [symmetric] by blast+
  have fields: "runs (decode_rsp_fields L (length xs) (Some d') (?h, ?f))
      (read_post (fold store_field xs ?h, fold mark_field xs ?f) rest)"
    if "at_items d' (concat (map (\<lambda>x. ItemU8 (rsp_field_id x) # rsp_value_items x) xs) @ rest)" for d'
    by (rule rsp_fields_read [OF that]) (use assms(2) in \<open>auto simp: rsp_hdr_valid_def seen_def\<close>)
  show ?thesis
    by (insert assms(1), unfold DecodeResponseHeader_def rsp_hdr_items_def Let_def, simp, rule runs_Map, assumption,
        rule bounds, simp add: bounds k, rule runs_read [OF fields], assumption)
      (simp add: found runs_SomeI read_post_def rsp_hdr_of_def)
qed

lemma command_response_header_read:
  assumes "at_items d (ItemMap 2 # ItemU8 0 # rsp_hdr_items xs @ rest)" "rsp_hdr_valid xs"
  shows "runs (inner_dec (DecodeCommandResponseHeader L (Some d) (Some h) (Some n))) (read_post (rsp_hdr_of xs h) rest)"
  by (insert assms(1), unfold DecodeCommandResponseHeader_def, simp, rule runs_Map, assumption, simp, simp,
      rule runs_FieldId, assumption, simp, rule rsp_hdr_read [OF _ assms(2)])

lemmas header_read = runs_read [OF command_response_header_read]

lemma GetApiRev_response:
  assumes "at_items d (response_items xs (api_rev_response_items v))" "answers xs DDI_OP_GET_API_REV DDI_STATUS_SUCCESS"
  shows "runs (inner_dec (AzihsmDecodeGetApiRevReq L h (Some d) (Some r) (Some n))) (read_post v [])"
  by (insert assms(1), unfold AzihsmDecodeGetApiRevReq_def response_items_def, simp, rule header_read, assumption,
      rule answersD [OF assms(2)], simp add: answersD [OF assms(2)] DecodeApiRevisionCommandResponseData_def,
      rule runs_FieldId, assumption, simp)
    (rule api_rev_response_read, simp)

lemma SetSealedBks3_response:
  assumes "at_items d (response_items xs [ItemMap 0])" "answers xs DDI_OP_SET_SEALED_BKS3 st"
  shows "runs (inner_dec (AzihsmDecodeSetSealedBks3Resp L (Some d) (Some r) (Some n))) (read_post (st = DDI_STATUS_SUCCESS) [])"
  by (insert assms(1), unfold AzihsmDecodeSetSealedBks3Resp_def response_items_def Let_def, simp, rule header_read, assumption,
      rule answersD [OF assms(2)], simp add: answersD [OF assms(2)], rule runs_FieldId, assumption, simp,
      rule runs_Map, assumption, simp)
    (simp add: runs_SomeI read_post_def answersD [OF assms(2)])

lemma GetSealedBks3_response:
  assumes "at_items d (response_items xs [ItemMap 1, ItemU8 1, ItemPadded bs])"
    and "answers xs DDI_OP_GET_SEALED_BKS3 DDI_STATUS_SUCCESS"
    and "ddi_Data r = Some dst" "length bs < 65536" "length bs \<le> length dst"
  shows "runs (inner_dec (AzihsmDecodeGetSealedBks3Resp L (Some d) (Some r) (Some n)))
    (read_post \<lparr>ddi_Data = Some (bs @ drop (length bs) dst), ddi_Length = of_nat (length bs)\<rparr> [])"
  by (insert assms(1), unfold AzihsmDecodeGetSealedBks3Resp_def response_items_def, simp, rule header_read, assumption,
      rule answersD [OF assms(2)], simp add: answersD [OF assms(2)], rule runs_FieldId, assumption, simp,
      rule runs_Map, assumption, simp, simp, rule runs_FieldId, assumption, simp add: assms(3),
      rule runs_Padded [OF _ assms(4,5)], assumption)
    (simp add: runs_SomeI read_post_def)

lemma InitBks3_response:
  assumes "at_items d (response_items xs [ItemMap 2, ItemU8 1, ItemPadded bs, ItemU8 2, ItemBytes guid])"
    and "answers xs DDI_OP_INIT_BKS3 DDI_STATUS_SUCCESS"
    and "ddi_Data (Bks3 r) = Some dst" "length bs < 65536" "length bs \<le> length dst"
    and "length guid = 16" "length (Guid r) = 16"
  shows "runs (inner_dec (AzihsmDecodeInitBks3Resp L (Some d) (Some r) (Some n)))
    (read_post \<lparr>Bks3 = \<lparr>ddi_Data = Some (bs @ drop (length bs) dst), ddi_Length = of_nat (length bs)\<rparr>, Guid = guid\<rparr> [])"
proof -
  have guid: "length guid < 65536" "length guid \<le> length (Guid r)" using assms(6,7) by simp_all
  show ?thesis
  by (insert assms(1), unfold AzihsmDecodeInitBks3Resp_def response_items_def Let_def, simp, rule header_read, assumption,
      rule answersD [OF assms(2)], simp add: answersD [OF assms(2)], rule runs_FieldId, assumption, simp,
      rule runs_Map, assumption, simp, simp, rule runs_FieldId, assumption, simp add: assms(3),
      rule runs_Padded [OF _ assms(4,5)], assumption, simp,
      rule runs_FieldId, assumption, simp, rule runs_Bytes [OF _ guid], assumption)
    (simp add: runs_SomeI read_post_def assms)
qed

text \<open>A failure of the device is reported and nothing is stored.\<close>

lemma device_failure:
  assumes "at_items d (ItemMap 2 # ItemU8 0 # rsp_hdr_items xs @ rest)" "st \<noteq> DDI_STATUS_SUCCESS"
  shows "answers xs DDI_OP_GET_API_REV st \<Longrightarrow>
      runs (inner_dec (AzihsmDecodeGetApiRevReq L h (Some d) (Some r1) (Some n)))
        (\<lambda>(s, D, w). s = ConvertDdiStatusToEfiStatus st \<and> w = r1)"
    and "answers xs DDI_OP_INIT_BKS3 st \<Longrightarrow>
      runs (inner_dec (AzihsmDecodeInitBks3Resp L (Some d) (Some r2) (Some n)))
        (\<lambda>(s, D, w). s = ConvertDdiStatusToEfiStatus st \<and> w = r2)"
    and "answers xs DDI_OP_GET_SEALED_BKS3 st \<Longrightarrow>
      runs (inner_dec (AzihsmDecodeGetSealedBks3Resp L (Some d) (Some r3) (Some n)))
        (\<lambda>(s, D, w). s = ConvertDdiStatusToEfiStatus st \<and> w = r3)"
proof -
  note hdr = header_read [OF assms(1) answersD(1)]
  show "runs (inner_dec (AzihsmDecodeGetApiRevReq L h (Some d) (Some r1) (Some n)))
      (\<lambda>(s, D, w). s = ConvertDdiStatusToEfiStatus st \<and> w = r1)" if "answers xs DDI_OP_GET_API_REV st"
    by (simp add: AzihsmDecodeGetApiRevReq_def) (rule hdr [OF that], simp add: answersD [OF that] assms(2) runs_SomeI)
  show "runs (inner_dec (AzihsmDecodeInitBks3Resp L (Some d) (Some r2) (Some n)))
      (\<lambda>(s, D, w). s = ConvertDdiStatusToEfiStatus st \<and> w = r2)" if "answers xs DDI_OP_INIT_BKS3 st"
    by (simp add: AzihsmDecodeInitBks3Resp_def) (rule hdr [OF that], simp add: answersD [OF that] assms(2) runs_SomeI)
  show "runs (inner_dec (AzihsmDecodeGetSealedBks3Resp L (Some d) (Some r3) (Some n)))
      (\<lambda>(s, D, w). s = ConvertDdiStatusToEfiStatus st \<and> w = r3)" if "answers xs DDI_OP_GET_SEALED_BKS3 st"
    by (simp add: AzihsmDecodeGetSealedBks3Resp_def) (rule hdr [OF that], simp add: answersD [OF that] assms(2) runs_SomeI)
qed

end

lemma ConvertDdiStatusToEfiStatus_error:
  "EFI_ERROR (ConvertDdiStatusToEfiStatus st) \<longleftrightarrow> st \<noteq> DDI_STATUS_SUCCESS"
  by (simp add: ConvertDdiStatusToEfiStatus_def)

subsection \<open>A byte string that is too long for its destination\<close>

lemma FieldId_eq:
  assumes "at_items d (ItemU8 i # its)"
  obtains d' where "at_items d' its" "AziHsmMborDecodeFieldId (Some d) (Some old) = Some (EFI_SUCCESS, Some d', Some i)"
  using at_items_Cons [OF assms] by (simp add: AziHsmMborDecodeFieldId_def DecodeU8_upcoming numeral_2_eq_2)

lemma DecodeBytes_overflow:
  assumes "at_items d (ItemBytes bs # its)" "length bs < 65536" "length dst < length bs" "swaps_bytes L"
  shows "AziHsmMborDecodeBytes L (Some d) (Some dst) (Some old) = None"
proof -
  have u: "dec_ok d" "upcoming d (0x80 # be16 (of_nat (length bs)) @ bs)"
    using at_items_Cons [OF assms(1)] by simp_all
  note m = decode_marker [OF u]
  note l = decode_length [OF m(2,3) assms(4)]
  have n: "unat (of_nat (length bs) :: u16) = length bs" using assms(2) by (rule unat_of_nat16)
  then have "\<not> POSITION_EXCEEDS_CAPACITY (dec_Position (advance d 3)) (dec_Capacity d) (ucast (of_nat (length bs) :: u16))"
    using upcoming_length [OF l(4)] by (simp add: exceeds_iff16 del: One_nat_def)
  moreover from this have "AziHsmMborDecoderDecode (Some (advance d 3)) (Some dst) (of_nat (length bs)) = None"
    using l(4) n assms(3) by (auto simp: AziHsmMborDecoderDecode_def upcoming_def mem_write_def mem_read_def bind_eq_None_conv
      simp del: One_nat_def)
  ultimately show ?thesis
    using m(1) l by (simp add: AziHsmMborDecodeBytes_def marker_defs del: One_nat_def)
qed

context mbor_platform
begin

lemma InitBks3_guid_overflow:
  assumes "at_items d (response_items xs [ItemMap 2, ItemU8 1, ItemPadded bs, ItemU8 2, ItemBytes guid])"
    and "answers xs DDI_OP_INIT_BKS3 DDI_STATUS_SUCCESS"
    and "ddi_Data (Bks3 r) = Some dst" "length bs < 65536" "length bs \<le> length dst"
    and "length (Guid r) < length guid" "length guid < 65536"
  shows "AzihsmDecodeInitBks3Resp L (Some d) (Some r) (Some n) = None"
proof -
  obtain d1 where 1: "at_items d1 [ItemU8 1, ItemMap 2, ItemU8 1, ItemPadded bs, ItemU8 2, ItemBytes guid]"
    "inner_dec (DecodeCommandResponseHeader L (Some d) (Some zero_rsp_hdr) (Some 0)) =
      Some (EFI_SUCCESS, Some d1, rsp_hdr_of xs zero_rsp_hdr)"
    using command_response_header_read [of d xs] assms(1) answersD(1) [OF assms(2)]
    by (fastforce simp: runs_def read_post_def response_items_def)
  obtain d2 where 2: "at_items d2 [ItemMap 2, ItemU8 1, ItemPadded bs, ItemU8 2, ItemBytes guid]"
    "AziHsmMborDecodeFieldId (Some d1) (Some 0) = Some (EFI_SUCCESS, Some d2, Some 1)"
    by (rule FieldId_eq [OF 1(1)])
  obtain d3 where 3: "at_items d3 [ItemU8 1, ItemPadded bs, ItemU8 2, ItemBytes guid]"
    "AziHsmMborDecodeMap (Some d2) (Some 0) = Some (EFI_SUCCESS, Some d3, Some 2)"
    using at_items_Cons [OF 2(1)] DecodeMap_upcoming [of d2 2 0] by simp
  obtain d4 where 4: "at_items d4 [ItemPadded bs, ItemU8 2, ItemBytes guid]"
    "AziHsmMborDecodeFieldId (Some d3) (Some 0) = Some (EFI_SUCCESS, Some d4, Some 1)"
    by (rule FieldId_eq [OF 3(1)])
  obtain d5 v where 5: "at_items d5 [ItemU8 2, ItemBytes guid]"
    "AziHsmMborDecodePaddedBytes L (Some d4) (Some dst) (Some 0) = Some (EFI_SUCCESS, Some d5, Some v, Some (of_nat (length bs)))"
    using runs_Padded [OF 4(1) assms(4,5), where f = Some and old = 0 and
      Q = "\<lambda>(s, D, v, k). s = EFI_SUCCESS \<and> k = Some (of_nat (length bs)) \<and> v \<noteq> None \<and>
        (\<exists>d'. D = Some d' \<and> at_items d' [ItemU8 2, ItemBytes guid])"]
    by (auto simp: runs_def)
  obtain d6 where 6: "at_items d6 [ItemBytes guid]"
    "AziHsmMborDecodeFieldId (Some d5) (Some 0) = Some (EFI_SUCCESS, Some d6, Some 2)"
    by (rule FieldId_eq [OF 5(1)])
  show ?thesis
    by (simp add: AzihsmDecodeInitBks3Resp_def exit_decode_def 1 2 3 4 5 6 answersD [OF assms(2)] assms(3)
      DecodeBytes_overflow [OF 6(1) assms(7,6) swaps])
qed

end

end
