(* ===== verification/Azihsm_Properties.thy ===== *)
theory Azihsm_Properties
  imports Azihsm_Ddi_Format
begin

text \<open>
  What the MBOR codec and the messages of the hardware security module guarantee, with an
  example for every theorem that has hypotheses.
\<close>

subsection \<open>Example objects\<close>

definition empty_encoder :: "nat \<Rightarrow> azihsm_mbor_encoder" where
  "empty_encoder n = \<lparr>enc_Buffer = Some (replicate n 0), enc_Capacity = of_nat n, enc_Position = 0\<rparr>"

lemma empty_encoder_ok: "n < 65536 \<Longrightarrow> enc_ok (empty_encoder n)" "enc_Buffer (empty_encoder n) \<noteq> None"
  by (simp_all add: empty_encoder_def enc_ok_def unat_of_nat16)

definition message_of :: "mbor_item list \<Rightarrow> azihsm_mbor_decoder" where
  "message_of its = \<lparr>dec_Buffer = Some (stream mbor_bytes 0 its),
     dec_Capacity = of_nat (length (stream mbor_bytes 0 its)), dec_Position = 0\<rparr>"

lemma message_of_ok:
  "length (stream mbor_bytes 0 its) < 65536 \<Longrightarrow> dec_ok (message_of its)"
  "length (stream mbor_bytes 0 its) < 65536 \<Longrightarrow> at_items (message_of its) its"
  by (simp_all add: message_of_def at_items_def dec_ok_def upcoming_def unat_of_nat16)

lemma le_lib_platform: "swaps_bytes L \<Longrightarrow> mbor_platform L"
  by (rule mbor_platform.intro)

lemma padded_aligned: "(p + length (mbor_bytes p (ItemPadded data)) - length data) mod 4 = 0"
proof -
  have "p + length (mbor_bytes p (ItemPadded data)) - length data = p + 3 + padding_at p"
    by (simp add: be16_def)
  then show ?thesis by (simp only: padding_at_aligned)
qed

subsection \<open>The codec\<close>

text \<open>
  C16: What a sequence of encoding calls writes, the corresponding sequence of decoding calls
  reads back: if encoding the items succeeds, a decoder placed at the position where encoding
  started returns exactly those items and stops where the encoder stopped. This holds for every
  mixture of integers, Booleans, maps, byte strings and padded byte strings, at every alignment.
\<close>

theorem mbor_roundtrip:
  assumes "swaps_bytes L" "enc_ok e" "enc_Buffer e \<noteq> None" "\<forall>x \<in> set its. item_valid x"
    and "encode_seq (encode_item b L) its (Some e) = Some (EFI_SUCCESS, Some e')"
    and "dec_Buffer d = enc_Buffer e'" "dec_Position d = enc_Position e" "dec_Capacity d = enc_Capacity e'"
  shows "\<exists>d'. decode_seq (decode_item L) (map kind_of its) (Some d) = Some (EFI_SUCCESS, Some d', its) \<and>
    dec_Position d' = enc_Position e'"
  using mbor_field.encode_decode [OF mbor_platform.item_field [OF le_lib_platform [OF assms(1)]] assms(2-)] .

theorem mbor_roundtrip_witness:
  "\<exists>e' d'. encode_seq (encode_item \<lparr>ASSERTS = True, DBG = False, DEBUG_CODE = True\<rparr> little_endian_lib) [ItemMap 1, ItemU8 3, ItemPadded [9, 8]]
      (Some (empty_encoder 12)) = Some (EFI_SUCCESS, Some e') \<and>
    decode_seq (decode_item little_endian_lib) [KMap, KU8, KPadded 2]
      (Some \<lparr>dec_Buffer = enc_Buffer e', dec_Capacity = 12, dec_Position = 0\<rparr>) =
        Some (EFI_SUCCESS, Some d', [ItemMap 1, ItemU8 3, ItemPadded [9, 8]]) \<and>
    unat (dec_Position d') = 10"
proof -
  let ?b = "\<lparr>ASSERTS = True, DBG = False, DEBUG_CODE = True\<rparr>" and ?its = "[ItemMap 1, ItemU8 3, ItemPadded [9, 8 :: u8]]"
  have ok: "enc_ok (empty_encoder 12)" "enc_Buffer (empty_encoder 12) \<noteq> None" "\<forall>x \<in> set ?its. item_valid x"
    by (simp_all add: empty_encoder_ok)
  obtain e' where e': "encode_seq (encode_item ?b little_endian_lib) ?its (Some (empty_encoder 12)) = Some (EFI_SUCCESS, Some e')"
    "enc_Capacity e' = 12" "unat (enc_Position e') = 10"
    using le_platform.items.encode_seq_law [OF ok, of ?b]
    by (auto simp: runs_def encoded_def empty_encoder_def padding_at_def be16_def split: if_splits)
  have k: "map kind_of ?its = [KMap, KU8, KPadded 2]" by simp
  obtain d' where "decode_seq (decode_item little_endian_lib) [KMap, KU8, KPadded 2]
      (Some \<lparr>dec_Buffer = enc_Buffer e', dec_Capacity = 12, dec_Position = 0\<rparr>) = Some (EFI_SUCCESS, Some d', ?its)"
    "dec_Position d' = enc_Position e'"
    using mbor_roundtrip [OF swaps_bytes_little_endian_lib ok e'(1), of
      "\<lparr>dec_Buffer = enc_Buffer e', dec_Capacity = 12, dec_Position = 0\<rparr>", unfolded k] e'(2)
    by (auto simp add: empty_encoder_def simp del: encode_seq.simps decode_seq.simps)
  then show ?thesis using e'(3) by (intro exI conjI) (rule e'(1), assumption, simp)
qed

text \<open>
  C26: An encoding call on a well-formed encoder never writes outside the buffer or before the
  position. It succeeds exactly when the bytes of the item fit into the rest of the capacity,
  and then they are the only change up to the new position; otherwise it reports
  \<^verbatim>\<open>EFI_BUFFER_TOO_SMALL\<close>. The data of a padded byte string starts at a
  multiple of 4.
\<close>

theorem mbor_encode_in_bounds:
  assumes "swaps_bytes L" "enc_ok e" "enc_Buffer e = Some m" "item_valid x"
  defines "bs \<equiv> mbor_bytes (unat (enc_Position e)) x"
  shows "\<exists>s e' m'. encode_item b L (Some e) x = Some (s, Some e') \<and> enc_ok e' \<and> enc_Buffer e' = Some m' \<and>
    length m' = length m \<and> take (unat (enc_Position e)) m' = take (unat (enc_Position e)) m \<and>
    (if unat (enc_Position e) + length bs \<le> unat (enc_Capacity e)
     then s = EFI_SUCCESS \<and> unat (enc_Position e') = unat (enc_Position e) + length bs \<and>
       take (unat (enc_Position e) + length bs) m' = take (unat (enc_Position e)) m @ bs \<and>
       (\<forall>data. x = ItemPadded data \<longrightarrow> (unat (enc_Position e) + length bs - length data) mod 4 = 0)
     else s = EFI_BUFFER_TOO_SMALL)"
proof -
  have "(unat (enc_Position e) + length bs - length data) mod 4 = 0" if "x = ItemPadded data" for data
    unfolding bs_def that by (rule padded_aligned)
  moreover obtain s e' m' where "encode_item b L (Some e) x = Some (s, Some e')" "enc_ok e'" "enc_Buffer e' = Some m'"
    "length m' = length m" "take (unat (enc_Position e)) m' = take (unat (enc_Position e)) m"
    "if unat (enc_Position e) + length bs \<le> unat (enc_Capacity e)
     then s = EFI_SUCCESS \<and> unat (enc_Position e') = unat (enc_Position e) + length bs \<and>
       take (unat (enc_Position e) + length bs) m' = take (unat (enc_Position e)) m @ bs
     else s = EFI_BUFFER_TOO_SMALL"
    using encode_item_law [OF assms(2) _ assms(1,4), of b] assms(3) unfolding runs_def encoded_def bs_def
    by (auto split del: if_split)
  ultimately show ?thesis by (intro exI conjI) (assumption | simp split: if_splits)+
qed

theorem mbor_encode_in_bounds_witness:
  "\<exists>s e'. encode_item \<lparr>ASSERTS = True, DBG = False, DEBUG_CODE = True\<rparr> little_endian_lib (Some (empty_encoder 10)) (ItemPadded [9, 8, 7]) =
     Some (s, Some e') \<and> s = EFI_SUCCESS \<and> unat (enc_Position e') = 7"
  using mbor_encode_in_bounds [OF swaps_bytes_little_endian_lib empty_encoder_ok(1), of 10 "replicate 10 0" "ItemPadded [9, 8, 7]"
    "\<lparr>ASSERTS = True, DBG = False, DEBUG_CODE = True\<rparr>"]
  by (auto simp: empty_encoder_def padding_at_def be16_def Let_def)

text \<open>
  C17: Decoding never reads outside the message, whatever bytes it holds: each decoding
  function returns, keeps the decoder well formed on the same message, never moves the position
  backwards, and moves it forward when it succeeds. For byte strings this needs a destination
  that holds the announced length whenever the message is long enough for it.
\<close>

theorem mbor_decode_safe:
  assumes "dec_ok d"
  shows "runs (AziHsmMborDecodeU8 (Some d) (Some v8)) (dec_post d) \<and>
    runs (AziHsmMborDecodeU16 L (Some d) (Some v16)) (dec_post d) \<and>
    runs (AziHsmMborDecodeU32 L (Some d) (Some v32)) (dec_post d) \<and>
    runs (AziHsmMborDecodeU64 L (Some d) (Some v64)) (dec_post d) \<and>
    runs (AziHsmMborDecodeBoolean (Some d) (Some vb)) (dec_post d) \<and>
    runs (AziHsmMborDecodeMap (Some d) (Some v8)) (dec_post d) \<and>
    (dest_fits L d dst \<longrightarrow>
      runs (AziHsmMborDecodeBytes L (Some d) (Some dst) (Some len)) (bytes_post d (length dst)) \<and>
      runs (AziHsmMborDecodePaddedBytes L (Some d) (Some dst) (Some len)) (bytes_post d (length dst)))"
  using decode_value_safe [OF assms] decode_bytes_safe [OF assms] by simp

theorem mbor_decode_safe_witness:
  "runs (AziHsmMborDecodeBytes little_endian_lib (Some \<lparr>dec_Buffer = Some [0x80, 0xFF, 0xFF], dec_Capacity = 3, dec_Position = 0\<rparr>)
      (Some [0, 0, 0]) (Some 0)) (bytes_post \<lparr>dec_Buffer = Some [0x80, 0xFF, 0xFF], dec_Capacity = 3, dec_Position = 0\<rparr> 3)"
  using mbor_decode_safe [of "\<lparr>dec_Buffer = Some [0x80, 0xFF, 0xFF], dec_Capacity = 3, dec_Position = 0\<rparr>" 0
      little_endian_lib 0 0 0 True "[0, 0, 0]" 0]
  by (simp add: dec_ok_def dest_fits_capacity numeral_3_eq_3)

text \<open>
  C37: The decoder of Booleans documents \<^verbatim>\<open>EFI_COMPROMISED_DATA\<close> for a
  marker that is no Boolean, but succeeds on every byte: everything but the marker of true is
  read as false.
\<close>

theorem mbor_boolean_accepts_any_byte:
  assumes "dec_ok d" "upcoming d [x]"
  shows "AziHsmMborDecodeBoolean (Some d) (Some v) = Some (EFI_SUCCESS, Some (advance d 1), Some (x = 0x15))"
  using decode_marker [OF assms] by (simp add: AziHsmMborDecodeBoolean_def marker_defs)

theorem mbor_boolean_accepts_any_byte_witness:
  "AziHsmMborDecodeBoolean (Some \<lparr>dec_Buffer = Some [0x1B], dec_Capacity = 1, dec_Position = 0\<rparr>) (Some True) =
     Some (EFI_SUCCESS, Some \<lparr>dec_Buffer = Some [0x1B], dec_Capacity = 1, dec_Position = 1\<rparr>, Some False)"
  using mbor_boolean_accepts_any_byte [of "\<lparr>dec_Buffer = Some [0x1B], dec_Capacity = 1, dec_Position = 0\<rparr>" "0x1B" True]
  by (simp add: dec_ok_def upcoming_def advance_def)

text \<open>
  C27: Every encoder and decoder object stays well formed under the operations that manage it:
  its position lies within its capacity and its capacity within its buffer after initialisation
  with a buffer of the stated size, after a reset and after skipping bytes; looking at the next
  byte never reads outside the buffer and leaves the object alone.
\<close>

theorem mbor_objects_well_formed:
  assumes "enc_ok e" "dec_ok d" "unat cap \<le> length buf"
  shows "(\<exists>s e'. AziHsmMborEncoderInit (Some e) (Some buf) cap = (s, Some e') \<and> enc_ok e') \<and>
    (\<exists>s e'. AziHsmMborEncoderReset (Some e) = (s, Some e') \<and> enc_ok e') \<and>
    (\<exists>s e'. AziHsmMborEncoderSkip (Some e) len = (s, Some e') \<and> enc_ok e') \<and>
    (\<exists>s d'. AziHsmMborDecoderInit (Some d) (Some buf) cap = (s, Some d') \<and> dec_ok d') \<and>
    (\<exists>s d'. AziHsmMborDecoderReset (Some d) = (s, Some d') \<and> dec_ok d') \<and>
    (\<exists>s d'. AziHsmMborDecoderSkip (Some d) len = (s, Some d') \<and> dec_ok d') \<and>
    (\<exists>s w. AziHsmMborPeekByte (Some d) (Some v) = Some (s, Some d, w))"
proof -
  have "\<exists>s e'. AziHsmMborEncoderSkip (Some e) len = (s, Some e') \<and> enc_ok e'"
    using assms(1) unat_lt16 [of "enc_Capacity e"]
    by (auto simp: AziHsmMborEncoderSkip_def exceeds_iff16 enc_ok_def unat_add16 split: option.splits)
  moreover have "\<exists>s d'. AziHsmMborDecoderSkip (Some d) len = (s, Some d') \<and> dec_ok d'"
    using assms(2) unat_lt16 [of "dec_Capacity d"]
    by (auto simp: AziHsmMborDecoderSkip_def exceeds_iff16 dec_ok_def unat_add16 split: option.splits)
  moreover have "\<exists>s w. AziHsmMborPeekByte (Some d) (Some v) = Some (s, Some d, w)"
    using assms(2) exceeds_iff [of 1 "dec_Position d" "dec_Capacity d"]
    by (auto simp: AziHsmMborPeekByte_def copy_from_def mem_read_def dec_ok_def split: option.splits)
  ultimately show ?thesis
    using assms
    by (simp add: AziHsmMborEncoderInit_def AziHsmMborEncoderReset_def AziHsmMborDecoderInit_def AziHsmMborDecoderReset_def
      enc_ok_def dec_ok_def)
qed

theorem mbor_objects_well_formed_witness:
  "\<exists>s e'. AziHsmMborEncoderSkip (Some (empty_encoder 8)) 3 = (s, Some e') \<and> enc_ok e'"
  using mbor_objects_well_formed [OF empty_encoder_ok(1) [of 8] message_of_ok(1) [of "[]"], of 1 "[0]" 3 0] by simp

subsection \<open>Requests\<close>

text \<open>
  C19: The request encoders, with their early exits, optional header fields and counted fields,
  are equal to writing the items of the request one after the other: they agree on the status
  and on the encoder for every well-formed encoder, also when the buffer is too small.
\<close>

theorem ddi_requests_equal_item_writer:
  assumes "swaps_bytes L" "enc_ok e" "enc_Buffer e \<noteq> None" "ddi_Data r = Some bs" "unat (ddi_Length r) \<le> length bs"
  defines "payload \<equiv> [ItemMap 1, ItemU8 1, ItemPadded (take (unat (ddi_Length r)) bs)]"
  shows "inner (AzihsmEncodeGetApiRevReq L (Some e) rv ses (Some n)) =
      encode_seq (encode_item b L) (request_items DDI_OP_GET_API_REV rv ses [ItemMap 0]) (Some e) \<and>
    inner (AzihsmEncodeInitBks3Req b L (Some e) rv ses (Some r) (Some n)) =
      encode_seq (encode_item b L) (request_items DDI_OP_INIT_BKS3 rv ses payload) (Some e) \<and>
    inner (AzihsmEncodeSetSealedBks3Req b L (Some e) rv ses (Some r) (Some n)) =
      encode_seq (encode_item b L) (request_items DDI_OP_SET_SEALED_BKS3 rv ses payload) (Some e) \<and>
    inner (AzihsmEncodeGetSealedBks3Req L (Some e) rv ses (Some n)) =
      encode_seq (encode_item b L) (request_items DDI_OP_GET_SEALED_BKS3 rv ses [ItemMap 0]) (Some e)"
  unfolding payload_def
  using mbor_platform.requests_same_as [OF le_lib_platform [OF assms(1)] assms(2,3)] assms(4,5) by blast

theorem ddi_requests_equal_item_writer_witness:
  "inner (AzihsmEncodeInitBks3Req \<lparr>ASSERTS = True, DBG = False, DEBUG_CODE = True\<rparr> little_endian_lib (Some (empty_encoder 6))
      (Some \<lparr>Major = 1, Minor = 0\<rparr>) None (Some \<lparr>ddi_Data = Some [5, 6], ddi_Length = 2\<rparr>) (Some 0)) =
    encode_seq (encode_item \<lparr>ASSERTS = True, DBG = False, DEBUG_CODE = True\<rparr> little_endian_lib)
      (request_items DDI_OP_INIT_BKS3 (Some \<lparr>Major = 1, Minor = 0\<rparr>) None [ItemMap 1, ItemU8 1, ItemPadded [5, 6]])
      (Some (empty_encoder 6))"
  using ddi_requests_equal_item_writer [OF swaps_bytes_little_endian_lib empty_encoder_ok [of 6],
      of "\<lparr>ddi_Data = Some [5, 6], ddi_Length = 2\<rparr>" "[5, 6]" "Some \<lparr>Major = 1, Minor = 0\<rparr>" None 0 "\<lparr>ASSERTS = True, DBG = False, DEBUG_CODE = True\<rparr>"]
  by (simp del: encode_seq.simps)

text \<open>
  A request encoder never writes outside the buffer; when the request fits it writes its
  items in the wire format at the position of the encoder and reports the number of bytes
  written, and otherwise it fails with \<^verbatim>\<open>EFI_BUFFER_TOO_SMALL\<close>.
\<close>

theorem ddi_request_size:
  assumes "swaps_bytes L" "enc_ok e" "enc_Buffer e \<noteq> None" "ddi_Data r = Some bs" "unat (ddi_Length r) \<le> length bs"
  defines "payload \<equiv> [ItemMap 1, ItemU8 1, ItemPadded (take (unat (ddi_Length r)) bs)]"
  shows "runs (AzihsmEncodeGetApiRevReq L (Some e) rv ses (Some n))
      (request_post e (request_items DDI_OP_GET_API_REV rv ses [ItemMap 0])) \<and>
    runs (AzihsmEncodeInitBks3Req b L (Some e) rv ses (Some r) (Some n))
      (request_post e (request_items DDI_OP_INIT_BKS3 rv ses payload)) \<and>
    runs (AzihsmEncodeSetSealedBks3Req b L (Some e) rv ses (Some r) (Some n))
      (request_post e (request_items DDI_OP_SET_SEALED_BKS3 rv ses payload))"
  unfolding payload_def
  using mbor_platform.GetApiRev_request [OF le_lib_platform [OF assms(1)] assms(2,3)]
    mbor_platform.InitBks3_request [OF le_lib_platform [OF assms(1)] assms(2-5)]
    mbor_platform.SetSealedBks3_request [OF le_lib_platform [OF assms(1)] assms(2-5)] by blast

theorem ddi_request_size_witness:
  "\<exists>E. AzihsmEncodeGetApiRevReq little_endian_lib (Some (empty_encoder 64)) None (Some 7) (Some 0) =
     Some (EFI_SUCCESS, E, Some 19)"
proof -
  have "runs (AzihsmEncodeGetApiRevReq little_endian_lib (Some (empty_encoder 64)) None (Some 7) (Some 0))
      (request_post (empty_encoder 64) (request_items DDI_OP_GET_API_REV None (Some 7) [ItemMap 0]))"
    using ddi_request_size [OF swaps_bytes_little_endian_lib empty_encoder_ok [of 64],
      of "\<lparr>ddi_Data = Some [], ddi_Length = 0\<rparr>" "[]" None "Some 7" 0 "\<lparr>ASSERTS = True, DBG = False, DEBUG_CODE = True\<rparr>"] by simp
  then show ?thesis
    by (auto simp: runs_def request_post_def encoded_def request_items_def req_hdr_items_def empty_encoder_def)
qed

subsection \<open>Responses\<close>




definition small_bks3_resp :: azihsm_ddi_init_bks3_resp where
  "small_bks3_resp = \<lparr>Bks3 = \<lparr>ddi_Data = Some (replicate 64 0), ddi_Length = 0\<rparr>, Guid = replicate 16 0\<rparr>"


text \<open>
  C31: And it does fault in that way: a response whose unique identifier is longer than the
  destination array is copied over the end of the array.
\<close>

theorem init_bks3_guid_overflow:
  assumes "swaps_bytes L" "at_items d (response_items xs [ItemMap 2, ItemU8 1, ItemPadded bs, ItemU8 2, ItemBytes guid])"
    and "answers xs DDI_OP_INIT_BKS3 DDI_STATUS_SUCCESS"
    and "ddi_Data (Bks3 r) = Some dst" "length bs < 65536" "length bs \<le> length dst"
    and "length (Guid r) < length guid" "length guid < 65536"
  shows "AzihsmDecodeInitBks3Resp L (Some d) (Some r) (Some n) = None"
  using mbor_platform.InitBks3_guid_overflow [OF le_lib_platform [OF assms(1)] assms(2-)] .

definition ok_fields :: "u32 \<Rightarrow> rsp_field list" where
  "ok_fields op = [RspFipsApproved True, RspDdiStatus DDI_STATUS_SUCCESS, RspDdiOp op]"

lemma ok_fields_answer: "answers (ok_fields op) op DDI_STATUS_SUCCESS"
  by (simp add: answers_def ok_fields_def rsp_hdr_valid_def)

lemmas response_defs = response_items_def rsp_hdr_items_def ok_fields_def padding_at_def be16_def api_rev_items_def
  api_rev_response_items_def

theorem init_bks3_guid_overflow_witness:
  "AzihsmDecodeInitBks3Resp little_endian_lib (Some (message_of (response_items (ok_fields DDI_OP_INIT_BKS3)
     [ItemMap 2, ItemU8 1, ItemPadded [1, 2], ItemU8 2, ItemBytes (replicate 17 0)]))) (Some small_bks3_resp) (Some 0) = None"
  by (rule init_bks3_guid_overflow [OF swaps_bytes_little_endian_lib message_of_ok(2) ok_fields_answer, where dst = "replicate 64 0"])
    (simp_all add: small_bks3_resp_def response_defs)

text \<open>
  C23: The header of a response is accepted with its fields in any order, provided no field
  comes twice and the operation, the status and the FIPS flag are present. The decoded header
  holds exactly the values sent, and the optional revision and session are marked valid exactly
  when they were sent.
\<close>

theorem ddi_header_any_order:
  assumes "swaps_bytes L" "at_items d (ItemMap 2 # ItemU8 0 # rsp_hdr_items xs @ rest)" "rsp_hdr_valid xs"
  shows "runs (inner_dec (DecodeCommandResponseHeader L (Some d) (Some h) (Some n))) (\<lambda>(s, D, h').
    s = EFI_SUCCESS \<and> (\<exists>d'. D = Some d' \<and> at_items d' rest) \<and> (\<forall>x \<in> set xs. field_in x h') \<and>
    (rsp_Revision_Valid h' \<longleftrightarrow> 1 \<in> set (map rsp_field_id xs)) \<and> (rsp_SessionId_Valid h' \<longleftrightarrow> 3 \<in> set (map rsp_field_id xs)))"
  by (rule runs_mono [OF mbor_platform.command_response_header_read [OF le_lib_platform [OF assms(1)] assms(2,3)]])
    (use rsp_hdr_of_fields [OF assms(3)] in \<open>auto simp: read_post_def\<close>)

theorem ddi_header_any_order_witness:
  "runs (inner_dec (DecodeCommandResponseHeader little_endian_lib
      (Some (message_of (ItemMap 2 # ItemU8 0 # rsp_hdr_items [RspFipsApproved True, RspSessionId 9, RspDdiStatus 0, RspDdiOp 1111])))
      (Some zero_rsp_hdr) (Some 0)))
    (\<lambda>(s, D, h'). s = EFI_SUCCESS \<and> rsp_DdiOp h' = 1111 \<and> rsp_SessionId_Value h' = 9 \<and> \<not> rsp_Revision_Valid h')"
  by (rule runs_mono [OF ddi_header_any_order [OF swaps_bytes_little_endian_lib, where rest = "[]" and
      xs = "[RspFipsApproved True, RspSessionId 9, RspDdiStatus 0, RspDdiOp 1111]"]])
    (auto simp: rsp_hdr_valid_def rsp_hdr_items_def intro!: message_of_ok)

text \<open>
  C21: From a successful response the decoders return the payload the device sent: the range of
  supported revisions, the key and its identifier, the sealed key with its length. The bytes of
  the destination behind the data are unchanged.
\<close>

theorem ddi_responses_decoded:
  assumes "swaps_bytes L" "length bs < 65536" "length bs \<le> length dst" "length guid = 16" "length (Guid r) = 16"
    and "ddi_Data sealed = Some dst" "ddi_Data (Bks3 r) = Some dst"
  defines "key \<equiv> \<lparr>ddi_Data = Some (bs @ drop (length bs) dst), ddi_Length = of_nat (length bs)\<rparr>"
  shows "(at_items d1 (response_items xs (api_rev_response_items v)) \<and> answers xs DDI_OP_GET_API_REV DDI_STATUS_SUCCESS \<longrightarrow>
      runs (inner_dec (AzihsmDecodeGetApiRevReq L h (Some d1) (Some r0) (Some n))) (read_post v [])) \<and>
    (at_items d2 (response_items xs [ItemMap 2, ItemU8 1, ItemPadded bs, ItemU8 2, ItemBytes guid]) \<and>
      answers xs DDI_OP_INIT_BKS3 DDI_STATUS_SUCCESS \<longrightarrow>
      runs (inner_dec (AzihsmDecodeInitBks3Resp L (Some d2) (Some r) (Some n))) (read_post \<lparr>Bks3 = key, Guid = guid\<rparr> [])) \<and>
    (at_items d3 (response_items xs [ItemMap 1, ItemU8 1, ItemPadded bs]) \<and>
      answers xs DDI_OP_GET_SEALED_BKS3 DDI_STATUS_SUCCESS \<longrightarrow>
      runs (inner_dec (AzihsmDecodeGetSealedBks3Resp L (Some d3) (Some sealed) (Some n))) (read_post key []))"
  unfolding key_def
  using mbor_platform.GetApiRev_response [OF le_lib_platform [OF assms(1)]]
    mbor_platform.InitBks3_response [OF le_lib_platform [OF assms(1)] _ _ assms(7,2,3,4,5)]
    mbor_platform.GetSealedBks3_response [OF le_lib_platform [OF assms(1)] _ _ assms(6,2,3)] by blast

theorem ddi_responses_decoded_witness:
  "runs (inner_dec (AzihsmDecodeInitBks3Resp little_endian_lib (Some (message_of (response_items (ok_fields DDI_OP_INIT_BKS3)
      [ItemMap 2, ItemU8 1, ItemPadded [1, 2], ItemU8 2, ItemBytes (replicate 16 5)]))) (Some small_bks3_resp) (Some 0)))
    (\<lambda>(s, D, r). s = EFI_SUCCESS \<and> ddi_Length (Bks3 r) = 2 \<and> Guid r = replicate 16 5)"
proof (rule runs_mono [OF ddi_responses_decoded [THEN conjunct2, THEN conjunct1, THEN mp]])
  show "at_items (message_of (response_items (ok_fields DDI_OP_INIT_BKS3)
      [ItemMap 2, ItemU8 1, ItemPadded [1, 2], ItemU8 2, ItemBytes (replicate 16 5)]))
      (response_items (ok_fields DDI_OP_INIT_BKS3)
      [ItemMap 2, ItemU8 1, ItemPadded [1, 2], ItemU8 2, ItemBytes (replicate 16 5)]) \<and>
      answers (ok_fields DDI_OP_INIT_BKS3) DDI_OP_INIT_BKS3 DDI_STATUS_SUCCESS"
    by (intro conjI message_of_ok ok_fields_answer) (simp add: response_defs)
  show "ddi_Data \<lparr>ddi_Data = Some (replicate 64 0), ddi_Length = 0\<rparr> = Some (replicate 64 0)" by simp
qed (auto simp: small_bks3_resp_def swaps_bytes_little_endian_lib read_post_def)

text \<open>
  C30: When the device reports a failure, three of the decoders return an error and store
  nothing; the decoder for setting the sealed key returns success and hands the failure to the
  caller as a false result.
\<close>

theorem ddi_device_failure:
  assumes "swaps_bytes L" "st \<noteq> DDI_STATUS_SUCCESS"
  shows "(at_items d (ItemMap 2 # ItemU8 0 # rsp_hdr_items xs @ rest) \<longrightarrow>
      (answers xs DDI_OP_GET_API_REV st \<longrightarrow>
        runs (inner_dec (AzihsmDecodeGetApiRevReq L h (Some d) (Some r1) (Some n)))
          (\<lambda>(s, D, w). EFI_ERROR s \<and> s = ConvertDdiStatusToEfiStatus st \<and> w = r1)) \<and>
      (answers xs DDI_OP_INIT_BKS3 st \<longrightarrow>
        runs (inner_dec (AzihsmDecodeInitBks3Resp L (Some d) (Some r2) (Some n)))
          (\<lambda>(s, D, w). EFI_ERROR s \<and> s = ConvertDdiStatusToEfiStatus st \<and> w = r2)) \<and>
      (answers xs DDI_OP_GET_SEALED_BKS3 st \<longrightarrow>
        runs (inner_dec (AzihsmDecodeGetSealedBks3Resp L (Some d) (Some r3) (Some n)))
          (\<lambda>(s, D, w). EFI_ERROR s \<and> s = ConvertDdiStatusToEfiStatus st \<and> w = r3))) \<and>
    (at_items d (response_items xs [ItemMap 0]) \<and> answers xs DDI_OP_SET_SEALED_BKS3 st \<longrightarrow>
      runs (inner_dec (AzihsmDecodeSetSealedBks3Resp L (Some d) (Some r4) (Some n))) (\<lambda>(s, D, w). s = EFI_SUCCESS \<and> \<not> w))"
proof -
  note p = le_lib_platform [OF assms(1)]
  have e: "EFI_ERROR (ConvertDdiStatusToEfiStatus st)" using assms(2) by (simp add: ConvertDdiStatusToEfiStatus_error)
  show ?thesis
    by (intro conjI impI; (elim conjE)?)
      (rule runs_mono [OF mbor_platform.device_failure(1) [OF p _ assms(2)]]
         runs_mono [OF mbor_platform.device_failure(2) [OF p _ assms(2)]]
         runs_mono [OF mbor_platform.device_failure(3) [OF p _ assms(2)]]
         runs_mono [OF mbor_platform.SetSealedBks3_response [OF p]], assumption, assumption,
       use e assms(2) in \<open>auto simp: read_post_def\<close>)+
qed

theorem ddi_device_failure_witness:
  "runs (inner_dec (AzihsmDecodeGetApiRevReq little_endian_lib zero_rsp_hdr
      (Some (message_of (ItemMap 2 # ItemU8 0 # rsp_hdr_items [RspDdiOp DDI_OP_GET_API_REV, RspDdiStatus 7, RspFipsApproved False])))
      (Some \<lparr>rev_min = \<lparr>Major = 0, Minor = 0\<rparr>, rev_max = \<lparr>Major = 0, Minor = 0\<rparr>\<rparr>) (Some 0)))
    (\<lambda>(s, D, w). s = EFI_DEVICE_ERROR)"
proof -
  let ?xs = "[RspDdiOp DDI_OP_GET_API_REV, RspDdiStatus 7, RspFipsApproved False]"
  have "at_items (message_of (ItemMap 2 # ItemU8 0 # rsp_hdr_items ?xs @ [])) (ItemMap 2 # ItemU8 0 # rsp_hdr_items ?xs @ [])"
    by (rule message_of_ok) (simp add: rsp_hdr_items_def)
  moreover have "answers ?xs DDI_OP_GET_API_REV 7" by (simp add: answers_def rsp_hdr_valid_def)
  moreover have "(7 :: u32) \<noteq> DDI_STATUS_SUCCESS" "ConvertDdiStatusToEfiStatus 7 = EFI_DEVICE_ERROR"
    by code_simp+
  ultimately show ?thesis
    by (intro runs_mono [OF ddi_device_failure [OF swaps_bytes_little_endian_lib,
        THEN conjunct1, THEN mp, THEN conjunct1, THEN mp, of 7 _ ?xs "[]"]]) auto
qed

end
