(* ===== verification/Efi_Ring.thy ===== *)
theory Efi_Ring
  imports Msvm_Prelude
begin

text \<open>
  The ring buffer behind the event channels,
  \<^verbatim>\<open>MsvmPkg/EventLogDxe/EfiRing.c\<close>: records of any length, each a size word
  followed by the data, between \<open>Tail\<close> (the oldest) and \<open>Head\<close> (the next to be written).

  The structure is a record, its flexible array member \<open>Buffer\<close> a byte list. A pointer to a
  record header is the offset of the header in the buffer. A null \<open>Data\<close> or \<open>DataSize\<close>
  argument is \<open>None\<close>; variables that are written through a pointer are returned.
\<close>

type_synonym ring_handle = u64

definition INVALID_RING_HANDLE :: ring_handle where "INVALID_RING_HANDLE = - 1"

definition RING_BUFFER_OVERWRITE :: u32 where "RING_BUFFER_OVERWRITE = 1"

record ring_buffer_stats =
  LostWrites :: u32
  Reserve :: u32
  Remove :: u32

record efi_ring_buffer =
  rb_Size :: u32
  rb_Mask :: u32
  rb_Head :: u32
  rb_Tail :: u32
  rb_Flags :: u32
  rb_Stats :: ring_buffer_stats
  rb_HandleKey :: u32
  rb_Buffer :: "u8 list"

datatype ring_io_operation = DataRead | DataWrite

subsection \<open>Handles\<close>

definition RING_HANDLE_GET_OFFSET :: "ring_handle \<Rightarrow> u64" where
  "RING_HANDLE_GET_OFFSET handle = handle AND 0xFFFFFFFF"

definition RING_HANDLE_GET_KEY :: "ring_handle \<Rightarrow> u64" where
  "RING_HANDLE_GET_KEY handle = drop_bit 32 handle"

definition RING_HANDLE_SET_KEY :: "u32 \<Rightarrow> u32 \<Rightarrow> ring_handle" where
  "RING_HANDLE_SET_KEY offset key = ucast offset OR push_bit 32 (ucast key)"

definition RingBufferCurrentKey :: "efi_ring_buffer \<Rightarrow> u32 \<times> efi_ring_buffer" where
  "RingBufferCurrentKey Ring =
     (let Ring = (if rb_HandleKey Ring = 0 then Ring\<lparr>rb_HandleKey := 1\<rparr> else Ring)
      in (rb_HandleKey Ring, Ring))"

subsection \<open>Offsets and records\<close>

definition RingBufferBytesFree :: "efi_ring_buffer \<Rightarrow> u32" where
  "RingBufferBytesFree Ring =
     (let bytesFree = rb_Tail Ring - rb_Head Ring - 1
      in if bytesFree < rb_Size Ring then bytesFree else rb_Size Ring + bytesFree)"

definition RingBufferWrapIfNeeded :: "build \<Rightarrow> efi_ring_buffer \<Rightarrow> u32 \<Rightarrow> u32 \<Rightarrow> u32 option" where
  "RingBufferWrapIfNeeded b Ring Offset BytesRequired = do {
     ASSERT b (Offset < rb_Size Ring);
     Some (if rb_Size Ring - Offset < BytesRequired then 0 else Offset)
   }"

definition RingBufferIsValidOffset :: "efi_ring_buffer \<Rightarrow> u32 \<Rightarrow> efi_status" where
  "RingBufferIsValidOffset Ring Offset =
     (if rb_Size Ring < Offset \<or> (rb_Head Ring \<le> Offset \<and> Offset < rb_Tail Ring)
      then EFI_INVALID_PARAMETER else EFI_SUCCESS)"

text \<open>The field \<^verbatim>\<open>Size\<close> of the record header at an offset.\<close>

definition record_Size :: "efi_ring_buffer \<Rightarrow> u32 \<Rightarrow> u32 option" where
  "record_Size Ring header = map_option of_le_bytes (mem_read (rb_Buffer Ring) (unat header) 4)"

definition RingBufferRecordAt ::
  "build \<Rightarrow> efi_ring_buffer \<Rightarrow> u32 \<Rightarrow> (efi_status \<times> u32 \<times> u32 option) option" where
  "RingBufferRecordAt b Ring Offset = do {
     let status = RingBufferIsValidOffset Ring Offset;
     if EFI_ERROR status then do {
       ASSERT b False;
       Some (status, Offset, None)
     }
     else if rb_Head Ring = rb_Tail Ring then Some (EFI_NOT_FOUND, Offset, None)
     else do {
       Offset \<leftarrow> RingBufferWrapIfNeeded b Ring Offset 4;
       header_Size \<leftarrow> record_Size Ring Offset;
       if rb_Size Ring - 1 < header_Size \<or> header_Size < 4 then do {
         ASSERT b False;
         Some (EFI_INVALID_PARAMETER, Offset, None)
       }
       else do {
         let newOffset = (Offset + header_Size) AND rb_Mask Ring;
         if newOffset \<le> Offset \<and> rb_Head Ring < newOffset then do {
           ASSERT b False;
           Some (EFI_INVALID_PARAMETER, Offset, None)
         }
         else Some (EFI_SUCCESS, Offset, Some Offset)
       }
     }
   }"

subsection \<open>Moving data\<close>

definition RingBufferFillDataAt ::
  "build \<Rightarrow> efi_ring_buffer \<Rightarrow> u32 \<Rightarrow> u8 \<Rightarrow> u32 \<Rightarrow> (u32 \<times> efi_ring_buffer) option" where
  "RingBufferFillDataAt b Ring Offset Value DataSize = do {
     ASSERT b (Offset < rb_Size Ring);
     ASSERT b (DataSize < rb_Size Ring);
     let chunkSize = min (rb_Size Ring - Offset) DataSize;
     buffer \<leftarrow> (if 0 < chunkSize
       then mem_write (rb_Buffer Ring) (unat Offset) (replicate (unat chunkSize) Value)
       else Some (rb_Buffer Ring));
     let bytesToCopy = DataSize - chunkSize;
     buffer \<leftarrow> (if 0 < bytesToCopy
       then mem_write buffer 0 (replicate (unat (min (rb_Size Ring) bytesToCopy)) Value)
       else Some buffer);
     Some ((Offset + DataSize) AND rb_Mask Ring, Ring\<lparr>rb_Buffer := buffer\<rparr>)
   }"

definition RingBufferWriteDataAt ::
  "build \<Rightarrow> efi_ring_buffer \<Rightarrow> u32 \<Rightarrow> u8 list \<Rightarrow> u32 \<Rightarrow> (u32 \<times> efi_ring_buffer) option" where
  "RingBufferWriteDataAt b Ring Offset Data DataSize = do {
     ASSERT b (Offset < rb_Size Ring);
     ASSERT b (DataSize < rb_Size Ring);
     let chunkSize = min (rb_Size Ring - Offset) DataSize;
     buffer \<leftarrow> (if 0 < chunkSize
       then do {
         src \<leftarrow> mem_read Data 0 (unat chunkSize);
         mem_write (rb_Buffer Ring) (unat Offset) src
       }
       else Some (rb_Buffer Ring));
     let bytesToCopy = DataSize - chunkSize;
     buffer \<leftarrow> (if 0 < bytesToCopy
       then do {
         src \<leftarrow> mem_read Data (unat chunkSize) (unat (min (rb_Size Ring) bytesToCopy));
         mem_write buffer 0 src
       }
       else Some buffer);
     Some ((Offset + DataSize) AND rb_Mask Ring, Ring\<lparr>rb_Buffer := buffer\<rparr>)
   }"

text \<open>Copies to offset \<open>dst\<close> of the region \<open>Data\<close>.\<close>

definition RingBufferReadDataAt ::
  "build \<Rightarrow> efi_ring_buffer \<Rightarrow> u32 \<Rightarrow> u8 list \<Rightarrow> nat \<Rightarrow> u32 \<Rightarrow> (u32 \<times> u8 list) option" where
  "RingBufferReadDataAt b Ring Offset Data dst DataSize = do {
     ASSERT b (DataSize < rb_Size Ring);
     let chunkSize = min (rb_Size Ring - Offset) DataSize;
     Data \<leftarrow> (if 0 < chunkSize
       then do {
         src \<leftarrow> mem_read (rb_Buffer Ring) (unat Offset) (unat chunkSize);
         mem_write Data dst src
       }
       else Some Data);
     let bytesToCopy = DataSize - chunkSize;
     Data \<leftarrow> (if 0 < bytesToCopy
       then do {
         ASSERT b (bytesToCopy < rb_Size Ring);
         src \<leftarrow> mem_read (rb_Buffer Ring) 0 (unat (min (rb_Size Ring) bytesToCopy));
         mem_write Data (dst + unat chunkSize) src
       }
       else Some Data);
     Some ((Offset + DataSize) AND rb_Mask Ring, Data)
   }"

subsection \<open>Reading, writing and removing records\<close>

text \<open>Returns the status, the offset, the header, the data and the data size.\<close>

definition RingBufferReadRecord ::
  "build \<Rightarrow> efi_ring_buffer \<Rightarrow> u32 \<Rightarrow> u8 list option \<Rightarrow> u32 option
     \<Rightarrow> (efi_status \<times> u32 \<times> u32 option \<times> u8 list option \<times> u32 option) option" where
  "RingBufferReadRecord b Ring Offset Data DataSize = do {
     (status, offset, record) \<leftarrow> RingBufferRecordAt b Ring Offset;
     if EFI_ERROR status then Some (status, Offset, record, Data, map_option (\<lambda>_. 0) DataSize)
     else do {
       size \<leftarrow> record_Size Ring (the record);
       let dataSize = size - 4;
       case Data of
         None \<Rightarrow> Some (status, offset, record, Data, map_option (\<lambda>_. dataSize) DataSize)
       | Some dst \<Rightarrow> do {
           ASSERT b (DataSize \<noteq> None);
           limit \<leftarrow> DataSize;
           if limit < dataSize then Some (EFI_BUFFER_TOO_SMALL, Offset, record, Data, Some dataSize)
           else do {
             let dataOffset = (offset + 4) AND rb_Mask Ring;
             (_, dst) \<leftarrow> RingBufferReadDataAt b Ring dataOffset dst 0 dataSize;
             Some (status, offset, record, Some dst, Some dataSize)
           }
         }
     }
   }"

text \<open>Returns the status, the ring, the data and the data size.\<close>

definition RingBufferIo ::
  "build \<Rightarrow> efi_ring_buffer \<Rightarrow> ring_handle \<Rightarrow> ring_io_operation \<Rightarrow> u32 \<Rightarrow> u8 list \<Rightarrow> u32
     \<Rightarrow> (efi_status \<times> efi_ring_buffer \<times> u8 list \<times> u32) option" where
  "RingBufferIo b Ring DataHandle Op Offset Data DataSize =
     (let ringOffset = ucast (RING_HANDLE_GET_OFFSET DataHandle); byteCount = DataSize in
      if RING_HANDLE_GET_KEY DataHandle \<noteq> ucast (rb_HandleKey Ring)
      then Some (EFI_INVALID_PARAMETER, Ring, Data, DataSize)
      else do {
        (status, ringOffset, record) \<leftarrow> RingBufferRecordAt b Ring ringOffset;
        if EFI_ERROR status then Some (status, Ring, Data, DataSize)
        else do {
          size \<leftarrow> record_Size Ring (the record);
          let recordDataSize = size - 4;
          if recordDataSize < Offset then Some (EFI_INVALID_PARAMETER, Ring, Data, DataSize)
          else do {
            let ringOffset = (ringOffset + 4 + Offset) AND rb_Mask Ring;
            case Op of
              DataWrite \<Rightarrow>
                if recordDataSize < Offset + byteCount then Some (EFI_BAD_BUFFER_SIZE, Ring, Data, DataSize)
                else do {
                  (_, Ring) \<leftarrow> RingBufferWriteDataAt b Ring ringOffset Data byteCount;
                  Some (EFI_SUCCESS, Ring, Data, DataSize)
                }
            | DataRead \<Rightarrow> do {
                let byteCount = (if recordDataSize < Offset + byteCount then recordDataSize - Offset else byteCount);
                (_, Data) \<leftarrow> RingBufferReadDataAt b Ring ringOffset Data 0 byteCount;
                Some (EFI_SUCCESS, Ring, Data, byteCount)
              }
          }
        }
      })"

definition RING_REMOVED_SIGNATURE :: u8 where "RING_REMOVED_SIGNATURE = 0x52"
definition RING_REMOVED_SIZE :: u32 where "RING_REMOVED_SIZE = 0xFFFFFFFF"

definition RingBufferRemove ::
  "build \<Rightarrow> efi_ring_buffer \<Rightarrow> u8 list option \<Rightarrow> u32 option
     \<Rightarrow> (efi_status \<times> efi_ring_buffer \<times> u8 list option \<times> u32 option) option" where
  "RingBufferRemove b Ring Data DataSize = do {
     (status, offset, record, Data, DataSize) \<leftarrow> RingBufferReadRecord b Ring (rb_Tail Ring) Data DataSize;
     if EFI_ERROR status then Some (status, Ring, Data, DataSize)
     else do {
       let Ring = Ring\<lparr>rb_HandleKey := rb_HandleKey Ring + 1\<rparr>;
       let Ring = (if rb_HandleKey Ring = 0 then Ring\<lparr>rb_HandleKey := 1\<rparr> else Ring);
       size \<leftarrow> record_Size Ring (the record);
       let newTail = (offset + size) AND rb_Mask Ring;
       Ring \<leftarrow> (if DEBUG_CODE b
         then map_option snd (RingBufferFillDataAt b Ring offset RING_REMOVED_SIGNATURE size)
         else Some Ring);
       buffer \<leftarrow> mem_write (rb_Buffer Ring) (unat (the record)) (le_bytes 4 RING_REMOVED_SIZE);
       Some (status, Ring\<lparr>rb_Buffer := buffer, rb_Tail := newTail\<rparr>, Data, DataSize)
     }
   }"

text \<open>\<^verbatim>\<open>Ring->Stats.LostWrites++\<close>\<close>

definition lose_write :: "efi_ring_buffer \<Rightarrow> efi_ring_buffer" where
  "lose_write Ring = Ring\<lparr>rb_Stats := (rb_Stats Ring)\<lparr>LostWrites := LostWrites (rb_Stats Ring) + 1\<rparr>\<rparr>"

text \<open>The loop that removes records until \<open>totalSize\<close> bytes are free.\<close>

partial_function (option) reserve_evict ::
  "build \<Rightarrow> efi_ring_buffer \<Rightarrow> u32 \<Rightarrow> efi_ring_buffer option" where
  "reserve_evict b Ring totalSize =
     (if RingBufferBytesFree Ring < totalSize then do {
        r \<leftarrow> RingBufferRemove b Ring None None;
        let Ring = fst (snd r);
        if EFI_ERROR (fst r) then Some Ring
        else reserve_evict b (lose_write Ring) totalSize
      }
      else Some Ring)"

text \<open>The handle is returned also when the caller passes no variable for it.\<close>

definition RingBufferReserve ::
  "build \<Rightarrow> efi_ring_buffer \<Rightarrow> u32 \<Rightarrow> (efi_status \<times> efi_ring_buffer \<times> ring_handle) option" where
  "RingBufferReserve b Ring DataSize = do {
     let totalSize = DataSize + 4;
     if rb_Size Ring - 1 < totalSize
     then Some (EFI_BAD_BUFFER_SIZE, lose_write Ring, INVALID_RING_HANDLE)
     else if RingBufferBytesFree Ring < totalSize \<and> rb_Flags Ring AND RING_BUFFER_OVERWRITE = 0
     then Some (EFI_OUT_OF_RESOURCES, lose_write Ring, INVALID_RING_HANDLE)
     else do {
       Ring \<leftarrow> (if RingBufferBytesFree Ring < totalSize then reserve_evict b Ring totalSize else Some Ring);
       headerOffset \<leftarrow> RingBufferWrapIfNeeded b Ring (rb_Head Ring) 4;
       Ring \<leftarrow> (if DEBUG_CODE b
         then map_option snd (RingBufferFillDataAt b Ring headerOffset (ucast (rb_HandleKey Ring)) totalSize)
         else Some Ring);
       buffer \<leftarrow> mem_write (rb_Buffer Ring) (unat headerOffset) (le_bytes 4 totalSize);
       let Ring = Ring\<lparr>rb_Buffer := buffer, rb_Stats := (rb_Stats Ring)\<lparr>Reserve := Reserve (rb_Stats Ring) + 1\<rparr>,
         rb_Head := (headerOffset + totalSize) AND rb_Mask Ring\<rparr>;
       let (key, Ring) = RingBufferCurrentKey Ring;
       Some (EFI_SUCCESS, Ring, RING_HANDLE_SET_KEY headerOffset key)
     }
   }"

text \<open>The handle is the contents of the variable \<^verbatim>\<open>*DataHandle\<close>, written only on success.\<close>

definition RingBufferAdd ::
  "build \<Rightarrow> efi_ring_buffer \<Rightarrow> u8 list \<Rightarrow> u32 \<Rightarrow> ring_handle option
     \<Rightarrow> (efi_status \<times> efi_ring_buffer \<times> ring_handle option) option" where
  "RingBufferAdd b Ring Data DataSize DataHandle = do {
     (status, Ring, handle) \<leftarrow> RingBufferReserve b Ring DataSize;
     if EFI_ERROR status then Some (status, Ring, DataHandle)
     else do {
       let dataOffset = ucast (RING_HANDLE_GET_OFFSET handle + 4) AND rb_Mask Ring;
       (_, Ring) \<leftarrow> RingBufferWriteDataAt b Ring dataOffset Data DataSize;
       Some (EFI_SUCCESS, Ring, map_option (\<lambda>_. handle) DataHandle)
     }
   }"

subsection \<open>Enumerating, flattening and resetting\<close>

text \<open>Returns the status, the ring, the enumerator, the item and its size.\<close>

definition RingBufferHandleEnumerate ::
  "build \<Rightarrow> efi_ring_buffer \<Rightarrow> ring_handle
     \<Rightarrow> (efi_status \<times> efi_ring_buffer \<times> ring_handle \<times> ring_handle \<times> u32) option" where
  "RingBufferHandleEnumerate b Ring Enumerator =
     (if Enumerator \<noteq> INVALID_RING_HANDLE \<and> RING_HANDLE_GET_KEY Enumerator \<noteq> ucast (rb_HandleKey Ring)
      then Some (EFI_INVALID_PARAMETER, Ring, INVALID_RING_HANDLE, INVALID_RING_HANDLE, 0)
      else do {
        let enumOffset = (if Enumerator = INVALID_RING_HANDLE then rb_Tail Ring
          else ucast (RING_HANDLE_GET_OFFSET Enumerator));
        if enumOffset = rb_Head Ring
        then Some (EFI_NOT_FOUND, Ring, INVALID_RING_HANDLE, INVALID_RING_HANDLE, 0)
        else do {
          let (currentKey, Ring) = RingBufferCurrentKey Ring;
          let itemHandle = RING_HANDLE_SET_KEY enumOffset currentKey;
          (status, enumOffset, record) \<leftarrow> RingBufferRecordAt b Ring enumOffset;
          if EFI_ERROR status then Some (status, Ring, INVALID_RING_HANDLE, INVALID_RING_HANDLE, 0)
          else do {
            itemSize \<leftarrow> record_Size Ring (the record);
            let enumOffset = (enumOffset + itemSize) AND rb_Mask Ring;
            Some (status, Ring, RING_HANDLE_SET_KEY enumOffset currentKey, itemHandle, itemSize)
          }
        }
      })"

definition RingBufferHandleIsValid :: "build \<Rightarrow> efi_ring_buffer \<Rightarrow> ring_handle \<Rightarrow> efi_status option" where
  "RingBufferHandleIsValid b Ring DataHandle =
     (if RING_HANDLE_GET_KEY DataHandle \<noteq> ucast (rb_HandleKey Ring) then Some EFI_INVALID_PARAMETER
      else map_option fst (RingBufferRecordAt b Ring (ucast (RING_HANDLE_GET_OFFSET DataHandle))))"

text \<open>
  The loop of \<^verbatim>\<open>RingBufferFlatten\<close>; \<open>curOutput\<close> is the offset in the
  output buffer. Returns the status, the byte count and the buffer.
\<close>

partial_function (option) flatten_records ::
  "build \<Rightarrow> efi_ring_buffer \<Rightarrow> u32 \<Rightarrow> u32 \<Rightarrow> u64 \<Rightarrow> u32 \<Rightarrow> u8 list \<Rightarrow> (efi_status \<times> u32 \<times> u8 list) option" where
  "flatten_records b Ring BufferSize enumOffset curOutput byteCount Buffer =
     (if enumOffset = rb_Head Ring then Some (EFI_SUCCESS, byteCount, Buffer)
      else do {
        r \<leftarrow> RingBufferRecordAt b Ring enumOffset;
        let status = fst r;
        if EFI_ERROR status then Some (status, 0, Buffer)
        else do {
          size \<leftarrow> record_Size Ring (the (snd (snd r)));
          let curDataSize = size - 4;
          _ \<leftarrow> ASSERT b (ucast curDataSize \<le> (ucast BufferSize - curOutput :: u64));
          d \<leftarrow> RingBufferReadDataAt b Ring ((fst (snd r) + 4) AND rb_Mask Ring) Buffer (unat curOutput) curDataSize;
          flatten_records b Ring BufferSize (fst d) (curOutput + ucast curDataSize) (byteCount + curDataSize) (snd d)
        }
      })"

text \<open>Returns the status, the buffer size and the buffer.\<close>

definition RingBufferFlatten ::
  "build \<Rightarrow> efi_ring_buffer \<Rightarrow> u32 \<Rightarrow> u8 list \<Rightarrow> (efi_status \<times> u32 \<times> u8 list) option" where
  "RingBufferFlatten b Ring BufferSize Buffer =
     (let byteCount = rb_Size Ring - RingBufferBytesFree Ring in
      if BufferSize < byteCount then Some (EFI_BUFFER_TOO_SMALL, byteCount, Buffer)
      else flatten_records b Ring BufferSize (rb_Tail Ring) 0 0 Buffer)"

definition RingBufferReset :: "efi_ring_buffer \<Rightarrow> efi_ring_buffer" where
  "RingBufferReset Ring = Ring\<lparr>rb_Head := 0, rb_Tail := 0, rb_HandleKey := 0,
     rb_Stats := \<lparr>LostWrites = 0, Reserve = 0, Remove = 0\<rparr>\<rparr>"

definition RingBufferInitialize :: "efi_ring_buffer \<Rightarrow> u32 \<Rightarrow> u32 \<Rightarrow> efi_status \<times> efi_ring_buffer" where
  "RingBufferInitialize Ring Capacity Flags =
     (if Capacity < 5 \<or> Capacity AND (Capacity - 1) \<noteq> 0 then (EFI_INVALID_PARAMETER, Ring)
      else (EFI_SUCCESS,
        RingBufferReset (Ring\<lparr>rb_Size := Capacity, rb_Mask := Capacity - 1, rb_Flags := Flags\<rparr>)))"

end
