(* ===== verification/Efi_Ring_Inv.thy ===== *)
theory Efi_Ring_Inv
  imports Efi_Ring Ring_View
begin

text \<open>
  The ring buffer as a queue of records: the representation invariant, and what the
  functions on offsets, headers and data do under it.
\<close>

subsection \<open>Geometry\<close>

definition ring_ok :: "efi_ring_buffer \<Rightarrow> bool" where
  "ring_ok R \<longleftrightarrow> (\<exists>k. 3 \<le> k \<and> k \<le> 31 \<and> rb_Size R = 2 ^ k \<and> rb_Mask R = 2 ^ k - 1) \<and>
     length (rb_Buffer R) = unat (rb_Size R) \<and> rb_Head R < rb_Size R \<and> rb_Tail R < rb_Size R"

abbreviation ring_len :: "efi_ring_buffer \<Rightarrow> nat" where
  "ring_len R \<equiv> unat (rb_Size R)"

definition bytes_used :: "efi_ring_buffer \<Rightarrow> nat" where
  "bytes_used R = (unat (rb_Head R) + ring_len R - unat (rb_Tail R)) mod ring_len R"

text \<open>Bytes skipped before a header at \<open>p\<close>, because a header is contiguous.\<close>

definition gap :: "nat \<Rightarrow> nat \<Rightarrow> nat" where
  "gap n p = (if n - p < 4 then n - p else 0)"

lemma mod_shift: "((a + k) mod n + j) mod n = (a + (k + j)) mod n" for n :: nat
  by (simp add: mod_add_left_eq add.assoc)

lemma unat_power_size: "k \<le> 31 \<Longrightarrow> unat (2 ^ k :: u32) = 2 ^ k"
proof -
  assume "k \<le> 31"
  then have "(2 :: nat) ^ k < 2 ^ 32" by (intro power_strict_increasing) simp_all
  then have "unat (of_nat (2 ^ k) :: u32) = 2 ^ k" by (intro unat_of_nat32) simp
  then show ?thesis by simp
qed

lemma ring_okD:
  assumes "ring_ok R"
  shows "8 \<le> ring_len R" "ring_len R \<le> 2147483648" "4 dvd ring_len R" "length (rb_Buffer R) = ring_len R"
    "unat (rb_Head R) < ring_len R" "unat (rb_Tail R) < ring_len R"
    "unat (x AND rb_Mask R) = unat x mod ring_len R"
proof -
  obtain k where k: "3 \<le> k" "k \<le> 31" "rb_Size R = 2 ^ k" "rb_Mask R = 2 ^ k - 1"
    using assms by (auto simp: ring_ok_def)
  have s: "ring_len R = 2 ^ k" using k by (simp add: unat_power_size)
  show "8 \<le> ring_len R" unfolding s using power_increasing [OF k(1), of "2 :: nat"] by simp
  show "ring_len R \<le> 2147483648" unfolding s using power_increasing [OF k(2), of "2 :: nat"] by simp
  show "4 dvd ring_len R" unfolding s using le_imp_power_dvd [of 2 k "2 :: nat"] k(1) by simp
  show "length (rb_Buffer R) = ring_len R" "unat (rb_Head R) < ring_len R" "unat (rb_Tail R) < ring_len R"
    using assms by (simp_all add: ring_ok_def word_less_nat_alt)
  have "x AND rb_Mask R = take_bit k x"
    using k(4) by (simp add: take_bit_eq_mask mask_eq_exp_minus_1)
  then show "unat (x AND rb_Mask R) = unat x mod ring_len R"
    unfolding s by (simp only: unsigned_take_bit_eq) (simp add: take_bit_eq_mod)
qed

lemma ring_Size_minus_1: "ring_ok R \<Longrightarrow> unat (rb_Size R - 1) = ring_len R - 1"
  using ring_okD(1) [of R] by (subst unat_diff_le) (simp_all add: word_le_nat_alt)

lemma bytes_used_lt: "ring_ok R \<Longrightarrow> bytes_used R < ring_len R"
  using ring_okD(1) [of R] by (simp add: bytes_used_def)

lemma bytes_used_cases:
  assumes "ring_ok R"
  shows "bytes_used R = (if rb_Tail R \<le> rb_Head R then unat (rb_Head R) - unat (rb_Tail R)
    else unat (rb_Head R) + ring_len R - unat (rb_Tail R))"
proof (cases "rb_Tail R \<le> rb_Head R")
  case True
  then show ?thesis
    using ring_okD [OF assms] by (simp add: bytes_used_def word_le_nat_alt mod_once)
next
  case False
  then show ?thesis
    using ring_okD [OF assms] by (simp add: bytes_used_def word_le_nat_alt)
qed

text \<open>The head is where the used bytes end, seen from the tail.\<close>

lemma head_from_tail:
  assumes "ring_ok R"
  shows "unat (rb_Head R) = (unat (rb_Tail R) + bytes_used R) mod ring_len R"
  using ring_okD [OF assms] bytes_used_cases [OF assms]
  by (simp add: word_le_nat_alt mod_once split: if_splits)

lemma bytes_free:
  assumes "ring_ok R"
  shows "unat (RingBufferBytesFree R) = ring_len R - 1 - bytes_used R"
proof -
  note g = ring_okD [OF assms] and u = bytes_used_cases [OF assms]
  show ?thesis
  proof (cases "rb_Head R < rb_Tail R")
    case True
    then have "unat (rb_Tail R - rb_Head R) = unat (rb_Tail R) - unat (rb_Head R)"
      by (simp add: unat_diff_le)
    moreover from this True have "unat (rb_Tail R - rb_Head R - 1) = unat (rb_Tail R) - unat (rb_Head R) - 1"
      by (subst unat_diff_le) (simp_all add: word_le_nat_alt word_less_nat_alt)
    moreover have "unat (rb_Tail R) - Suc (unat (rb_Head R)) < ring_len R" using g by simp
    ultimately show ?thesis
      using True g u by (simp add: RingBufferBytesFree_def Let_def word_less_nat_alt word_le_nat_alt)
  next
    case False
    have "rb_Tail R - rb_Head R - 1 = 0 - (rb_Head R - rb_Tail R + 1)" by simp
    moreover have d: "unat (rb_Head R - rb_Tail R + 1) = unat (rb_Head R) - unat (rb_Tail R) + 1"
      using False g unat_diff_le [of "rb_Tail R" "rb_Head R"] by (subst unat_add32) (simp_all add: not_less)
    ultimately have w: "unat (rb_Tail R - rb_Head R - 1) = 4294967296 - (unat (rb_Head R) - unat (rb_Tail R) + 1)"
      using unat_sub32_wrap [of 0 "rb_Head R - rb_Tail R + 1"] by simp
    have "\<not> rb_Tail R - rb_Head R - 1 < rb_Size R"
      unfolding word_less_nat_alt w using g by simp
    then have "RingBufferBytesFree R = rb_Size R - (rb_Head R - rb_Tail R + 1)"
      by (simp add: RingBufferBytesFree_def)
    moreover have "unat (rb_Size R - (rb_Head R - rb_Tail R + 1)) = ring_len R - (unat (rb_Head R) - unat (rb_Tail R) + 1)"
      using g d by (subst unat_diff_le) (simp_all add: word_le_nat_alt)
    ultimately show ?thesis
      using False g u by (simp add: not_less)
  qed
qed

lemma wrap_if_needed:
  assumes "ring_ok R" "unat p < ring_len R"
  shows "\<exists>q. RingBufferWrapIfNeeded b R p 4 = Some q \<and>
    unat q = (unat p + gap (ring_len R) (unat p)) mod ring_len R \<and> unat q + 4 \<le> ring_len R"
proof -
  have d: "unat (rb_Size R - p) = ring_len R - unat p"
    using assms by (simp add: unat_diff_le word_le_nat_alt)
  show ?thesis
    using assms ring_okD [OF assms(1)]
    by (auto simp: RingBufferWrapIfNeeded_def word_less_nat_alt d gap_def)
qed

subsection \<open>Moving data\<close>

text \<open>Two writes, the second at the start of the buffer, are one write of the rotated view.\<close>

lemma ring_write:
  assumes "off < length buf" "length bs \<le> length buf" "c = min (length buf - off) (length bs)"
    "mem_write buf off (take c bs) = Some b1" "mem_write b1 0 (drop c bs) = Some b2"
  shows "rotate off b2 = bs @ drop (length bs) (rotate off buf)"
proof -
  have l: "length b1 = length buf" using assms(4) by (rule mem_write_length)
  have 1: "mem_write (rotate off buf) 0 (take c bs) = Some (rotate off b1)"
    using assms by (intro mem_write_rotate [where p = off]) simp_all
  have "mem_write (rotate off b1) c (drop c bs) = Some (rotate off b2)"
  proof (cases "c = length bs")
    case True
    then have "b2 = b1" using assms(5) by (simp add: mem_write_def)
    then show ?thesis using True assms(2) l by (simp add: mem_write_def)
  next
    case False
    then have "c = length buf - off" using assms(3) by (simp add: min_def split: if_splits)
    then show ?thesis using assms l by (intro mem_write_rotate [where p = 0]) simp_all
  qed
  then have "mem_write (rotate off buf) 0 (take c bs @ drop c bs) = Some (rotate off b2)"
    using 1 assms(3) by (intro mem_write_append) simp_all
  then show ?thesis by (simp add: mem_write_Some)
qed

lemma chunk_size:
  assumes "ring_ok R" "unat p < ring_len R" "unat n < ring_len R"
  shows "unat (min (rb_Size R - p) n) = min (ring_len R - unat p) (unat n)"
    "unat (n - min (rb_Size R - p) n) = unat n - min (ring_len R - unat p) (unat n)"
    "unat (min (rb_Size R) (n - min (rb_Size R - p) n)) = unat n - min (ring_len R - unat p) (unat n)"
proof -
  have "unat (rb_Size R - p) = ring_len R - unat p" using assms by (simp add: unat_diff_le word_le_nat_alt)
  then show c: "unat (min (rb_Size R - p) n) = min (ring_len R - unat p) (unat n)"
    by (simp add: min_def word_le_nat_alt)
  show d: "unat (n - min (rb_Size R - p) n) = unat n - min (ring_len R - unat p) (unat n)"
    by (subst unat_diff_le) (simp_all add: c)
  have "n - min (rb_Size R - p) n \<le> rb_Size R" using assms(3) unfolding word_le_nat_alt d by simp
  then show "unat (min (rb_Size R) (n - min (rb_Size R - p) n)) = unat n - min (ring_len R - unat p) (unat n)"
    by (simp only: min_absorb2 d)
qed

lemma ring_write_ex:
  assumes "off < length buf" "length bs \<le> length buf" "c = min (length buf - off) (length bs)"
  shows "\<exists>b1 b2. mem_write buf off (take c bs) = Some b1 \<and> mem_write b1 0 (drop c bs) = Some b2 \<and>
    length b2 = length buf \<and> rotate off b2 = bs @ drop (length bs) (rotate off buf)"
proof -
  obtain b1 where b1: "mem_write buf off (take c bs) = Some b1"
    using mem_write_ex [of off "take c bs" buf] assms(1,3) by fastforce
  moreover obtain b2 where b2: "mem_write b1 0 (drop c bs) = Some b2"
    using mem_write_ex [of 0 "drop c bs" b1] assms(2) mem_write_length [OF b1] by fastforce
  ultimately show ?thesis
    using ring_write [OF assms b1 b2] mem_write_length [OF b1] mem_write_length [OF b2] by auto
qed

text \<open>\<open>writes_at R p bs R'\<close>: \<open>R'\<close> is \<open>R\<close> with \<open>bs\<close> written at \<open>p\<close>, around the end of the buffer if needed.\<close>

definition writes_at :: "efi_ring_buffer \<Rightarrow> nat \<Rightarrow> u8 list \<Rightarrow> efi_ring_buffer \<Rightarrow> bool" where
  "writes_at R p bs R' \<longleftrightarrow> (\<exists>buf. R' = R\<lparr>rb_Buffer := buf\<rparr> \<and> length buf = length (rb_Buffer R) \<and>
     rotate p buf = bs @ drop (length bs) (rotate p (rb_Buffer R)))"

text \<open>A copy of no bytes is no write: the guards of the two copies do not matter.\<close>

lemma guarded_write:
  "(if 0 < k then mem_write m off (replicate (unat k) v) else Some m) = mem_write m off (replicate (unat k) v)"
  if "off \<le> length m" for k :: u32
  using that by (auto simp: mem_write_def word_less_nat_alt)

lemma guarded_copy:
  "(if 0 < k then do { src \<leftarrow> mem_read s from (unat j); mem_write m off src } else Some m) =
     mem_write m off (take (unat j) (drop from s))"
  if "off \<le> length m" "from + unat j \<le> length s" "unat j = unat k" for k j :: u32
  using that by (auto simp: mem_write_def word_less_nat_alt)

lemma fill_data_at:
  assumes ok: "ring_ok R" "unat p < ring_len R" "unat n < ring_len R"
  shows "\<exists>R'. RingBufferFillDataAt b R p v n = Some ((p + n) AND rb_Mask R, R') \<and>
    writes_at R (unat p) (replicate (unat n) v) R'"
proof -
  note g = ring_okD [OF ok(1)]
  let ?c = "min (ring_len R - unat p) (unat n)"
  obtain b1 b2 where w: "mem_write (rb_Buffer R) (unat p) (replicate ?c v) = Some b1"
      "mem_write b1 0 (replicate (unat n - ?c) v) = Some b2" "length b2 = length (rb_Buffer R)"
      "rotate (unat p) b2 = replicate (unat n) v @ drop (unat n) (rotate (unat p) (rb_Buffer R))"
    using ring_write_ex [of "unat p" "rb_Buffer R" "replicate (unat n) v", OF _ _ refl] ok g by auto
  have 1: "(if 0 < min (rb_Size R - p) n
      then mem_write (rb_Buffer R) (unat p) (replicate (unat (min (rb_Size R - p) n)) v)
      else Some (rb_Buffer R)) = Some b1"
    using ok g w by (subst guarded_write) (simp_all add: chunk_size)
  have 2: "(if 0 < n - min (rb_Size R - p) n
      then mem_write b1 0 (replicate (unat (min (rb_Size R) (n - min (rb_Size R - p) n))) v)
      else Some b1) = Some b2"
    using w(2) by (auto simp: chunk_size [OF ok] word_less_nat_alt mem_write_def split: if_splits)
  have "RingBufferFillDataAt b R p v n = Some ((p + n) AND rb_Mask R, R\<lparr>rb_Buffer := b2\<rparr>)"
    using ok(2,3) [folded word_less_nat_alt]
    by (simp only: RingBufferFillDataAt_def Let_def 1 2 ASSERT_True Option.bind.simps)
  then show ?thesis using w by (auto simp: writes_at_def)
qed

lemma write_data_at:
  assumes ok: "ring_ok R" "unat p < ring_len R" "unat n < ring_len R" and d: "unat n \<le> length Data"
  shows "\<exists>R'. RingBufferWriteDataAt b R p Data n = Some ((p + n) AND rb_Mask R, R') \<and>
    writes_at R (unat p) (take (unat n) Data) R'"
proof -
  note g = ring_okD [OF ok(1)]
  let ?c = "min (ring_len R - unat p) (unat n)"
  obtain b1 b2 where w: "mem_write (rb_Buffer R) (unat p) (take ?c Data) = Some b1"
      "mem_write b1 0 (take (unat n - ?c) (drop ?c Data)) = Some b2" "length b2 = length (rb_Buffer R)"
      "rotate (unat p) b2 = take (unat n) Data @ drop (unat n) (rotate (unat p) (rb_Buffer R))"
    using ring_write_ex [of "unat p" "rb_Buffer R" "take (unat n) Data", OF _ _ refl] ok g d
    by (auto simp: drop_take min.absorb1)
  have 1: "(if 0 < min (rb_Size R - p) n
      then do { src \<leftarrow> mem_read Data 0 (unat (min (rb_Size R - p) n)); mem_write (rb_Buffer R) (unat p) src }
      else Some (rb_Buffer R)) = Some b1"
    using ok g w d by (subst guarded_copy) (simp_all add: chunk_size)
  have 2: "(if 0 < n - min (rb_Size R - p) n
      then do { src \<leftarrow> mem_read Data (unat (min (rb_Size R - p) n)) (unat (min (rb_Size R) (n - min (rb_Size R - p) n)));
        mem_write b1 0 src }
      else Some b1) = Some b2"
    using w(2) d by (subst guarded_copy) (simp_all add: chunk_size [OF ok])
  have "RingBufferWriteDataAt b R p Data n = Some ((p + n) AND rb_Mask R, R\<lparr>rb_Buffer := b2\<rparr>)"
    using ok(2,3) [folded word_less_nat_alt]
    by (simp only: RingBufferWriteDataAt_def Let_def 1 2 ASSERT_True Option.bind.simps)
  then show ?thesis using w d by (auto simp: writes_at_def min.absorb2)
qed

lemma read_data_at:
  assumes ok: "ring_ok R" "unat p < ring_len R" "unat n < ring_len R" and d: "dst + unat n \<le> length Data"
  shows "\<exists>Data'. RingBufferReadDataAt b R p Data dst n = Some ((p + n) AND rb_Mask R, Data') \<and>
    mem_write Data dst (take (unat n) (rotate (unat p) (rb_Buffer R))) = Some Data'"
proof -
  note g = ring_okD [OF ok(1)]
  let ?m = "rb_Buffer R" and ?c = "min (ring_len R - unat p) (unat n)" and ?w = "min (rb_Size R - p) n"
  obtain d1 where 1: "mem_write Data dst (take ?c (drop (unat p) ?m)) = Some d1"
    using mem_write_ex [of dst "take ?c (drop (unat p) ?m)" Data] d by fastforce
  obtain d2 where 2: "mem_write d1 (dst + ?c) (take (unat n - ?c) ?m) = Some d2"
    using mem_write_ex [of "dst + ?c" "take (unat n - ?c) ?m" d1] d mem_write_length [OF 1] by fastforce
  have "take (unat n) (rotate (unat p) ?m) = take ?c (drop (unat p) ?m) @ take (unat n - ?c) ?m"
    using g ok by (cases "unat p + unat n \<le> ring_len R") (simp_all add: take_rotate_plain take_rotate_wrapped min_def)
  moreover have "length (take ?c (drop (unat p) ?m)) = ?c" using g by simp
  ultimately have 3: "mem_write Data dst (take (unat n) (rotate (unat p) ?m)) = Some d2"
    using mem_write_append [OF 1] 2 by simp
  have 4: "(if 0 < ?w then do { src \<leftarrow> mem_read ?m (unat p) (unat ?w); mem_write Data dst src } else Some Data) = Some d1"
    using 1 g d ok by (subst guarded_copy) (simp_all add: chunk_size)
  have 5: "(if 0 < n - ?w then do { ASSERT b (n - ?w < rb_Size R);
      src \<leftarrow> mem_read ?m 0 (unat (min (rb_Size R) (n - ?w))); mem_write d1 (dst + unat ?w) src } else Some d1) = Some d2"
    using 2 g d ok mem_write_length [OF 1]
    by (auto simp: chunk_size [OF ok] word_less_nat_alt mem_write_def split: if_splits)
  have "RingBufferReadDataAt b R p Data dst n = Some ((p + n) AND rb_Mask R, d2)"
    using ok(2,3) [folded word_less_nat_alt]
    by (simp only: RingBufferReadDataAt_def Let_def 4 5 ASSERT_True Option.bind.simps)
  with 3 show ?thesis by blast
qed

lemma mem_write_writes_at:
  assumes "ring_ok R" "p + length bs \<le> ring_len R" "bs \<noteq> []"
  shows "\<exists>buf. mem_write (rb_Buffer R) p bs = Some buf \<and> writes_at R p bs (R\<lparr>rb_Buffer := buf\<rparr>)"
proof -
  note g = ring_okD [OF assms(1)]
  obtain buf where w: "mem_write (rb_Buffer R) p bs = Some buf"
    using mem_write_ex [of p bs "rb_Buffer R"] assms g by auto
  moreover have "p < length (rb_Buffer R)" using assms g by (cases bs) auto
  then have "mem_write (rotate p (rb_Buffer R)) 0 bs = Some (rotate p buf)"
    using assms(2) g by (intro mem_write_rotate [OF w]) simp_all
  ultimately show ?thesis
    using mem_write_length [OF w] by (auto simp: writes_at_def mem_write_Some)
qed

text \<open>A write at offset \<open>k\<close> from a point \<open>t\<close> is a write at \<open>k\<close> of the view from \<open>t\<close>.\<close>

lemma writes_at_view:
  assumes w: "writes_at R p bs R'" and p: "p = (t + k) mod length (rb_Buffer R)"
    and k: "k + length bs \<le> length (rb_Buffer R)"
  shows "mem_write (rotate t (rb_Buffer R)) k bs = Some (rotate t (rb_Buffer R'))"
proof -
  let ?V = "rotate t (rb_Buffer R)" and ?V' = "rotate t (rb_Buffer R')"
  have l: "length ?V' = length (rb_Buffer R)" using w by (auto simp: writes_at_def)
  have "rotate p (rb_Buffer R) = drop k ?V @ take k ?V"
    using k rotate_full_view [of k ?V] by (simp add: rotate_rotate_mod p)
  moreover have "rotate p (rb_Buffer R') = drop k ?V' @ take k ?V'"
    using k l rotate_full_view [of k ?V'] by (simp add: rotate_rotate_mod p)
  ultimately have "drop k ?V' @ take k ?V' = (bs @ drop (k + length bs) ?V) @ take k ?V"
    using w k by (auto simp: writes_at_def add.commute)
  then have "drop k ?V' = bs @ drop (k + length bs) ?V \<and> take k ?V' = take k ?V"
    using k l by (subst (asm) append_eq_append_conv) auto
  then have "?V' = take k ?V @ bs @ drop (k + length bs) ?V" by (metis append_take_drop_id)
  with k show ?thesis by (simp add: mem_write_Some)
qed

lemma writes_atD:
  assumes "writes_at R p bs R'"
  shows "rb_Size R' = rb_Size R" "rb_Mask R' = rb_Mask R" "rb_Head R' = rb_Head R" "rb_Tail R' = rb_Tail R"
    "rb_Flags R' = rb_Flags R" "rb_HandleKey R' = rb_HandleKey R" "rb_Stats R' = rb_Stats R"
    "length (rb_Buffer R') = length (rb_Buffer R)" "bytes_used R' = bytes_used R" "ring_ok R' = ring_ok R"
  using assms by (auto simp: writes_at_def bytes_used_def ring_ok_def)

subsection \<open>The records between tail and head\<close>

text \<open>
  \<open>layout n p ds v\<close>: the bytes \<open>v\<close>, which start at buffer offset \<open>p\<close>, are the records with
  the data \<open>ds\<close>: skipped bytes, the size word, the data, and so on.
\<close>

fun layout :: "nat \<Rightarrow> nat \<Rightarrow> u8 list list \<Rightarrow> u8 list \<Rightarrow> bool" where
  "layout n p [] v \<longleftrightarrow> v = []"
| "layout n p (d # ds) v \<longleftrightarrow> gap n p + 4 + length d \<le> length v \<and>
     take 4 (drop (gap n p) v) = le_bytes 4 (of_nat (4 + length d) :: u32) \<and>
     take (length d) (drop (gap n p + 4) v) = d \<and>
     layout n ((p + gap n p + 4 + length d) mod n) ds (drop (gap n p + 4 + length d) v)"

fun span :: "nat \<Rightarrow> nat \<Rightarrow> u8 list list \<Rightarrow> nat" where
  "span n p [] = 0"
| "span n p (d # ds) = gap n p + 4 + length d + span n ((p + gap n p + 4 + length d) mod n) ds"

lemma layout_length: "layout n p ds v \<Longrightarrow> length v = span n p ds"
  by (induction n p ds v rule: layout.induct) auto

lemma layout_append:
  "p < n \<Longrightarrow> layout n p xs v \<Longrightarrow> layout n ((p + length v) mod n) ys w \<Longrightarrow> layout n p (xs @ ys) (v @ w)"
proof (induction n p xs v rule: layout.induct)
  case (1 n p v)
  then show ?case by simp
next
  case (2 n p d ds v)
  let ?k = "gap n p + 4 + length d"
  have "length v = ?k + length (drop ?k v)" using 2(3) by simp
  then have "((p + gap n p + 4 + length d) mod n + length (drop ?k v)) mod n = (p + length v) mod n"
    by (metis add.assoc mod_add_left_eq)
  then have "layout n ((p + gap n p + 4 + length d) mod n) (ds @ ys) (drop ?k v @ w)"
    using 2 by simp
  then show ?case using 2(3) by simp
qed

lemma layout_split:
  "p < n \<Longrightarrow> layout n p (xs @ ys) v \<Longrightarrow>
     layout n p xs (take (span n p xs) v) \<and>
     layout n ((p + span n p xs) mod n) ys (drop (span n p xs) v) \<and> span n p xs \<le> length v"
proof (induction n p xs v rule: layout.induct)
  case (1 n p v)
  then show ?case by simp
next
  case (2 n p d ds v)
  let ?k = "gap n p + 4 + length d" and ?q = "(p + gap n p + 4 + length d) mod n"
  let ?s = "span n ?q ds"
  have IH: "layout n ?q ds (take ?s (drop ?k v))" "layout n ((?q + ?s) mod n) ys (drop ?s (drop ?k v))"
      "?s \<le> length (drop ?k v)"
    using 2 by simp_all
  have e: "(p + (?k + ?s)) mod n = (?q + ?s) mod n" by (simp add: mod_simps ac_simps)
  have "layout n p (d # ds) (take (?k + ?s) v)"
    using 2(3) IH(1) by (simp add: drop_take)
  moreover have "drop ?s (drop ?k v) = drop (?k + ?s) v" by (simp add: add.commute)
  moreover have "?k + ?s \<le> length v" using IH(3) 2(3) by auto
  ultimately show ?case using IH(2) e by simp
qed

definition ring_view :: "efi_ring_buffer \<Rightarrow> u8 list" where
  "ring_view R = rotate (unat (rb_Tail R)) (rb_Buffer R)"

definition ring_inv :: "efi_ring_buffer \<Rightarrow> u8 list list \<Rightarrow> bool" where
  "ring_inv R ds \<longleftrightarrow> ring_ok R \<and>
     layout (ring_len R) (unat (rb_Tail R)) ds (take (bytes_used R) (ring_view R))"

text \<open>The record with data \<open>d\<close> begins \<open>r\<close> bytes after the tail.\<close>

definition record_here :: "efi_ring_buffer \<Rightarrow> nat \<Rightarrow> u8 list \<Rightarrow> bool" where
  "record_here R r d \<longleftrightarrow>
     (let k = r + gap (ring_len R) ((unat (rb_Tail R) + r) mod ring_len R) in
      k + 4 + length d \<le> bytes_used R \<and>
      take 4 (drop k (ring_view R)) = le_bytes 4 (of_nat (4 + length d) :: u32) \<and>
      take (length d) (drop (k + 4) (ring_view R)) = d)"

lemma ring_invD:
  assumes "ring_inv R ds"
  shows "ring_ok R" "bytes_used R = span (ring_len R) (unat (rb_Tail R)) ds"
  using assms layout_length [of "ring_len R" "unat (rb_Tail R)" ds "take (bytes_used R) (ring_view R)"]
    ring_okD(4) [of R] bytes_used_lt [of R]
  by (auto simp: ring_inv_def ring_view_def)

lemma ring_inv_record:
  assumes "ring_inv R (xs @ d # ys)"
  shows "record_here R (span (ring_len R) (unat (rb_Tail R)) xs) d"
proof -
  let ?n = "ring_len R" and ?t = "unat (rb_Tail R)" and ?u = "bytes_used R"
  let ?r = "span ?n ?t xs"
  let ?g = "gap ?n ((?t + ?r) mod ?n)"
  have ok: "ring_ok R" and l: "layout ?n ?t (xs @ d # ys) (take ?u (ring_view R))"
    using assms by (simp_all add: ring_inv_def)
  have len: "length (ring_view R) = ?n" using ring_okD(4) [OF ok] by (simp add: ring_view_def)
  have s: "layout ?n ((?t + ?r) mod ?n) (d # ys) (drop ?r (take ?u (ring_view R)))" "?r \<le> ?u"
    using layout_split [OF ring_okD(6) [OF ok] l] len bytes_used_lt [OF ok] by simp_all
  then have b: "?g + 4 + length d \<le> ?u - ?r" using len bytes_used_lt [OF ok] by simp
  have "take 4 (drop ?g (drop ?r (take ?u (ring_view R)))) = take 4 (drop (?r + ?g) (ring_view R))"
    "take (length d) (drop (?g + 4) (drop ?r (take ?u (ring_view R)))) = take (length d) (drop (?r + ?g + 4) (ring_view R))"
    using b by (simp_all add: drop_take min_def ac_simps)
  with s b show ?thesis by (auto simp: record_here_def Let_def)
qed

lemma valid_offset:
  assumes ok: "ring_ok R" and r: "r < bytes_used R" and p: "unat p = (unat (rb_Tail R) + r) mod ring_len R"
  shows "RingBufferIsValidOffset R p = EFI_SUCCESS" "rb_Head R \<noteq> rb_Tail R" "unat p < ring_len R"
proof -
  note g = ring_okD [OF ok] and u = bytes_used_cases [OF ok]
  have "\<not> ring_len R < unat p \<and> \<not> (unat (rb_Head R) \<le> unat p \<and> unat p < unat (rb_Tail R))"
    using g u r p bytes_used_lt [OF ok] ring_index [of "unat (rb_Tail R)" "ring_len R" r]
    by (auto simp: word_le_nat_alt split: if_splits)
  then show "RingBufferIsValidOffset R p = EFI_SUCCESS"
    by (simp add: RingBufferIsValidOffset_def word_le_nat_alt word_less_nat_alt)
  show "rb_Head R \<noteq> rb_Tail R" using r u by auto
  show "unat p < ring_len R" using p g by simp
qed

lemma record_at:
  assumes ok: "ring_ok R" and here: "record_here R r d"
    and p: "unat p = (unat (rb_Tail R) + r) mod ring_len R"
    and k: "k = r + gap (ring_len R) (unat p)"
  shows "\<exists>q. RingBufferRecordAt b R p = Some (EFI_SUCCESS, q, Some q) \<and>
    record_Size R q = Some (of_nat (4 + length d)) \<and>
    unat q = (unat (rb_Tail R) + k) mod ring_len R \<and> unat q + 4 \<le> ring_len R"
proof -
  let ?n = "ring_len R" and ?t = "unat (rb_Tail R)" and ?h = "of_nat (4 + length d) :: u32"
  note g = ring_okD [OF ok]
  have h: "k + 4 + length d \<le> bytes_used R" "take 4 (drop k (ring_view R)) = le_bytes 4 ?h"
    using here p k by (simp_all add: record_here_def Let_def)
  have v: "RingBufferIsValidOffset R p = EFI_SUCCESS" "rb_Head R \<noteq> rb_Tail R" "unat p < ?n"
    using valid_offset [OF ok _ p] h(1) k by simp_all
  obtain q where q: "RingBufferWrapIfNeeded b R p 4 = Some q" "unat q + 4 \<le> ?n"
      "unat q = (unat p + gap ?n (unat p)) mod ?n"
    using wrap_if_needed [OF ok v(3)] by blast
  have qt: "unat q = (?t + k) mod ?n" using q(3) p k by (simp add: mod_simps ac_simps)
  have "take 4 (drop (unat q) (rb_Buffer R)) = take 4 (rotate (unat q) (rb_Buffer R))"
    using q(2) g by (simp add: take_rotate_plain)
  also have "\<dots> = take 4 (drop k (ring_view R))"
    using h(1) bytes_used_lt [OF ok] g by (simp add: ring_view_def take_drop_rotate qt)
  finally have size: "record_Size R q = Some ?h"
    using q(2) g h(2) by (simp add: record_Size_def)
  have uh: "unat ?h = 4 + length d"
    using h(1) bytes_used_lt [OF ok] g by (intro unat_of_nat32) simp
  have small: "\<not> (rb_Size R - 1 < ?h \<or> ?h < 4)"
    using uh h(1) bytes_used_lt [OF ok] ring_Size_minus_1 [OF ok] by (simp only: word_less_nat_alt) simp
  have "unat (q + ?h) = unat q + (4 + length d)"
    using q(2) g uh h(1) bytes_used_lt [OF ok] by (subst unat_add32) simp_all
  then have new: "unat ((q + ?h) AND rb_Mask R) = (?t + (k + 4 + length d)) mod ?n"
    unfolding g(7) by (simp only: qt mod_shift add.assoc)
  have "\<not> ((q + ?h) AND rb_Mask R \<le> q \<and> rb_Head R < (q + ?h) AND rb_Mask R)"
    unfolding word_le_nat_alt word_less_nat_alt new qt head_from_tail [OF ok]
    using g h(1) bytes_used_lt [OF ok] ring_index [of ?t ?n k] ring_index [of ?t ?n "k + 4 + length d"]
      ring_index [of ?t ?n "bytes_used R"]
    by auto
  then have "RingBufferRecordAt b R p = Some (EFI_SUCCESS, q, Some q)"
    using v(2) small by (simp only: RingBufferRecordAt_def Let_def v(1) q(1) size EFI_ERROR_simps if_False Option.bind.simps)
  with size qt q(2) show ?thesis by blast
qed

text \<open>The data of the record follows its header, around the end of the buffer if needed.\<close>

lemma record_data:
  assumes ok: "ring_ok R" and here: "record_here R r d"
    and k: "k = r + gap (ring_len R) ((unat (rb_Tail R) + r) mod ring_len R)"
    and q: "unat q = (unat (rb_Tail R) + k) mod ring_len R" and o: "unat o1 + m \<le> length d"
  shows "unat ((q + 4 + o1) AND rb_Mask R) = (unat (rb_Tail R) + (k + 4 + unat o1)) mod ring_len R"
    "take m (rotate (unat ((q + 4 + o1) AND rb_Mask R)) (rb_Buffer R)) = take m (drop (unat o1) d)"
proof -
  note g = ring_okD [OF ok]
  have h: "k + 4 + length d \<le> bytes_used R" "take (length d) (drop (k + 4) (ring_view R)) = d"
    using here k by (simp_all add: record_here_def Let_def)
  have small: "unat q < ring_len R" "unat o1 < ring_len R - 4"
    using q g h o bytes_used_lt [OF ok] by simp_all
  then have "unat (q + 4 + o1) = unat q + (4 + unat o1)"
    using g by (subst unat_add32; subst unat_add32) simp_all
  then show p: "unat ((q + 4 + o1) AND rb_Mask R) = (unat (rb_Tail R) + (k + 4 + unat o1)) mod ring_len R"
    unfolding g(7) by (simp only: q mod_shift add.assoc)
  have "take m (drop (unat o1) (take (length d) (drop (k + 4) (ring_view R)))) =
      take m (drop (k + 4 + unat o1) (ring_view R))"
    using o by (simp add: drop_take min_def ac_simps)
  then show "take m (rotate (unat ((q + 4 + o1) AND rb_Mask R)) (rb_Buffer R)) = take m (drop (unat o1) d)"
    unfolding p using h o bytes_used_lt [OF ok] g by (simp add: ring_view_def take_drop_rotate)
qed

subsection \<open>Keeping the invariant\<close>

text \<open>The oldest record is given up by moving the tail behind it; its bytes may be overwritten.\<close>

lemma advance_tail:
  assumes inv: "ring_inv R (d # ds)"
    and k: "k = gap (ring_len R) (unat (rb_Tail R)) + 4 + length d"
    and same: "rb_Size R' = rb_Size R" "rb_Mask R' = rb_Mask R" "rb_Head R' = rb_Head R"
      "length (rb_Buffer R') = length (rb_Buffer R)"
      "drop k (rotate (unat (rb_Tail R)) (rb_Buffer R')) = drop k (ring_view R)"
    and tail: "unat (rb_Tail R') = (unat (rb_Tail R) + k) mod ring_len R"
  shows "ring_inv R' ds" "bytes_used R = k + bytes_used R'"
proof -
  let ?n = "ring_len R" and ?t = "unat (rb_Tail R)" and ?u = "bytes_used R"
  have ok: "ring_ok R" and l: "layout ?n ?t (d # ds) (take ?u (ring_view R))"
    using inv by (simp_all add: ring_inv_def)
  note g = ring_okD [OF ok]
  have ku: "k \<le> ?u" using l k by simp
  have ok': "ring_ok R'"
    using ok same(1-4) tail g by (simp add: ring_ok_def word_less_nat_alt)
  have u': "bytes_used R' = ?u - k"
    using ku tail g same(1,3) bytes_used_cases [OF ok] bytes_used_cases [OF ok'] bytes_used_lt [OF ok]
      ring_index [of ?t ?n k]
    by (auto simp: word_le_nat_alt split: if_splits)
  then show "bytes_used R = k + bytes_used R'" using ku by simp
  have "take (?u - k) (ring_view R') = take (?u - k) (drop k (rotate ?t (rb_Buffer R')))"
    using ku g same(4) bytes_used_lt [OF ok] by (simp add: ring_view_def tail take_drop_rotate)
  also have "\<dots> = drop k (take ?u (ring_view R))" using same(5) by (simp add: drop_take)
  finally show "ring_inv R' ds"
    using l ok' u' tail same(1) k by (simp add: ring_inv_def ac_simps)
qed

text \<open>A record is appended by moving the head behind it.\<close>

lemma advance_head:
  assumes inv: "ring_inv R ds"
    and k: "k = bytes_used R + gap (ring_len R) (unat (rb_Head R))"
    and room: "k + 4 + length d < ring_len R"
    and same: "rb_Size R' = rb_Size R" "rb_Mask R' = rb_Mask R" "rb_Tail R' = rb_Tail R"
      "length (rb_Buffer R') = length (rb_Buffer R)"
      "mem_write (ring_view R) k (le_bytes 4 (of_nat (4 + length d) :: u32) @ d) = Some (ring_view R')"
    and head: "unat (rb_Head R') = (unat (rb_Tail R) + (k + 4 + length d)) mod ring_len R"
  shows "ring_inv R' (ds @ [d])" "bytes_used R' = k + 4 + length d"
proof -
  let ?n = "ring_len R" and ?t = "unat (rb_Tail R)" and ?u = "bytes_used R"
  let ?rec = "le_bytes 4 (of_nat (4 + length d) :: u32) @ d"
  have ok: "ring_ok R" and l: "layout ?n ?t ds (take ?u (ring_view R))"
    using inv by (simp_all add: ring_inv_def)
  note g = ring_okD [OF ok]
  have len: "length (ring_view R) = ?n" using g by (simp add: ring_view_def)
  have ok': "ring_ok R'"
    using ok same(1-4) head g by (simp add: ring_ok_def word_less_nat_alt)
  show u': "bytes_used R' = k + 4 + length d"
    using head g same(1,3) bytes_used_cases [OF ok'] room ring_index [of ?t ?n "k + 4 + length d"]
    by (auto simp: word_le_nat_alt split: if_splits)
  have "take (k + 4 + length d) (ring_view R') = take k (ring_view R) @ ?rec"
    using same(5) room len by (auto simp: mem_write_Some)
  moreover have "take k (ring_view R) = take ?u (ring_view R) @ take (k - ?u) (drop ?u (ring_view R))"
    using k by (metis le_add1 le_add_diff_inverse take_add)
  moreover have "layout ?n ((?t + length (take ?u (ring_view R))) mod ?n) [d] (take (k - ?u) (drop ?u (ring_view R)) @ ?rec)"
    using len room k head_from_tail [OF ok] bytes_used_lt [OF ok] by simp
  note layout_append [OF g(6) l this]
  ultimately have "layout ?n ?t (ds @ [d]) (take (k + 4 + length d) (ring_view R'))"
    by (simp only: append_assoc)
  then show "ring_inv R' (ds @ [d])"
    using ok' u' same(1,3) by (simp add: ring_inv_def)
qed

end
