(* ===== verification/Efi_Ring_Queue.thy ===== *)
theory Efi_Ring_Queue
  imports Efi_Ring_Inv
begin

text \<open>
  The functions of \<^verbatim>\<open>EfiRing.c\<close> on a ring that holds the records \<open>ds\<close>: what each
  returns, and the records of the ring it leaves.
\<close>

subsection \<open>Removing\<close>

lemma writes_at_drop:
  assumes "writes_at R p bs R'" "p = (unat (rb_Tail R) + j) mod length (rb_Buffer R)"
    "j + length bs \<le> k" "k \<le> length (rb_Buffer R)"
  shows "drop k (ring_view R') = drop k (ring_view R)"
proof -
  have "mem_write (ring_view R) j bs = Some (ring_view R')"
    using writes_at_view [OF assms(1,2)] assms(3,4) writes_atD(4) [OF assms(1)] by (simp add: ring_view_def)
  then show ?thesis using assms(3) by (auto simp: mem_write_Some)
qed

definition next_key :: "u32 \<Rightarrow> u32" where
  "next_key key = (if key + 1 = 0 then 1 else key + 1)"

lemma record_here_size:
  assumes "ring_ok R" "record_here R r d"
  shows "4 + length d < ring_len R" "unat (of_nat (length d) :: u32) = length d"
proof -
  show "4 + length d < ring_len R"
    using assms bytes_used_lt [OF assms(1)] by (simp add: record_here_def Let_def)
  then show "unat (of_nat (length d) :: u32) = length d"
    using ring_okD(2) [OF assms(1)] by (intro unat_of_nat32) simp
qed

lemma read_record:
  assumes "ring_ok R" "record_here R r d" "unat p = (unat (rb_Tail R) + r) mod ring_len R"
    "k = r + gap (ring_len R) (unat p)"
    and fits: "\<And>dst. Data = Some dst \<Longrightarrow>
      length d \<le> length dst \<and> (\<exists>n. DataSize = Some n \<and> length d \<le> unat n)"
  shows "\<exists>q. RingBufferReadRecord b R p Data DataSize = Some (EFI_SUCCESS, q, Some q,
      map_option (\<lambda>dst. d @ drop (length d) dst) Data, map_option (\<lambda>_. of_nat (length d)) DataSize) \<and>
    record_Size R q = Some (of_nat (4 + length d)) \<and>
    unat q = (unat (rb_Tail R) + k) mod ring_len R \<and> unat q + 4 \<le> ring_len R"
proof -
  obtain q where q: "RingBufferRecordAt b R p = Some (EFI_SUCCESS, q, Some q)"
      "record_Size R q = Some (of_nat (4 + length d))"
      "unat q = (unat (rb_Tail R) + k) mod ring_len R" "unat q + 4 \<le> ring_len R"
    using record_at [OF assms(1-4), of b] by blast
  note len = record_here_size(1) [OF assms(1,2)] and un = record_here_size(2) [OF assms(1,2)]
  have "RingBufferReadRecord b R p Data DataSize = Some (EFI_SUCCESS, q, Some q,
      map_option (\<lambda>dst. d @ drop (length d) dst) Data, map_option (\<lambda>_. of_nat (length d)) DataSize)"
  proof (cases Data)
    case None
    then show ?thesis by (simp add: RingBufferReadRecord_def q)
  next
    case (Some dst)
    obtain n where n: "length d \<le> length dst" "DataSize = Some n" "length d \<le> unat n" using fits [OF Some] by blast
    have o: "unat ((q + 4) AND rb_Mask R) < ring_len R"
        "take (length d) (rotate (unat ((q + 4) AND rb_Mask R)) (rb_Buffer R)) = d"
      using record_data(2) [OF assms(1,2) _ q(3), of 0 "length d"] assms(3,4) ring_okD [OF assms(1)]
      by simp_all
    then have "RingBufferReadDataAt b R ((q + 4) AND rb_Mask R) dst 0 (of_nat (length d)) =
        Some (((q + 4) AND rb_Mask R) + of_nat (length d) AND rb_Mask R, d @ drop (length d) dst)"
      using read_data_at [OF assms(1) o(1), of "of_nat (length d)" 0 dst b] un n(1) len
      by (auto simp: mem_write_Some)
    then show ?thesis
      using n un Some by (simp add: RingBufferReadRecord_def q word_less_nat_alt)
  qed
  with q show ?thesis by blast
qed


text \<open>\<open>R'\<close> is \<open>R\<close> without its oldest record \<open>d\<close>: handles of \<open>R\<close> do not carry over.\<close>

definition removed :: "efi_ring_buffer \<Rightarrow> u8 list \<Rightarrow> efi_ring_buffer \<Rightarrow> bool" where
  "removed R d R' \<longleftrightarrow> rb_Size R' = rb_Size R \<and> rb_Mask R' = rb_Mask R \<and> rb_Head R' = rb_Head R \<and>
     rb_Flags R' = rb_Flags R \<and> rb_Stats R' = rb_Stats R \<and> rb_HandleKey R' = next_key (rb_HandleKey R) \<and>
     unat (rb_Tail R') = (unat (rb_Tail R) + gap (ring_len R) (unat (rb_Tail R)) + 4 + length d) mod ring_len R \<and>
     bytes_used R = gap (ring_len R) (unat (rb_Tail R)) + 4 + length d + bytes_used R'"

text \<open>The debug fill and the header stay within the bytes of the record.\<close>

lemma mark_record:
  assumes ok: "ring_ok R" and q: "unat q = (unat (rb_Tail R) + j) mod ring_len R" "unat q + 4 \<le> ring_len R"
    and n: "4 \<le> unat n" "j + unat n < ring_len R"
  shows "\<exists>R1 buf. (if DEBUG_CODE b then map_option snd (RingBufferFillDataAt b R q v n) else Some R) = Some R1 \<and>
    mem_write (rb_Buffer R1) (unat q) (le_bytes 4 (w :: u32)) = Some buf \<and>
    (\<exists>b1. R1 = R\<lparr>rb_Buffer := b1\<rparr>) \<and> length buf = length (rb_Buffer R) \<and>
    (\<exists>bs. length bs = unat n \<and> take 4 bs = le_bytes 4 w \<and>
       mem_write (ring_view R) j bs = Some (rotate (unat (rb_Tail R)) buf))"
proof -
  note g = ring_okD [OF ok]
  have V: "mem_write (ring_view R') j bs = Some (ring_view R'')"
    if "writes_at R' (unat q) bs R''" "length bs \<le> unat n" "rb_Size R' = rb_Size R" "rb_Tail R' = rb_Tail R" "ring_ok R'"
    for R' R'' bs
    using writes_at_view [OF that(1), of "unat (rb_Tail R)" j] writes_atD(4) [OF that(1)] that(2-4) q n
      ring_okD(4) [OF that(5)]
    by (simp add: ring_view_def)
  obtain R1 bs1 where 1: "(if DEBUG_CODE b then map_option snd (RingBufferFillDataAt b R q v n) else Some R) = Some R1"
      "writes_at R (unat q) bs1 R1" "length bs1 = unat n"
  proof (cases "DEBUG_CODE b")
    case True
    then show ?thesis using that fill_data_at [OF ok, of q n b v] q(2) n g by fastforce
  next
    case False
    have "writes_at R (unat q) (take (unat n) (rotate (unat q) (rb_Buffer R))) R"
      using n g by (auto simp: writes_at_def intro!: exI [of _ "rb_Buffer R"])
    then show ?thesis using that [of R] False n g by simp
  qed
  have ok1: "ring_ok R1" using writes_atD(10) [OF 1(2)] ok by simp
  have "le_bytes 4 w \<noteq> []" by (metis length_le_bytes list.size(3) zero_neq_numeral)
  then obtain buf where 2: "mem_write (rb_Buffer R1) (unat q) (le_bytes 4 w) = Some buf"
      "writes_at R1 (unat q) (le_bytes 4 w) (R1\<lparr>rb_Buffer := buf\<rparr>)"
    using mem_write_writes_at [OF ok1, of "unat q" "le_bytes 4 w"] q(2) writes_atD(1) [OF 1(2)] by auto
  have "mem_write (ring_view R1) j (le_bytes 4 w) = Some (rotate (unat (rb_Tail R)) buf)"
    using V [OF 2(2)] n ok1 writes_atD [OF 1(2)] by (simp add: ring_view_def)
  moreover have "mem_write (ring_view R) j bs1 = Some (ring_view R1)"
    using V [OF 1(2)] 1(3) ok by simp
  ultimately have "mem_write (ring_view R) j (le_bytes 4 w @ drop 4 bs1) = Some (rotate (unat (rb_Tail R)) buf)"
    using n 1(3) by (auto simp: mem_write_Some drop_append)
  moreover have "length (le_bytes 4 w @ drop 4 bs1) = unat n" using n 1(3) by simp
  ultimately show ?thesis
    using 1(1,2) 2(1) mem_write_length [OF 2(1)] by (fastforce simp: writes_at_def)
qed

lemma remove_record:
  assumes inv: "ring_inv R (d # ds)"
    and fits: "\<And>dst. Data = Some dst \<Longrightarrow>
      length d \<le> length dst \<and> (\<exists>n. DataSize = Some n \<and> length d \<le> unat n)"
  shows "\<exists>R'. RingBufferRemove b R Data DataSize = Some (EFI_SUCCESS, R',
      map_option (\<lambda>dst. d @ drop (length d) dst) Data, map_option (\<lambda>_. of_nat (length d)) DataSize) \<and>
    ring_inv R' ds \<and> removed R d R'"
proof -
  let ?n = "ring_len R" and ?t = "unat (rb_Tail R)" and ?h = "of_nat (4 + length d) :: u32"
  define j where "j = gap ?n ?t"
  have ok: "ring_ok R" and here: "record_here R 0 d"
    using ring_invD(1) [OF inv] ring_inv_record [of R "[]" d ds] inv by simp_all
  note g = ring_okD [OF ok]
  have lt: "j + 4 + length d < ?n"
    using here bytes_used_lt [OF ok] g by (simp add: record_here_def j_def Let_def)
  have uh: "unat ?h = 4 + length d" using lt g by (intro unat_of_nat32) simp
  obtain q where q: "RingBufferReadRecord b R (rb_Tail R) Data DataSize = Some (EFI_SUCCESS, q, Some q,
      map_option (\<lambda>dst. d @ drop (length d) dst) Data, map_option (\<lambda>_. of_nat (length d)) DataSize)"
      "record_Size R q = Some ?h" "unat q = (?t + j) mod ?n" "unat q + 4 \<le> ?n"
    using read_record [where p = "rb_Tail R" and k = j and b = b and Data = Data, OF ok here _ _ fits] g
    by (auto simp: j_def)
  define R0 where "R0 = R\<lparr>rb_HandleKey := next_key (rb_HandleKey R)\<rparr>"
  have R0: "ring_ok R0" "rb_Size R0 = rb_Size R" "rb_Tail R0 = rb_Tail R" "record_Size R0 q = Some ?h"
      "ring_view R0 = ring_view R" "rb_Mask R0 = rb_Mask R"
    using ok q(2) by (simp_all add: R0_def ring_ok_def record_Size_def ring_view_def)
  obtain R1 buf bs where m: "(if DEBUG_CODE b then map_option snd (RingBufferFillDataAt b R0 q RING_REMOVED_SIGNATURE ?h)
        else Some R0) = Some R1"
      "mem_write (rb_Buffer R1) (unat q) (le_bytes 4 RING_REMOVED_SIZE) = Some buf"
      "\<exists>b1. R1 = R0\<lparr>rb_Buffer := b1\<rparr>" "length buf = length (rb_Buffer R)"
      "length bs = 4 + length d" "mem_write (ring_view R) j bs = Some (rotate ?t buf)"
    using mark_record [OF R0(1), of q j ?h b RING_REMOVED_SIGNATURE RING_REMOVED_SIZE] q(3,4) uh lt R0
    by (auto simp: R0_def)
  define R' where "R' = R1\<lparr>rb_Buffer := buf, rb_Tail := (q + ?h) AND rb_Mask R0\<rparr>"
  have "RingBufferRemove b R Data DataSize = Some (EFI_SUCCESS, R',
      map_option (\<lambda>dst. d @ drop (length d) dst) Data, map_option (\<lambda>_. of_nat (length d)) DataSize)"
    using m(1,2) R0(4) by (auto simp: RingBufferRemove_def q(1) Let_def next_key_def R0_def R'_def)
  moreover have tail: "unat (rb_Tail R') = (?t + (j + 4 + length d)) mod ?n"
  proof -
    have "unat (q + ?h) = unat q + (4 + length d)" using uh q(4) lt g by (subst unat_add32) simp_all
    then show ?thesis
      using ring_okD(7) [OF R0(1), of "q + ?h"] R0(2) by (simp add: R'_def q(3) mod_shift add.assoc)
  qed
  note adv = advance_tail [OF inv _ _ _ _ _ _ this]
  have "ring_inv R' ds"
    by (rule adv(1); use m(3-6) in \<open>auto simp: R'_def R0_def j_def mem_write_Some add.assoc\<close>)
  moreover have "bytes_used R = j + 4 + length d + bytes_used R'"
    by (rule adv(2); use m(3-6) in \<open>auto simp: R'_def R0_def j_def mem_write_Some add.assoc\<close>)
  ultimately show ?thesis using m(3) tail by (auto simp: removed_def R'_def R0_def j_def add.assoc)
qed

lemma remove_empty:
  assumes "ring_inv R []"
  shows "RingBufferRemove b R Data DataSize = Some (EFI_NOT_FOUND, R, Data, map_option (\<lambda>_. 0) DataSize)"
proof -
  note ok = ring_invD(1) [OF assms]
  have "rb_Head R = rb_Tail R"
    using ring_invD(2) [OF assms] bytes_used_cases [OF ok] ring_okD [OF ok]
    by (auto simp: word_le_nat_alt word_unat_eq_iff split: if_splits)
  moreover have "\<not> rb_Size R < rb_Tail R" using ok by (auto simp: ring_ok_def)
  ultimately show ?thesis
    by (simp add: RingBufferRemove_def RingBufferReadRecord_def RingBufferRecordAt_def RingBufferIsValidOffset_def)
qed

subsection \<open>Making room\<close>

text \<open>
  The oldest records are given up while fewer than \<open>m\<close> bytes are free; \<open>p\<close> is the offset of
  the tail in a buffer of \<open>n\<close> bytes. The result is the new tail and what is left.
\<close>

fun evict :: "nat \<Rightarrow> nat \<Rightarrow> nat \<Rightarrow> u8 list list \<Rightarrow> nat \<times> u8 list list" where
  "evict n m p [] = (p, [])"
| "evict n m p (d # ds) =
     (if n - 1 - span n p (d # ds) < m then evict n m ((p + gap n p + 4 + length d) mod n) ds
      else (p, d # ds))"

lemma evict_suffix: "\<exists>j. snd (evict n m p ds) = drop j ds"
proof (induction n m p ds rule: evict.induct)
  case (2 n m p d ds)
  show ?case
  proof (cases "n - 1 - span n p (d # ds) < m")
    case True
    with 2 obtain j where "snd (evict n m ((p + gap n p + 4 + length d) mod n) ds) = drop j ds" by blast
    with True have "snd (evict n m p (d # ds)) = drop (Suc j) (d # ds)" by simp
    then show ?thesis by blast
  qed (auto intro: exI [of _ 0])
qed simp

lemma evict_length: "length (snd (evict n m p ds)) \<le> length ds"
  using evict_suffix [of n m p ds] by auto

lemma evict_fits: "m \<le> n - 1 - span n p ds \<Longrightarrow> evict n m p ds = (p, ds)"
  by (cases ds) auto

text \<open>What removing records to make room leaves as it is.\<close>

definition same_ring :: "efi_ring_buffer \<Rightarrow> efi_ring_buffer \<Rightarrow> bool" where
  "same_ring R R' \<longleftrightarrow> rb_Size R' = rb_Size R \<and> rb_Mask R' = rb_Mask R \<and> rb_Head R' = rb_Head R \<and>
     rb_Flags R' = rb_Flags R \<and> Reserve (rb_Stats R') = Reserve (rb_Stats R)"

lemma lose_write_simps [simp]:
  "ring_inv (lose_write R) ds = ring_inv R ds" "ring_ok (lose_write R) = ring_ok R"
  "rb_Size (lose_write R) = rb_Size R" "rb_Tail (lose_write R) = rb_Tail R" "rb_Head (lose_write R) = rb_Head R"
  "rb_Mask (lose_write R) = rb_Mask R" "rb_Flags (lose_write R) = rb_Flags R"
  "rb_HandleKey (lose_write R) = rb_HandleKey R" "rb_Buffer (lose_write R) = rb_Buffer R"
  "rb_Stats (lose_write R) = (rb_Stats R)\<lparr>LostWrites := LostWrites (rb_Stats R) + 1\<rparr>"
  by (simp_all add: lose_write_def ring_inv_def ring_ok_def bytes_used_def ring_view_def)

lemma reserve_evict_runs:
  "ring_inv R ds \<Longrightarrow> unat m < ring_len R \<Longrightarrow>
   \<exists>R'. reserve_evict b R m = Some R' \<and> ring_inv R' (snd (evict (ring_len R) (unat m) (unat (rb_Tail R)) ds)) \<and>
     unat (rb_Tail R') = fst (evict (ring_len R) (unat m) (unat (rb_Tail R)) ds) \<and>
     unat m \<le> ring_len R - 1 - bytes_used R' \<and> same_ring R R' \<and>
     LostWrites (rb_Stats R') = LostWrites (rb_Stats R) +
       of_nat (length ds - length (snd (evict (ring_len R) (unat m) (unat (rb_Tail R)) ds)))"
proof (induction ds arbitrary: R)
  case Nil
  note ok = ring_invD(1) [OF Nil(1)] and u = ring_invD(2) [OF Nil(1)]
  have "\<not> RingBufferBytesFree R < m"
    using bytes_free [OF ok] u Nil(2) by (simp add: word_less_nat_alt)
  then have "reserve_evict b R m = Some R" by (simp add: reserve_evict.simps)
  with Nil u show ?case by (simp add: same_ring_def)
next
  case (Cons d ds)
  note ok = ring_invD(1) [OF Cons.prems(1)] and u = ring_invD(2) [OF Cons.prems(1)]
  show ?case
  proof (cases "RingBufferBytesFree R < m")
    case False
    then have "reserve_evict b R m = Some R" by (simp add: reserve_evict.simps)
    then show ?thesis
      using False Cons.prems u bytes_free [OF ok] by (simp add: same_ring_def word_less_nat_alt)
  next
    case True
    obtain R1 where R1: "RingBufferRemove b R None None = Some (EFI_SUCCESS, R1, None, None)"
        "ring_inv R1 ds" "removed R d R1"
      using remove_record [OF Cons.prems(1), of None None b] by auto
    have "reserve_evict b R m = reserve_evict b (lose_write R1) m"
      using True R1(1) by (subst reserve_evict.simps) simp
    then show ?thesis
      using Cons.IH [of "lose_write R1"] R1 Cons.prems(2) True bytes_free [OF ok] u
      by (auto simp: removed_def same_ring_def word_less_nat_alt Suc_diff_le evict_length)
  qed
qed

subsection \<open>Reserving and adding\<close>

lemma reserve_append:
  assumes inv: "ring_inv R ds" and room: "bytes_used R + gap (ring_len R) (unat (rb_Head R)) + 4 + unat m < ring_len R"
  shows "\<exists>q R1 buf d R'. RingBufferWrapIfNeeded b R (rb_Head R) 4 = Some q \<and>
    (if DEBUG_CODE b then map_option snd (RingBufferFillDataAt b R q v (m + 4)) else Some R) = Some R1 \<and>
    mem_write (rb_Buffer R1) (unat q) (le_bytes 4 (m + 4)) = Some buf \<and> rb_HandleKey R1 = rb_HandleKey R \<and>
    rb_Mask R1 = rb_Mask R \<and> rb_Stats R1 = rb_Stats R \<and>
    unat q = (unat (rb_Tail R) + (bytes_used R + gap (ring_len R) (unat (rb_Head R)))) mod ring_len R \<and>
    length d = unat m \<and> R' = R1\<lparr>rb_Buffer := buf, rb_Head := (q + (m + 4)) AND rb_Mask R\<rparr> \<and>
    ring_inv R' (ds @ [d]) \<and> rb_Tail R' = rb_Tail R \<and> rb_Size R' = rb_Size R \<and> rb_Flags R' = rb_Flags R"
proof -
  let ?n = "ring_len R" and ?t = "unat (rb_Tail R)"
  define k where "k = bytes_used R + gap ?n (unat (rb_Head R))"
  note ok = ring_invD(1) [OF inv]
  note g = ring_okD [OF ok] and h = head_from_tail [OF ok]
  have um: "unat (m + 4) = 4 + unat m" using room g by (subst unat_add32) simp_all
  obtain q where q: "RingBufferWrapIfNeeded b R (rb_Head R) 4 = Some q" "unat q + 4 \<le> ?n"
      "unat q = (unat (rb_Head R) + gap ?n (unat (rb_Head R))) mod ?n"
    using wrap_if_needed [OF ok g(5)] by blast
  have qt: "unat q = (?t + k) mod ?n"
    unfolding q(3) k_def by (subst h) (simp only: mod_shift)
  obtain R1 buf bs where m: "(if DEBUG_CODE b then map_option snd (RingBufferFillDataAt b R q v (m + 4)) else Some R) = Some R1"
      "mem_write (rb_Buffer R1) (unat q) (le_bytes 4 (m + 4)) = Some buf"
      "\<exists>b1. R1 = R\<lparr>rb_Buffer := b1\<rparr>" "length buf = length (rb_Buffer R)"
      "length bs = 4 + unat m" "take 4 bs = le_bytes 4 (m + 4)" "mem_write (ring_view R) k bs = Some (rotate ?t buf)"
    using mark_record [OF ok qt q(2), of "m + 4" b v "m + 4"] um room by (auto simp: k_def)
  define d where "d = drop 4 bs"
  define R' where "R' = R1\<lparr>rb_Buffer := buf, rb_Head := (q + (m + 4)) AND rb_Mask R\<rparr>"
  have d: "length d = unat m" "bs = le_bytes 4 (of_nat (4 + length d) :: u32) @ d"
    using m(5,6) append_take_drop_id [of 4 bs] by (simp_all add: d_def add.commute)
  have "unat (q + (m + 4)) = unat q + (4 + unat m)" using um q(2) room g by (subst unat_add32) simp_all
  then have "unat (rb_Head R') = (?t + (k + 4 + length d)) mod ?n"
    using g(7) [of "q + (m + 4)"] by (simp add: R'_def qt mod_shift add.assoc d(1))
  then have "ring_inv R' (ds @ [d])"
    using m(3,4,7) d room
    by (intro advance_head(1) [OF inv k_def]) (auto simp: R'_def k_def ring_view_def)
  then show ?thesis
    using q(1) m(1-3) qt d(1) by (auto simp: R'_def k_def)
qed

lemma ring_inv_update [simp]:
  "ring_inv (R\<lparr>rb_Stats := st\<rparr>) ds = ring_inv R ds" "ring_inv (R\<lparr>rb_HandleKey := key\<rparr>) ds = ring_inv R ds"
  by (simp_all add: ring_inv_def ring_ok_def bytes_used_def ring_view_def)

definition live_key :: "efi_ring_buffer \<Rightarrow> u32" where
  "live_key R = (if rb_HandleKey R = 0 then 1 else rb_HandleKey R)"

lemma current_key [simp]: "RingBufferCurrentKey R = (live_key R, R\<lparr>rb_HandleKey := live_key R\<rparr>)"
  by (simp add: RingBufferCurrentKey_def live_key_def Let_def)

lemma ucast_add32: "(ucast (a + b) :: u32) = ucast a + ucast b" for a b :: u64
proof (transfer, simp add: take_bit_eq_mod mod_mod_cancel)
  fix a b :: int
  show "(a + b) mod 4294967296 = (a mod 18446744073709551616 + b mod 18446744073709551616) mod 4294967296"
    by (rule mod_add_cong) (simp_all add: mod_mod_cancel)
qed

lemma handle_parts [simp]:
  "RING_HANDLE_GET_KEY (RING_HANDLE_SET_KEY off key) = ucast key"
  "ucast (RING_HANDLE_GET_OFFSET (RING_HANDLE_SET_KEY off key)) = off"
  "ucast (RING_HANDLE_GET_OFFSET (RING_HANDLE_SET_KEY off key) + 4) = off + 4"
proof -
  show "RING_HANDLE_GET_KEY (RING_HANDLE_SET_KEY off key) = ucast key"
    unfolding RING_HANDLE_GET_KEY_def RING_HANDLE_SET_KEY_def
    by (rule bit_eqI) (auto simp: bit_simps dest: bit_imp_le_length)
  have m: "(0xFFFFFFFF :: u64) = mask 32" by (simp add: mask_eq_exp_minus_1)
  show 1: "ucast (RING_HANDLE_GET_OFFSET (RING_HANDLE_SET_KEY off key)) = off"
    unfolding m RING_HANDLE_GET_OFFSET_def RING_HANDLE_SET_KEY_def
    by (rule bit_eqI) (auto simp: bit_simps dest: bit_imp_le_length)
  show "ucast (RING_HANDLE_GET_OFFSET (RING_HANDLE_SET_KEY off key) + 4) = off + 4"
    using 1 by (simp add: ucast_add32)
qed

text \<open>
  \<open>record_handle R ds i h\<close>: \<open>h\<close> is current and addresses record \<open>i\<close> of \<open>ds\<close>, by the offset of its
  header or of the bytes skipped before it.
\<close>

definition record_pos :: "efi_ring_buffer \<Rightarrow> u8 list list \<Rightarrow> nat \<Rightarrow> nat" where
  "record_pos R ds i = span (ring_len R) (unat (rb_Tail R)) (take i ds)"

definition record_handle :: "efi_ring_buffer \<Rightarrow> u8 list list \<Rightarrow> nat \<Rightarrow> ring_handle \<Rightarrow> bool" where
  "record_handle R ds i h \<longleftrightarrow> i < length ds \<and> RING_HANDLE_GET_KEY h = ucast (rb_HandleKey R) \<and>
     (let p = (unat (rb_Tail R) + record_pos R ds i) mod ring_len R in
      unat (ucast (RING_HANDLE_GET_OFFSET h) :: u32) \<in> {p, (p + gap (ring_len R) p) mod ring_len R})"

lemma reserve_record:
  assumes inv: "ring_inv R ds" and small: "4 + unat m < ring_len R"
    and space: "RingBufferBytesFree R < m + 4 \<Longrightarrow> rb_Flags R AND RING_BUFFER_OVERWRITE \<noteq> 0"
    and ev: "evict (ring_len R) (4 + unat m) (unat (rb_Tail R)) ds = (p, ds')"
    and room: "span (ring_len R) p ds' + gap (ring_len R) (unat (rb_Head R)) + 4 + unat m < ring_len R"
  shows "\<exists>R' h d. RingBufferReserve b R m = Some (EFI_SUCCESS, R', h) \<and> length d = unat m \<and>
    ring_inv R' (ds' @ [d]) \<and> record_handle R' (ds' @ [d]) (length ds') h \<and>
    rb_Size R' = rb_Size R \<and> rb_Flags R' = rb_Flags R \<and> rb_HandleKey R' \<noteq> 0 \<and> unat (rb_Tail R') = p \<and>
    (\<not> RingBufferBytesFree R < m + 4 \<longrightarrow> rb_HandleKey R' = live_key R \<and> rb_Stats R' = (rb_Stats R)\<lparr>Reserve := Reserve (rb_Stats R) + 1\<rparr>) \<and>
    (\<exists>q. h = RING_HANDLE_SET_KEY q (rb_HandleKey R') \<and>
      (let r = record_pos R' (ds' @ [d]) (length ds') in
       unat q = (unat (rb_Tail R') + (r + gap (ring_len R') ((unat (rb_Tail R') + r) mod ring_len R'))) mod ring_len R'))"
proof -
  note ok = ring_invD(1) [OF inv] and u = ring_invD(2) [OF inv]
  note g = ring_okD [OF ok]
  have um: "unat (m + 4) = 4 + unat m" using small g by (subst unat_add32) simp_all
  obtain R1 where R1: "(if RingBufferBytesFree R < m + 4 then reserve_evict b R (m + 4) else Some R) = Some R1"
      "ring_inv R1 ds'" "unat (rb_Tail R1) = p" "same_ring R R1" "\<not> RingBufferBytesFree R < m + 4 \<longrightarrow> R1 = R"
  proof (cases "RingBufferBytesFree R < m + 4")
    case True
    then show ?thesis using reserve_evict_runs [OF inv, of "m + 4" b] um small ev that by auto
  next
    case False
    then have "evict (ring_len R) (4 + unat m) (unat (rb_Tail R)) ds = (unat (rb_Tail R), ds)"
      using bytes_free [OF ok] u um by (intro evict_fits) (simp add: word_less_nat_alt)
    then show ?thesis using False that inv ev by (simp add: same_ring_def)
  qed
  have room1: "bytes_used R1 + gap (ring_len R1) (unat (rb_Head R1)) + 4 + unat m < ring_len R1"
    using room ring_invD(2) [OF R1(2)] R1(3,4) by (simp add: same_ring_def)
  obtain q R2 buf d R3 where r: "RingBufferWrapIfNeeded b R1 (rb_Head R1) 4 = Some q"
      "(if DEBUG_CODE b then map_option snd (RingBufferFillDataAt b R1 q (ucast (rb_HandleKey R1)) (m + 4)) else Some R1) = Some R2"
      "mem_write (rb_Buffer R2) (unat q) (le_bytes 4 (m + 4)) = Some buf" "rb_HandleKey R2 = rb_HandleKey R1"
      "rb_Mask R2 = rb_Mask R1" "rb_Stats R2 = rb_Stats R1"
      "unat q = (unat (rb_Tail R1) + (bytes_used R1 + gap (ring_len R1) (unat (rb_Head R1)))) mod ring_len R1"
      "length d = unat m" "R3 = R2\<lparr>rb_Buffer := buf, rb_Head := (q + (m + 4)) AND rb_Mask R1\<rparr>"
      "ring_inv R3 (ds' @ [d])" "rb_Tail R3 = rb_Tail R1" "rb_Size R3 = rb_Size R1" "rb_Flags R3 = rb_Flags R1"
    using reserve_append [OF R1(2) room1] by blast
  define R' where "R' = R3\<lparr>rb_Stats := (rb_Stats R2)\<lparr>Reserve := Reserve (rb_Stats R2) + 1\<rparr>, rb_HandleKey := live_key R3\<rparr>"
  have "\<not> rb_Size R - 1 < m + 4"
    using small um ring_Size_minus_1 [OF ok] by (simp only: word_less_nat_alt)
  then have "RingBufferReserve b R m = Some (EFI_SUCCESS, R', RING_HANDLE_SET_KEY q (live_key R3))"
    using space r(5,6)
    by (auto simp add: RingBufferReserve_def Let_def R1(1) r(1,2,3) R'_def r(9) live_key_def cong del: if_weak_cong)
  moreover have "record_handle R' (ds' @ [d]) (length ds') (RING_HANDLE_SET_KEY q (live_key R3))"
    using r(7,11,12) head_from_tail [OF ring_invD(1) [OF R1(2)]] ring_invD(2) [OF R1(2)]
    by (simp add: record_handle_def R'_def record_pos_def Let_def mod_shift)
  ultimately show ?thesis
    using r R1(3-5) ring_invD(2) [OF R1(2)] head_from_tail [OF ring_invD(1) [OF R1(2)]]
    by (auto simp: R'_def same_ring_def record_pos_def Let_def live_key_def)
qed

subsection \<open>Writing and reading inside a record\<close>

definition overlay :: "'a list \<Rightarrow> nat \<Rightarrow> 'a list \<Rightarrow> 'a list" where
  "overlay d j bs = take j d @ bs @ drop (j + length bs) d"

lemma length_overlay [simp]: "j + length bs \<le> length d \<Longrightarrow> length (overlay d j bs) = length d"
  by (simp add: overlay_def)

lemma overlay_all: "length bs = length d \<Longrightarrow> overlay d 0 bs = bs"
  by (simp add: overlay_def)

lemma mem_write_take:
  "mem_write v j bs = Some v' \<Longrightarrow> j + length bs \<le> u \<Longrightarrow> u \<le> length v \<Longrightarrow>
   mem_write (take u v) j bs = Some (take u v')"
  by (auto simp: mem_write_Some drop_take)

lemma layout_overlay_head:
  assumes "layout n p (d # ys) v" "o1 + length bs \<le> length d" "mem_write v (gap n p + 4 + o1) bs = Some v'"
  shows "layout n p (overlay d o1 bs # ys) v'"
proof -
  define A B where "A = take (gap n p + 4) v" and "B = drop (gap n p + 4 + length d) v"
  have "v = A @ d @ B" and A: "length A = gap n p + 4"
    using assms(1) append_take_drop_id [of "gap n p + 4" v] append_take_drop_id [of "length d" "drop (gap n p + 4) v"]
    by (auto simp: A_def B_def add.commute)
  moreover from this assms have "v' = A @ overlay d o1 bs @ B"
    by (auto simp: mem_write_Some overlay_def)
  ultimately show ?thesis using assms(1,2) by simp
qed

lemma layout_overlay:
  assumes "p < n" "layout n p (xs @ d # ys) v" "o1 + length bs \<le> length d"
    "mem_write v (span n p xs + gap n ((p + span n p xs) mod n) + 4 + o1) bs = Some v'"
  shows "layout n p (xs @ overlay d o1 bs # ys) v'"
proof -
  let ?s = "span n p xs"
  have l: "layout n p xs (take ?s v)" "layout n ((p + ?s) mod n) (d # ys) (drop ?s v)" "?s \<le> length v"
    using layout_split [OF assms(1,2)] by simp_all
  have "mem_write (drop ?s v) (gap n ((p + ?s) mod n) + 4 + o1) bs = Some (drop ?s v')" "take ?s v' = take ?s v"
    using assms(4) l(3) by (auto simp: mem_write_Some drop_take ac_simps)
  then show ?thesis
    using layout_append [OF assms(1) l(1), of "overlay d o1 bs # ys" "drop ?s v'"]
      layout_overlay_head [OF l(2) assms(3)] l(3) append_take_drop_id [of ?s v'] by simp
qed

lemma ring_inv_overlay:
  assumes inv: "ring_inv R (xs @ d # ys)" and w: "writes_at R pos bs R'"
    and k: "r = record_pos R (xs @ d # ys) (length xs)" "k = r + gap (ring_len R) ((unat (rb_Tail R) + r) mod ring_len R)"
    and pos: "pos = (unat (rb_Tail R) + (k + 4 + o1)) mod ring_len R" "o1 + length bs \<le> length d"
  shows "ring_inv R' (xs @ overlay d o1 bs # ys)"
proof -
  let ?u = "bytes_used R"
  note ok = ring_invD(1) [OF inv]
  note g = ring_okD [OF ok]
  have "record_here R r d" using ring_inv_record [OF inv] by (simp add: k record_pos_def)
  then have le: "k + 4 + length d \<le> ?u" using k(2) by (simp add: record_here_def Let_def)
  have "mem_write (ring_view R) (k + 4 + o1) bs = Some (ring_view R')"
    using writes_at_view [OF w, of "unat (rb_Tail R)" "k + 4 + o1"] writes_atD(4) [OF w] pos le bytes_used_lt [OF ok] g
    by (simp add: ring_view_def)
  then have "mem_write (take ?u (ring_view R)) (k + 4 + o1) bs = Some (take ?u (ring_view R'))"
    using le pos(2) bytes_used_lt [OF ok] g by (intro mem_write_take) (simp_all add: ring_view_def)
  then have "layout (ring_len R) (unat (rb_Tail R)) (xs @ overlay d o1 bs # ys) (take ?u (ring_view R'))"
    using inv by (intro layout_overlay [OF g(6) _ pos(2)]) (simp_all add: ring_inv_def k record_pos_def)
  then show ?thesis
    using writes_atD [OF w] ok by (simp add: ring_inv_def)
qed

text \<open>A handle leads to its record, whichever of the two offsets it carries.\<close>

lemma handle_record:
  assumes inv: "ring_inv R ds" and h: "record_handle R ds i h"
    and k: "r = record_pos R ds i" "k = r + gap (ring_len R) ((unat (rb_Tail R) + r) mod ring_len R)"
  shows "\<exists>q. RingBufferRecordAt b R (ucast (RING_HANDLE_GET_OFFSET h)) = Some (EFI_SUCCESS, q, Some q) \<and>
    record_Size R q = Some (of_nat (4 + length (ds ! i))) \<and>
    unat q = (unat (rb_Tail R) + k) mod ring_len R \<and> unat q + 4 \<le> ring_len R \<and> record_here R r (ds ! i)"
proof -
  let ?n = "ring_len R" and ?t = "unat (rb_Tail R)" and ?p = "ucast (RING_HANDLE_GET_OFFSET h) :: u32"
  note ok = ring_invD(1) [OF inv]
  note g = ring_okD [OF ok]
  have i: "i < length ds" using h by (simp add: record_handle_def)
  have here: "record_here R r (ds ! i)"
    using ring_inv_record [of R "take i ds" "ds ! i" "drop (Suc i) ds"] inv i
    by (simp add: id_take_nth_drop [symmetric] k record_pos_def)
  have p: "unat ?p = (?t + r) mod ?n \<or> unat ?p = (?t + k) mod ?n"
    using h by (auto simp: record_handle_def Let_def k mod_shift)
  have "(?t + k) mod ?n = ((?t + r) mod ?n + gap ?n ((?t + r) mod ?n)) mod ?n"
    by (simp only: k(2) mod_shift)
  then have "?n - (?t + r) mod ?n < 4 \<Longrightarrow> (?t + k) mod ?n = 0"
    using g mod_less_divisor [of ?n "?t + r"] by (simp add: gap_def less_imp_le)
  then have "gap ?n ((?t + k) mod ?n) = 0"
    using g k(2) by (auto simp: gap_def split: if_splits)
  then have here': "record_here R k (ds ! i)"
    using here k(2) by (simp add: record_here_def)
  from p show ?thesis
  proof
    assume "unat ?p = (?t + r) mod ?n"
    with record_at [OF ok here this] k(2) here show ?thesis by auto
  next
    assume "unat ?p = (?t + k) mod ?n"
    with record_at [OF ok here' this] \<open>gap ?n ((?t + k) mod ?n) = 0\<close> here show ?thesis by auto
  qed
qed

lemma io_write:
  assumes inv: "ring_inv R ds" and h: "record_handle R ds i h"
    and fits: "unat off + unat n \<le> length (ds ! i)" "unat n \<le> length Data"
  shows "\<exists>R' pos. RingBufferIo b R h DataWrite off Data n = Some (EFI_SUCCESS, R', Data, n) \<and>
    ring_inv R' (ds[i := overlay (ds ! i) (unat off) (take (unat n) Data)]) \<and>
    writes_at R pos (take (unat n) Data) R'"
proof -
  define r k where "r = record_pos R ds i" and "k = r + gap (ring_len R) ((unat (rb_Tail R) + r) mod ring_len R)"
  let ?d = "ds ! i"
  note ok = ring_invD(1) [OF inv]
  note g = ring_okD [OF ok]
  have i: "i < length ds" "RING_HANDLE_GET_KEY h = ucast (rb_HandleKey R)" using h by (simp_all add: record_handle_def)
  obtain q where q: "RingBufferRecordAt b R (ucast (RING_HANDLE_GET_OFFSET h)) = Some (EFI_SUCCESS, q, Some q)"
      "record_Size R q = Some (of_nat (4 + length ?d))" "unat q = (unat (rb_Tail R) + k) mod ring_len R"
      "record_here R r ?d"
    using handle_record [OF inv h r_def k_def] by blast
  note len = record_here_size(1) [OF ok q(4)] and ud = record_here_size(2) [OF ok q(4)]
  have uo: "unat (off + n) = unat off + unat n" using fits len g by (subst unat_add32) simp_all
  let ?pos = "(q + 4 + off) AND rb_Mask R"
  have pos: "unat ?pos = (unat (rb_Tail R) + (k + 4 + unat off)) mod ring_len R"
    using record_data(1) [OF ok q(4) k_def q(3), of off "unat n"] fits by simp
  then have "unat ?pos < ring_len R" using g by simp
  then obtain R' where R': "RingBufferWriteDataAt b R ?pos Data n = Some ((?pos + n) AND rb_Mask R, R')"
      "writes_at R (unat ?pos) (take (unat n) Data) R'"
    using write_data_at [OF ok, of ?pos n Data b] fits len by auto
  have "RingBufferIo b R h DataWrite off Data n = Some (EFI_SUCCESS, R', Data, n)"
    using fits by (simp add: RingBufferIo_def Let_def q(1,2) i(2) R'(1) word_less_nat_alt ud uo)
  moreover have "ring_inv R' (take i ds @ overlay ?d (unat off) (take (unat n) Data) # drop (Suc i) ds)"
    using inv i fits by (intro ring_inv_overlay [OF _ R'(2) _ k_def pos])
      (simp_all add: id_take_nth_drop [symmetric] r_def record_pos_def)
  ultimately show ?thesis using R'(2) by (auto simp: upd_conv_take_nth_drop [OF i(1)])
qed

lemma io_read:
  assumes inv: "ring_inv R ds" and h: "record_handle R ds i h"
    and off: "unat off \<le> length (ds ! i)" and no: "unat off + unat n < 4294967296"
    and m: "m = min (unat n) (length (ds ! i) - unat off)" and fits: "m \<le> length Data"
  shows "RingBufferIo b R h DataRead off Data n =
    Some (EFI_SUCCESS, R, take m (drop (unat off) (ds ! i)) @ drop m Data, of_nat m)"
proof -
  define r k where "r = record_pos R ds i" and "k = r + gap (ring_len R) ((unat (rb_Tail R) + r) mod ring_len R)"
  let ?d = "ds ! i"
  note ok = ring_invD(1) [OF inv]
  note g = ring_okD [OF ok]
  have i: "i < length ds" "RING_HANDLE_GET_KEY h = ucast (rb_HandleKey R)" using h by (simp_all add: record_handle_def)
  obtain q where q: "RingBufferRecordAt b R (ucast (RING_HANDLE_GET_OFFSET h)) = Some (EFI_SUCCESS, q, Some q)"
      "record_Size R q = Some (of_nat (4 + length ?d))" "unat q = (unat (rb_Tail R) + k) mod ring_len R"
      "record_here R r ?d"
    using handle_record [OF inv h r_def k_def] by blast
  note len = record_here_size(1) [OF ok q(4)] and ud = record_here_size(2) [OF ok q(4)]
  have uo: "unat (off + n) = unat off + unat n" using no by (subst unat_add32) simp_all
  have ml: "m < ring_len R" "min (length ?d - unat off) m = m" using m len by simp_all
  have um: "unat (of_nat m :: u32) = m" using ml(1) g by (intro unat_of_nat32) simp
  have bc: "(if of_nat (length ?d) < off + n then of_nat (length ?d) - off else n) = (of_nat m :: u32)"
    using m off ud by (auto simp: word_less_nat_alt uo min_def of_nat_diff)
  let ?pos = "(q + 4 + off) AND rb_Mask R"
  have pos: "unat ?pos < ring_len R" "take m (rotate (unat ?pos) (rb_Buffer R)) = take m (drop (unat off) ?d)"
    using record_data(2) [OF ok q(4) k_def q(3), of off m] off m g by auto
  have "\<exists>o2. RingBufferReadDataAt b R ?pos Data 0 (of_nat m) = Some (o2, take m (drop (unat off) ?d) @ drop m Data)"
    using read_data_at [OF ok pos(1), of "of_nat m" 0 Data b] um ml fits pos(2) g(4)
    by (auto simp: mem_write_Some)
  then show ?thesis
    using off bc by (auto simp: RingBufferIo_def Let_def q(1,2) i(2) word_less_nat_alt ud cong del: if_weak_cong)
qed

text \<open>Reserve, then fill the record in.\<close>

lemma add_record:
  assumes "ring_inv R ds" "4 + unat m < ring_len R"
    "RingBufferBytesFree R < m + 4 \<Longrightarrow> rb_Flags R AND RING_BUFFER_OVERWRITE \<noteq> 0"
    "evict (ring_len R) (4 + unat m) (unat (rb_Tail R)) ds = (p, ds')"
    "span (ring_len R) p ds' + gap (ring_len R) (unat (rb_Head R)) + 4 + unat m < ring_len R"
    and data: "unat m \<le> length Data"
  shows "\<exists>R' h. RingBufferAdd b R Data m hv = Some (EFI_SUCCESS, R', map_option (\<lambda>_. h) hv) \<and>
    ring_inv R' (ds' @ [take (unat m) Data]) \<and>
    record_handle R' (ds' @ [take (unat m) Data]) (length ds') h \<and>
    rb_Size R' = rb_Size R \<and> rb_Flags R' = rb_Flags R \<and> unat (rb_Tail R') = p"
proof -
  obtain R1 h d q where r: "RingBufferReserve b R m = Some (EFI_SUCCESS, R1, h)" "length d = unat m"
      "ring_inv R1 (ds' @ [d])" "record_handle R1 (ds' @ [d]) (length ds') h" "rb_Size R1 = rb_Size R"
      "rb_Flags R1 = rb_Flags R" "h = RING_HANDLE_SET_KEY q (rb_HandleKey R1)" "unat (rb_Tail R1) = p"
      "let r = record_pos R1 (ds' @ [d]) (length ds') in
       unat q = (unat (rb_Tail R1) + (r + gap (ring_len R1) ((unat (rb_Tail R1) + r) mod ring_len R1))) mod ring_len R1"
    using reserve_record [OF assms(1-5), of b] by blast
  define rr k where "rr = record_pos R1 (ds' @ [d]) (length ds')"
    and "k = rr + gap (ring_len R1) ((unat (rb_Tail R1) + rr) mod ring_len R1)"
  note ok = ring_invD(1) [OF r(3)]
  have here: "record_here R1 rr d"
    using ring_inv_record [of R1 ds' d "[]"] r(3) by (simp add: rr_def record_pos_def)
  let ?pos = "(q + 4) AND rb_Mask R1"
  have "unat q = (unat (rb_Tail R1) + k) mod ring_len R1" using r(9) by (simp add: Let_def k_def rr_def)
  from record_data(1) [OF ok here k_def this, of 0 0]
  have pos: "unat ?pos = (unat (rb_Tail R1) + (k + 4 + 0)) mod ring_len R1" by simp
  then have "unat ?pos < ring_len R1" using ring_okD [OF ok] by simp
  then obtain R' where R': "RingBufferWriteDataAt b R1 ?pos Data m = Some ((?pos + m) AND rb_Mask R1, R')"
      "writes_at R1 (unat ?pos) (take (unat m) Data) R'"
    using write_data_at [OF ok, of ?pos m Data b] data assms(2) r(5) by auto
  have "ring_inv R' (ds' @ overlay d 0 (take (unat m) Data) # [])"
    using r(2,3) data by (intro ring_inv_overlay [OF _ R'(2) rr_def k_def pos]) simp_all
  then have "ring_inv R' (ds' @ [take (unat m) Data])" using data r(2) by (simp add: overlay_all)
  moreover have "record_handle R' (ds' @ [take (unat m) Data]) (length ds') h"
    using r(4) writes_atD [OF R'(2)] by (simp add: record_handle_def record_pos_def)
  moreover have "RingBufferAdd b R Data m hv = Some (EFI_SUCCESS, R', map_option (\<lambda>_. h) hv)"
    by (simp add: RingBufferAdd_def r(1,7) R'(1))
  ultimately show ?thesis using r(5,6,8) writes_atD [OF R'(2)] by auto
qed

text \<open>The two refusals, which leave the records alone and count a lost write.\<close>

lemma reserve_refused:
  assumes inv: "ring_inv R ds" and small: "unat m + 4 < 4294967296"
    and no: "ring_len R \<le> 4 + unat m \<or>
      bytes_used R + 4 + unat m \<ge> ring_len R \<and> rb_Flags R AND RING_BUFFER_OVERWRITE = 0"
  shows "RingBufferReserve b R m =
    Some (if ring_len R \<le> 4 + unat m then EFI_BAD_BUFFER_SIZE else EFI_OUT_OF_RESOURCES, lose_write R, INVALID_RING_HANDLE)"
proof -
  note ok = ring_invD(1) [OF inv]
  have um: "unat (m + 4) = 4 + unat m" using small by (subst unat_add32) simp_all
  have big: "rb_Size R - 1 < m + 4 \<longleftrightarrow> ring_len R \<le> 4 + unat m"
    unfolding word_less_nat_alt um ring_Size_minus_1 [OF ok] using ring_okD(1) [OF ok] by linarith
  have full: "RingBufferBytesFree R < m + 4 \<longleftrightarrow> ring_len R \<le> bytes_used R + 4 + unat m"
    unfolding word_less_nat_alt um bytes_free [OF ok] using bytes_used_lt [OF ok] by linarith
  show ?thesis using no by (auto simp: RingBufferReserve_def Let_def big full)
qed

lemma add_refused:
  assumes "ring_inv R ds" "unat m + 4 < 4294967296" "ring_len R \<le> 4 + unat m \<or>
      bytes_used R + 4 + unat m \<ge> ring_len R \<and> rb_Flags R AND RING_BUFFER_OVERWRITE = 0"
  shows "RingBufferAdd b R Data m hv =
    Some (if ring_len R \<le> 4 + unat m then EFI_BAD_BUFFER_SIZE else EFI_OUT_OF_RESOURCES, lose_write R, hv)"
  by (simp add: RingBufferAdd_def reserve_refused [OF assms])

subsection \<open>Enumerating\<close>

text \<open>The enumerator that has passed \<open>i\<close> records.\<close>

definition enum_at :: "efi_ring_buffer \<Rightarrow> u8 list list \<Rightarrow> nat \<Rightarrow> ring_handle \<Rightarrow> bool" where
  "enum_at R ds i e \<longleftrightarrow> i = 0 \<and> e = INVALID_RING_HANDLE \<or>
     (\<exists>p. e = RING_HANDLE_SET_KEY p (rb_HandleKey R) \<and> unat p = (unat (rb_Tail R) + record_pos R ds i) mod ring_len R)"

lemma span_append:
  "p < n \<Longrightarrow> span n p (xs @ ys) = span n p xs + span n ((p + span n p xs) mod n) ys"
proof (induction n p xs rule: span.induct)
  case (2 n p d ds)
  then show ?case by (simp add: mod_shift add.assoc)
qed simp

lemma record_pos_Suc:
  assumes "ring_ok R" "i < length ds" "r = record_pos R ds i"
  shows "record_pos R ds (Suc i) = r + gap (ring_len R) ((unat (rb_Tail R) + r) mod ring_len R) + 4 + length (ds ! i)"
  using assms(2,3) span_append [OF ring_okD(6) [OF assms(1)], of "take i ds" "[ds ! i]"]
  by (simp add: record_pos_def take_Suc_conv_app_nth)

lemma record_pos_all: "ring_inv R ds \<Longrightarrow> record_pos R ds (length ds) = bytes_used R"
  by (simp add: record_pos_def ring_invD(2))

lemma record_pos_here:
  assumes "ring_inv R ds" "i < length ds"
  shows "record_here R (record_pos R ds i) (ds ! i)" "record_pos R ds i < bytes_used R"
proof -
  show "record_here R (record_pos R ds i) (ds ! i)"
    using ring_inv_record [of R "take i ds" "ds ! i" "drop (Suc i) ds"] assms
    by (simp add: id_take_nth_drop [symmetric] record_pos_def)
  then show "record_pos R ds i < bytes_used R" by (simp add: record_here_def Let_def)
qed

lemma handle_not_invalid: "unat p < 2147483648 \<Longrightarrow> RING_HANDLE_SET_KEY p key \<noteq> INVALID_RING_HANDLE"
proof
  assume "unat p < 2147483648" "RING_HANDLE_SET_KEY p key = INVALID_RING_HANDLE"
  then have "p = ucast (RING_HANDLE_GET_OFFSET INVALID_RING_HANDLE)" using handle_parts(2) [of p key] by simp
  also have "\<dots> = 0xFFFFFFFF" by (simp add: RING_HANDLE_GET_OFFSET_def INVALID_RING_HANDLE_def)
  finally show False using \<open>unat p < _\<close> by simp
qed

lemma enum_offset:
  assumes "ring_inv R ds" "enum_at R ds i e"
  shows "\<exists>p. (if e = INVALID_RING_HANDLE then rb_Tail R else ucast (RING_HANDLE_GET_OFFSET e)) = p \<and>
    unat p = (unat (rb_Tail R) + record_pos R ds i) mod ring_len R \<and>
    (e \<noteq> INVALID_RING_HANDLE \<longrightarrow> RING_HANDLE_GET_KEY e = ucast (rb_HandleKey R))"
proof -
  note g = ring_okD [OF ring_invD(1) [OF assms(1)]]
  have "unat p < 2147483648" if "unat p = (unat (rb_Tail R) + record_pos R ds i) mod ring_len R" for p :: u32
    using that g mod_less_divisor [of "ring_len R" "unat (rb_Tail R) + record_pos R ds i"] by linarith
  then show ?thesis
    using assms(2) g handle_not_invalid by (auto simp: enum_at_def record_pos_def)
qed

lemma enumerate_next:
  assumes inv: "ring_inv R ds" and e: "enum_at R ds i e" and i: "i < length ds"
  shows "\<exists>e' h. RingBufferHandleEnumerate b R e =
      Some (EFI_SUCCESS, R\<lparr>rb_HandleKey := live_key R\<rparr>, e', h, of_nat (4 + length (ds ! i))) \<and>
    enum_at (R\<lparr>rb_HandleKey := live_key R\<rparr>) ds (Suc i) e' \<and>
    record_handle (R\<lparr>rb_HandleKey := live_key R\<rparr>) ds i h"
proof -
  let ?n = "ring_len R" and ?t = "unat (rb_Tail R)" and ?r = "record_pos R ds i" and ?R = "R\<lparr>rb_HandleKey := live_key R\<rparr>"
  note ok = ring_invD(1) [OF inv]
  note g = ring_okD [OF ok]
  obtain p where p: "(if e = INVALID_RING_HANDLE then rb_Tail R else ucast (RING_HANDLE_GET_OFFSET e)) = p"
      "unat p = (?t + ?r) mod ?n" "e \<noteq> INVALID_RING_HANDLE \<longrightarrow> RING_HANDLE_GET_KEY e = ucast (rb_HandleKey R)"
    using enum_offset [OF inv e] by blast
  have R: "ring_ok ?R" "record_here ?R ?r (ds ! i)"
    using ok record_pos_here(1) [OF inv i]
    by (simp_all add: ring_ok_def record_here_def ring_view_def bytes_used_def)
  obtain q where q: "RingBufferRecordAt b ?R p = Some (EFI_SUCCESS, q, Some q)"
      "record_Size ?R q = Some (of_nat (4 + length (ds ! i)))" "unat q = (?t + (?r + gap ?n (unat p))) mod ?n"
    using record_at [OF R, of p "?r + gap ?n (unat p)" b] p(2) by auto
  have "p \<noteq> rb_Head R"
    using head_from_tail [OF ok] p(2) record_pos_here(2) [OF inv i] bytes_used_lt [OF ok] g
      ring_index [of ?t ?n ?r] ring_index [of ?t ?n "bytes_used R"] by (auto split: if_splits)
  then have "RingBufferHandleEnumerate b R e = Some (EFI_SUCCESS, ?R,
      RING_HANDLE_SET_KEY ((q + of_nat (4 + length (ds ! i))) AND rb_Mask R) (live_key R),
      RING_HANDLE_SET_KEY p (live_key R), of_nat (4 + length (ds ! i)))"
    using p(3) by (auto simp: RingBufferHandleEnumerate_def Let_def p(1) q(1,2) cong del: if_weak_cong)
  moreover have "record_handle ?R ds i (RING_HANDLE_SET_KEY p (live_key R))"
    using i p(2) by (simp add: record_handle_def record_pos_def)
  moreover have "enum_at ?R ds (Suc i) (RING_HANDLE_SET_KEY ((q + of_nat (4 + length (ds ! i))) AND rb_Mask R) (live_key R))"
  proof -
    have uq: "unat q < ?n" using q(3) g by simp
    have "4 + length (ds ! i) < ?n" using record_here_size(1) [OF R] by simp
    then have "unat (q + of_nat (4 + length (ds ! i))) = unat q + (4 + length (ds ! i))"
      using g unat_of_nat32 [of "4 + length (ds ! i)"] uq by (subst unat_add32) simp_all
    then have "unat ((q + of_nat (4 + length (ds ! i))) AND rb_Mask R) = (?t + record_pos R ds (Suc i)) mod ?n"
      using g(7) [of "q + of_nat (4 + length (ds ! i))"] record_pos_Suc [OF ok i refl] p(2) q(3)
      by (simp add: mod_shift add.assoc)
    then show ?thesis by (auto simp: enum_at_def record_pos_def)
  qed
  ultimately show ?thesis by blast
qed

lemma enumerate_end:
  assumes inv: "ring_inv R ds" and e: "enum_at R ds (length ds) e"
  shows "RingBufferHandleEnumerate b R e = Some (EFI_NOT_FOUND, R, INVALID_RING_HANDLE, INVALID_RING_HANDLE, 0)"
proof -
  obtain p where p: "(if e = INVALID_RING_HANDLE then rb_Tail R else ucast (RING_HANDLE_GET_OFFSET e)) = p"
      "unat p = (unat (rb_Tail R) + record_pos R ds (length ds)) mod ring_len R"
      "e \<noteq> INVALID_RING_HANDLE \<longrightarrow> RING_HANDLE_GET_KEY e = ucast (rb_HandleKey R)"
    using enum_offset [OF inv e] by blast
  then have "p = rb_Head R"
    using head_from_tail [OF ring_invD(1) [OF inv]] record_pos_all [OF inv] by (simp add: word_unat_eq_iff)
  with p show ?thesis by (auto simp: RingBufferHandleEnumerate_def Let_def cong del: if_weak_cong)
qed

subsection \<open>Flattening\<close>

lemma unat_ucast64 [simp]: "unat (ucast w :: u64) = unat w" for w :: u32
  using unat_lt32 [of w] by (simp add: unsigned_ucast_eq take_bit_nat_eq_self)

lemma concat_le_span: "length (concat ds) \<le> span n p ds"
proof (induction n p ds rule: span.induct)
  case (2 n p d ds)
  then show ?case by simp
qed simp

text \<open>One turn of the loop copies the data of record \<open>i\<close> behind what has been copied.\<close>

lemma flatten_step:
  assumes inv: "ring_inv R ds" and i: "i < length ds"
    and p: "unat p = (unat (rb_Tail R) + record_pos R ds i) mod ring_len R"
    and out: "unat out = length (concat (take i ds))" "length (concat ds) \<le> unat n" "unat n \<le> length Buffer"
  shows "\<exists>p' B'. flatten_records b R n p out c Buffer =
      flatten_records b R n p' (out + of_nat (length (ds ! i))) (c + of_nat (length (ds ! i))) B' \<and>
    unat p' = (unat (rb_Tail R) + record_pos R ds (Suc i)) mod ring_len R \<and>
    mem_write Buffer (unat out) (ds ! i) = Some B' \<and> unat (out + of_nat (length (ds ! i))) = unat out + length (ds ! i)"
proof -
  let ?n = "ring_len R" and ?t = "unat (rb_Tail R)" and ?r = "record_pos R ds i" and ?d = "ds ! i"
  define k where "k = ?r + gap ?n ((?t + ?r) mod ?n)"
  note ok = ring_invD(1) [OF inv]
  note g = ring_okD [OF ok] and here = record_pos_here(1) [OF inv i]
  note ud = record_here_size [OF ok here]
  obtain q where q: "RingBufferRecordAt b R p = Some (EFI_SUCCESS, q, Some q)"
      "record_Size R q = Some (of_nat (4 + length ?d))" "unat q = (?t + k) mod ?n"
    using record_at [OF ok here p, of k b] by (auto simp: k_def p)
  have "length (concat (take (Suc i) ds)) \<le> length (concat ds)"
    by (metis append_take_drop_id concat_append length_append le_add1)
  then have le: "unat out + length ?d \<le> unat n"
    using i out by (simp add: take_Suc_conv_app_nth)
  have n: "unat n < 4294967296" by (rule unat_lt32)
  have u64: "unat (of_nat (length ?d) :: u64) = length ?d"
    using le n by (simp add: unat_of_nat take_bit_eq_mod)
  have "unat (ucast n - out) = unat n - unat out"
    using le by (subst unat_sub) (simp_all add: word_le_nat_alt)
  then have a: "(ucast (of_nat (length ?d) :: u32) :: u64) \<le> ucast n - out"
    using le ud(2) by (simp add: word_le_nat_alt)
  have uc: "(ucast (of_nat (length ?d) :: u32) :: u64) = of_nat (length ?d)"
    using ud(2) by (intro word_eq_of_nat) simp
  have ph: "p \<noteq> rb_Head R"
    using head_from_tail [OF ok] p record_pos_here(2) [OF inv i] bytes_used_lt [OF ok] g
      ring_index [of ?t ?n ?r] ring_index [of ?t ?n "bytes_used R"] by (auto split: if_splits)
  let ?pos = "(q + 4) AND rb_Mask R"
  have pos: "unat ?pos = (?t + (k + 4)) mod ?n" "take (length ?d) (rotate (unat ?pos) (rb_Buffer R)) = ?d"
    using record_data [OF ok here k_def q(3), of 0 "length ?d"] by simp_all
  have "unat ?pos < ?n" using pos(1) g by simp
  then obtain B' where B': "RingBufferReadDataAt b R ?pos Buffer (unat out) (of_nat (length ?d)) =
      Some ((?pos + of_nat (length ?d)) AND rb_Mask R, B')" "mem_write Buffer (unat out) ?d = Some B'"
    using read_data_at [OF ok, of ?pos "of_nat (length ?d)" "unat out" Buffer b] ud pos(2) le out(3) by auto
  have "unat (?pos + of_nat (length ?d)) = unat ?pos + length ?d"
    using ud \<open>unat ?pos < ?n\<close> g(2) by (subst unat_add32) linarith+
  then have "unat ((?pos + of_nat (length ?d)) AND rb_Mask R) = (?t + record_pos R ds (Suc i)) mod ?n"
    using g(7) [of "?pos + of_nat (length ?d)"] pos(1) record_pos_Suc [OF ok i refl]
    by (simp add: mod_shift k_def add.assoc)
  moreover have "flatten_records b R n p out c Buffer = flatten_records b R n ((?pos + of_nat (length ?d)) AND rb_Mask R)
      (out + of_nat (length ?d)) (c + of_nat (length ?d)) B'"
    using ph a by (subst flatten_records.simps) (simp add: q(1,2) B'(1) Let_def uc)
  moreover have "unat (out + of_nat (length ?d)) = unat out + length ?d"
    using le n u64 by (subst unat_word_ariths) simp
  ultimately show ?thesis using B'(2) by blast
qed

lemma flatten_all:
  assumes inv: "ring_inv R ds" and out: "length (concat ds) \<le> unat n" "unat n \<le> length Buffer"
  shows "\<lbrakk>i \<le> length ds; unat p = (unat (rb_Tail R) + record_pos R ds i) mod ring_len R;
      unat out = length (concat (take i ds)); length B = length Buffer\<rbrakk> \<Longrightarrow>
    flatten_records b R n p out c B = Some (EFI_SUCCESS, c + of_nat (length (concat (drop i ds))),
      overlay B (unat out) (concat (drop i ds)))"
proof (induction "length ds - i" arbitrary: i p out c B)
  case 0
  then have "p = rb_Head R"
    using head_from_tail [OF ring_invD(1) [OF inv]] record_pos_all [OF inv] by (simp add: word_unat_eq_iff)
  with 0 show ?case by (simp add: flatten_records.simps overlay_def)
next
  case (Suc x)
  then have i: "i < length ds" by simp
  obtain p' B' where s: "flatten_records b R n p out c B =
      flatten_records b R n p' (out + of_nat (length (ds ! i))) (c + of_nat (length (ds ! i))) B'"
      "unat p' = (unat (rb_Tail R) + record_pos R ds (Suc i)) mod ring_len R"
      "mem_write B (unat out) (ds ! i) = Some B'" "unat (out + of_nat (length (ds ! i))) = unat out + length (ds ! i)"
    using flatten_step [OF inv i Suc.prems(2,3) out(1), of B b c] Suc.prems(4) out(2) by auto
  have "flatten_records b R n p' (out + of_nat (length (ds ! i))) (c + of_nat (length (ds ! i))) B' =
      Some (EFI_SUCCESS, c + of_nat (length (ds ! i)) + of_nat (length (concat (drop (Suc i) ds))),
        overlay B' (unat (out + of_nat (length (ds ! i)))) (concat (drop (Suc i) ds)))"
    using Suc.hyps(2) i s(2-4) Suc.prems(3,4) mem_write_length [OF s(3)]
    by (intro Suc.hyps(1)) (simp_all add: take_Suc_conv_app_nth)
  moreover have "overlay B' (unat out + length (ds ! i)) (concat (drop (Suc i) ds)) = overlay B (unat out) (concat (drop i ds))"
    using s(3) i by (auto simp: mem_write_Some overlay_def Cons_nth_drop_Suc [symmetric] ac_simps)
  ultimately show ?case using s(1,4) i by (simp add: Cons_nth_drop_Suc [symmetric] ac_simps)
qed

lemma flatten_records_all:
  assumes inv: "ring_inv R ds" and n: "bytes_used R < unat n" "unat n \<le> length Buffer"
  shows "RingBufferFlatten b R n Buffer =
    Some (EFI_SUCCESS, of_nat (length (concat ds)), concat ds @ drop (length (concat ds)) Buffer)"
proof -
  note ok = ring_invD(1) [OF inv]
  have "unat (rb_Size R - RingBufferBytesFree R) = bytes_used R + 1"
    using bytes_free [OF ok] bytes_used_lt [OF ok] by (subst unat_diff_le) (simp_all add: word_le_nat_alt)
  then have "\<not> n < rb_Size R - RingBufferBytesFree R" using n(1) by (simp add: word_less_nat_alt)
  moreover have "length (concat ds) \<le> unat n"
    using concat_le_span [of ds "ring_len R" "unat (rb_Tail R)"] ring_invD(2) [OF inv] n(1) by simp
  note flatten_all [OF inv this n(2), of 0 "rb_Tail R" 0 Buffer b 0]
  ultimately show ?thesis
    using ring_okD(6) [OF ok] by (simp add: RingBufferFlatten_def record_pos_def overlay_def)
qed

subsection \<open>Starting\<close>

lemma and_pred_0_power: "0 < n \<Longrightarrow> n AND (n - 1) = 0 \<Longrightarrow> \<exists>k. n = 2 ^ k" for n :: nat
proof (induction n rule: less_induct)
  case (less n)
  show ?case
  proof (cases "odd n")
    case True
    then obtain m where m: "n = 2 * m + 1" by (elim oddE)
    then have "n AND (n - 1) = 2 * m"
      by (simp add: and_nat_unfold [of "Suc (2 * m)"])
    then show ?thesis using less.prems m by (auto intro: exI [of _ 0])
  next
    case False
    then obtain m where m: "n = 2 * m" by (auto elim: evenE)
    then have "n - 1 = 2 * (m - 1) + 1" "0 < m" using less.prems(1) by auto
    then have "n AND (n - 1) = 2 * (m AND (m - 1))"
      using m by (simp add: and_nat_unfold [of "2 * m"])
    then have "m AND (m - 1) = 0" using less.prems(2) by simp
    then obtain k where "m = 2 ^ k" using less.IH [of m] m \<open>0 < m\<close> by auto
    then show ?thesis using m by (auto intro: exI [of _ "Suc k"])
  qed
qed

lemma power_of_two:
  fixes c :: u32
  assumes "5 \<le> c" "c AND (c - 1) = 0"
  shows "\<exists>k. 3 \<le> k \<and> k \<le> 31 \<and> c = 2 ^ k"
proof -
  have "unat (c AND (c - 1)) = unat c AND (unat c - 1)"
    using assms(1) by (simp add: unsigned_and_eq unat_diff_le word_le_nat_alt)
  then have "unat c AND (unat c - 1) = 0" using assms(2) by simp
  then obtain k where k: "unat c = 2 ^ k"
    using and_pred_0_power [of "unat c"] assms(1) by (auto simp: word_le_nat_alt)
  have "k < 32" using unat_lt32 [of c] k power_less_imp_less_exp [of 2 k 32] by simp
  moreover have "\<not> k < 3"
  proof
    assume "k < 3"
    then have "(2 :: nat) ^ k \<le> 2 ^ 2" by (intro power_increasing) simp_all
    then show False using k assms(1) by (simp add: word_le_nat_alt)
  qed
  moreover have "c = 2 ^ k" using k by (metis word_eq_of_nat of_nat_numeral of_nat_power)
  ultimately show ?thesis by (intro exI [of _ k]) simp
qed

lemma reset_empty: "ring_ok R \<Longrightarrow> ring_inv (RingBufferReset R) []"
  by (auto simp: RingBufferReset_def ring_inv_def ring_ok_def bytes_used_def ring_view_def word_gt_0)

lemma initialize_empty:
  assumes "5 \<le> Capacity" "Capacity AND (Capacity - 1) = 0" "length (rb_Buffer R) = unat Capacity"
  shows "\<exists>R'. RingBufferInitialize R Capacity Flags = (EFI_SUCCESS, R') \<and> ring_inv R' [] \<and>
    rb_Size R' = Capacity \<and> rb_Flags R' = Flags \<and> rb_HandleKey R' = 0"
proof -
  obtain k where k: "3 \<le> k" "k \<le> 31" "Capacity = 2 ^ k" using power_of_two [OF assms(1,2)] by blast
  have "ring_inv (RingBufferReset (R\<lparr>rb_Size := Capacity, rb_Mask := Capacity - 1, rb_Flags := Flags\<rparr>)) []"
    using assms(1,3) k
    by (auto simp: RingBufferReset_def ring_inv_def ring_ok_def bytes_used_def ring_view_def word_gt_0)
  with assms show ?thesis
    by (auto simp: RingBufferInitialize_def RingBufferReset_def not_less)
qed

end
