(* ===== verification/Handle_Table.thy ===== *)
theory Handle_Table
  imports Efi_Ring_Queue
begin

text \<open>
  The handle table of the event log, \<^verbatim>\<open>MsvmPkg/EventLogDxe/EfiHandleTable.c\<close>: a
  table of object pointers; a handle is an index, biased by one, tagged with the table's key.

  Pointers to objects have any type \<open>'p\<close>, a null entry is \<open>None\<close>. What an allocation
  returned is an argument of the function that allocates. Variables that the callers must
  provide are results, so their null checks do not appear. The memory behind object pointers,
  which the lookup by key reads, is a function from pointers to bytes.
\<close>

type_synonym efi_handle = u64

definition EFI_INVALID_HANDLE :: efi_handle where "EFI_INVALID_HANDLE = - 1"

definition HANDLE_TABLE_MAX_SIZE :: u32 where "HANDLE_TABLE_MAX_SIZE = 0xFFFF - 1"
definition HANDLE_TABLE_KEY_MASK :: u32 where "HANDLE_TABLE_KEY_MASK = 0x00FF0000"
definition HANDLE_TABLE_INDEX_MASK :: u32 where "HANDLE_TABLE_INDEX_MASK = 0x0000FFFF"

text \<open>\<open>ti_Allocate\<close>: the function pointer is not null.\<close>

record efi_handle_table_info =
  ti_Allocate :: bool
  ti_ObjectKeySize :: u64

record 'p efi_handle_table =
  ht_Info :: efi_handle_table_info
  ht_Size :: u32
  ht_TableKey :: u32
  ht_NextFree :: u32
  ht_Handles :: "'p option list"

definition HANDLE_TABLE_ENCODE :: "u32 \<Rightarrow> 'p efi_handle_table \<Rightarrow> efi_handle" where
  "HANDLE_TABLE_ENCODE index table = ucast ((index OR ht_TableKey table) + 1)"

definition HANDLE_TABLE_INDEX :: "efi_handle \<Rightarrow> u32" where
  "HANDLE_TABLE_INDEX handle = (ucast handle AND HANDLE_TABLE_INDEX_MASK) - 1"

definition HANDLE_TABLE_KEY :: "efi_handle \<Rightarrow> u32" where
  "HANDLE_TABLE_KEY handle = ucast handle AND HANDLE_TABLE_KEY_MASK"

text \<open>
  \<open>Table\<close>: the caller passed a variable for the table, which is written on every path;
  \<open>allocated\<close>: the allocation of the table succeeded.
\<close>

definition EfiHandleTableInitialize ::
  "efi_handle_table_info option \<Rightarrow> u32 \<Rightarrow> u8 \<Rightarrow> bool \<Rightarrow> bool
     \<Rightarrow> (efi_status \<times> 'p efi_handle_table option) option" where
  "EfiHandleTableInitialize Attributes Size TableKey Table allocated =
     (let (status, table) =
        (case Attributes of
           None \<Rightarrow> (EFI_INVALID_PARAMETER, None)
         | Some info \<Rightarrow>
             if \<not> Table \<or> Size = 0 \<or> HANDLE_TABLE_MAX_SIZE < Size \<or> \<not> ti_Allocate info
             then (EFI_INVALID_PARAMETER, None)
             else if \<not> allocated then (EFI_OUT_OF_RESOURCES, None)
             else (EFI_SUCCESS, Some \<lparr>ht_Info = info, ht_Size = Size, ht_TableKey = push_bit 16 (ucast TableKey),
               ht_NextFree = 0, ht_Handles = replicate (unat Size) None\<rparr>))
      in if Table then Some (status, table) else None)"

text \<open>The loop over the entries from \<open>NextFree\<close> on, for the first free one.\<close>

primrec free_entry :: "'p option list \<Rightarrow> u32 \<Rightarrow> u32" where
  "free_entry [] index = index"
| "free_entry (entry # entries) index = (if entry = None then index else free_entry entries (index + 1))"

definition EfiHandleTableAllocateObject ::
  "'p efi_handle_table \<Rightarrow> u64 \<Rightarrow> 'p option
     \<Rightarrow> efi_status \<times> 'p efi_handle_table \<times> 'p option \<times> efi_handle" where
  "EfiHandleTableAllocateObject table ObjectSize allocation =
     (if ObjectSize < ti_ObjectKeySize (ht_Info table)
      then (EFI_INVALID_PARAMETER, table, None, EFI_INVALID_HANDLE)
      else
        let index = free_entry (drop (unat (ht_NextFree table)) (ht_Handles table)) (ht_NextFree table) in
        if index < ht_Size table then
          (case allocation of
             None \<Rightarrow> (EFI_OUT_OF_RESOURCES, table, None, EFI_INVALID_HANDLE)
           | Some object \<Rightarrow>
               (EFI_SUCCESS,
                table\<lparr>ht_Handles := (ht_Handles table)[unat index := Some object],
                  ht_NextFree := ht_NextFree table + 1\<rparr>,
                Some object, HANDLE_TABLE_ENCODE index table))
        else (EFI_OUT_OF_RESOURCES, table, None, EFI_INVALID_HANDLE))"

text \<open>The linear search; \<open>bytes\<close> gives the memory of an object.\<close>

primrec find_key ::
  "('p \<Rightarrow> u8 list) \<Rightarrow> u8 list \<Rightarrow> u32 \<Rightarrow> 'p option list \<Rightarrow> u32 \<Rightarrow> ('p \<times> u32) option option" where
  "find_key bytes Key KeySize [] index = Some None"
| "find_key bytes Key KeySize (entry # entries) index =
     (case entry of
        None \<Rightarrow> find_key bytes Key KeySize entries (index + 1)
      | Some object \<Rightarrow> do {
          left \<leftarrow> mem_read (bytes object) 0 (unat KeySize);
          right \<leftarrow> mem_read Key 0 (unat KeySize);
          if left = right then Some (Some (object, index))
          else find_key bytes Key KeySize entries (index + 1)
        })"

definition EfiHandleTableLookupByKey ::
  "('p \<Rightarrow> u8 list) \<Rightarrow> 'p efi_handle_table \<Rightarrow> u8 list \<Rightarrow> u32 \<Rightarrow> ('p option \<times> efi_handle) option" where
  "EfiHandleTableLookupByKey bytes table Key KeySize =
     (if ucast KeySize \<le> ti_ObjectKeySize (ht_Info table) \<and> 0 < KeySize
      then do {
        found \<leftarrow> find_key bytes Key KeySize (ht_Handles table) 0;
        case found of
          None \<Rightarrow> Some (None, EFI_INVALID_HANDLE)
        | Some (object, index) \<Rightarrow> Some (Some object, HANDLE_TABLE_ENCODE index table)
      }
      else Some (None, EFI_INVALID_HANDLE))"

definition EfiHandleTableLookupByHandle :: "'p efi_handle_table \<Rightarrow> efi_handle \<Rightarrow> 'p option" where
  "EfiHandleTableLookupByHandle table Handle =
     (let index = HANDLE_TABLE_INDEX Handle in
      if Handle \<noteq> EFI_INVALID_HANDLE \<and> HANDLE_TABLE_KEY Handle = ht_TableKey table \<and> index < ht_Size table
      then ht_Handles table ! unat index else None)"

text \<open>
  The callback changes a state \<open>'s\<close>; its error stops the enumeration.
\<close>

primrec enumerate_entries ::
  "(efi_handle \<Rightarrow> 'p \<Rightarrow> 's \<Rightarrow> (efi_status \<times> 's) option) \<Rightarrow> 'p efi_handle_table \<Rightarrow> 'p option list \<Rightarrow> u32
     \<Rightarrow> efi_status \<Rightarrow> 's \<Rightarrow> (efi_status \<times> 's) option" where
  "enumerate_entries Callback table [] index status s = Some (status, s)"
| "enumerate_entries Callback table (entry # entries) index status s =
     (case entry of
        None \<Rightarrow> enumerate_entries Callback table entries (index + 1) status s
      | Some object \<Rightarrow> do {
          (status, s) \<leftarrow> Callback (HANDLE_TABLE_ENCODE index table) object s;
          if EFI_ERROR status then Some (status, s)
          else enumerate_entries Callback table entries (index + 1) status s
        })"

definition EfiHandleTableEnumerateObjects ::
  "(efi_handle \<Rightarrow> 'p \<Rightarrow> 's \<Rightarrow> (efi_status \<times> 's) option) \<Rightarrow> 'p efi_handle_table \<Rightarrow> 's
     \<Rightarrow> (efi_status \<times> 's) option" where
  "EfiHandleTableEnumerateObjects Callback table s =
     enumerate_entries Callback table (ht_Handles table) 0 EFI_SUCCESS s"

subsection \<open>Handles\<close>

lemma ucast_ucast64 [simp]: "ucast (ucast w :: u64) = w" for w :: u32
  by (rule bit_eqI) (auto simp: bit_simps dest: bit_imp_le_length)

lemma low_bits:
  fixes w :: u32
  assumes "unat w < 2 ^ 16" "bit w n"
  shows "n < 16"
proof -
  have "take_bit 16 w = w"
    using assms(1) by (simp add: word_unat_eq_iff unsigned_take_bit_eq take_bit_nat_eq_self)
  then show ?thesis using assms(2) by (metis bit_take_bit_iff)
qed

text \<open>The bias stays in the low half, so index and key are recovered from the handle.\<close>

lemma handle_encode_decode:
  assumes "unat index < 0xFFFE" "ht_TableKey table = push_bit 16 (ucast (key :: u8))"
  shows "HANDLE_TABLE_INDEX (HANDLE_TABLE_ENCODE index table) = index"
    "HANDLE_TABLE_KEY (HANDLE_TABLE_ENCODE index table) = ht_TableKey table"
    "HANDLE_TABLE_ENCODE index table \<noteq> EFI_INVALID_HANDLE"
proof -
  let ?k = "ht_TableKey table"
  have key: "bit ?k n \<longleftrightarrow> 16 \<le> n \<and> n < 24 \<and> bit key (n - 16)" for n
    using bit_imp_le_length [of key "n - 16"] by (auto simp: assms(2) bit_simps)
  have i1: "unat (index + 1) = unat index + 1" using assms(1) by (subst unat_add32) simp_all
  have lo: "bit (index + 1) n \<Longrightarrow> n < 16" "bit index n \<Longrightarrow> n < 16" for n
    using low_bits [of "index + 1" n] low_bits [of index n] i1 assms(1) by auto
  have "index OR ?k = index + ?k" "(index + 1) OR ?k = (index + 1) + ?k"
    using lo key by (fastforce intro: disjunctive_add [symmetric])+
  then have e: "(index OR ?k) + 1 = (index + 1) OR ?k" by (simp add: ac_simps)
  have m: "(0xFFFF :: u32) = mask 16" "(0xFF0000 :: u32) = push_bit 16 (mask 8)"
    by (simp_all add: mask_eq_exp_minus_1)
  have u: "ucast (HANDLE_TABLE_ENCODE index table) = (index + 1) OR ?k"
    by (simp add: HANDLE_TABLE_ENCODE_def e)
  have "((index + 1) OR ?k) AND mask 16 = index + 1" "((index + 1) OR ?k) AND push_bit 16 (mask 8) = ?k"
    by (auto intro!: bit_eqI simp: bit_simps key) (meson lo(1) not_less)+
  then show "HANDLE_TABLE_INDEX (HANDLE_TABLE_ENCODE index table) = index"
    "HANDLE_TABLE_KEY (HANDLE_TABLE_ENCODE index table) = ?k"
    by (simp_all add: HANDLE_TABLE_INDEX_def HANDLE_TABLE_KEY_def HANDLE_TABLE_INDEX_MASK_def HANDLE_TABLE_KEY_MASK_def
      m u del: push_bit_mask_eq)
  show "HANDLE_TABLE_ENCODE index table \<noteq> EFI_INVALID_HANDLE"
  proof
    assume "HANDLE_TABLE_ENCODE index table = EFI_INVALID_HANDLE"
    then have "(index + 1) OR ?k = ucast EFI_INVALID_HANDLE" using u by simp
    moreover have "bit (ucast EFI_INVALID_HANDLE :: u32) 31" by (simp add: EFI_INVALID_HANDLE_def bit_simps)
    ultimately have "bit ((index + 1) OR ?k) 31" by simp
    then show False using lo(1) [of 31] key [of 31] by (simp add: bit_simps)
  qed
qed

subsection \<open>The table\<close>

text \<open>
  Objects are never removed, so the entries in use are the ones before \<open>NextFree\<close>: the table
  holds the objects \<open>ps\<close> in this order.
\<close>

definition table_holds :: "'p efi_handle_table \<Rightarrow> 'p list \<Rightarrow> bool" where
  "table_holds table ps \<longleftrightarrow> 0 < ht_Size table \<and> ht_Size table \<le> HANDLE_TABLE_MAX_SIZE \<and>
     (\<exists>key :: u8. ht_TableKey table = push_bit 16 (ucast key)) \<and>
     unat (ht_NextFree table) = length ps \<and> length ps \<le> unat (ht_Size table) \<and>
     ht_Handles table = map Some ps @ replicate (unat (ht_Size table) - length ps) None"

lemma initialize_holds:
  assumes "0 < Size" "Size \<le> HANDLE_TABLE_MAX_SIZE" "ti_Allocate info"
  shows "\<exists>table. EfiHandleTableInitialize (Some info) Size key True True = Some (EFI_SUCCESS, Some table) \<and>
    table_holds table [] \<and> ht_Size table = Size \<and> ht_Info table = info \<and> ht_TableKey table = push_bit 16 (ucast key)"
  using assms by (auto simp: EfiHandleTableInitialize_def table_holds_def word_gt_0)

lemma table_size:
  assumes "table_holds table ps"
  shows "unat (ht_Size table) \<le> 0xFFFE" "i < length ps \<Longrightarrow> unat (of_nat i :: u32) = i"
proof -
  show s: "unat (ht_Size table) \<le> 0xFFFE"
    using assms by (simp add: table_holds_def HANDLE_TABLE_MAX_SIZE_def word_le_nat_alt)
  show "i < length ps \<Longrightarrow> unat (of_nat i :: u32) = i"
    using s assms by (intro unat_of_nat32) (simp add: table_holds_def)
qed

lemma lookup_index:
  assumes t: "table_holds table ps" and i: "i < unat (ht_Size table)"
  shows "EfiHandleTableLookupByHandle table (HANDLE_TABLE_ENCODE (of_nat i) table) =
    (if i < length ps then Some (ps ! i) else None)"
proof -
  obtain key :: u8 where key: "ht_TableKey table = push_bit 16 (ucast key)" using t by (auto simp: table_holds_def)
  have u: "unat (of_nat i :: u32) = i" using i table_size(1) [OF t] by (intro unat_of_nat32) simp
  then have "unat (of_nat i :: u32) < 0xFFFE" using i table_size(1) [OF t] by simp
  note handle_encode_decode [OF this key]
  moreover have "of_nat i < ht_Size table" using i u by (simp add: word_less_nat_alt)
  ultimately show ?thesis
    using t i u by (auto simp: EfiHandleTableLookupByHandle_def Let_def table_holds_def nth_append)
qed

lemma lookup_other_key:
  "HANDLE_TABLE_KEY h \<noteq> ht_TableKey table \<Longrightarrow> EfiHandleTableLookupByHandle table h = None"
  by (simp add: EfiHandleTableLookupByHandle_def Let_def)

text \<open>Every handle that is found is the handle of one of the objects.\<close>

lemma lookup_found:
  assumes t: "table_holds table ps" and "EfiHandleTableLookupByHandle table h = Some p"
  shows "\<exists>i < length ps. p = ps ! i \<and> HANDLE_TABLE_INDEX h = of_nat i"
proof -
  have "HANDLE_TABLE_INDEX h < ht_Size table" "ht_Handles table ! unat (HANDLE_TABLE_INDEX h) = Some p"
    using assms(2) by (auto simp: EfiHandleTableLookupByHandle_def Let_def split: if_splits)
  then show ?thesis
    using t by (intro exI [of _ "unat (HANDLE_TABLE_INDEX h)"])
      (auto simp: table_holds_def nth_append word_less_nat_alt split: if_splits)
qed

lemma allocate_object:
  assumes t: "table_holds table ps" and size: "ti_ObjectKeySize (ht_Info table) \<le> ObjectSize"
  shows "\<exists>table'. EfiHandleTableAllocateObject table ObjectSize allocation =
     (if length ps < unat (ht_Size table) \<and> allocation \<noteq> None
      then (EFI_SUCCESS, table', allocation, HANDLE_TABLE_ENCODE (of_nat (length ps)) table')
      else (EFI_OUT_OF_RESOURCES, table, None, EFI_INVALID_HANDLE)) \<and>
   (length ps < unat (ht_Size table) \<and> allocation \<noteq> None \<longrightarrow>
      table_holds table' (ps @ [the allocation]) \<and> ht_Size table' = ht_Size table \<and>
      ht_Info table' = ht_Info table \<and> ht_TableKey table' = ht_TableKey table)"
proof -
  let ?n = "unat (ht_Size table)"
  have n: "unat (ht_NextFree table) = length ps" "length ps \<le> ?n"
    and H: "ht_Handles table = map Some ps @ replicate (?n - length ps) None"
    using t by (simp_all add: table_holds_def)
  have nf: "ht_NextFree table = of_nat (length ps)" using n(1) by (rule word_eq_of_nat)
  have free: "free_entry (drop (length ps) (ht_Handles table)) (ht_NextFree table) = ht_NextFree table"
    using n(2) by (cases "?n - length ps") (simp_all add: H)
  define table' where "table' = table\<lparr>ht_Handles := (ht_Handles table)[length ps := allocation], ht_NextFree := ht_NextFree table + 1\<rparr>"
  have "table_holds table' (ps @ [the allocation])" if a: "length ps < ?n" "allocation \<noteq> None"
  proof -
    have "unat (ht_NextFree table + 1) = length ps + 1"
      using a n(1) table_size(1) [OF t] by (subst unat_add32) simp_all
    moreover have "(ht_Handles table)[length ps := allocation] =
        map Some (ps @ [the allocation]) @ replicate (?n - length (ps @ [the allocation])) None"
      using a by (cases "?n - length ps") (auto simp: H list_update_append)
    ultimately show ?thesis using t a by (simp add: table_holds_def table'_def)
  qed
  moreover have "ht_NextFree table < ht_Size table \<longleftrightarrow> length ps < ?n" using n(1) by (simp add: word_less_nat_alt)
  ultimately show ?thesis
    using size n(1) free by (intro exI [of _ table'])
      (auto simp: EfiHandleTableAllocateObject_def Let_def table'_def nf HANDLE_TABLE_ENCODE_def split: option.splits)
qed

subsection \<open>Search and enumeration\<close>

lemma find_key_none:
  assumes "\<And>p. p \<in> set ps \<Longrightarrow> unat n \<le> length (bytes p) \<and> take (unat n) (bytes p) \<noteq> take (unat n) Key"
    "unat n \<le> length Key"
  shows "find_key bytes Key n (map Some ps @ replicate m None) index = Some None"
proof -
  have "find_key bytes Key n (replicate m None) i = Some None" for i
    by (induction m arbitrary: i) simp_all
  then show ?thesis using assms by (induction ps arbitrary: index) auto
qed

lemma find_key_first:
  assumes "i < length ps" "\<And>j. j \<le> i \<Longrightarrow> unat n \<le> length (bytes (ps ! j))" "unat n \<le> length Key"
    "take (unat n) (bytes (ps ! i)) = take (unat n) Key"
    "\<And>j. j < i \<Longrightarrow> take (unat n) (bytes (ps ! j)) \<noteq> take (unat n) Key"
  shows "find_key bytes Key n (map Some ps @ rest) index = Some (Some (ps ! i, index + of_nat i))"
  using assms
proof (induction ps arbitrary: i index)
  case (Cons p ps)
  show ?case
  proof (cases i)
    case 0
    then show ?thesis using Cons.prems(2) [of 0] Cons.prems(3,4) by simp
  next
    case (Suc j)
    have "find_key bytes Key n (map Some ps @ rest) (index + 1) = Some (Some (ps ! j, index + 1 + of_nat j))"
    proof (rule Cons.IH)
      show "j < length ps" "unat n \<le> length Key" "take (unat n) (bytes (ps ! j)) = take (unat n) Key"
        using Cons.prems(1,3,4) Suc by simp_all
      show "unat n \<le> length (bytes (ps ! k))" if "k \<le> j" for k
        using Cons.prems(2) [of "Suc k"] Suc that by simp
      show "take (unat n) (bytes (ps ! k)) \<noteq> take (unat n) Key" if "k < j" for k
        using Cons.prems(5) [of "Suc k"] Suc that by simp
    qed
    then show ?thesis using Cons.prems(2) [of 0] Cons.prems(3) Cons.prems(5) [of 0] Suc by (simp add: ac_simps)
  qed
qed simp

text \<open>An invariant \<open>I\<close> over the number of objects visited, for callbacks that succeed.\<close>

lemma enumerate_entries_rule:
  assumes "\<And>i s. i < length ps \<Longrightarrow> I i s \<Longrightarrow>
      runs (cb (HANDLE_TABLE_ENCODE (index + of_nat i) table) (ps ! i) s) (\<lambda>(st, s'). st = EFI_SUCCESS \<and> I (Suc i) s')"
    and "I 0 s"
  shows "runs (enumerate_entries cb table (map Some ps @ replicate m None) index EFI_SUCCESS s)
    (\<lambda>(st, s'). st = EFI_SUCCESS \<and> I (length ps) s')"
  using assms
proof (induction ps arbitrary: I index s)
  case Nil
  have "enumerate_entries cb table (replicate m None) i EFI_SUCCESS s = Some (EFI_SUCCESS, s)" for i
    by (induction m arbitrary: i) simp_all
  with Nil show ?case by (simp add: runs_def)
next
  case (Cons p ps)
  have "runs (enumerate_entries cb table (map Some ps @ replicate m None) (index + 1) EFI_SUCCESS s')
      (\<lambda>(st, s'). st = EFI_SUCCESS \<and> I (Suc (length ps)) s')" if "I (Suc 0) s'" for s'
    using that Cons.prems(1) [of "Suc _"]
    by (intro Cons.IH [where I = "\<lambda>i. I (Suc i)"]) (simp_all add: ac_simps)
  then show ?case
    using Cons.prems(1) [of 0 s] Cons.prems(2) by (auto simp: runs_def)
qed

subsection \<open>The interface of the table\<close>

locale object_table =
  fixes holds :: "'t \<Rightarrow> 'p list \<Rightarrow> bool"
    and capacity :: "'t \<Rightarrow> nat"
    and handle :: "'t \<Rightarrow> nat \<Rightarrow> efi_handle"
    and lookup :: "'t \<Rightarrow> efi_handle \<Rightarrow> 'p option"
    and add :: "'t \<Rightarrow> 'p \<Rightarrow> 't"
  assumes lookup_handle: "holds t ps \<Longrightarrow> i < capacity t \<Longrightarrow>
      lookup t (handle t i) = (if i < length ps then Some (ps ! i) else None)"
    and add_holds: "holds t ps \<Longrightarrow> length ps < capacity t \<Longrightarrow> holds (add t p) (ps @ [p])"
    and add_same: "holds t ps \<Longrightarrow> length ps < capacity t \<Longrightarrow>
      capacity (add t p) = capacity t \<and> handle (add t p) = handle t"
begin

text \<open>A new handle finds the new object; all others find what they found before.\<close>

lemma lookup_after_add:
  assumes "holds t ps" "length ps < capacity t"
  shows "lookup (add t p) (handle t (length ps)) = Some p"
    and "i < capacity t \<Longrightarrow> i \<noteq> length ps \<Longrightarrow> lookup (add t p) (handle t i) = lookup t (handle t i)"
proof -
  note a = lookup_handle [OF add_holds [OF assms, of p]] and s = add_same [OF assms, of p]
  show "lookup (add t p) (handle t (length ps)) = Some p" using a [of "length ps"] s assms by simp
  assume "i < capacity t" "i \<noteq> length ps"
  then show "lookup (add t p) (handle t i) = lookup t (handle t i)"
    using a [of i] s lookup_handle [OF assms(1), of i] by (auto simp: nth_append)
qed

lemma new_handle_was_free:
  "holds t ps \<Longrightarrow> length ps < capacity t \<Longrightarrow> lookup t (handle t (length ps)) = None"
  by (simp add: lookup_handle)

end

definition add_object :: "'p efi_handle_table \<Rightarrow> 'p \<Rightarrow> 'p efi_handle_table" where
  "add_object table p =
     fst (snd (EfiHandleTableAllocateObject table (ti_ObjectKeySize (ht_Info table)) (Some p)))"

interpretation ht: object_table table_holds "\<lambda>t. unat (ht_Size t)" "\<lambda>t i. HANDLE_TABLE_ENCODE (of_nat i) t"
  EfiHandleTableLookupByHandle add_object
proof
  fix t :: "'p efi_handle_table" and ps i and p :: 'p
  assume t: "table_holds t ps"
  show "i < unat (ht_Size t) \<Longrightarrow> EfiHandleTableLookupByHandle t (HANDLE_TABLE_ENCODE (of_nat i) t) =
      (if i < length ps then Some (ps ! i) else None)"
    by (rule lookup_index [OF t])
  assume "length ps < unat (ht_Size t)"
  then obtain t' where "EfiHandleTableAllocateObject t (ti_ObjectKeySize (ht_Info t)) (Some p) =
      (EFI_SUCCESS, t', Some p, HANDLE_TABLE_ENCODE (of_nat (length ps)) t')"
      "table_holds t' (ps @ [p])" "ht_Size t' = ht_Size t" "ht_TableKey t' = ht_TableKey t"
    using allocate_object [OF t order_refl, of "Some p"] by auto
  then show "table_holds (add_object t p) (ps @ [p])"
    "unat (ht_Size (add_object t p)) = unat (ht_Size t) \<and>
     (\<lambda>i. HANDLE_TABLE_ENCODE (of_nat i) (add_object t p)) = (\<lambda>i. HANDLE_TABLE_ENCODE (of_nat i) t)"
    by (simp_all add: add_object_def HANDLE_TABLE_ENCODE_def)
qed

end
