(* ===== verification/Event_Logger.thy ===== *)
theory Event_Logger
  imports Handle_Table
begin

text \<open>
  The event log protocol, \<^verbatim>\<open>MsvmPkg/EventLogDxe/EventLogger.c\<close>: event channels,
  each with a ring buffer and at most one pending event whose data is cached outside the ring.

  Channels are objects behind pointers (numbers) of the handle table. What the environment
  returned is an argument: allocations, the performance counter, the current task priority
  level, the isolation configuration. A lock is a flag, acquired and released under the
  assertions that \<^verbatim>\<open>EfiAcquireLock\<close> and \<^verbatim>\<open>EfiReleaseLock\<close> document.
\<close>

subsection \<open>Events\<close>

type_synonym guid = "128 word"

definition EVENT_FLAG_PENDING :: u32 where "EVENT_FLAG_PENDING = 1"
definition EVENT_FLAG_INCOMPLETE :: u32 where "EVENT_FLAG_INCOMPLETE = 2"
definition EVENT_CHANNEL_FIXED_RECORDS :: u32 where "EVENT_CHANNEL_FIXED_RECORDS = 1"
definition EVENT_CHANNEL_OVERWRITE_RECORDS :: u32 where "EVENT_CHANNEL_OVERWRITE_RECORDS = 2"
definition INVALID_EVENT_HANDLE :: efi_handle where "INVALID_EVENT_HANDLE = - 1"
definition EVENT_ENUM_BUFFER_STEP_SIZE :: u32 where "EVENT_ENUM_BUFFER_STEP_SIZE = 256"
definition TPL_NOTIFY :: u64 where "TPL_NOTIFY = 16"

record efi_event_descriptor =
  ed_Producer :: guid
  ed_CorrelationId :: guid
  ed_CreateTime :: u64
  ed_CommitTime :: u64
  ed_EventId :: u32
  ed_Flags :: u32
  ed_HeaderSize :: u32
  ed_DataSize :: u32

text \<open>The structure as it lies in memory, 64 bytes, and the structure read from memory.\<close>

definition SIZEOF_EFI_EVENT_DESCRIPTOR :: u32 where "SIZEOF_EFI_EVENT_DESCRIPTOR = 64"

definition descriptor_bytes :: "efi_event_descriptor \<Rightarrow> u8 list" where
  "descriptor_bytes e = le_bytes 16 (ed_Producer e) @ le_bytes 16 (ed_CorrelationId e) @
     le_bytes 8 (ed_CreateTime e) @ le_bytes 8 (ed_CommitTime e) @ le_bytes 4 (ed_EventId e) @
     le_bytes 4 (ed_Flags e) @ le_bytes 4 (ed_HeaderSize e) @ le_bytes 4 (ed_DataSize e)"

definition descriptor_of_bytes :: "u8 list \<Rightarrow> efi_event_descriptor" where
  "descriptor_of_bytes bs = \<lparr>
     ed_Producer = of_le_bytes (take 16 bs),
     ed_CorrelationId = of_le_bytes (take 16 (drop 16 bs)),
     ed_CreateTime = of_le_bytes (take 8 (drop 32 bs)),
     ed_CommitTime = of_le_bytes (take 8 (drop 40 bs)),
     ed_EventId = of_le_bytes (take 4 (drop 48 bs)),
     ed_Flags = of_le_bytes (take 4 (drop 52 bs)),
     ed_HeaderSize = of_le_bytes (take 4 (drop 56 bs)),
     ed_DataSize = of_le_bytes (take 4 (drop 60 bs))\<rparr>"

definition zero_descriptor :: efi_event_descriptor where
  "zero_descriptor = \<lparr>ed_Producer = 0, ed_CorrelationId = 0, ed_CreateTime = 0, ed_CommitTime = 0,
     ed_EventId = 0, ed_Flags = 0, ed_HeaderSize = 0, ed_DataSize = 0\<rparr>"

subsection \<open>Channels\<close>

text \<open>\<open>pe_Cache\<close> is the block behind the pointer, \<open>None\<close> if the pointer is null.\<close>

record event_pending_info =
  pe_Handle :: ring_handle
  pe_Metadata :: efi_event_descriptor
  pe_CacheSize :: u64
  pe_Cache :: "u8 list option"

record event_channel_info =
  ci_Tpl :: u64
  ci_Flags :: u32
  ci_RecordSize :: u32
  ci_BufferSize :: u32

record event_channel_statistics =
  cs_Written :: u32
  cs_Lost :: u32
  cs_Reset :: u32
  cs_Flush :: u32

record event_channel =
  ec_Id :: guid
  ec_Attributes :: event_channel_info
  ec_Pending :: event_pending_info
  ec_Lock :: bool
  ec_Stats :: event_channel_statistics
  ec_Ring :: efi_ring_buffer

text \<open>A channel in zeroed memory, with a buffer of the given size behind it.\<close>

definition zero_channel :: "u32 \<Rightarrow> event_channel" where
  "zero_channel BufferSize = \<lparr>ec_Id = 0,
     ec_Attributes = \<lparr>ci_Tpl = 0, ci_Flags = 0, ci_RecordSize = 0, ci_BufferSize = 0\<rparr>,
     ec_Pending = \<lparr>pe_Handle = 0, pe_Metadata = zero_descriptor, pe_CacheSize = 0, pe_Cache = None\<rparr>,
     ec_Lock = False,
     ec_Stats = \<lparr>cs_Written = 0, cs_Lost = 0, cs_Reset = 0, cs_Flush = 0\<rparr>,
     ec_Ring = \<lparr>rb_Size = 0, rb_Mask = 0, rb_Head = 0, rb_Tail = 0, rb_Flags = 0,
       rb_Stats = \<lparr>LostWrites = 0, Reserve = 0, Remove = 0\<rparr>, rb_HandleKey = 0,
       rb_Buffer = replicate (unat BufferSize) 0\<rparr>\<rparr>"

text \<open>
  The global state: the handle table and the channels behind its pointers. The data the host
  received through the BIOS device is recorded in \<open>el_Flushed\<close>.
\<close>

record bios_event_channel =
  bc_Channel :: guid
  bc_EventsWritten :: u32
  bc_EventsLost :: u32
  bc_DataSize :: u32
  bc_Data :: "u8 list"

record event_log =
  mEventChannels :: "nat efi_handle_table"
  el_Objects :: "nat \<Rightarrow> event_channel option"
  el_Flushed :: "bios_event_channel list"

definition EventChannelLock :: "build \<Rightarrow> event_channel \<Rightarrow> event_channel option" where
  "EventChannelLock b channel = do { ASSERT b (\<not> ec_Lock channel); Some (channel\<lparr>ec_Lock := True\<rparr>) }"

definition EventChannelUnlock :: "build \<Rightarrow> event_channel \<Rightarrow> event_channel option" where
  "EventChannelUnlock b channel = do { ASSERT b (ec_Lock channel); Some (channel\<lparr>ec_Lock := False\<rparr>) }"

text \<open>The bytes of the object at a pointer that the table compares: the channel's GUID.\<close>

definition object_bytes :: "event_log \<Rightarrow> nat \<Rightarrow> u8 list" where
  "object_bytes s p = (case el_Objects s p of None \<Rightarrow> [] | Some channel \<Rightarrow> le_bytes 16 (ec_Id channel))"

definition EventChannelFromGuid :: "event_log \<Rightarrow> guid \<Rightarrow> (nat option \<times> efi_handle) option" where
  "EventChannelFromGuid s Channel = do {
     (channel, Handle) \<leftarrow> EfiHandleTableLookupByKey (object_bytes s) (mEventChannels s) (le_bytes 16 Channel) 16;
     Some (if channel \<noteq> None then (channel, Handle) else (None, INVALID_EVENT_HANDLE))
   }"

definition EventChannelFromHandle :: "event_log \<Rightarrow> efi_handle \<Rightarrow> nat option" where
  "EventChannelFromHandle s Channel =
     (if Channel = INVALID_EVENT_HANDLE then None
      else EfiHandleTableLookupByHandle (mEventChannels s) Channel)"

subsection \<open>Pending events\<close>

definition EventPendingCleanup :: "event_channel \<Rightarrow> event_channel" where
  "EventPendingCleanup Channel = Channel\<lparr>ec_Pending :=
     (ec_Pending Channel)\<lparr>pe_Metadata := zero_descriptor, pe_Handle := INVALID_RING_HANDLE\<rparr>\<rparr>"

text \<open>\<open>now\<close>: the performance counter.\<close>

definition EventPendingCommitInternal ::
  "build \<Rightarrow> u64 \<Rightarrow> event_channel \<Rightarrow> (efi_status \<times> event_channel) option" where
  "EventPendingCommitInternal b now Channel = do {
     let Metadata = pe_Metadata (ec_Pending Channel);
     let Metadata = Metadata\<lparr>ed_Flags := ed_Flags Metadata AND NOT EVENT_FLAG_PENDING, ed_CommitTime := now\<rparr>;
     let Channel = Channel\<lparr>ec_Pending := (ec_Pending Channel)\<lparr>pe_Metadata := Metadata\<rparr>\<rparr>;
     (status, ring, _) \<leftarrow> RingBufferIo b (ec_Ring Channel) (pe_Handle (ec_Pending Channel)) DataWrite 0
       (descriptor_bytes Metadata) SIZEOF_EFI_EVENT_DESCRIPTOR;
     let Channel = Channel\<lparr>ec_Ring := ring\<rparr>;
     ASSERT b (\<not> EFI_ERROR status);
     (status, Channel) \<leftarrow> (case pe_Cache (ec_Pending Channel) of
         None \<Rightarrow> Some (status, Channel)
       | Some Cache \<Rightarrow>
           if 0 < ed_DataSize Metadata then do {
             (status, ring, _) \<leftarrow> RingBufferIo b (ec_Ring Channel) (pe_Handle (ec_Pending Channel)) DataWrite
               SIZEOF_EFI_EVENT_DESCRIPTOR Cache (ed_DataSize Metadata);
             ASSERT b (\<not> EFI_ERROR status);
             Some (status, Channel\<lparr>ec_Ring := ring\<rparr>)
           }
           else Some (status, Channel));
     Some (status, EventPendingCleanup Channel)
   }"

text \<open>\<^verbatim>\<open>Pending.Metadata.Flags |= EVENT_FLAG_INCOMPLETE\<close>\<close>

definition mark_incomplete :: "event_channel \<Rightarrow> event_channel" where
  "mark_incomplete channel = channel\<lparr>ec_Pending := (ec_Pending channel)\<lparr>pe_Metadata :=
     (pe_Metadata (ec_Pending channel))\<lparr>ed_Flags :=
       ed_Flags (pe_Metadata (ec_Pending channel)) OR EVENT_FLAG_INCOMPLETE\<rparr>\<rparr>\<rparr>"

subsection \<open>Logging\<close>

text \<open>
  What the environment answers while an event is logged: the performance counter for the new
  event and for a forced commit, the current task priority level, and whether the pool has
  memory for a larger cache.
\<close>

record log_env =
  le_Now :: u64
  le_CommitNow :: u64
  le_Tpl :: u64
  le_Memory :: bool

text \<open>\<^verbatim>\<open>ReallocatePool\<close>: a zeroed block with the old contents copied into it.\<close>

definition ReallocatePool :: "u8 list option \<Rightarrow> nat \<Rightarrow> u8 list" where
  "ReallocatePool OldBuffer NewSize =
     (let old = (case OldBuffer of None \<Rightarrow> [] | Some bs \<Rightarrow> take NewSize bs)
      in old @ replicate (NewSize - length old) 0)"

text \<open>Step 1: grow the cache for the data of a pending event; the flag tells whether this failed.\<close>

definition grow_cache ::
  "build \<Rightarrow> log_env \<Rightarrow> efi_event_descriptor \<Rightarrow> u8 list option \<Rightarrow> event_channel \<Rightarrow> (bool \<times> event_channel) option" where
  "grow_cache b env Event Data channel =
     (if ed_Flags Event AND EVENT_FLAG_PENDING \<noteq> 0 \<and> Data \<noteq> None \<and> ed_DataSize Event \<noteq> 0 \<and>
         pe_CacheSize (ec_Pending channel) < ucast (ed_DataSize Event)
      then do {
        ASSERT b (le_Tpl env \<le> TPL_NOTIFY);
        if \<not> le_Memory env then Some (True, channel)
        else Some (False, channel\<lparr>ec_Pending := (ec_Pending channel)\<lparr>
          pe_Cache := Some (ReallocatePool (pe_Cache (ec_Pending channel)) (unat (ed_DataSize Event))),
          pe_CacheSize := ucast (ed_DataSize Event)\<rparr>\<rparr>)
      }
      else Some (False, channel))"

text \<open>Step 4, pending: commit the previous pending event and cache the data of the new one.\<close>

definition pend_event ::
  "build \<Rightarrow> log_env \<Rightarrow> efi_event_descriptor \<Rightarrow> ring_handle \<Rightarrow> efi_event_descriptor \<Rightarrow> u8 list option
     \<Rightarrow> event_channel \<Rightarrow> event_channel option" where
  "pend_event b env Event eventHandle eventMeta Data channel = do {
     channel \<leftarrow> (if pe_Handle (ec_Pending channel) \<noteq> INVALID_RING_HANDLE
       then map_option snd (EventPendingCommitInternal b (le_CommitNow env) (mark_incomplete channel))
       else Some channel);
     let channel = channel\<lparr>ec_Pending := (ec_Pending channel)\<lparr>pe_Handle := eventHandle, pe_Metadata := eventMeta\<rparr>\<rparr>;
     ASSERT b (ucast (ed_DataSize Event) \<le> pe_CacheSize (ec_Pending channel));
     if ed_DataSize Event = 0 then Some channel
     else do {
       Cache \<leftarrow> pe_Cache (ec_Pending channel);
       bytes \<leftarrow> Data;
       src \<leftarrow> mem_read bytes 0 (unat (ed_DataSize Event));
       Cache \<leftarrow> mem_write Cache 0 src;
       Some (channel\<lparr>ec_Pending := (ec_Pending channel)\<lparr>pe_Cache := Some Cache\<rparr>\<rparr>)
     }
   }"

text \<open>The descriptor that is written: time stamps, header size and the pending flag are set here.\<close>

definition event_meta :: "log_env \<Rightarrow> efi_event_descriptor \<Rightarrow> efi_event_descriptor" where
  "event_meta env Event = Event\<lparr>ed_HeaderSize := SIZEOF_EFI_EVENT_DESCRIPTOR,
     ed_Flags := ed_Flags Event AND EVENT_FLAG_PENDING, ed_CreateTime := le_Now env,
     ed_CommitTime := (if ed_Flags Event AND EVENT_FLAG_PENDING \<noteq> 0 then 0 else le_Now env)\<rparr>"

text \<open>The part of \<^verbatim>\<open>EventLog\<close> between lock and unlock.\<close>

definition log_event ::
  "build \<Rightarrow> log_env \<Rightarrow> efi_event_descriptor \<Rightarrow> u8 list option \<Rightarrow> event_channel
     \<Rightarrow> (efi_status \<times> event_channel) option" where
  "log_event b env Event Data channel = do {
     (failed, channel) \<leftarrow> grow_cache b env Event Data channel;
     if failed then Some (EFI_OUT_OF_RESOURCES, channel)
     else do {
       (status, ring, eventHandle) \<leftarrow> RingBufferReserve b (ec_Ring channel)
         (ed_DataSize Event + SIZEOF_EFI_EVENT_DESCRIPTOR);
       let channel = channel\<lparr>ec_Ring := ring\<rparr>;
       if EFI_ERROR status then Some (status, channel)
       else do {
         let eventMeta = event_meta env Event;
         (status, ring, _) \<leftarrow> RingBufferIo b (ec_Ring channel) eventHandle DataWrite 0
           (descriptor_bytes eventMeta) SIZEOF_EFI_EVENT_DESCRIPTOR;
         let channel = channel\<lparr>ec_Ring := ring\<rparr>;
         if EFI_ERROR status then do { ASSERT b False; Some (status, channel) }
         else do {
           (status, channel) \<leftarrow>
             (if ed_Flags Event AND EVENT_FLAG_PENDING \<noteq> 0
              then map_option (Pair status) (pend_event b env Event eventHandle eventMeta Data channel)
              else (case Data of
                  None \<Rightarrow> Some (status, channel)
                | Some bytes \<Rightarrow>
                    if ed_DataSize Event \<noteq> 0 then do {
                      (status, ring, _) \<leftarrow> RingBufferIo b (ec_Ring channel) eventHandle DataWrite
                        SIZEOF_EFI_EVENT_DESCRIPTOR bytes (ed_DataSize Event);
                      Some (status, channel\<lparr>ec_Ring := ring\<rparr>)
                    }
                    else Some (status, channel)));
           if EFI_ERROR status then do { ASSERT b False; Some (status, channel) }
           else Some (status, channel\<lparr>ec_Stats := (ec_Stats channel)\<lparr>cs_Written := cs_Written (ec_Stats channel) + 1\<rparr>\<rparr>)
         }
       }
     }
   }"

text \<open>Run a function on the channel behind a pointer, under the channel's lock.\<close>

definition with_channel ::
  "build \<Rightarrow> event_log \<Rightarrow> nat \<Rightarrow> (event_channel \<Rightarrow> ('a \<times> event_channel) option) \<Rightarrow> ('a \<times> event_log) option" where
  "with_channel b s p f = do {
     channel \<leftarrow> el_Objects s p;
     channel \<leftarrow> EventChannelLock b channel;
     (r, channel) \<leftarrow> f channel;
     channel \<leftarrow> EventChannelUnlock b channel;
     Some (r, s\<lparr>el_Objects := (el_Objects s)(p \<mapsto> channel)\<rparr>)
   }"

definition EventLog ::
  "build \<Rightarrow> log_env \<Rightarrow> event_log \<Rightarrow> efi_handle \<Rightarrow> efi_event_descriptor option \<Rightarrow> u8 list option
     \<Rightarrow> (efi_status \<times> event_log) option" where
  "EventLog b env s Channel Event Data =
     (case EventChannelFromHandle s Channel of
        None \<Rightarrow> Some (EFI_NOT_FOUND, s)
      | Some channel \<Rightarrow>
          (case Event of
             None \<Rightarrow> Some (EFI_INVALID_PARAMETER, s)
           | Some Event \<Rightarrow> with_channel b s channel (log_event b env Event Data)))"

text \<open>
  Returns the status, the metadata and the pointer to the cached data, through which the caller
  may change the data of the pending event until it is committed.
\<close>

definition pending_get ::
  "build \<Rightarrow> event_channel
     \<Rightarrow> ((efi_status \<times> efi_event_descriptor option \<times> u8 list option) \<times> event_channel) option" where
  "pending_get b channel = do {
     status \<leftarrow> RingBufferHandleIsValid b (ec_Ring channel) (pe_Handle (ec_Pending channel));
     if EFI_ERROR status then Some ((EFI_NOT_FOUND, None, None), EventPendingCleanup channel)
     else Some ((EFI_SUCCESS, Some (pe_Metadata (ec_Pending channel)), pe_Cache (ec_Pending channel)), channel)
   }"

definition EventPendingGet ::
  "build \<Rightarrow> event_log \<Rightarrow> efi_handle
     \<Rightarrow> ((efi_status \<times> efi_event_descriptor option \<times> u8 list option) \<times> event_log) option" where
  "EventPendingGet b s Channel =
     (case EventChannelFromHandle s Channel of
        None \<Rightarrow> Some ((EFI_NOT_FOUND, None, None), s)
      | Some channel \<Rightarrow> with_channel b s channel (pending_get b))"

definition pending_commit :: "build \<Rightarrow> u64 \<Rightarrow> event_channel \<Rightarrow> (efi_status \<times> event_channel) option" where
  "pending_commit b now channel = do {
     status \<leftarrow> RingBufferHandleIsValid b (ec_Ring channel) (pe_Handle (ec_Pending channel));
     if EFI_ERROR status then Some (EFI_NOT_FOUND, EventPendingCleanup channel)
     else EventPendingCommitInternal b now channel
   }"

definition EventPendingCommit ::
  "build \<Rightarrow> u64 \<Rightarrow> event_log \<Rightarrow> efi_handle \<Rightarrow> (efi_status \<times> event_log) option" where
  "EventPendingCommit b now s Channel =
     (case EventChannelFromHandle s Channel of
        None \<Rightarrow> Some (EFI_NOT_FOUND, s)
      | Some channel \<Rightarrow> with_channel b s channel (pending_commit b now))"

subsection \<open>Creating, resetting and flushing channels\<close>

text \<open>\<open>allocation\<close>: the pointer the pool returned for the channel, if one is allocated.\<close>

definition EventChannelCreate ::
  "build \<Rightarrow> nat option \<Rightarrow> event_log \<Rightarrow> guid \<Rightarrow> event_channel_info option
     \<Rightarrow> (efi_status \<times> efi_handle \<times> event_log) option" where
  "EventChannelCreate b allocation s Channel Attributes = do {
     (channel, handle) \<leftarrow> EventChannelFromGuid s Channel;
     if channel \<noteq> None then Some (EFI_SUCCESS, handle, s)
     else
       (case Attributes of
          None \<Rightarrow> Some (EFI_NOT_FOUND, handle, s)
        | Some Attributes \<Rightarrow>
            if ci_BufferSize Attributes AND (ci_BufferSize Attributes - 1) \<noteq> 0
            then Some (EFI_INVALID_PARAMETER, handle, s)
            else if ci_Flags Attributes AND EVENT_CHANNEL_FIXED_RECORDS \<noteq> 0 \<and>
              (ci_RecordSize Attributes = 0 \<or> ci_BufferSize Attributes mod ci_RecordSize Attributes \<noteq> 0)
            then Some (EFI_INVALID_PARAMETER, handle, s)
            else do {
              let (status, table, object, handle) = EfiHandleTableAllocateObject (mEventChannels s)
                (208 + ucast (ci_BufferSize Attributes)) allocation;
              let s = s\<lparr>mEventChannels := table\<rparr>;
              if EFI_ERROR status then Some (status, handle, s)
              else do {
                p \<leftarrow> object;
                let channel = zero_channel (ci_BufferSize Attributes);
                let (status, ring) = RingBufferInitialize (ec_Ring channel) (ci_BufferSize Attributes)
                  (if ci_Flags Attributes AND EVENT_CHANNEL_OVERWRITE_RECORDS \<noteq> 0 then RING_BUFFER_OVERWRITE else 0);
                let channel = channel\<lparr>ec_Id := Channel, ec_Attributes := Attributes,
                  ec_Pending := (ec_Pending channel)\<lparr>pe_Handle := INVALID_RING_HANDLE, pe_Cache := None, pe_CacheSize := 0\<rparr>,
                  ec_Ring := ring\<rparr>;
                ASSERT b (\<not> EFI_ERROR status);
                Some (status, handle, s\<lparr>el_Objects := (el_Objects s)(p \<mapsto> channel)\<rparr>)
              }
            })
   }"

definition channel_reset :: "event_channel \<Rightarrow> event_channel" where
  "channel_reset channel =
     (let channel = EventPendingCleanup channel in
      channel\<lparr>ec_Stats := (ec_Stats channel)\<lparr>cs_Reset := cs_Reset (ec_Stats channel) + 1, cs_Written := 0\<rparr>,
        ec_Ring := RingBufferReset (ec_Ring channel)\<rparr>)"

definition EventChannelResetCallback ::
  "build \<Rightarrow> efi_handle \<Rightarrow> nat \<Rightarrow> event_log \<Rightarrow> (efi_status \<times> event_log) option" where
  "EventChannelResetCallback b ObjectHandle Object s =
     with_channel b s Object (\<lambda>channel. Some (EFI_SUCCESS, channel_reset channel))"

definition EventChannelReset :: "build \<Rightarrow> event_log \<Rightarrow> efi_handle \<Rightarrow> (efi_status \<times> event_log) option" where
  "EventChannelReset b s Channel =
     (if Channel = INVALID_EVENT_HANDLE
      then EfiHandleTableEnumerateObjects (EventChannelResetCallback b) (mEventChannels s) s
      else (case EventChannelFromHandle s Channel of
          None \<Rightarrow> Some (EFI_NOT_FOUND, s)
        | Some channel \<Rightarrow> EventChannelResetCallback b Channel channel s))"

text \<open>
  What the environment answers while a channel is flushed: the pages below 4 GB, if they could
  be allocated (\<open>fe_Data\<close> is the part after the header), the configuration of the machine, the
  result of making the pages visible to the host, and the performance counter.
\<close>

record flush_env =
  fe_Data :: "u8 list option"
  fe_Isolated :: bool
  fe_HostEmulators :: bool
  fe_Visible :: efi_status
  fe_Now :: u64

text \<open>The part of the callback between lock and unlock; also returns what is sent to the host.\<close>

definition flush_channel ::
  "build \<Rightarrow> flush_env \<Rightarrow> u8 list \<Rightarrow> event_channel
     \<Rightarrow> ((efi_status \<times> bios_event_channel list) \<times> event_channel) option" where
  "flush_channel b env Data channel =
     (if fe_Isolated env \<and> fe_HostEmulators env \<and> EFI_ERROR (fe_Visible env)
      then Some ((fe_Visible env, []), channel)
      else do {
        channel \<leftarrow> (if pe_Handle (ec_Pending channel) \<noteq> INVALID_RING_HANDLE
          then map_option snd (EventPendingCommitInternal b (fe_Now env) (mark_incomplete channel))
          else Some channel);
        (_, DataSize, Data) \<leftarrow> RingBufferFlatten b (ec_Ring channel) (rb_Size (ec_Ring channel)) Data;
        let descriptor = \<lparr>bc_Channel = ec_Id channel, bc_EventsWritten = cs_Written (ec_Stats channel),
          bc_EventsLost = LostWrites (rb_Stats (ec_Ring channel)), bc_DataSize = DataSize, bc_Data = Data\<rparr>;
        let flushed = (if fe_Isolated env \<and> \<not> fe_HostEmulators env then [] else [descriptor]);
        Some ((EFI_SUCCESS, flushed),
          channel\<lparr>ec_Stats := (ec_Stats channel)\<lparr>cs_Flush := cs_Flush (ec_Stats channel) + 1\<rparr>\<rparr>)
      })"

definition EventChannelFlushCallback ::
  "build \<Rightarrow> (nat \<Rightarrow> flush_env) \<Rightarrow> efi_handle \<Rightarrow> nat \<Rightarrow> event_log \<Rightarrow> (efi_status \<times> event_log) option" where
  "EventChannelFlushCallback b env ObjectHandle Object s =
     (case fe_Data (env Object) of
        None \<Rightarrow> Some (EFI_OUT_OF_RESOURCES, s)
      | Some Data \<Rightarrow> do {
          ((status, flushed), s) \<leftarrow> with_channel b s Object (flush_channel b (env Object) Data);
          Some (status, s\<lparr>el_Flushed := el_Flushed s @ flushed\<rparr>)
        })"

definition EventChannelFlush ::
  "build \<Rightarrow> (nat \<Rightarrow> flush_env) \<Rightarrow> event_log \<Rightarrow> efi_handle \<Rightarrow> (efi_status \<times> event_log) option" where
  "EventChannelFlush b env s Channel =
     (if Channel = INVALID_EVENT_HANDLE
      then EfiHandleTableEnumerateObjects (EventChannelFlushCallback b env) (mEventChannels s) s
      else (case EventChannelFromHandle s Channel of
          None \<Rightarrow> Some (EFI_NOT_FOUND, s)
        | Some channel \<Rightarrow> EventChannelFlushCallback b env Channel channel s))"

definition EventChannelStatistics ::
  "event_log \<Rightarrow> efi_handle \<Rightarrow> (efi_status \<times> event_channel_statistics option) option" where
  "EventChannelStatistics s Channel =
     (case EventChannelFromHandle s Channel of
        None \<Rightarrow> Some (EFI_NOT_FOUND, None)
      | Some p \<Rightarrow> do {
          channel \<leftarrow> el_Objects s p;
          Some (EFI_SUCCESS, Some ((ec_Stats channel)\<lparr>cs_Lost := LostWrites (rb_Stats (ec_Ring channel))\<rparr>))
        })"

subsection \<open>Enumerating events\<close>

record event_enum_context =
  en_RingEnum :: ring_handle
  en_BufferSize :: u32
  en_Buffer :: "u8 list"

definition new_context :: "ring_handle \<Rightarrow> u32 \<Rightarrow> event_enum_context" where
  "new_context RingEnum contextSize =
     \<lparr>en_RingEnum = RingEnum, en_BufferSize = contextSize, en_Buffer = replicate (unat contextSize) 0\<rparr>"

text \<open>\<^verbatim>\<open>ALIGN_VALUE (Value, EVENT_ENUM_BUFFER_STEP_SIZE)\<close>\<close>

definition align_step :: "u32 \<Rightarrow> u32" where
  "align_step Value = Value + ((EVENT_ENUM_BUFFER_STEP_SIZE - Value) AND (EVENT_ENUM_BUFFER_STEP_SIZE - 1))"

text \<open>
  The part of \<^verbatim>\<open>EventEnumerate\<close> between lock and unlock. \<open>memory\<close>: the pool has
  room for a larger context. Returns the status, the context, the metadata and the data.
\<close>

definition enumerate_event ::
  "build \<Rightarrow> bool \<Rightarrow> event_enum_context \<Rightarrow> event_channel
     \<Rightarrow> ((efi_status \<times> event_enum_context \<times> efi_event_descriptor \<times> u8 list option) \<times> event_channel) option" where
  "enumerate_event b memory enumContext channel = do {
     (status, ring, RingEnum, curItem, _) \<leftarrow> RingBufferHandleEnumerate b (ec_Ring channel) (en_RingEnum enumContext);
     let channel = channel\<lparr>ec_Ring := ring\<rparr>;
     let enumContext = enumContext\<lparr>en_RingEnum := RingEnum\<rparr>;
     if EFI_ERROR status then Some ((status, enumContext, zero_descriptor, None), channel)
     else do {
       (status, ring, meta, _) \<leftarrow> RingBufferIo b (ec_Ring channel) curItem DataRead 0
         (descriptor_bytes zero_descriptor) SIZEOF_EFI_EVENT_DESCRIPTOR;
       let eventMeta = descriptor_of_bytes meta;
       if EFI_ERROR status then Some ((status, enumContext, eventMeta, None), channel)
       else if ed_Flags eventMeta AND EVENT_FLAG_PENDING \<noteq> 0 then do {
         ASSERT b (ucast (ed_DataSize eventMeta) \<le> pe_CacheSize (ec_Pending channel));
         Some ((status, enumContext, eventMeta, pe_Cache (ec_Pending channel)), channel)
       }
       else if en_BufferSize enumContext < ed_DataSize eventMeta \<and> \<not> memory
       then Some ((EFI_OUT_OF_RESOURCES, enumContext, eventMeta, None), channel)
       else do {
         let enumContext = (if en_BufferSize enumContext < ed_DataSize eventMeta
           then new_context (en_RingEnum enumContext) (align_step (ed_DataSize eventMeta)) else enumContext);
         (status, ring, Buffer, readSize) \<leftarrow> RingBufferIo b (ec_Ring channel) curItem DataRead
           SIZEOF_EFI_EVENT_DESCRIPTOR (en_Buffer enumContext) (en_BufferSize enumContext);
         let enumContext = enumContext\<lparr>en_Buffer := Buffer\<rparr>;
         if EFI_ERROR status then Some ((status, enumContext, eventMeta, None), channel)
         else do {
           ASSERT b (readSize = ed_DataSize eventMeta);
           Some ((status, enumContext, eventMeta, Some Buffer), channel)
         }
       }
     }
   }"

text \<open>
  A null enumerator is \<open>None\<close>; \<open>memory\<close>: whether the first and the second allocation succeed.
  The metadata is a result only on success.
\<close>

definition EventEnumerate ::
  "build \<Rightarrow> bool \<times> bool \<Rightarrow> event_log \<Rightarrow> efi_handle \<Rightarrow> event_enum_context option
     \<Rightarrow> ((efi_status \<times> event_enum_context option \<times> efi_event_descriptor option \<times> u8 list option) \<times> event_log) option" where
  "EventEnumerate b memory s Channel Enumerator =
     (case EventChannelFromHandle s Channel of
        None \<Rightarrow> Some ((EFI_NOT_FOUND, None, None, None), s)
      | Some p \<Rightarrow>
          if Enumerator = None \<and> \<not> fst memory then Some ((EFI_OUT_OF_RESOURCES, None, None, None), s)
          else do {
            let enumContext = (case Enumerator of
                None \<Rightarrow> new_context INVALID_RING_HANDLE EVENT_ENUM_BUFFER_STEP_SIZE
              | Some context \<Rightarrow> context);
            ((status, enumContext, eventMeta, data), s) \<leftarrow> with_channel b s p (enumerate_event b (snd memory) enumContext);
            Some ((status, Some enumContext, if EFI_ERROR status then None else Some eventMeta, data), s)
          })"

subsection \<open>Initialisation\<close>

text \<open>\<open>allocated\<close>: the table could be allocated; \<open>installed\<close>: the result of installing the protocol.\<close>

definition EventLoggerInitialize ::
  "build \<Rightarrow> bool \<Rightarrow> efi_status \<Rightarrow> (efi_status \<times> event_log option) option" where
  "EventLoggerInitialize b allocated installed = do {
     (status, table) \<leftarrow> EfiHandleTableInitialize (Some \<lparr>ti_Allocate = True, ti_ObjectKeySize = 16\<rparr>) 8 0x42 True allocated;
     let s = map_option (\<lambda>table. \<lparr>mEventChannels = table, el_Objects = Map.empty, el_Flushed = []\<rparr>) table;
     if EFI_ERROR status then do { ASSERT b False; Some (status, s) }
     else do {
       ASSERT b (\<not> EFI_ERROR installed);
       Some (installed, s)
     }
   }"

end
