(* ===== verification/Efi_Ring_Refine.thy ===== *)
theory Efi_Ring_Refine
  imports Efi_Ring_Queue
begin

text \<open>
  A ring whose records have sizes divisible by four is a bounded queue: no bytes are skipped
  before a header, and adding a record is adding to a queue that refuses or drops its oldest
  entries when it is full.
\<close>

subsection \<open>Aligned rings\<close>

definition aligned_ring :: "efi_ring_buffer \<Rightarrow> u8 list list \<Rightarrow> bool" where
  "aligned_ring R ds \<longleftrightarrow> ring_inv R ds \<and> 4 dvd unat (rb_Tail R) \<and> (\<forall>d \<in> set ds. 4 dvd length d)"

definition stored :: "u8 list list \<Rightarrow> nat" where
  "stored ds = (\<Sum>d \<leftarrow> ds. 4 + length d)"

lemma stored_simps [simp]: "stored [] = 0" "stored (d # ds) = 4 + length d + stored ds"
  "stored (xs @ ys) = stored xs + stored ys"
  by (simp_all add: stored_def)

lemma gap_aligned: "4 dvd n \<Longrightarrow> 4 dvd p \<Longrightarrow> p < n \<Longrightarrow> gap n p = 0"
proof -
  assume a: "4 dvd n" "4 dvd p" "p < n"
  then have "4 dvd n - p" by simp
  then have "4 \<le> n - p" using a(3) by (simp add: dvd_imp_le)
  then show ?thesis by (simp add: gap_def)
qed

lemma span_aligned:
  "4 dvd n \<Longrightarrow> 4 dvd p \<Longrightarrow> p < n \<Longrightarrow> (\<forall>d \<in> set ds. 4 dvd length d) \<Longrightarrow> span n p ds = stored ds"
proof (induction n p ds rule: span.induct)
  case (2 n p d ds)
  have "4 dvd (p + 4 + length d) mod n" using 2 by (simp add: dvd_mod)
  moreover have "0 < n" using 2 by simp
  ultimately show ?case using 2 gap_aligned [of n p] by simp
qed simp

lemma aligned_ringD:
  assumes "aligned_ring R ds"
  shows "ring_inv R ds" "ring_ok R" "bytes_used R = stored ds" "gap (ring_len R) (unat (rb_Head R)) = 0"
    "4 dvd unat (rb_Tail R)" "stored ds < ring_len R"
proof -
  show inv: "ring_inv R ds" "4 dvd unat (rb_Tail R)" using assms by (simp_all add: aligned_ring_def)
  show ok: "ring_ok R" by (rule ring_invD(1) [OF inv(1)])
  note g = ring_okD [OF ok]
  show u: "bytes_used R = stored ds"
    using ring_invD(2) [OF inv(1)] span_aligned [of "ring_len R" "unat (rb_Tail R)" ds] assms g
    by (simp add: aligned_ring_def)
  then show "stored ds < ring_len R" using bytes_used_lt [OF ok] by simp
  have "(\<forall>d \<in> set ds. 4 dvd length d) \<Longrightarrow> 4 dvd stored ds" by (induction ds) simp_all
  then have "4 dvd stored ds" using assms by (simp add: aligned_ring_def)
  then have "4 dvd unat (rb_Head R)"
    using head_from_tail [OF ok] u inv(2) g(3) by (simp add: dvd_mod)
  then show "gap (ring_len R) (unat (rb_Head R)) = 0" using g by (intro gap_aligned)
qed

subsection \<open>The bounded queue\<close>

text \<open>Drop the oldest entries while \<open>m\<close> more bytes do not fit below \<open>n\<close>.\<close>

fun drop_oldest :: "nat \<Rightarrow> nat \<Rightarrow> u8 list list \<Rightarrow> u8 list list" where
  "drop_oldest n m [] = []"
| "drop_oldest n m (d # ds) = (if n \<le> stored (d # ds) + m then drop_oldest n m ds else d # ds)"

definition queue_add :: "nat \<Rightarrow> bool \<Rightarrow> u8 list list \<Rightarrow> u8 list \<Rightarrow> efi_status \<times> u8 list list" where
  "queue_add n overwrite ds d =
     (if n \<le> 4 + length d then (EFI_BAD_BUFFER_SIZE, ds)
      else if stored ds + 4 + length d < n then (EFI_SUCCESS, ds @ [d])
      else if overwrite then (EFI_SUCCESS, drop_oldest n (4 + length d) ds @ [d])
      else (EFI_OUT_OF_RESOURCES, ds))"

lemma evict_aligned:
  "4 dvd n \<Longrightarrow> 4 dvd p \<Longrightarrow> p < n \<Longrightarrow> (\<forall>d \<in> set ds. 4 dvd length d) \<Longrightarrow> stored ds < n \<Longrightarrow> 0 < m \<Longrightarrow>
   snd (evict n m p ds) = drop_oldest n m ds \<and> 4 dvd fst (evict n m p ds) \<and> fst (evict n m p ds) < n"
proof (induction n m p ds rule: evict.induct)
  case (2 n m p d ds)
  have g: "gap n p = 0" and s: "span n p (d # ds) = stored (d # ds)"
    using 2 gap_aligned [of n p] span_aligned [of n p "d # ds"] by simp_all
  have c: "n - 1 - stored (d # ds) < m \<longleftrightarrow> n \<le> stored (d # ds) + m" using 2(6,7) by linarith
  have "4 dvd (p + 4 + length d) mod n" using 2 by (simp add: dvd_mod)
  then show ?case using 2 g s c by (simp del: span.simps)
qed simp

lemma drop_oldest_fits:
  "m < n \<Longrightarrow> stored (drop_oldest n m ds) + m < n"
  by (induction ds) auto

lemma drop_oldest_suffix: "\<exists>j. drop_oldest n m ds = drop j ds"
proof (induction ds)
  case (Cons d ds)
  then obtain j where "drop_oldest n m ds = drop j ds" by blast
  then have "drop_oldest n m (d # ds) = drop (if n \<le> stored (d # ds) + m then Suc j else 0) (d # ds)" by simp
  then show ?case by blast
qed simp

lemma drop_oldest_subset: "set (drop_oldest n m ds) \<subseteq> set ds"
  using drop_oldest_suffix [of n m ds] by (auto dest: in_set_dropD)

lemma drop_oldest_id: "stored ds + m < n \<Longrightarrow> drop_oldest n m ds = ds"
  by (cases ds) auto

text \<open>What making room for \<open>m\<close> data bytes does to an aligned ring.\<close>

lemma aligned_room:
  assumes a: "aligned_ring R ds" and m: "4 + unat m < ring_len R" and ds': "ds' = drop_oldest (ring_len R) (4 + unat m) ds"
  shows "\<exists>p. evict (ring_len R) (4 + unat m) (unat (rb_Tail R)) ds = (p, ds') \<and> 4 dvd p \<and>
      span (ring_len R) p ds' + gap (ring_len R) (unat (rb_Head R)) + 4 + unat m < ring_len R \<and>
      (stored ds + 4 + unat m < ring_len R \<longrightarrow> p = unat (rb_Tail R))"
    and "\<forall>d \<in> set ds'. 4 dvd length d"
    and "RingBufferBytesFree R < m + 4 \<longleftrightarrow> \<not> stored ds + 4 + unat m < ring_len R"
proof -
  note D = aligned_ringD [OF a]
  note g = ring_okD [OF D(2)]
  obtain p where ev: "evict (ring_len R) (4 + unat m) (unat (rb_Tail R)) ds = (p, ds')" and p: "4 dvd p" "p < ring_len R"
    using evict_aligned [of "ring_len R" "unat (rb_Tail R)" ds "4 + unat m"] a D g
    by (cases "evict (ring_len R) (4 + unat m) (unat (rb_Tail R)) ds") (auto simp: aligned_ring_def ds')
  show al: "\<forall>d \<in> set ds'. 4 dvd length d"
    using a drop_oldest_subset [of "ring_len R" "4 + unat m" ds] by (auto simp: aligned_ring_def ds')
  then have "span (ring_len R) p ds' = stored ds'" using p g by (intro span_aligned) simp_all
  moreover have "stored ds + 4 + unat m < ring_len R \<Longrightarrow> p = unat (rb_Tail R)"
    using ev evict_fits [of "4 + unat m" "ring_len R" "unat (rb_Tail R)" ds] ring_invD(2) [OF D(1)] D(3) by simp
  ultimately show "\<exists>p. evict (ring_len R) (4 + unat m) (unat (rb_Tail R)) ds = (p, ds') \<and> 4 dvd p \<and>
      span (ring_len R) p ds' + gap (ring_len R) (unat (rb_Head R)) + 4 + unat m < ring_len R \<and>
      (stored ds + 4 + unat m < ring_len R \<longrightarrow> p = unat (rb_Tail R))"
    using ev p(1) drop_oldest_fits [OF m, of ds] D(4) by (auto simp: ds')
  have um: "unat (m + 4) = 4 + unat m" using m g by (subst unat_add32) simp_all
  show "RingBufferBytesFree R < m + 4 \<longleftrightarrow> \<not> stored ds + 4 + unat m < ring_len R"
    unfolding word_less_nat_alt um bytes_free [OF D(2)] D(3) using D(6) by linarith
qed

lemma reserve_aligned:
  assumes a: "aligned_ring R ds" and m: "4 dvd unat m" "4 + unat m < ring_len R"
    and fits: "stored ds + 4 + unat m < ring_len R \<or> rb_Flags R AND RING_BUFFER_OVERWRITE \<noteq> 0"
    and ds': "ds' = drop_oldest (ring_len R) (4 + unat m) ds"
  shows "\<exists>R' h d. RingBufferReserve b R m = Some (EFI_SUCCESS, R', h) \<and> length d = unat m \<and>
    aligned_ring R' (ds' @ [d]) \<and> record_handle R' (ds' @ [d]) (length ds') h \<and>
    rb_Size R' = rb_Size R \<and> rb_Flags R' = rb_Flags R \<and> rb_HandleKey R' \<noteq> 0 \<and>
    (stored ds + 4 + unat m < ring_len R \<longrightarrow> rb_HandleKey R' = live_key R \<and> rb_Tail R' = rb_Tail R)"
proof -
  note D = aligned_ringD [OF a] and A = aligned_room [OF a m(2) ds']
  obtain p where ev: "evict (ring_len R) (4 + unat m) (unat (rb_Tail R)) ds = (p, ds')" "4 dvd p"
      "span (ring_len R) p ds' + gap (ring_len R) (unat (rb_Head R)) + 4 + unat m < ring_len R"
      "stored ds + 4 + unat m < ring_len R \<longrightarrow> p = unat (rb_Tail R)"
    using A(1) by blast
  obtain R' h d where r: "RingBufferReserve b R m = Some (EFI_SUCCESS, R', h)" "length d = unat m"
      "ring_inv R' (ds' @ [d])" "record_handle R' (ds' @ [d]) (length ds') h" "rb_Size R' = rb_Size R"
      "rb_Flags R' = rb_Flags R" "rb_HandleKey R' \<noteq> 0" "unat (rb_Tail R') = p"
      "\<not> RingBufferBytesFree R < m + 4 \<longrightarrow> rb_HandleKey R' = live_key R"
    using reserve_record [OF D(1) m(2) _ ev(1,3), of b] fits A(3) by auto
  moreover have "aligned_ring R' (ds' @ [d])" using r(2,3,8) ev(2) A(2) m(1) by (simp add: aligned_ring_def)
  ultimately show ?thesis using ev(4) A(3) by (auto simp: word_unat_eq_iff)
qed

text \<open>Adding a record is adding to the queue, on every branch.\<close>

lemma add_refines:
  assumes a: "aligned_ring R ds" and m: "4 dvd unat m" "unat m \<le> length Data" "unat m < 2147483648"
  shows "\<exists>R' hv'. RingBufferAdd b R Data m hv =
      Some (fst (queue_add (ring_len R) (rb_Flags R AND RING_BUFFER_OVERWRITE \<noteq> 0) ds (take (unat m) Data)), R', hv') \<and>
    aligned_ring R' (snd (queue_add (ring_len R) (rb_Flags R AND RING_BUFFER_OVERWRITE \<noteq> 0) ds (take (unat m) Data))) \<and>
    rb_Size R' = rb_Size R \<and> rb_Flags R' = rb_Flags R"
proof -
  note D = aligned_ringD [OF a]
  note g = ring_okD [OF D(2)]
  let ?n = "ring_len R" and ?ow = "rb_Flags R AND RING_BUFFER_OVERWRITE \<noteq> 0"
  have len: "length (take (unat m) Data) = unat m" using m(2) by simp
  show ?thesis
  proof (cases "?n \<le> 4 + unat m \<or> ?n \<le> stored ds + 4 + unat m \<and> \<not> ?ow")
    case True
    then have "RingBufferAdd b R Data m hv =
        Some (if ?n \<le> 4 + unat m then EFI_BAD_BUFFER_SIZE else EFI_OUT_OF_RESOURCES, lose_write R, hv)"
      using D(3) m(3) by (intro add_refused [OF D(1)]) auto
    moreover have "aligned_ring (lose_write R) ds" using a by (simp add: aligned_ring_def)
    ultimately show ?thesis using True len by (auto simp: queue_add_def)
  next
    case False
    define ds' where "ds' = drop_oldest ?n (4 + unat m) ds"
    from False have m4: "4 + unat m < ?n" by simp
    note A = aligned_room [OF a m4 ds'_def]
    obtain p where ev: "evict ?n (4 + unat m) (unat (rb_Tail R)) ds = (p, ds')" "4 dvd p"
        "span ?n p ds' + gap ?n (unat (rb_Head R)) + 4 + unat m < ?n"
      using A(1) by blast
    then obtain R' h where r: "RingBufferAdd b R Data m hv = Some (EFI_SUCCESS, R', map_option (\<lambda>_. h) hv)"
        "ring_inv R' (ds' @ [take (unat m) Data])" "rb_Size R' = rb_Size R" "rb_Flags R' = rb_Flags R" "unat (rb_Tail R') = p"
      using add_record [OF D(1) m4 _ ev(1,3) m(2), of b hv] False A(3) by auto
    have "aligned_ring R' (ds' @ [take (unat m) Data])"
      using r(2,5) ev(2) A(2) m(1) len by (auto simp: aligned_ring_def)
    then show ?thesis
      using r False len drop_oldest_id [of ds "4 + unat m" ?n] by (auto simp: queue_add_def ds'_def add.assoc)
  qed
qed

subsection \<open>The store behind an event channel\<close>

text \<open>
  What an event channel relies on: bytes written inside a record through its handle, and read
  back, while the other records and the handles stay as they are.
\<close>

locale record_store =
  fixes holds :: "'r \<Rightarrow> u8 list list \<Rightarrow> bool"
    and handle :: "'r \<Rightarrow> u8 list list \<Rightarrow> nat \<Rightarrow> 'h \<Rightarrow> bool"
    and store_write :: "'r \<Rightarrow> 'h \<Rightarrow> u32 \<Rightarrow> u8 list \<Rightarrow> u32 \<Rightarrow> (efi_status \<times> 'r \<times> u8 list \<times> u32) option"
    and store_read :: "'r \<Rightarrow> 'h \<Rightarrow> u32 \<Rightarrow> u8 list \<Rightarrow> u32 \<Rightarrow> (efi_status \<times> 'r \<times> u8 list \<times> u32) option"
  assumes handle_index: "handle r ds i h \<Longrightarrow> i < length ds"
    and write_law: "holds r ds \<Longrightarrow> handle r ds i h \<Longrightarrow> unat off + unat n \<le> length (ds ! i) \<Longrightarrow>
      unat n \<le> length data \<Longrightarrow> x = overlay (ds ! i) (unat off) (take (unat n) data) \<Longrightarrow>
      \<exists>r'. store_write r h off data n = Some (EFI_SUCCESS, r', data, n) \<and> holds r' (ds[i := x]) \<and>
        (\<forall>j k. handle r ds j k \<longrightarrow> handle r' (ds[i := x]) j k)"
    and read_law: "holds r ds \<Longrightarrow> handle r ds i h \<Longrightarrow> unat off \<le> length (ds ! i) \<Longrightarrow>
      unat off + unat n < 4294967296 \<Longrightarrow> m = min (unat n) (length (ds ! i) - unat off) \<Longrightarrow> m \<le> length data \<Longrightarrow>
      store_read r h off data n = Some (EFI_SUCCESS, r, take m (drop (unat off) (ds ! i)) @ drop m data, of_nat m)"
begin

text \<open>A header and then the rest of the record.\<close>

lemma write_two_parts:
  assumes "holds r ds" "handle r ds i h" "length (ds ! i) = unat n1 + unat n2" "length x = unat n1" "unat n2 \<le> length y"
  shows "\<exists>r1 r2. store_write r h 0 x n1 = Some (EFI_SUCCESS, r1, x, n1) \<and>
    holds r1 (ds[i := x @ drop (unat n1) (ds ! i)]) \<and> handle r1 (ds[i := x @ drop (unat n1) (ds ! i)]) i h \<and>
    store_write r1 h n1 y n2 = Some (EFI_SUCCESS, r2, y, n2) \<and>
    holds r2 (ds[i := x @ take (unat n2) y]) \<and>
    (\<forall>j k. handle r ds j k \<longrightarrow>
      handle r1 (ds[i := x @ drop (unat n1) (ds ! i)]) j k \<and> handle r2 (ds[i := x @ take (unat n2) y]) j k)"
proof -
  let ?d1 = "x @ drop (unat n1) (ds ! i)" and ?d2 = "x @ take (unat n2) y"
  have i: "i < length ds" by (rule handle_index [OF assms(2)])
  have "?d1 = overlay (ds ! i) (unat (0 :: u32)) (take (unat n1) x)" using assms(4) by (simp add: overlay_def)
  then obtain r1 where r1: "store_write r h 0 x n1 = Some (EFI_SUCCESS, r1, x, n1)" "holds r1 (ds[i := ?d1])"
      "\<And>j k. handle r ds j k \<Longrightarrow> handle r1 (ds[i := ?d1]) j k"
    using write_law [OF assms(1,2), of 0 n1 x ?d1] assms(3,4) by auto
  have "?d2 = overlay (ds[i := ?d1] ! i) (unat n1) (take (unat n2) y)"
    using assms(3-5) i by (simp add: overlay_def)
  then obtain r2 where r2: "store_write r1 h n1 y n2 = Some (EFI_SUCCESS, r2, y, n2)" "holds r2 (ds[i := ?d1, i := ?d2])"
      "\<And>j k. handle r1 (ds[i := ?d1]) j k \<Longrightarrow> handle r2 (ds[i := ?d1, i := ?d2]) j k"
    using write_law [OF r1(2) r1(3) [OF assms(2)], of n1 n2 y ?d2] assms(3-5) i by auto
  have e: "ds[i := ?d1, i := ?d2] = ds[i := ?d2]" by simp
  show ?thesis
    using r1(1,2) r1(3) [OF assms(2)] r1(3) r2(1) r2(2) [unfolded e] r2(3) [unfolded e]
    by (intro exI [of _ r1] exI [of _ r2]) blast
qed

text \<open>The two parts are read back.\<close>

lemma read_two_parts:
  assumes "holds r ds" "handle r ds i h" "ds ! i = x @ y" "length x = unat n1" "length y \<le> unat n2"
    "unat n1 + unat n2 < 4294967296" "length u = unat n1" "length v = unat n2"
  shows "store_read r h 0 u n1 = Some (EFI_SUCCESS, r, x, n1)"
    "store_read r h n1 v n2 = Some (EFI_SUCCESS, r, y @ drop (length y) v, of_nat (length y))"
proof -
  have len: "length (ds ! i) = unat n1 + length y" using assms(3,4) by simp
  have "store_read r h 0 u n1 =
      Some (EFI_SUCCESS, r, take (unat n1) (drop (unat (0 :: u32)) (ds ! i)) @ drop (unat n1) u, of_nat (unat n1))"
    by (rule read_law [OF assms(1,2)]) (use len assms(6,7) in \<open>simp_all\<close>)
  moreover have "take (unat n1) (drop (unat (0 :: u32)) (ds ! i)) @ drop (unat n1) u = x"
    unfolding assms(3) using assms(4,7) by simp
  ultimately show "store_read r h 0 u n1 = Some (EFI_SUCCESS, r, x, n1)" by simp
  have "store_read r h n1 v n2 =
      Some (EFI_SUCCESS, r, take (length y) (drop (unat n1) (ds ! i)) @ drop (length y) v, of_nat (length y))"
    by (rule read_law [OF assms(1,2)]) (use len assms(5,6,8) in \<open>simp_all\<close>)
  moreover have "take (length y) (drop (unat n1) (ds ! i)) = y" unfolding assms(3) using assms(4) by simp
  ultimately show "store_read r h n1 v n2 = Some (EFI_SUCCESS, r, y @ drop (length y) v, of_nat (length y))" by simp
qed

end

lemma span_cong: "map length xs = map length ys \<Longrightarrow> span n p xs = span n p ys"
proof (induction xs arbitrary: ys p)
  case (Cons d ds)
  then obtain y ys' where "ys = y # ys'" "length y = length d" "map length ds = map length ys'" by auto
  with Cons.IH [of ys'] show ?case by simp
qed simp

lemma handles_kept:
  assumes "writes_at R pos bs R'" "record_handle R ds j k" "length x = length (ds ! i)"
  shows "record_handle R' (ds[i := x]) j k"
proof -
  have "map length (ds[i := x]) = map length ds"
    using assms(3) by (cases "i < length ds") (simp_all add: map_update list_update_same_conv list_update_beyond)
  then have "map length (take j (ds[i := x])) = map length (take j ds)"
    by (simp only: take_map [symmetric])
  then have "span (ring_len R) (unat (rb_Tail R)) (take j (ds[i := x])) = span (ring_len R) (unat (rb_Tail R)) (take j ds)"
    by (rule span_cong)
  then show ?thesis
    using assms(2) writes_atD [OF assms(1)] by (simp add: record_handle_def record_pos_def)
qed

interpretation rb: record_store aligned_ring record_handle
  "\<lambda>R h. RingBufferIo b R h DataWrite" "\<lambda>R h. RingBufferIo b R h DataRead" for b
proof
  fix R ds i h off n data x m
  show "record_handle R ds i h \<Longrightarrow> i < length ds" by (simp add: record_handle_def)
  assume a: "aligned_ring R ds" and h: "record_handle R ds i h"
  note inv = aligned_ringD(1) [OF a]
  show "unat off \<le> length (ds ! i) \<Longrightarrow> unat off + unat n < 4294967296 \<Longrightarrow>
      m = min (unat n) (length (ds ! i) - unat off) \<Longrightarrow> m \<le> length data \<Longrightarrow>
      RingBufferIo b R h DataRead off data n =
        Some (EFI_SUCCESS, R, take m (drop (unat off) (ds ! i)) @ drop m data, of_nat m)"
    by (rule io_read [OF inv h])
  assume w: "unat off + unat n \<le> length (ds ! i)" "unat n \<le> length data"
    and x: "x = overlay (ds ! i) (unat off) (take (unat n) data)"
  obtain R' pos where R': "RingBufferIo b R h DataWrite off data n = Some (EFI_SUCCESS, R', data, n)"
      "ring_inv R' (ds[i := x])" "writes_at R pos (take (unat n) data) R'"
    using io_write [OF inv h w, of b] x by blast
  have len: "length x = length (ds ! i)" using w x by simp
  have "aligned_ring R' (ds[i := x])"
    using a R'(2) writes_atD(4) [OF R'(3)] len h
    by (auto simp: aligned_ring_def record_handle_def dest!: set_update_subset_insert [THEN subsetD])
  then show "\<exists>R'. RingBufferIo b R h DataWrite off data n = Some (EFI_SUCCESS, R', data, n) \<and>
      aligned_ring R' (ds[i := x]) \<and> (\<forall>j k. record_handle R ds j k \<longrightarrow> record_handle R' (ds[i := x]) j k)"
    using R' handles_kept [OF R'(3) _ len] by blast
qed

end
