(* ===== verification/Event_Channel.thy ===== *)
theory Event_Channel
  imports Event_Logger Efi_Ring_Refine
begin

text \<open>
  What the functions on one event channel do: the events a channel holds, its pending event,
  and how logging, committing, enumerating, flushing and resetting change them.
\<close>

subsection \<open>Events in the ring\<close>

type_synonym event = "efi_event_descriptor \<times> u8 list"

definition event_bytes :: "event \<Rightarrow> u8 list" where
  "event_bytes e = descriptor_bytes (fst e) @ snd e"

definition event_ok :: "event \<Rightarrow> bool" where
  "event_ok e \<longleftrightarrow> length (snd e) = unat (ed_DataSize (fst e))"

lemma length_descriptor_bytes [simp]: "length (descriptor_bytes e) = 64"
  by (simp add: descriptor_bytes_def)

lemma length_event_bytes [simp]: "length (event_bytes e) = 64 + length (snd e)"
  by (simp add: event_bytes_def)

lemma descriptor_of_bytes_descriptor_bytes [simp]: "descriptor_of_bytes (descriptor_bytes e) = e"
  by (simp add: descriptor_of_bytes_def descriptor_bytes_def)

lemma descriptor_size [simp]: "unat SIZEOF_EFI_EVENT_DESCRIPTOR = 64"
  by (simp add: SIZEOF_EFI_EVENT_DESCRIPTOR_def)

subsection \<open>The state of a channel\<close>

text \<open>
  \<open>chan ch evs q\<close>: the channel holds the events \<open>evs\<close>, oldest first; \<open>q\<close> is the index of
  the pending one, if any. The data of the pending event is in the cache.
\<close>

definition cache_ok :: "event_channel \<Rightarrow> bool" where
  "cache_ok ch \<longleftrightarrow> (case pe_Cache (ec_Pending ch) of
     None \<Rightarrow> pe_CacheSize (ec_Pending ch) = 0 | Some c \<Rightarrow> length c = unat (pe_CacheSize (ec_Pending ch)))"

lemma cache_ok_updates [simp]:
  "cache_ok (ch\<lparr>ec_Ring := R\<rparr>) = cache_ok ch" "cache_ok (ch\<lparr>ec_Stats := st\<rparr>) = cache_ok ch"
  "cache_ok (ch\<lparr>ec_Lock := l\<rparr>) = cache_ok ch"
  by (simp_all add: cache_ok_def split: option.splits)

definition pending_at :: "event_channel \<Rightarrow> event list \<Rightarrow> nat option \<Rightarrow> bool" where
  "pending_at ch evs q \<longleftrightarrow> (case q of
     None \<Rightarrow> pe_Handle (ec_Pending ch) = INVALID_RING_HANDLE
   | Some i \<Rightarrow> i < length evs \<and> rb_HandleKey (ec_Ring ch) \<noteq> 0 \<and>
       record_handle (ec_Ring ch) (map event_bytes evs) i (pe_Handle (ec_Pending ch)) \<and>
       pe_Metadata (ec_Pending ch) = fst (evs ! i) \<and>
       unat (ed_DataSize (fst (evs ! i))) \<le> unat (pe_CacheSize (ec_Pending ch)))"

definition chan :: "event_channel \<Rightarrow> event list \<Rightarrow> nat option \<Rightarrow> bool" where
  "chan ch evs q \<longleftrightarrow> aligned_ring (ec_Ring ch) (map event_bytes evs) \<and> list_all event_ok evs \<and>
     cache_ok ch \<and> pending_at ch evs q"

definition same_channel :: "event_channel \<Rightarrow> event_channel \<Rightarrow> bool" where
  "same_channel ch ch' \<longleftrightarrow> ec_Lock ch' = ec_Lock ch \<and> ec_Id ch' = ec_Id ch \<and> ec_Attributes ch' = ec_Attributes ch \<and>
     rb_Size (ec_Ring ch') = rb_Size (ec_Ring ch) \<and> rb_Flags (ec_Ring ch') = rb_Flags (ec_Ring ch)"

lemma record_handle_valid:
  assumes "ring_ok R" "record_handle R ds i h"
  shows "h \<noteq> INVALID_RING_HANDLE"
proof
  assume h: "h = INVALID_RING_HANDLE"
  have "unat (ucast (RING_HANDLE_GET_OFFSET h) :: u32) < ring_len R"
    using assms(2) ring_okD(1) [OF assms(1)] by (auto simp: record_handle_def Let_def)
  moreover have "(ucast (RING_HANDLE_GET_OFFSET h) :: u32) = 0xFFFFFFFF"
    by (simp add: h RING_HANDLE_GET_OFFSET_def INVALID_RING_HANDLE_def)
  ultimately show False using ring_okD(2) [OF assms(1)] by simp
qed

lemma chanD:
  assumes "chan ch evs q"
  shows "aligned_ring (ec_Ring ch) (map event_bytes evs)" "list_all event_ok evs" "cache_ok ch" "pending_at ch evs q"
    "ring_ok (ec_Ring ch)"
  using assms aligned_ringD(2) by (auto simp: chan_def)

lemma write_data_same:
  assumes "RingBufferWriteDataAt b R off data n = Some (off', R')"
  shows "\<exists>buffer. R' = R\<lparr>rb_Buffer := buffer\<rparr>"
  using assms unfolding RingBufferWriteDataAt_def Let_def by (auto split: Option.bind_splits)

lemma io_same:
  assumes "RingBufferIo b R h DataWrite off data n = Some (st, R', d', n')"
  shows "rb_Size R' = rb_Size R" "rb_Flags R' = rb_Flags R" "rb_HandleKey R' = rb_HandleKey R"
proof -
  have "R' = R \<or> (\<exists>o1 o2 x. RingBufferWriteDataAt b R o1 data n = Some (o2, R'))"
    using assms by (auto simp: RingBufferIo_def Let_def split: if_splits Option.bind_splits)
  then show "rb_Size R' = rb_Size R" "rb_Flags R' = rb_Flags R" "rb_HandleKey R' = rb_HandleKey R"
    by (auto dest!: write_data_same)
qed

subsection \<open>Committing\<close>

definition cached_data :: "event_channel \<Rightarrow> u8 list" where
  "cached_data ch = take (unat (ed_DataSize (pe_Metadata (ec_Pending ch))))
     (case pe_Cache (ec_Pending ch) of None \<Rightarrow> [] | Some c \<Rightarrow> c)"

definition committed :: "u64 \<Rightarrow> efi_event_descriptor \<Rightarrow> efi_event_descriptor" where
  "committed now m = m\<lparr>ed_Flags := ed_Flags m AND NOT EVENT_FLAG_PENDING, ed_CommitTime := now\<rparr>"

text \<open>
  The pending event gets its descriptor without the pending flag and the cached data; handles
  of the ring stay as they are.
\<close>

lemma commit_internal:
  assumes a: "aligned_ring (ec_Ring ch) (map event_bytes evs)" "list_all event_ok evs" "cache_ok ch" "i < length evs"
    and h: "record_handle (ec_Ring ch) (map event_bytes evs) i (pe_Handle (ec_Pending ch))"
    and size: "ed_DataSize (pe_Metadata (ec_Pending ch)) = ed_DataSize (fst (evs ! i))"
      "unat (ed_DataSize (fst (evs ! i))) \<le> unat (pe_CacheSize (ec_Pending ch))"
    and e: "e = (committed now (pe_Metadata (ec_Pending ch)), cached_data ch)"
  shows "\<exists>ch'. EventPendingCommitInternal b now ch = Some (EFI_SUCCESS, ch') \<and> chan ch' (evs[i := e]) None \<and>
    same_channel ch ch' \<and> ec_Stats ch' = ec_Stats ch \<and> rb_HandleKey (ec_Ring ch') = rb_HandleKey (ec_Ring ch) \<and>
    pe_Cache (ec_Pending ch') = pe_Cache (ec_Pending ch) \<and> pe_CacheSize (ec_Pending ch') = pe_CacheSize (ec_Pending ch) \<and>
    (\<forall>j k. record_handle (ec_Ring ch) (map event_bytes evs) j k \<longrightarrow>
      record_handle (ec_Ring ch') (map event_bytes (evs[i := e])) j k)"
proof -
  let ?m = "committed now (pe_Metadata (ec_Pending ch))" and ?R = "ec_Ring ch" and ?h = "pe_Handle (ec_Pending ch)"
  let ?n = "ed_DataSize (pe_Metadata (ec_Pending ch))" and ?ds = "map event_bytes evs"
  have ev: "length (snd (evs ! i)) = unat ?n" using a(2,4) size(1) by (simp add: list_all_length event_ok_def)
  have len: "length (?ds ! i) = unat SIZEOF_EFI_EVENT_DESCRIPTOR + unat ?n" using a(4) ev by simp
  let ?y = "case pe_Cache (ec_Pending ch) of None \<Rightarrow> [] | Some c \<Rightarrow> c"
  have y: "unat ?n \<le> length ?y"
    using a(3) size by (auto simp: cache_ok_def split: option.splits)
  then have e_ok: "event_ok e" and eb: "event_bytes e = descriptor_bytes ?m @ take (unat ?n) ?y"
    by (simp_all add: e event_ok_def event_bytes_def cached_data_def committed_def)
  obtain R1 R2 where w: "RingBufferIo b ?R ?h DataWrite 0 (descriptor_bytes ?m) SIZEOF_EFI_EVENT_DESCRIPTOR =
        Some (EFI_SUCCESS, R1, descriptor_bytes ?m, SIZEOF_EFI_EVENT_DESCRIPTOR)"
      "aligned_ring R1 (?ds[i := descriptor_bytes ?m @ drop 64 (?ds ! i)])"
      "RingBufferIo b R1 ?h DataWrite SIZEOF_EFI_EVENT_DESCRIPTOR ?y ?n = Some (EFI_SUCCESS, R2, ?y, ?n)"
      "aligned_ring R2 (?ds[i := event_bytes e])"
      "\<And>j k. record_handle ?R ?ds j k \<Longrightarrow> record_handle R1 (?ds[i := descriptor_bytes ?m @ drop 64 (?ds ! i)]) j k"
      "\<And>j k. record_handle ?R ?ds j k \<Longrightarrow> record_handle R2 (?ds[i := event_bytes e]) j k"
    using rb.write_two_parts [OF a(1) h len _ y, where x = "descriptor_bytes ?m" and b = b] by (auto simp: eb)
  define R' where "R' = (if ?n = 0 then R1 else R2)"
  have zero: "descriptor_bytes ?m @ drop 64 (?ds ! i) = event_bytes e" if "?n = 0"
    unfolding eb using that ev a(4) by (simp add: event_bytes_def)
  have R': "aligned_ring R' (?ds[i := event_bytes e])"
      "\<And>j k. record_handle ?R ?ds j k \<Longrightarrow> record_handle R' (?ds[i := event_bytes e]) j k"
    using w zero by (auto simp: R'_def)
  have same: "rb_Size R' = rb_Size ?R" "rb_Flags R' = rb_Flags ?R" "rb_HandleKey R' = rb_HandleKey ?R"
    using io_same [OF w(1)] io_same [OF w(3)] by (simp_all add: R'_def)
  let ?ch = "EventPendingCleanup (ch\<lparr>ec_Pending := (ec_Pending ch)\<lparr>pe_Metadata := ?m\<rparr>, ec_Ring := R'\<rparr>)"
  have "EventPendingCommitInternal b now ch = Some (EFI_SUCCESS, ?ch)"
  proof (cases "pe_Cache (ec_Pending ch)")
    case None
    then have "?n = 0" using y by (simp add: unat_eq_0)
    with None w(1) show ?thesis
      by (simp add: EventPendingCommitInternal_def Let_def committed_def R'_def)
  next
    case (Some c)
    then show ?thesis
      using w(1,3) by (auto simp: EventPendingCommitInternal_def Let_def committed_def R'_def word_gt_0)
  qed
  moreover have "chan ?ch (evs[i := e]) None"
    using a(2,3) R'(1) e_ok
    by (auto simp: chan_def map_update EventPendingCleanup_def pending_at_def cache_ok_def list_all_iff
        dest!: set_update_subset_insert [THEN subsetD] split: option.splits)
  ultimately show ?thesis
    using same R'(2) by (auto simp: same_channel_def EventPendingCleanup_def map_update)
qed

subsection \<open>Reserving a record and writing the descriptor\<close>

text \<open>The bounded queue of records, seen as a queue of events.\<close>

definition drop_oldest_events :: "nat \<Rightarrow> nat \<Rightarrow> event list \<Rightarrow> event list" where
  "drop_oldest_events n m evs = drop (length evs - length (drop_oldest n m (map event_bytes evs))) evs"

lemma map_drop_oldest_events:
  "map event_bytes (drop_oldest_events n m evs) = drop_oldest n m (map event_bytes evs)"
proof -
  obtain j where j: "drop_oldest n m (map event_bytes evs) = drop j (map event_bytes evs)"
    using drop_oldest_suffix by blast
  show ?thesis by (cases "j \<le> length evs") (simp_all add: drop_oldest_events_def j drop_map)
qed

lemma drop_oldest_events_ok: "list_all event_ok evs \<Longrightarrow> list_all event_ok (drop_oldest_events n m evs)"
  by (auto simp: drop_oldest_events_def list_all_iff dest: in_set_dropD)

lemma lose_write_handle [simp]: "record_handle (lose_write R) ds i h = record_handle R ds i h"
  by (simp add: record_handle_def record_pos_def)

lemma chan_lose_write: "chan ch evs q \<Longrightarrow> chan (ch\<lparr>ec_Ring := lose_write (ec_Ring ch)\<rparr>) evs q"
  by (auto simp: chan_def aligned_ring_def pending_at_def split: option.splits)

lemma handle_after_append:
  assumes "record_handle R ds i h" "rb_HandleKey R \<noteq> 0" "rb_HandleKey R' = live_key R" "rb_Tail R' = rb_Tail R"
    "rb_Size R' = rb_Size R"
  shows "record_handle R' (ds @ [d]) i h"
  using assms by (auto simp: record_handle_def record_pos_def live_key_def Let_def)

lemma reserve_describe:
  assumes c: "chan ch evs q"
    and size: "4 dvd unat n" "unat n < 2147483648" "68 + unat n < ring_len (ec_Ring ch)"
    and fits: "stored (map event_bytes evs) + 68 + unat n < ring_len (ec_Ring ch) \<or>
      rb_Flags (ec_Ring ch) AND RING_BUFFER_OVERWRITE \<noteq> 0 \<and> q = None"
    and m: "ed_DataSize m = n"
    and evs': "evs' = drop_oldest_events (ring_len (ec_Ring ch)) (68 + unat n) evs"
  shows "\<exists>R1 R2 h d. RingBufferReserve b (ec_Ring ch) (n + SIZEOF_EFI_EVENT_DESCRIPTOR) = Some (EFI_SUCCESS, R1, h) \<and>
    RingBufferIo b R1 h DataWrite 0 (descriptor_bytes m) SIZEOF_EFI_EVENT_DESCRIPTOR =
      Some (EFI_SUCCESS, R2, descriptor_bytes m, SIZEOF_EFI_EVENT_DESCRIPTOR) \<and>
    length d = unat n \<and> chan (ch\<lparr>ec_Ring := R2\<rparr>) (evs' @ [(m, d)]) q \<and>
    record_handle R2 (map event_bytes (evs' @ [(m, d)])) (length evs') h \<and> rb_HandleKey R2 \<noteq> 0 \<and>
    rb_Size R2 = rb_Size (ec_Ring ch) \<and> rb_Flags R2 = rb_Flags (ec_Ring ch)"
proof -
  let ?R = "ec_Ring ch" and ?ds = "map event_bytes evs" and ?w = "n + SIZEOF_EFI_EVENT_DESCRIPTOR"
  have w: "unat ?w = 64 + unat n" using size(2) by (subst unat_add32) simp_all
  have ds': "map event_bytes evs' = drop_oldest (ring_len ?R) (4 + unat ?w) ?ds"
    by (simp add: evs' map_drop_oldest_events w)
  obtain R1 h d1 where r: "RingBufferReserve b ?R ?w = Some (EFI_SUCCESS, R1, h)" "length d1 = unat ?w"
      "aligned_ring R1 (map event_bytes evs' @ [d1])" "record_handle R1 (map event_bytes evs' @ [d1]) (length (map event_bytes evs')) h"
      "rb_Size R1 = rb_Size ?R" "rb_Flags R1 = rb_Flags ?R" "rb_HandleKey R1 \<noteq> 0"
      "stored ?ds + 4 + unat ?w < ring_len ?R \<longrightarrow> rb_HandleKey R1 = live_key ?R \<and> rb_Tail R1 = rb_Tail ?R"
    using reserve_aligned [OF chanD(1) [OF c], of ?w "map event_bytes evs'" b] size w fits ds' by auto
  define d where "d = drop 64 d1"
  have d: "length d = unat n" using r(2) w by (simp add: d_def)
  have eb: "event_bytes (m, d) = overlay d1 (unat (0 :: u32)) (take (unat SIZEOF_EFI_EVENT_DESCRIPTOR) (descriptor_bytes m))"
    using r(2) w by (simp add: event_bytes_def overlay_def d_def)
  obtain R2 where R2: "RingBufferIo b R1 h DataWrite 0 (descriptor_bytes m) SIZEOF_EFI_EVENT_DESCRIPTOR =
        Some (EFI_SUCCESS, R2, descriptor_bytes m, SIZEOF_EFI_EVENT_DESCRIPTOR)"
      "aligned_ring R2 (map event_bytes (evs' @ [(m, d)]))"
      "\<And>j k. record_handle R1 (map event_bytes evs' @ [d1]) j k \<Longrightarrow> record_handle R2 (map event_bytes (evs' @ [(m, d)])) j k"
    using rb.write_law [OF r(3,4), of 0 SIZEOF_EFI_EVENT_DESCRIPTOR "descriptor_bytes m" "event_bytes (m, d)" b] r(2) w eb
    by (auto simp: nth_append list_update_append)
  note same = io_same [OF R2(1)]
  have "pending_at (ch\<lparr>ec_Ring := R2\<rparr>) (evs' @ [(m, d)]) q"
  proof (cases q)
    case None
    then show ?thesis using chanD(4) [OF c] by (simp add: pending_at_def)
  next
    case (Some i)
    then have f: "stored ?ds + 68 + unat n < ring_len ?R" using fits by simp
    then have "evs' = evs"
      using drop_oldest_id [of ?ds "68 + unat n" "ring_len ?R"] by (simp add: evs' drop_oldest_events_def add.assoc)
    moreover have "record_handle R1 (?ds @ [d1]) i (pe_Handle (ec_Pending ch))"
      using chanD(4) [OF c] Some r(5,8) f w by (intro handle_after_append [of ?R]) (simp_all add: pending_at_def)
    ultimately show ?thesis
      using chanD(4) [OF c] Some R2(3) [of i] same(3) r(7) by (simp add: pending_at_def nth_append)
  qed
  moreover have "list_all event_ok (evs' @ [(m, d)])"
    using drop_oldest_events_ok [OF chanD(2) [OF c]] d m by (simp add: evs' event_ok_def)
  ultimately have "chan (ch\<lparr>ec_Ring := R2\<rparr>) (evs' @ [(m, d)]) q"
    using R2(2) chanD(3) [OF c] by (simp add: chan_def)
  then show ?thesis using r(1,4-7) R2(1) R2(3) [OF r(4)] d same by auto
qed

subsection \<open>Logging\<close>

text \<open>What the log of a channel becomes: the specification of \<^verbatim>\<open>EventLog\<close>.\<close>

definition log_spec :: "nat \<Rightarrow> bool \<Rightarrow> event list \<Rightarrow> event \<Rightarrow> efi_status \<times> event list" where
  "log_spec n overwrite evs e =
     (let m = 68 + unat (ed_DataSize (fst e)) in
      if n \<le> m then (EFI_BAD_BUFFER_SIZE, evs)
      else if stored (map event_bytes evs) + m < n then (EFI_SUCCESS, evs @ [e])
      else if overwrite then (EFI_SUCCESS, drop_oldest_events n m evs @ [e])
      else (EFI_OUT_OF_RESOURCES, evs))"

definition payload :: "u8 list option \<Rightarrow> u32 \<Rightarrow> u8 list" where
  "payload Data n = (case Data of None \<Rightarrow> [] | Some d \<Rightarrow> take (unat n) d)"

definition data_ok :: "u8 list option \<Rightarrow> u32 \<Rightarrow> bool" where
  "data_ok Data n \<longleftrightarrow> (case Data of None \<Rightarrow> n = 0 | Some d \<Rightarrow> unat n \<le> length d)"

definition overwrites :: "event_channel \<Rightarrow> bool" where
  "overwrites ch \<longleftrightarrow> rb_Flags (ec_Ring ch) AND RING_BUFFER_OVERWRITE \<noteq> 0"

abbreviation spec_of :: "event_channel \<Rightarrow> event list \<Rightarrow> event \<Rightarrow> efi_status \<times> event list" where
  "spec_of ch \<equiv> log_spec (ring_len (ec_Ring ch)) (overwrites ch)"

text \<open>An event that is refused is counted, and nothing else changes.\<close>

lemma refused_event:
  assumes c: "chan ch evs q" and n: "unat (ed_DataSize (fst e)) < 2147483648"
    and no: "fst (spec_of ch evs e) \<noteq> EFI_SUCCESS"
  shows "RingBufferReserve b (ec_Ring ch) (ed_DataSize (fst e) + SIZEOF_EFI_EVENT_DESCRIPTOR) =
      Some (fst (spec_of ch evs e), lose_write (ec_Ring ch), INVALID_RING_HANDLE)"
    "EFI_ERROR (fst (spec_of ch evs e))" "snd (spec_of ch evs e) = evs"
proof -
  let ?w = "ed_DataSize (fst e) + SIZEOF_EFI_EVENT_DESCRIPTOR"
  note D = aligned_ringD [OF chanD(1) [OF c]]
  have w: "unat ?w = 64 + unat (ed_DataSize (fst e))" using n by (subst unat_add32) simp_all
  show "RingBufferReserve b (ec_Ring ch) ?w =
      Some (fst (spec_of ch evs e), lose_write (ec_Ring ch), INVALID_RING_HANDLE)"
    using no n reserve_refused [OF D(1), of ?w b] w D(3)
    by (auto simp: log_spec_def overwrites_def Let_def split: if_splits)
  show "EFI_ERROR (fst (spec_of ch evs e))" "snd (spec_of ch evs e) = evs"
    using no by (auto simp: log_spec_def Let_def split: if_splits)
qed

text \<open>An event that is accepted has its record reserved and its descriptor written.\<close>

lemma accepted_event:
  assumes c: "chan ch evs q"
    and size: "4 dvd unat (ed_DataSize m)" "unat (ed_DataSize m) < 2147483648"
    and yes: "fst (spec_of ch evs (m, x)) = EFI_SUCCESS"
    and keep: "q = None \<or> stored (map event_bytes evs) + 68 + unat (ed_DataSize m) < ring_len (ec_Ring ch)"
  shows "\<exists>R1 R2 h d evs'. RingBufferReserve b (ec_Ring ch) (ed_DataSize m + SIZEOF_EFI_EVENT_DESCRIPTOR) =
      Some (EFI_SUCCESS, R1, h) \<and>
    RingBufferIo b R1 h DataWrite 0 (descriptor_bytes m) SIZEOF_EFI_EVENT_DESCRIPTOR =
      Some (EFI_SUCCESS, R2, descriptor_bytes m, SIZEOF_EFI_EVENT_DESCRIPTOR) \<and>
    length d = unat (ed_DataSize m) \<and> chan (ch\<lparr>ec_Ring := R2\<rparr>) (evs' @ [(m, d)]) q \<and>
    record_handle R2 (map event_bytes (evs' @ [(m, d)])) (length evs') h \<and> rb_HandleKey R2 \<noteq> 0 \<and>
    rb_Size R2 = rb_Size (ec_Ring ch) \<and> rb_Flags R2 = rb_Flags (ec_Ring ch) \<and>
    (\<forall>x. snd (spec_of ch evs (m, x)) = evs' @ [(m, x)])"
proof -
  let ?n = "ring_len (ec_Ring ch)" and ?k = "68 + unat (ed_DataSize m)"
  define evs' where "evs' = drop_oldest_events ?n ?k evs"
  have "snd (spec_of ch evs (m, x)) = evs' @ [(m, x)]" for x
  proof (cases "stored (map event_bytes evs) + ?k < ?n")
    case True
    then have "evs' = evs" using drop_oldest_id [of "map event_bytes evs" ?k ?n] by (simp add: evs'_def drop_oldest_events_def)
    with True yes show ?thesis by (auto simp: log_spec_def Let_def)
  next
    case False
    with yes show ?thesis by (auto simp: log_spec_def Let_def evs'_def split: if_splits)
  qed
  moreover have "?k < ?n" "stored (map event_bytes evs) + 68 + unat (ed_DataSize m) < ?n \<or>
      rb_Flags (ec_Ring ch) AND RING_BUFFER_OVERWRITE \<noteq> 0 \<and> q = None"
    using yes keep by (auto simp: log_spec_def Let_def overwrites_def split: if_splits)
  note reserve_describe [OF c size this refl evs'_def, of b]
  ultimately show ?thesis by blast
qed

lemma write_payload:
  assumes c: "chan (ch\<lparr>ec_Ring := R\<rparr>) (evs @ [(m, d)]) q" "length d = unat (ed_DataSize m)"
    and h: "record_handle R (map event_bytes (evs @ [(m, d)])) (length evs) h"
    and data: "unat (ed_DataSize m) \<le> length bytes"
  shows "\<exists>R'. RingBufferIo b R h DataWrite SIZEOF_EFI_EVENT_DESCRIPTOR bytes (ed_DataSize m) =
      Some (EFI_SUCCESS, R', bytes, ed_DataSize m) \<and>
    chan (ch\<lparr>ec_Ring := R'\<rparr>) (evs @ [(m, take (unat (ed_DataSize m)) bytes)]) q \<and>
    rb_Size R' = rb_Size R \<and> rb_Flags R' = rb_Flags R"
proof -
  let ?x = "event_bytes (m, take (unat (ed_DataSize m)) bytes)"
  have a: "aligned_ring R (map event_bytes (evs @ [(m, d)]))" using chanD(1) [OF c(1)] by simp
  have "?x = overlay (map event_bytes (evs @ [(m, d)]) ! length evs) (unat SIZEOF_EFI_EVENT_DESCRIPTOR)
      (take (unat (ed_DataSize m)) bytes)"
    using c(2) data by (simp add: nth_append event_bytes_def overlay_def)
  then obtain R' where R': "RingBufferIo b R h DataWrite SIZEOF_EFI_EVENT_DESCRIPTOR bytes (ed_DataSize m) =
        Some (EFI_SUCCESS, R', bytes, ed_DataSize m)"
      "aligned_ring R' (map event_bytes (evs @ [(m, take (unat (ed_DataSize m)) bytes)]))"
      "\<And>j k. record_handle R (map event_bytes (evs @ [(m, d)])) j k \<Longrightarrow>
        record_handle R' (map event_bytes (evs @ [(m, take (unat (ed_DataSize m)) bytes)])) j k"
    using rb.write_law [OF a h, of SIZEOF_EFI_EVENT_DESCRIPTOR "ed_DataSize m" bytes ?x b] c(2) data
    by (auto simp: nth_append list_update_append)
  have "pending_at (ch\<lparr>ec_Ring := R'\<rparr>) (evs @ [(m, take (unat (ed_DataSize m)) bytes)]) q"
    using chanD(4) [OF c(1)] R'(3) io_same(3) [OF R'(1)]
    by (auto simp: pending_at_def nth_append split: option.splits)
  moreover have "list_all event_ok (evs @ [(m, take (unat (ed_DataSize m)) bytes)])"
    using chanD(2) [OF c(1)] data by (simp add: event_ok_def)
  ultimately show ?thesis
    using R'(1,2) chanD(3) [OF c(1)] io_same [OF R'(1)] by (auto simp: chan_def)
qed

lemma chan_stats [simp]: "chan (ch\<lparr>ec_Stats := st\<rparr>) evs q = chan ch evs q"
  by (simp add: chan_def pending_at_def split: option.splits)

lemma chan_lock [simp]: "chan (ch\<lparr>ec_Lock := l\<rparr>) evs q = chan ch evs q"
  by (simp add: chan_def pending_at_def split: option.splits)

definition written :: "event_channel \<Rightarrow> event_channel" where
  "written ch = ch\<lparr>ec_Stats := (ec_Stats ch)\<lparr>cs_Written := cs_Written (ec_Stats ch) + 1\<rparr>\<rparr>"

lemma log_event_plain:
  assumes c: "chan ch evs q"
    and plain: "ed_Flags E AND EVENT_FLAG_PENDING = 0"
    and size: "4 dvd unat (ed_DataSize E)" "unat (ed_DataSize E) < 2147483648" and data: "data_ok Data (ed_DataSize E)"
    and keep: "q = None \<or> \<not> overwrites ch \<or>
      stored (map event_bytes evs) + 68 + unat (ed_DataSize E) < ring_len (ec_Ring ch)"
    and e: "e = (event_meta env E, payload Data (ed_DataSize E))"
  shows "\<exists>ch'. log_event b env E Data ch = Some (fst (spec_of ch evs e), ch') \<and>
    chan ch' (snd (spec_of ch evs e)) q \<and> same_channel ch ch' \<and>
    cs_Written (ec_Stats ch') = cs_Written (ec_Stats ch) + (if fst (spec_of ch evs e) = EFI_SUCCESS then 1 else 0)"
proof (cases "fst (spec_of ch evs e) = EFI_SUCCESS")
  case False
  have "log_event b env E Data ch = Some (fst (spec_of ch evs e), ch\<lparr>ec_Ring := lose_write (ec_Ring ch)\<rparr>)"
    using refused_event(1) [OF c _ False, of b] refused_event(2) [OF c _ False] plain size(2) e
    by (simp add: log_event_def grow_cache_def event_meta_def)
  then show ?thesis
    using refused_event(3) [OF c _ False] chan_lose_write [OF c] size(2) e False
    by (auto simp: same_channel_def event_meta_def)
next
  case True
  let ?m = "event_meta env E"
  have m: "ed_DataSize ?m = ed_DataSize E" by (simp add: event_meta_def)
  have "q = None \<or> stored (map event_bytes evs) + 68 + unat (ed_DataSize ?m) < ring_len (ec_Ring ch)"
    using keep True m by (auto simp: e log_spec_def Let_def split: if_splits)
  from accepted_event [OF c _ _ True [unfolded e] this, of b] size m
  obtain R1 R2 h d evs' where r: "RingBufferReserve b (ec_Ring ch) (ed_DataSize E + SIZEOF_EFI_EVENT_DESCRIPTOR) =
        Some (EFI_SUCCESS, R1, h)"
      "RingBufferIo b R1 h DataWrite 0 (descriptor_bytes ?m) SIZEOF_EFI_EVENT_DESCRIPTOR =
        Some (EFI_SUCCESS, R2, descriptor_bytes ?m, SIZEOF_EFI_EVENT_DESCRIPTOR)"
      "length d = unat (ed_DataSize ?m)" "chan (ch\<lparr>ec_Ring := R2\<rparr>) (evs' @ [(?m, d)]) q"
      "record_handle R2 (map event_bytes (evs' @ [(?m, d)])) (length evs') h"
      "rb_Size R2 = rb_Size (ec_Ring ch)" "rb_Flags R2 = rb_Flags (ec_Ring ch)"
      "snd (spec_of ch evs e) = evs' @ [(?m, payload Data (ed_DataSize E))]"
    by (auto simp: e)
  show ?thesis
  proof (cases "ed_DataSize E = 0")
    case zero: True
    then have "d = payload Data (ed_DataSize E)" using r(3) m by (simp add: payload_def split: option.splits)
    moreover have "log_event b env E Data ch = Some (EFI_SUCCESS, written (ch\<lparr>ec_Ring := R2\<rparr>))"
      using plain r(1,2) zero by (auto simp: log_event_def grow_cache_def written_def Let_def split: option.splits)
    ultimately show ?thesis using r True by (auto simp: written_def same_channel_def)
  next
    case False
    then obtain bytes where bytes: "Data = Some bytes" "unat (ed_DataSize ?m) \<le> length bytes"
      using data m by (auto simp: data_ok_def split: option.splits)
    obtain R3 where R3: "RingBufferIo b R2 h DataWrite SIZEOF_EFI_EVENT_DESCRIPTOR bytes (ed_DataSize E) =
          Some (EFI_SUCCESS, R3, bytes, ed_DataSize E)"
        "chan (ch\<lparr>ec_Ring := R3\<rparr>) (evs' @ [(?m, payload Data (ed_DataSize E))]) q" "rb_Size R3 = rb_Size R2" "rb_Flags R3 = rb_Flags R2"
      using write_payload [OF r(4,3,5) bytes(2), of b] bytes(1) m by (auto simp: payload_def)
    have "log_event b env E Data ch = Some (EFI_SUCCESS, written (ch\<lparr>ec_Ring := R3\<rparr>))"
      using plain r(1,2) R3(1) False bytes(1) by (auto simp: log_event_def grow_cache_def written_def Let_def)
    then show ?thesis using r R3 True by (auto simp: written_def same_channel_def)
  qed
qed

subsection \<open>Logging a pending event\<close>

lemma grow_cache_runs:
  assumes c: "chan ch evs q" and env: "le_Tpl env \<le> TPL_NOTIFY" "le_Memory env"
  shows "\<exists>p. grow_cache b env E Data ch = Some (False, ch\<lparr>ec_Pending := p\<rparr>) \<and> chan (ch\<lparr>ec_Pending := p\<rparr>) evs q \<and>
    pe_Handle p = pe_Handle (ec_Pending ch) \<and> pe_Metadata p = pe_Metadata (ec_Pending ch) \<and>
    (ed_Flags E AND EVENT_FLAG_PENDING \<noteq> 0 \<and> Data \<noteq> None \<longrightarrow> unat (ed_DataSize E) \<le> unat (pe_CacheSize p)) \<and>
    (q \<noteq> None \<longrightarrow> cached_data (ch\<lparr>ec_Pending := p\<rparr>) = cached_data ch)"
proof (cases "ed_Flags E AND EVENT_FLAG_PENDING \<noteq> 0 \<and> Data \<noteq> None \<and> ed_DataSize E \<noteq> 0 \<and>
    pe_CacheSize (ec_Pending ch) < ucast (ed_DataSize E)")
  case False
  then show ?thesis
    using c by (intro exI [of _ "ec_Pending ch"]) (auto simp: grow_cache_def word_less_nat_alt)
next
  case True
  let ?P = "ec_Pending ch" and ?n = "unat (ed_DataSize E)"
  let ?old = "case pe_Cache ?P of None \<Rightarrow> [] | Some c \<Rightarrow> c"
  define p where "p = ?P\<lparr>pe_Cache := Some (ReallocatePool (pe_Cache ?P) ?n), pe_CacheSize := ucast (ed_DataSize E)\<rparr>"
  have lt: "unat (pe_CacheSize ?P) < ?n" using True by (simp add: word_less_nat_alt)
  have old: "length ?old = unat (pe_CacheSize ?P)"
    using chanD(3) [OF c] by (auto simp: cache_ok_def split: option.splits)
  have new: "ReallocatePool (pe_Cache ?P) ?n = ?old @ replicate (?n - length ?old) 0"
    using lt old by (auto simp: ReallocatePool_def split: option.splits)
  have "chan (ch\<lparr>ec_Pending := p\<rparr>) evs q"
    using c lt old by (auto simp: chan_def cache_ok_def pending_at_def p_def new split: option.splits)
  moreover have "cached_data (ch\<lparr>ec_Pending := p\<rparr>) = cached_data ch" if "q \<noteq> None"
  proof -
    have "unat (ed_DataSize (pe_Metadata ?P)) \<le> length ?old"
      using chanD(4) [OF c] that old by (auto simp: pending_at_def split: option.splits)
    then show ?thesis by (auto simp: cached_data_def p_def new split: option.splits)
  qed
  ultimately show ?thesis
    using True env by (intro exI [of _ p]) (auto simp: grow_cache_def p_def)
qed

definition incomplete :: "efi_event_descriptor \<Rightarrow> efi_event_descriptor" where
  "incomplete m = m\<lparr>ed_Flags := ed_Flags m OR EVENT_FLAG_INCOMPLETE\<rparr>"

text \<open>The log after a forced commit of the pending event.\<close>

definition force_commit :: "u64 \<Rightarrow> event_channel \<Rightarrow> event list \<Rightarrow> nat option \<Rightarrow> event list" where
  "force_commit now ch evs q = (case q of None \<Rightarrow> evs
     | Some i \<Rightarrow> evs[i := (committed now (incomplete (pe_Metadata (ec_Pending ch))), cached_data ch)])"

lemma length_force_commit [simp]: "length (force_commit now ch evs q) = length evs"
  by (simp add: force_commit_def split: option.splits)

lemma forced_commit_runs:
  assumes c: "chan ch evs q"
  shows "\<exists>ch'. (if pe_Handle (ec_Pending ch) \<noteq> INVALID_RING_HANDLE
      then map_option snd (EventPendingCommitInternal b now (mark_incomplete ch)) else Some ch) = Some ch' \<and>
    chan ch' (force_commit now ch evs q) None \<and> same_channel ch ch' \<and> ec_Stats ch' = ec_Stats ch \<and>
    rb_HandleKey (ec_Ring ch') = rb_HandleKey (ec_Ring ch) \<and> pe_CacheSize (ec_Pending ch') = pe_CacheSize (ec_Pending ch) \<and>
    (\<forall>j k. record_handle (ec_Ring ch) (map event_bytes evs) j k \<longrightarrow>
      record_handle (ec_Ring ch') (map event_bytes (force_commit now ch evs q)) j k)"
proof (cases q)
  case None
  then show ?thesis using c by (auto simp: chan_def pending_at_def force_commit_def same_channel_def)
next
  case (Some i)
  note P = chanD(4) [OF c, unfolded Some pending_at_def, simplified]
  have "pe_Handle (ec_Pending ch) \<noteq> INVALID_RING_HANDLE"
    using record_handle_valid [OF chanD(5) [OF c]] P by blast
  moreover have "cache_ok (mark_incomplete ch)"
    using chanD(3) [OF c] by (simp add: cache_ok_def mark_incomplete_def split: option.splits)
  moreover have "cached_data (mark_incomplete ch) = cached_data ch"
    by (simp add: cached_data_def mark_incomplete_def)
  ultimately show ?thesis
    using commit_internal [where ch = "mark_incomplete ch" and i = i and evs = evs and b = b and now = now, OF _ chanD(2) [OF c] _ _ _ _ _ refl]
      P chanD(1) [OF c] Some
    by (auto simp: force_commit_def mark_incomplete_def incomplete_def same_channel_def)
qed

text \<open>The new event becomes the pending one, with its data in the cache.\<close>

lemma pend_event_runs:
  assumes c: "chan ch (evs @ [(m, d)]) q" and d: "length d = unat (ed_DataSize m)"
    and h: "record_handle (ec_Ring ch) (map event_bytes (evs @ [(m, d)])) (length evs) h" "rb_HandleKey (ec_Ring ch) \<noteq> 0"
    and q: "\<And>i. q = Some i \<Longrightarrow> i < length evs"
    and size: "ed_DataSize E = ed_DataSize m" "data_ok Data (ed_DataSize m)"
      "unat (ed_DataSize m) \<le> unat (pe_CacheSize (ec_Pending ch)) \<or> ed_DataSize m = 0"
  shows "\<exists>ch'. pend_event b env E h m Data ch = Some ch' \<and>
    chan ch' (force_commit (le_CommitNow env) ch evs q @ [(m, d)]) (Some (length evs)) \<and> same_channel ch ch' \<and>
    ec_Stats ch' = ec_Stats ch \<and> cached_data ch' = payload Data (ed_DataSize m)"
proof -
  let ?now = "le_CommitNow env"
  obtain ch1 where ch1: "(if pe_Handle (ec_Pending ch) \<noteq> INVALID_RING_HANDLE
      then map_option snd (EventPendingCommitInternal b ?now (mark_incomplete ch)) else Some ch) = Some ch1"
      "chan ch1 (force_commit ?now ch (evs @ [(m, d)]) q) None" "same_channel ch ch1" "ec_Stats ch1 = ec_Stats ch"
      "rb_HandleKey (ec_Ring ch1) = rb_HandleKey (ec_Ring ch)" "pe_CacheSize (ec_Pending ch1) = pe_CacheSize (ec_Pending ch)"
      "record_handle (ec_Ring ch1) (map event_bytes (force_commit ?now ch (evs @ [(m, d)]) q)) (length evs) h"
    using forced_commit_runs [OF c, of b ?now] h(1) by blast
  have fc: "force_commit ?now ch (evs @ [(m, d)]) q = force_commit ?now ch evs q @ [(m, d)]"
    using q by (cases q) (auto simp: force_commit_def list_update_append)
  let ?P = "ec_Pending ch1"
  define ch2 where "ch2 = ch1\<lparr>ec_Pending := ?P\<lparr>pe_Handle := h, pe_Metadata := m\<rparr>\<rparr>"
  have a: "ucast (ed_DataSize E) \<le> pe_CacheSize (ec_Pending ch2)"
    using size(1,3) ch1(6) by (auto simp: ch2_def word_le_nat_alt)
  have c2: "chan ch2 (force_commit ?now ch evs q @ [(m, d)]) (Some (length evs))"
    using ch1(2,5,7) h(2) a size(1)
    by (auto simp: chan_def fc pending_at_def cache_ok_def ch2_def nth_append word_le_nat_alt split: option.splits)
  show ?thesis
  proof (cases "ed_DataSize m = 0")
    case True
    have "pend_event b env E h m Data ch = Some ch2"
      using True size(1) a by (simp only: pend_event_def ch1(1) Option.bind.simps Let_def ch2_def [symmetric]) simp
    then show ?thesis
      using c2 ch1(3,4) True
      by (auto simp: ch2_def same_channel_def cached_data_def payload_def split: option.splits)
  next
    case False
    then obtain bytes cache where bc: "Data = Some bytes" "unat (ed_DataSize m) \<le> length bytes"
        "pe_Cache ?P = Some cache" "unat (ed_DataSize m) \<le> length cache"
      using size(2,3) chanD(3) [OF ch1(2)] ch1(6) by (auto simp: data_ok_def cache_ok_def unat_eq_0 split: option.splits)
    let ?cache = "take (unat (ed_DataSize m)) bytes @ drop (unat (ed_DataSize m)) cache"
    have w: "mem_write cache 0 (take (unat (ed_DataSize m)) bytes) = Some ?cache"
      using bc(2,4) by (simp add: mem_write_Some min_def)
    define ch3 where "ch3 = ch2\<lparr>ec_Pending := (ec_Pending ch2)\<lparr>pe_Cache := Some ?cache\<rparr>\<rparr>"
    have "pe_Cache (ec_Pending ch2) = Some cache" using bc(3) by (simp add: ch2_def)
    then have "pend_event b env E h m Data ch = Some ch3"
      using False size(1) a bc(1,2) w
      by (simp only: pend_event_def ch1(1) Option.bind.simps Let_def ch2_def [symmetric]) (simp add: ch3_def)
    moreover have "chan ch3 (force_commit ?now ch evs q @ [(m, d)]) (Some (length evs))"
      using c2 bc by (auto simp: chan_def cache_ok_def pending_at_def ch3_def ch2_def split: option.splits)
    ultimately show ?thesis
      using ch1(3,4) bc
      by (auto simp: ch3_def ch2_def same_channel_def cached_data_def payload_def)
  qed
qed

lemma force_commit_ring [simp]: "force_commit now (ch\<lparr>ec_Ring := R\<rparr>) evs q = force_commit now ch evs q"
  by (simp add: force_commit_def cached_data_def split: option.splits)

lemma log_event_pending:
  assumes c: "chan ch evs q"
    and pend: "ed_Flags E AND EVENT_FLAG_PENDING \<noteq> 0"
    and size: "4 dvd unat (ed_DataSize E)" "unat (ed_DataSize E) < 2147483648" and data: "data_ok Data (ed_DataSize E)"
    and keep: "q = None \<or> \<not> overwrites ch \<or>
      stored (map event_bytes evs) + 68 + unat (ed_DataSize E) < ring_len (ec_Ring ch)"
    and env: "le_Tpl env \<le> TPL_NOTIFY" "le_Memory env"
    and m: "m = event_meta env E"
  shows "\<exists>ch' d evs'. log_event b env E Data ch = Some (fst (spec_of ch evs (m, d)), ch') \<and> same_channel ch ch' \<and>
    (if fst (spec_of ch evs (m, d)) = EFI_SUCCESS
     then snd (spec_of ch evs (m, d)) = evs' @ [(m, d)] \<and>
       chan ch' (force_commit (le_CommitNow env) ch evs' q @ [(m, d)]) (Some (length evs')) \<and>
       cached_data ch' = payload Data (ed_DataSize E)
     else chan ch' evs q)"
proof -
  obtain p where p: "grow_cache b env E Data ch = Some (False, ch\<lparr>ec_Pending := p\<rparr>)" "chan (ch\<lparr>ec_Pending := p\<rparr>) evs q"
      "pe_Handle p = pe_Handle (ec_Pending ch)" "pe_Metadata p = pe_Metadata (ec_Pending ch)"
      "Data \<noteq> None \<longrightarrow> unat (ed_DataSize E) \<le> unat (pe_CacheSize p)"
      "q \<noteq> None \<longrightarrow> cached_data (ch\<lparr>ec_Pending := p\<rparr>) = cached_data ch"
    using grow_cache_runs [OF c env, of b E Data] pend by blast
  let ?ch = "ch\<lparr>ec_Pending := p\<rparr>"
  have eq: "spec_of ?ch evs = spec_of ch evs" by (simp add: overwrites_def)
  have md: "ed_DataSize m = ed_DataSize E" by (simp add: m event_meta_def)
  have st: "fst (spec_of ch evs (m, d)) = fst (spec_of ch evs (m, []))" for d by (simp add: log_spec_def Let_def)
  show ?thesis
  proof (cases "fst (spec_of ch evs (m, [])) = EFI_SUCCESS")
    case False
    have "log_event b env E Data ch = Some (fst (spec_of ch evs (m, [])), ?ch\<lparr>ec_Ring := lose_write (ec_Ring ch)\<rparr>)"
      using refused_event(1) [OF p(2), of "(m, [])" b] refused_event(2) [OF p(2), of "(m, [])"] False eq size(2) md
      by (simp add: log_event_def p(1))
    then show ?thesis
      using False chan_lose_write [OF p(2)] st
      by (intro exI [of _ "?ch\<lparr>ec_Ring := lose_write (ec_Ring ch)\<rparr>"] exI [of _ "[]"]) (simp add: same_channel_def)
  next
    case True
    have "q = None \<or> stored (map event_bytes evs) + 68 + unat (ed_DataSize m) < ring_len (ec_Ring ?ch)"
      using keep True md by (auto simp: log_spec_def Let_def split: if_splits)
    from accepted_event [OF p(2) _ _ _ this, of "[]" b] True size md eq
    obtain R1 R2 h d evs' where r: "RingBufferReserve b (ec_Ring ch) (ed_DataSize E + SIZEOF_EFI_EVENT_DESCRIPTOR) =
          Some (EFI_SUCCESS, R1, h)"
        "RingBufferIo b R1 h DataWrite 0 (descriptor_bytes m) SIZEOF_EFI_EVENT_DESCRIPTOR =
          Some (EFI_SUCCESS, R2, descriptor_bytes m, SIZEOF_EFI_EVENT_DESCRIPTOR)"
        "length d = unat (ed_DataSize m)" "chan (?ch\<lparr>ec_Ring := R2\<rparr>) (evs' @ [(m, d)]) q"
        "record_handle R2 (map event_bytes (evs' @ [(m, d)])) (length evs') h" "rb_HandleKey R2 \<noteq> 0"
        "rb_Size R2 = rb_Size (ec_Ring ch)" "rb_Flags R2 = rb_Flags (ec_Ring ch)"
        "\<forall>x. snd (spec_of ch evs (m, x)) = evs' @ [(m, x)]"
      by auto
    have q: "i < length evs'" if "q = Some i" for i
    proof -
      have "stored (map event_bytes evs) + 68 + unat (ed_DataSize m) < ring_len (ec_Ring ch)"
        using keep True that md by (auto simp: log_spec_def Let_def split: if_splits)
      then have "evs' @ [(m, [])] = evs @ [(m, [])]"
        using r(9) [rule_format, of "[]"] by (simp add: log_spec_def Let_def)
      then show ?thesis using chanD(4) [OF c] that by (simp add: pending_at_def)
    qed
    have cs: "unat (ed_DataSize m) \<le> unat (pe_CacheSize (ec_Pending (?ch\<lparr>ec_Ring := R2\<rparr>))) \<or> ed_DataSize m = 0"
      using p(5) data md by (cases Data) (simp_all add: data_ok_def)
    obtain ch' where ch': "pend_event b env E h m Data (?ch\<lparr>ec_Ring := R2\<rparr>) = Some ch'"
        "chan ch' (force_commit (le_CommitNow env) ?ch evs' q @ [(m, d)]) (Some (length evs'))"
        "same_channel (?ch\<lparr>ec_Ring := R2\<rparr>) ch'" "cached_data ch' = payload Data (ed_DataSize m)"
      using pend_event_runs [OF r(4,3) _ _ q _ _ cs, where h = h and E = E and Data = Data and b = b and env = env] r(5,6) md data
      by auto
    have "force_commit (le_CommitNow env) ?ch evs' q = force_commit (le_CommitNow env) ch evs' q"
      using p(4,6) by (cases q) (simp_all add: force_commit_def)
    moreover have "log_event b env E Data ch = Some (EFI_SUCCESS, written ch')"
      using pend r(1,2) ch'(1) by (simp add: log_event_def p(1) m [symmetric] Let_def written_def)
    moreover have "fst (spec_of ch evs (m, d)) = EFI_SUCCESS" using True st by simp
    ultimately show ?thesis
      using ch'(2-4) r(7-9) md
      by (intro exI [of _ "written ch'"] exI [of _ d] exI [of _ evs'])
        (auto simp: written_def same_channel_def cached_data_def)
  qed
qed

subsection \<open>Committing and retrieving on request\<close>

lemma pending_handle_valid:
  assumes c: "chan ch evs (Some i)"
  shows "RingBufferHandleIsValid b (ec_Ring ch) (pe_Handle (ec_Pending ch)) = Some EFI_SUCCESS"
  using handle_record [OF aligned_ringD(1) [OF chanD(1) [OF c]] _ refl refl, of i "pe_Handle (ec_Pending ch)" b] chanD(4) [OF c]
  by (auto simp: RingBufferHandleIsValid_def pending_at_def record_handle_def)

lemma no_pending_handle:
  assumes c: "chan ch evs None" and key: "rb_HandleKey (ec_Ring ch) \<noteq> 0xFFFFFFFF"
  shows "RingBufferHandleIsValid b (ec_Ring ch) (pe_Handle (ec_Pending ch)) = Some EFI_INVALID_PARAMETER"
proof -
  have "RING_HANDLE_GET_KEY INVALID_RING_HANDLE = ucast (0xFFFFFFFF :: u32)"
    by (simp add: RING_HANDLE_GET_KEY_def INVALID_RING_HANDLE_def mask_eq_exp_minus_1)
  moreover have "(ucast (0xFFFFFFFF :: u32) :: u64) \<noteq> ucast (rb_HandleKey (ec_Ring ch))"
    using key by (metis ucast_ucast64)
  ultimately show ?thesis
    using chanD(4) [OF c] by (simp add: RingBufferHandleIsValid_def pending_at_def)
qed

lemma pending_commit_runs:
  assumes c: "chan ch evs (Some i)"
    and e: "e = (committed now (fst (evs ! i)), cached_data ch)"
  shows "\<exists>ch'. pending_commit b now ch = Some (EFI_SUCCESS, ch') \<and> chan ch' (evs[i := e]) None \<and> same_channel ch ch'"
proof -
  note P = chanD(4) [OF c, unfolded pending_at_def, simplified]
  have "e = (committed now (pe_Metadata (ec_Pending ch)), cached_data ch)" using e P by simp
  then show ?thesis
    using commit_internal [OF chanD(1-3) [OF c], of i e now b] P pending_handle_valid [OF c, of b]
    by (auto simp: pending_commit_def)
qed

lemma pending_get_runs:
  assumes c: "chan ch evs (Some i)"
  shows "pending_get b ch = Some ((EFI_SUCCESS, Some (fst (evs ! i)), pe_Cache (ec_Pending ch)), ch)"
  using pending_handle_valid [OF c, of b] chanD(4) [OF c] by (simp add: pending_get_def pending_at_def)

lemma nothing_pending:
  assumes c: "chan ch evs None" "rb_HandleKey (ec_Ring ch) \<noteq> 0xFFFFFFFF"
  shows "pending_get b ch = Some ((EFI_NOT_FOUND, None, None), EventPendingCleanup ch)"
    "pending_commit b now ch = Some (EFI_NOT_FOUND, EventPendingCleanup ch)" "chan (EventPendingCleanup ch) evs None"
  using no_pending_handle [OF c, of b] c(1)
  by (auto simp: pending_get_def pending_commit_def EventPendingCleanup_def chan_def pending_at_def cache_ok_def
      split: option.splits)

subsection \<open>Resetting and flushing\<close>

lemma channel_reset_runs:
  assumes c: "chan ch evs q"
  shows "chan (channel_reset ch) [] None \<and> same_channel ch (channel_reset ch)"
proof -
  have "ring_inv (RingBufferReset (ec_Ring ch)) []" by (rule reset_empty [OF chanD(5) [OF c]])
  then show ?thesis
    using chanD(3) [OF c]
    by (auto simp: channel_reset_def EventPendingCleanup_def chan_def aligned_ring_def RingBufferReset_def Let_def
        pending_at_def cache_ok_def same_channel_def split: option.splits)
qed

text \<open>The host receives the events in order, a forced commit of the pending one included.\<close>

lemma flush_channel_runs:
  assumes c: "chan ch evs q" and data: "length Data = ring_len (ec_Ring ch)"
    and env: "\<not> (fe_Isolated env \<and> fe_HostEmulators env \<and> EFI_ERROR (fe_Visible env))"
    and out: "out = concat (map event_bytes (force_commit (fe_Now env) ch evs q))"
  shows "\<exists>ch'. flush_channel b env Data ch = Some ((EFI_SUCCESS,
      if fe_Isolated env \<and> \<not> fe_HostEmulators env then []
      else [\<lparr>bc_Channel = ec_Id ch, bc_EventsWritten = cs_Written (ec_Stats ch),
        bc_EventsLost = LostWrites (rb_Stats (ec_Ring ch')), bc_DataSize = of_nat (length out),
        bc_Data = out @ drop (length out) Data\<rparr>]), ch') \<and>
    chan ch' (force_commit (fe_Now env) ch evs q) None \<and> same_channel ch ch'"
proof -
  let ?evs = "force_commit (fe_Now env) ch evs q"
  obtain ch1 where ch1: "(if pe_Handle (ec_Pending ch) \<noteq> INVALID_RING_HANDLE
      then map_option snd (EventPendingCommitInternal b (fe_Now env) (mark_incomplete ch)) else Some ch) = Some ch1"
      "chan ch1 ?evs None" "same_channel ch ch1" "ec_Stats ch1 = ec_Stats ch"
    using forced_commit_runs [OF c, of b "fe_Now env"] by blast
  note D = aligned_ringD [OF chanD(1) [OF ch1(2)]]
  have "RingBufferFlatten b (ec_Ring ch1) (rb_Size (ec_Ring ch1)) Data =
      Some (EFI_SUCCESS, of_nat (length out), out @ drop (length out) Data)"
    unfolding out using D(3,6) data ch1(3) by (intro flatten_records_all [OF D(1)]) (simp_all add: same_channel_def)
  then have "flush_channel b env Data ch = Some ((EFI_SUCCESS,
      if fe_Isolated env \<and> \<not> fe_HostEmulators env then []
      else [\<lparr>bc_Channel = ec_Id ch1, bc_EventsWritten = cs_Written (ec_Stats ch1),
        bc_EventsLost = LostWrites (rb_Stats (ec_Ring ch1)), bc_DataSize = of_nat (length out),
        bc_Data = out @ drop (length out) Data\<rparr>]),
      ch1\<lparr>ec_Stats := (ec_Stats ch1)\<lparr>cs_Flush := cs_Flush (ec_Stats ch1) + 1\<rparr>\<rparr>)"
    using env unfolding flush_channel_def ch1(1) by (simp add: Let_def)
  then show ?thesis
    using ch1(2-4) by (auto simp: same_channel_def)
qed

subsection \<open>Enumerating\<close>

text \<open>The only event with the pending flag is the pending one.\<close>

definition flags_ok :: "event list \<Rightarrow> nat option \<Rightarrow> bool" where
  "flags_ok evs q \<longleftrightarrow> (\<forall>i < length evs. ed_Flags (fst (evs ! i)) AND EVENT_FLAG_PENDING \<noteq> 0 \<longleftrightarrow> q = Some i)"

definition context_ok :: "event_enum_context \<Rightarrow> bool" where
  "context_ok cx \<longleftrightarrow> length (en_Buffer cx) = unat (en_BufferSize cx) \<and> unat (en_BufferSize cx) < 2147483648 + 256"

lemma align_step:
  assumes "unat n < 2147483648"
  shows "unat n \<le> unat (align_step n)" "unat (align_step n) < 2147483648 + 256"
proof -
  let ?r = "(256 - n) AND 255"
  have "?r = take_bit 8 (256 - n)" by (simp add: take_bit_eq_mask mask_eq_exp_minus_1)
  then have "unat ?r = unat (256 - n) mod 256" by (simp only: unsigned_take_bit_eq) (simp add: take_bit_eq_mod)
  then have r: "unat ?r < 256" by simp
  then have "unat (align_step n) = unat n + unat ?r"
    using assms by (simp only: align_step_def EVENT_ENUM_BUFFER_STEP_SIZE_def) (subst unat_add32; simp)
  then show "unat n \<le> unat (align_step n)" "unat (align_step n) < 2147483648 + 256" using r assms by simp_all
qed

lemma new_context_ok: "unat n < 2147483648 + 256 \<Longrightarrow> context_ok (new_context e n)"
  by (simp add: context_ok_def new_context_def)

lemma chan_live_key:
  assumes "chan ch evs q"
  shows "chan (ch\<lparr>ec_Ring := (ec_Ring ch)\<lparr>rb_HandleKey := live_key (ec_Ring ch)\<rparr>\<rparr>) evs q"
  using assms
  by (auto simp: chan_def aligned_ring_def pending_at_def live_key_def record_handle_def record_pos_def split: option.splits)

lemma enumerate_event_next:
  assumes c: "chan ch evs q" and f: "flags_ok evs q" and i: "i < length evs"
    and cx: "context_ok cx" "enum_at (ec_Ring ch) (map event_bytes evs) i (en_RingEnum cx)"
    and size: "unat (ed_DataSize (fst (evs ! i))) < 2147483648"
    and ch': "ch' = ch\<lparr>ec_Ring := (ec_Ring ch)\<lparr>rb_HandleKey := live_key (ec_Ring ch)\<rparr>\<rparr>"
  shows "\<exists>cx' data. enumerate_event b True cx ch = Some ((EFI_SUCCESS, cx', fst (evs ! i), data), ch') \<and>
    context_ok cx' \<and> enum_at (ec_Ring ch') (map event_bytes evs) (Suc i) (en_RingEnum cx') \<and>
    data = (if q = Some i then pe_Cache (ec_Pending ch) else Some (en_Buffer cx')) \<and>
    (q \<noteq> Some i \<longrightarrow> take (unat (ed_DataSize (fst (evs ! i)))) (en_Buffer cx') = snd (evs ! i))"
proof -
  let ?ds = "map event_bytes evs" and ?R = "(ec_Ring ch)\<lparr>rb_HandleKey := live_key (ec_Ring ch)\<rparr>" and ?m = "fst (evs ! i)"
  note D = aligned_ringD [OF chanD(1) [OF c]]
  have i': "i < length ?ds" using i by simp
  obtain e' h where e: "RingBufferHandleEnumerate b (ec_Ring ch) (en_RingEnum cx) =
        Some (EFI_SUCCESS, ?R, e', h, of_nat (4 + length (?ds ! i)))"
      "enum_at ?R ?ds (Suc i) e'" "record_handle ?R ?ds i h"
    using enumerate_next [OF D(1) cx(2) i', of b] by blast
  have c': "chan ch' evs q" unfolding ch' by (rule chan_live_key [OF c])
  then have a: "aligned_ring ?R ?ds" using chanD(1) [OF c'] ch' by simp
  have dsi: "?ds ! i = descriptor_bytes ?m @ snd (evs ! i)" using i by (simp add: event_bytes_def)
  have ev: "length (snd (evs ! i)) = unat (ed_DataSize ?m)"
    using chanD(2) [OF c] i by (simp add: list_all_length event_ok_def)
  have rd: "RingBufferIo b ?R h DataRead 0 (descriptor_bytes zero_descriptor) SIZEOF_EFI_EVENT_DESCRIPTOR =
        Some (EFI_SUCCESS, ?R, descriptor_bytes ?m, SIZEOF_EFI_EVENT_DESCRIPTOR)"
      "RingBufferIo b ?R h DataRead SIZEOF_EFI_EVENT_DESCRIPTOR buf n =
        Some (EFI_SUCCESS, ?R, snd (evs ! i) @ drop (unat (ed_DataSize ?m)) buf, ed_DataSize ?m)"
    if "unat (ed_DataSize ?m) \<le> unat n" "unat n < 2147483648 + 256" "length buf = unat n" for buf n
    using rb.read_two_parts [OF a e(3) dsi, where ?n1.0 = SIZEOF_EFI_EVENT_DESCRIPTOR and ?n2.0 = n and v = buf
        and u = "descriptor_bytes zero_descriptor" and b = b] that ev
    by simp_all
  have pend: "ed_Flags ?m AND EVENT_FLAG_PENDING \<noteq> 0 \<longleftrightarrow> q = Some i" using f i by (simp add: flags_ok_def)
  show ?thesis
  proof (cases "q = Some i")
    case True
    then have "ucast (ed_DataSize ?m) \<le> pe_CacheSize (ec_Pending ch)"
      using chanD(4) [OF c] by (simp add: pending_at_def word_le_nat_alt)
    then have "enumerate_event b True cx ch =
        Some ((EFI_SUCCESS, cx\<lparr>en_RingEnum := e'\<rparr>, ?m, pe_Cache (ec_Pending ch)), ch')"
      using True pend rd(1) [of "ed_DataSize ?m" "replicate (unat (ed_DataSize ?m)) 0"] size
      by (simp add: enumerate_event_def e(1) Let_def ch')
    then show ?thesis using True e(2) cx(1) ch' by (auto simp: context_ok_def)
  next
    case False
    define cy where "cy = (if en_BufferSize cx < ed_DataSize ?m then new_context e' (align_step (ed_DataSize ?m))
      else cx\<lparr>en_RingEnum := e'\<rparr>)"
    have cy: "context_ok cy" "unat (ed_DataSize ?m) \<le> unat (en_BufferSize cy)" "en_RingEnum cy = e'"
      using cx(1) align_step [OF size] by (auto simp: cy_def context_ok_def new_context_def word_less_nat_alt)
    let ?buf = "snd (evs ! i) @ drop (unat (ed_DataSize ?m)) (en_Buffer cy)"
    have "enumerate_event b True cx ch = Some ((EFI_SUCCESS, cy\<lparr>en_Buffer := ?buf\<rparr>, ?m, Some ?buf), ch')"
      using False pend rd [OF cy(2), of "en_Buffer cy"] cy(1)
      by (cases "en_BufferSize cx < ed_DataSize ?m")
        (simp_all add: enumerate_event_def e(1) Let_def ch' context_ok_def cy_def new_context_def)
    moreover have "context_ok (cy\<lparr>en_Buffer := ?buf\<rparr>)" using cy ev by (simp add: context_ok_def)
    ultimately show ?thesis using False e(2) cy(3) ev ch' by auto
  qed
qed

lemma enumerate_event_end:
  assumes c: "chan ch evs q" and e: "enum_at (ec_Ring ch) (map event_bytes evs) (length evs) (en_RingEnum cx)"
  shows "enumerate_event b memory cx ch =
    Some ((EFI_NOT_FOUND, cx\<lparr>en_RingEnum := INVALID_RING_HANDLE\<rparr>, zero_descriptor, None), ch)"
  using enumerate_end [OF aligned_ringD(1) [OF chanD(1) [OF c]], of "en_RingEnum cx" b] e
  by (simp add: enumerate_event_def Let_def)

end
