(* ===== verification/Event_Log.thy ===== *)
theory Event_Log
  imports Event_Channel
begin

text \<open>
  The event log as a whole: the channels in the handle table, the functions of the protocol on
  them, and the states that sequences of calls reach.
\<close>

subsection \<open>The state of the log\<close>

text \<open>
  \<open>log_holds s ps E Q\<close>: the table holds the channels at the pointers \<open>ps\<close>, all unlocked; the
  channel at \<open>p\<close> holds the events \<open>E p\<close>, of which \<open>Q p\<close> is pending.
\<close>

definition channel_id :: "event_log \<Rightarrow> nat \<Rightarrow> guid option" where
  "channel_id s p = map_option ec_Id (el_Objects s p)"

definition log_holds :: "event_log \<Rightarrow> nat list \<Rightarrow> (nat \<Rightarrow> event list) \<Rightarrow> (nat \<Rightarrow> nat option) \<Rightarrow> bool" where
  "log_holds s ps E Q \<longleftrightarrow> table_holds (mEventChannels s) ps \<and> distinct ps \<and>
     ti_ObjectKeySize (ht_Info (mEventChannels s)) = 16 \<and> distinct (map (channel_id s) ps) \<and>
     (\<forall>p \<in> set ps. \<exists>ch. el_Objects s p = Some ch \<and> \<not> ec_Lock ch \<and> chan ch (E p) (Q p) \<and> flags_ok (E p) (Q p))"

lemma log_holds_channel:
  assumes "log_holds s ps E Q" "p \<in> set ps"
  obtains ch where "el_Objects s p = Some ch" "\<not> ec_Lock ch" "chan ch (E p) (Q p)" "flags_ok (E p) (Q p)"
  using assms by (auto simp: log_holds_def)

lemma log_holds_lookup:
  assumes l: "log_holds s ps E Q" and "EventChannelFromHandle s h = Some p"
  shows "p \<in> set ps"
proof -
  have t: "table_holds (mEventChannels s) ps" using l by (simp add: log_holds_def)
  show ?thesis
    using lookup_found [OF t, of h p] assms(2) by (auto simp: EventChannelFromHandle_def split: if_splits)
qed

lemma log_holds_update:
  assumes l: "log_holds s ps E Q" and p: "p \<in> set ps" "el_Objects s p = Some ch"
    and ch': "ec_Id ch' = ec_Id ch" "\<not> ec_Lock ch'" "chan ch' evs q" "flags_ok evs q"
  shows "log_holds (s\<lparr>el_Objects := (el_Objects s)(p \<mapsto> ch')\<rparr>) ps (E(p := evs)) (Q(p := q))"
proof -
  have "map (channel_id (s\<lparr>el_Objects := (el_Objects s)(p \<mapsto> ch')\<rparr>)) ps = map (channel_id s) ps"
    using p(2) ch'(1) by (auto simp: channel_id_def)
  then show ?thesis using l ch' by (auto simp: log_holds_def simp del: map_eq_conv)
qed

lemma log_holds_flushed: "log_holds (s\<lparr>el_Flushed := out\<rparr>) ps E Q = log_holds s ps E Q"
proof -
  have "channel_id (s\<lparr>el_Flushed := out\<rparr>) = channel_id s" by (rule ext) (simp add: channel_id_def)
  then show ?thesis by (simp add: log_holds_def)
qed

subsection \<open>One channel under its lock\<close>

text \<open>
  A function that keeps lock and identity of the channel runs under the lock; afterwards the
  channel is unlocked again and the other channels are as they were.
\<close>

lemma with_channel_runs:
  assumes l: "log_holds s ps E Q" and p: "p \<in> set ps" "el_Objects s p = Some ch"
    and f: "f (ch\<lparr>ec_Lock := True\<rparr>) = Some (r, ch')" "same_channel (ch\<lparr>ec_Lock := True\<rparr>) ch'"
    and c: "chan ch' evs q" "flags_ok evs q"
  shows "with_channel b s p f = Some (r, s\<lparr>el_Objects := (el_Objects s)(p \<mapsto> ch'\<lparr>ec_Lock := False\<rparr>)\<rparr>) \<and>
    log_holds (s\<lparr>el_Objects := (el_Objects s)(p \<mapsto> ch'\<lparr>ec_Lock := False\<rparr>)\<rparr>) ps (E(p := evs)) (Q(p := q))"
proof -
  have u: "\<not> ec_Lock ch" using log_holds_channel [OF l p(1)] p(2) by auto
  have "log_holds (s\<lparr>el_Objects := (el_Objects s)(p \<mapsto> ch'\<lparr>ec_Lock := False\<rparr>)\<rparr>) ps (E(p := evs)) (Q(p := q))"
    using f(2) c by (intro log_holds_update [OF l p]) (simp_all add: same_channel_def)
  then show ?thesis
    using p(2) f u by (simp add: with_channel_def EventChannelLock_def EventChannelUnlock_def same_channel_def)
qed

subsection \<open>The pending flag\<close>

lemma pending_index: "chan ch evs q \<Longrightarrow> q = Some i \<Longrightarrow> i < length evs"
  by (simp add: chan_def pending_at_def)

lemma event_meta_flag:
  "ed_Flags (event_meta env Ev) AND EVENT_FLAG_PENDING \<noteq> 0 \<longleftrightarrow> ed_Flags Ev AND EVENT_FLAG_PENDING \<noteq> 0"
  by (simp add: event_meta_def and.assoc)

lemma committed_flag: "ed_Flags (committed now m) AND EVENT_FLAG_PENDING = 0"
proof -
  have "(x AND NOT y) AND y = 0" for x y :: u32 by (simp add: and.assoc)
  then show ?thesis by (simp add: committed_def)
qed

lemma flags_ok_plain:
  assumes "flags_ok evs q" "\<And>i. q = Some i \<Longrightarrow> i < length evs" "ed_Flags (fst e) AND EVENT_FLAG_PENDING = 0"
  shows "flags_ok (evs @ [e]) q"
  using assms by (auto simp: flags_ok_def nth_append)

lemma flags_ok_drop: "flags_ok evs None \<Longrightarrow> flags_ok (drop j evs) None"
  by (simp add: flags_ok_def)

lemma flags_ok_pending:
  "flags_ok evs None \<Longrightarrow> ed_Flags m AND EVENT_FLAG_PENDING \<noteq> 0 \<Longrightarrow> flags_ok (evs @ [(m, d)]) (Some (length evs))"
  by (auto simp: flags_ok_def nth_append)

lemma flags_ok_update:
  "flags_ok evs (Some i) \<Longrightarrow> flags_ok (evs[i := (committed now m, d)]) None"
  by (auto simp: flags_ok_def nth_list_update committed_flag)

lemma flags_ok_force: "flags_ok evs q \<Longrightarrow> flags_ok (force_commit now ch evs q) None"
  by (cases q) (simp_all add: force_commit_def flags_ok_update)

lemma flags_ok_spec:
  assumes "flags_ok evs q" "\<And>i. q = Some i \<Longrightarrow> i < length evs" "ed_Flags (fst e) AND EVENT_FLAG_PENDING = 0"
    and "q = None \<or> \<not> ow \<or> stored (map event_bytes evs) + 68 + unat (ed_DataSize (fst e)) < n"
  shows "flags_ok (snd (log_spec n ow evs e)) q"
proof -
  have "flags_ok (evs @ [e]) q" "flags_ok evs None \<Longrightarrow> flags_ok (drop j evs @ [e]) None" for j
    using flags_ok_plain [OF assms(1-3)] flags_ok_plain [OF flags_ok_drop, of evs j e] assms(3) by simp_all
  then show ?thesis
    using assms(1,4) by (auto simp: log_spec_def Let_def drop_oldest_events_def)
qed

subsection \<open>The functions of the protocol\<close>

text \<open>
  An event that may be logged: its data is there, its size keeps the ring aligned, and logging
  it does not remove records while another event is pending.
\<close>

definition log_ok :: "event_channel \<Rightarrow> event list \<Rightarrow> nat option \<Rightarrow> efi_event_descriptor \<Rightarrow> u8 list option \<Rightarrow> bool" where
  "log_ok ch evs q Ev Data \<longleftrightarrow> 4 dvd unat (ed_DataSize Ev) \<and> unat (ed_DataSize Ev) < 2147483648 \<and>
     data_ok Data (ed_DataSize Ev) \<and>
     (q = None \<or> \<not> overwrites ch \<or> stored (map event_bytes evs) + 68 + unat (ed_DataSize Ev) < ring_len (ec_Ring ch))"

lemma overwrites_lock [simp]: "overwrites (ch\<lparr>ec_Lock := l\<rparr>) = overwrites ch"
  by (simp add: overwrites_def)

lemma spec_of_lock: "spec_of (ch\<lparr>ec_Lock := l\<rparr>) = spec_of ch"
  by simp

lemma event_log_plain:
  assumes l: "log_holds s ps E Q" and h: "EventChannelFromHandle s h = Some p" "el_Objects s p = Some ch"
    and ok: "log_ok ch (E p) (Q p) Ev Data" and plain: "ed_Flags Ev AND EVENT_FLAG_PENDING = 0"
    and e: "e = (event_meta env Ev, payload Data (ed_DataSize Ev))"
  shows "\<exists>s'. EventLog b env s h (Some Ev) Data = Some (fst (spec_of ch (E p) e), s') \<and>
    log_holds s' ps (E(p := snd (spec_of ch (E p) e))) Q \<and> (\<exists>ch'. el_Objects s' p = Some ch' \<and> same_channel ch ch')"
proof -
  note p = log_holds_lookup [OF l h(1)]
  obtain c: "chan ch (E p) (Q p)" and f: "flags_ok (E p) (Q p)" and u: "\<not> ec_Lock ch" using log_holds_channel [OF l p] h(2) by auto
  note o = ok [unfolded log_ok_def]
  obtain ch' where ch': "log_event b env Ev Data (ch\<lparr>ec_Lock := True\<rparr>) = Some (fst (spec_of ch (E p) e), ch')"
      "chan ch' (snd (spec_of ch (E p) e)) (Q p)" "same_channel (ch\<lparr>ec_Lock := True\<rparr>) ch'"
    using log_event_plain [of "ch\<lparr>ec_Lock := True\<rparr>" "E p" "Q p" Ev Data e env b] c o plain e
    by (auto simp: overwrites_def)
  have "flags_ok (snd (spec_of ch (E p) e)) (Q p)"
    using plain o event_meta_flag [of env Ev] pending_index [OF c]
    by (intro flags_ok_spec [OF f]) (auto simp: e event_meta_def)
  from with_channel_runs [where f = "log_event b env Ev Data", OF l p h(2) ch'(1,3,2) this, of b]
  have "EventLog b env s h (Some Ev) Data = Some (fst (spec_of ch (E p) e),
        s\<lparr>el_Objects := (el_Objects s)(p \<mapsto> ch'\<lparr>ec_Lock := False\<rparr>)\<rparr>)"
    and "log_holds (s\<lparr>el_Objects := (el_Objects s)(p \<mapsto> ch'\<lparr>ec_Lock := False\<rparr>)\<rparr>) ps (E(p := snd (spec_of ch (E p) e))) Q"
    using h(1) by (simp_all add: EventLog_def)
  moreover have "same_channel ch (ch'\<lparr>ec_Lock := False\<rparr>)" using ch'(3) u by (simp add: same_channel_def)
  ultimately show ?thesis
    by (intro exI [of _ "s\<lparr>el_Objects := (el_Objects s)(p \<mapsto> ch'\<lparr>ec_Lock := False\<rparr>)\<rparr>"]) simp
qed

lemma event_log_pending:
  assumes l: "log_holds s ps E Q" and h: "EventChannelFromHandle s h = Some p" "el_Objects s p = Some ch"
    and ok: "log_ok ch (E p) (Q p) Ev Data" and pend: "ed_Flags Ev AND EVENT_FLAG_PENDING \<noteq> 0"
    and env: "le_Tpl env \<le> TPL_NOTIFY" "le_Memory env" and m: "m = event_meta env Ev"
  shows "\<exists>s' d evs' ch'. EventLog b env s h (Some Ev) Data = Some (fst (spec_of ch (E p) (m, d)), s') \<and>
    el_Objects s' p = Some ch' \<and> same_channel ch ch' \<and>
    (if fst (spec_of ch (E p) (m, d)) = EFI_SUCCESS
     then snd (spec_of ch (E p) (m, d)) = evs' @ [(m, d)] \<and> cached_data ch' = payload Data (ed_DataSize Ev) \<and>
       log_holds s' ps (E(p := force_commit (le_CommitNow env) ch evs' (Q p) @ [(m, d)])) (Q(p := Some (length evs')))
     else log_holds s' ps E Q)"
proof -
  note p = log_holds_lookup [OF l h(1)]
  obtain c: "chan ch (E p) (Q p)" and f: "flags_ok (E p) (Q p)" and u: "\<not> ec_Lock ch"
    using log_holds_channel [OF l p] h(2) by auto
  let ?L = "ch\<lparr>ec_Lock := True\<rparr>"
  have o: "4 dvd unat (ed_DataSize Ev)" "unat (ed_DataSize Ev) < 2147483648" "data_ok Data (ed_DataSize Ev)"
    using ok by (simp_all add: log_ok_def)
  have cL: "chan ?L (E p) (Q p)" and kL: "Q p = None \<or> \<not> overwrites ?L \<or>
      stored (map event_bytes (E p)) + 68 + unat (ed_DataSize Ev) < ring_len (ec_Ring ?L)"
    using c ok by (simp_all add: log_ok_def)
  obtain ch' d evs' where ch': "log_event b env Ev Data ?L = Some (fst (spec_of ch (E p) (m, d)), ch')" "same_channel ?L ch'"
      "if fst (spec_of ch (E p) (m, d)) = EFI_SUCCESS
       then snd (spec_of ch (E p) (m, d)) = evs' @ [(m, d)] \<and>
         chan ch' (force_commit (le_CommitNow env) ?L evs' (Q p) @ [(m, d)]) (Some (length evs')) \<and>
         cached_data ch' = payload Data (ed_DataSize Ev)
       else chan ch' (E p) (Q p)"
    using log_event_pending [OF cL pend o(1-3) kL env m, of b, unfolded spec_of_lock] by blast
  have fl: "force_commit (le_CommitNow env) ?L = force_commit (le_CommitNow env) ch"
    by (intro ext) (simp add: force_commit_def cached_data_def split: option.splits)
  have sc: "same_channel ch (ch'\<lparr>ec_Lock := False\<rparr>)" using ch'(2) u by (simp add: same_channel_def)
  let ?s = "s\<lparr>el_Objects := (el_Objects s)(p \<mapsto> ch'\<lparr>ec_Lock := False\<rparr>)\<rparr>"
  show ?thesis
  proof (cases "fst (spec_of ch (E p) (m, d)) = EFI_SUCCESS")
    case True
    have j: "\<exists>j. evs' = drop j (E p) \<and> (Q p = None \<or> j = 0)"
    proof (cases "stored (map event_bytes (E p)) + (68 + unat (ed_DataSize m)) < ring_len (ec_Ring ch)")
      case True
      with ch'(3) \<open>fst _ = _\<close> have "evs' = E p" by (auto simp: log_spec_def Let_def)
      then show ?thesis by (intro exI [of _ 0]) simp
    next
      case False
      moreover have "Q p = None" using kL False \<open>fst _ = _\<close> m
        by (auto simp: log_spec_def Let_def event_meta_def split: if_splits)
      ultimately show ?thesis using ch'(3) \<open>fst _ = _\<close>
        by (auto simp: log_spec_def Let_def drop_oldest_events_def split: if_splits)
    qed
    then have "flags_ok evs' (Q p)" using f by (cases "Q p") (auto simp: flags_ok_drop)
    then have "flags_ok (force_commit (le_CommitNow env) ch evs' (Q p) @ [(m, d)]) (Some (length evs'))"
      using flags_ok_pending [OF flags_ok_force, of evs' "Q p" m "le_CommitNow env" ch d] pend event_meta_flag [of env Ev] m
      by simp
    with with_channel_runs [where f = "log_event b env Ev Data", OF l p h(2) ch'(1,2) _ this, of b] ch'(3) True h(1) show ?thesis
      by (intro exI [of _ ?s] exI [of _ d] exI [of _ evs'] exI [of _ "ch'\<lparr>ec_Lock := False\<rparr>"])
        (simp add: EventLog_def fl cached_data_def sc)
  next
    case False
    with with_channel_runs [where f = "log_event b env Ev Data", OF l p h(2) ch'(1,2) _ f, of b] ch'(3) h(1) show ?thesis
      by (intro exI [of _ ?s] exI [of _ d] exI [of _ evs'] exI [of _ "ch'\<lparr>ec_Lock := False\<rparr>"])
        (simp add: EventLog_def sc)
  qed
qed

text \<open>Without memory for the cache, an event is either refused or logged as with memory.\<close>

lemma log_event_memory:
  "log_event b env Ev Data ch = log_event b (env\<lparr>le_Memory := True\<rparr>) Ev Data ch \<or>
   log_event b env Ev Data ch = (if ASSERTS b \<and> \<not> le_Tpl env \<le> TPL_NOTIFY then None else Some (EFI_OUT_OF_RESOURCES, ch))"
proof -
  have e: "event_meta (env\<lparr>le_Memory := True\<rparr>) = event_meta env" by (rule ext) (simp add: event_meta_def)
  have p: "pend_event b (env\<lparr>le_Memory := True\<rparr>) = pend_event b env" by (intro ext) (simp add: pend_event_def)
  show ?thesis
  proof (cases "le_Memory env")
    case True
    then have "env\<lparr>le_Memory := True\<rparr> = env" by simp
    then show ?thesis by simp
  next
    case False
    show ?thesis
    proof (cases "ed_Flags Ev AND EVENT_FLAG_PENDING \<noteq> 0 \<and> Data \<noteq> None \<and> ed_DataSize Ev \<noteq> 0 \<and>
        pe_CacheSize (ec_Pending ch) < ucast (ed_DataSize Ev)")
      case True
      with False have "log_event b env Ev Data ch =
          (if ASSERTS b \<and> \<not> le_Tpl env \<le> TPL_NOTIFY then None else Some (EFI_OUT_OF_RESOURCES, ch))"
        by (auto simp: log_event_def grow_cache_def ASSERT_def)
      then show ?thesis by blast
    next
      case no: False
      then have "grow_cache b env Ev Data ch = Some (False, ch)" "grow_cache b (env\<lparr>le_Memory := True\<rparr>) Ev Data ch = Some (False, ch)"
        by (simp_all only: grow_cache_def if_False log_env.simps)
      then have "log_event b env Ev Data ch = log_event b (env\<lparr>le_Memory := True\<rparr>) Ev Data ch"
        by (simp only: log_event_def Option.bind.simps prod.case e p)
      then show ?thesis by blast
    qed
  qed
qed

lemma commit_runs:
  assumes l: "log_holds s ps E Q" and h: "EventChannelFromHandle s h = Some p" "el_Objects s p = Some ch"
    and q: "Q p = Some i"
  shows "\<exists>s'. EventPendingCommit b now s h = Some (EFI_SUCCESS, s') \<and>
    log_holds s' ps (E(p := (E p)[i := (committed now (fst (E p ! i)), cached_data ch)])) (Q(p := None))"
proof -
  note p = log_holds_lookup [OF l h(1)]
  obtain c: "chan ch (E p) (Some i)" and f: "flags_ok (E p) (Some i)" using log_holds_channel [OF l p] h(2) q by auto
  let ?e = "(committed now (fst (E p ! i)), cached_data ch)"
  have "?e = (committed now (fst (E p ! i)), cached_data (ch\<lparr>ec_Lock := True\<rparr>))" by (simp add: cached_data_def)
  then obtain ch' where ch': "pending_commit b now (ch\<lparr>ec_Lock := True\<rparr>) = Some (EFI_SUCCESS, ch')"
      "chan ch' ((E p)[i := ?e]) None" "same_channel (ch\<lparr>ec_Lock := True\<rparr>) ch'"
    using pending_commit_runs [of "ch\<lparr>ec_Lock := True\<rparr>" "E p" i ?e now b] c by auto
  from with_channel_runs [where f = "pending_commit b now", OF l p h(2) ch'(1,3,2) flags_ok_update [OF f], of b]
  show ?thesis using h(1) by (auto simp: EventPendingCommit_def)
qed

lemma get_runs:
  assumes l: "log_holds s ps E Q" and h: "EventChannelFromHandle s h = Some p" "el_Objects s p = Some ch"
    and q: "Q p = Some i"
  shows "\<exists>s'. EventPendingGet b s h = Some ((EFI_SUCCESS, Some (fst (E p ! i)), pe_Cache (ec_Pending ch)), s') \<and>
    log_holds s' ps E Q"
proof -
  note p = log_holds_lookup [OF l h(1)]
  obtain c: "chan ch (E p) (Q p)" and f: "flags_ok (E p) (Q p)" using log_holds_channel [OF l p] h(2) by auto
  have "pending_get b (ch\<lparr>ec_Lock := True\<rparr>) =
      Some ((EFI_SUCCESS, Some (fst (E p ! i)), pe_Cache (ec_Pending ch)), ch\<lparr>ec_Lock := True\<rparr>)"
    using pending_get_runs [of "ch\<lparr>ec_Lock := True\<rparr>" "E p" i b] c q by simp
  from with_channel_runs [where f = "pending_get b", OF l p h(2) this _ _ f, of b] c h(1)
  show ?thesis by (auto simp: EventPendingGet_def same_channel_def)
qed

lemma nothing_pending_runs:
  assumes l: "log_holds s ps E Q" and h: "EventChannelFromHandle s h = Some p" "el_Objects s p = Some ch"
    and q: "Q p = None" "rb_HandleKey (ec_Ring ch) \<noteq> 0xFFFFFFFF"
  shows "\<exists>s'. EventPendingCommit b now s h = Some (EFI_NOT_FOUND, s') \<and>
    EventPendingGet b s h = Some ((EFI_NOT_FOUND, None, None), s') \<and> log_holds s' ps E Q"
proof -
  note p = log_holds_lookup [OF l h(1)]
  obtain c: "chan ch (E p) (Q p)" and f: "flags_ok (E p) (Q p)" using log_holds_channel [OF l p] h(2) by auto
  let ?L = "ch\<lparr>ec_Lock := True\<rparr>"
  have n: "pending_get b ?L = Some ((EFI_NOT_FOUND, None, None), EventPendingCleanup ?L)"
    "pending_commit b now ?L = Some (EFI_NOT_FOUND, EventPendingCleanup ?L)" "chan (EventPendingCleanup ?L) (E p) (Q p)"
    using nothing_pending(1) [where ch = ?L and evs = "E p" and b = b] nothing_pending(2) [where ch = ?L and evs = "E p" and b = b]
      nothing_pending(3) [where ch = ?L and evs = "E p"] c q by simp_all
  have sc: "same_channel ?L (EventPendingCleanup ?L)" by (simp add: same_channel_def EventPendingCleanup_def)
  from with_channel_runs [where f = "pending_get b", OF l p h(2) n(1) sc n(3) f, of b]
    with_channel_runs [where f = "pending_commit b now", OF l p h(2) n(2) sc n(3) f, of b] h(1)
  show ?thesis by (auto simp: EventPendingCommit_def EventPendingGet_def)
qed

lemma enumerate_runs:
  assumes l: "log_holds s ps E Q" and h: "EventChannelFromHandle s h = Some p" "el_Objects s p = Some ch"
    and i: "i < length (E p)" and size: "unat (ed_DataSize (fst (E p ! i))) < 2147483648"
    and cx: "case Enum of None \<Rightarrow> i = 0 | Some cx \<Rightarrow> context_ok cx \<and> enum_at (ec_Ring ch) (map event_bytes (E p)) i (en_RingEnum cx)"
  shows "\<exists>cx' data s' ch'. EventEnumerate b (True, True) s h Enum = Some ((EFI_SUCCESS, Some cx', Some (fst (E p ! i)), data), s') \<and>
    log_holds s' ps E Q \<and> el_Objects s' p = Some ch' \<and> context_ok cx' \<and>
    enum_at (ec_Ring ch') (map event_bytes (E p)) (Suc i) (en_RingEnum cx') \<and>
    (if Q p = Some i then data = pe_Cache (ec_Pending ch)
     else \<exists>d. data = Some d \<and> take (unat (ed_DataSize (fst (E p ! i)))) d = snd (E p ! i))"
proof -
  note p = log_holds_lookup [OF l h(1)]
  obtain c: "chan ch (E p) (Q p)" and f: "flags_ok (E p) (Q p)" using log_holds_channel [OF l p] h(2) by auto
  let ?L = "ch\<lparr>ec_Lock := True\<rparr>"
  define cx0 where "cx0 = (case Enum of None \<Rightarrow> new_context INVALID_RING_HANDLE EVENT_ENUM_BUFFER_STEP_SIZE | Some cx \<Rightarrow> cx)"
  have cx0: "context_ok cx0" "enum_at (ec_Ring ?L) (map event_bytes (E p)) i (en_RingEnum cx0)"
    using cx by (auto simp: cx0_def new_context_ok EVENT_ENUM_BUFFER_STEP_SIZE_def new_context_def enum_at_def context_ok_def
      split: option.splits)
  define ch' where "ch' = ?L\<lparr>ec_Ring := (ec_Ring ?L)\<lparr>rb_HandleKey := live_key (ec_Ring ?L)\<rparr>\<rparr>"
  have cL: "chan ?L (E p) (Q p)" using c by simp
  obtain cx' data where n: "enumerate_event b True cx0 ?L = Some ((EFI_SUCCESS, cx', fst (E p ! i), data), ch')"
      "context_ok cx'" "enum_at (ec_Ring ch') (map event_bytes (E p)) (Suc i) (en_RingEnum cx')"
      "data = (if Q p = Some i then pe_Cache (ec_Pending ?L) else Some (en_Buffer cx'))"
      "Q p \<noteq> Some i \<longrightarrow> take (unat (ed_DataSize (fst (E p ! i)))) (en_Buffer cx') = snd (E p ! i)"
    using enumerate_event_next [OF cL f i cx0 size ch'_def, of b] by blast
  have c': "chan ch' (E p) (Q p)" unfolding ch'_def by (rule chan_live_key [OF cL])
  have sc: "same_channel ?L ch'" by (simp add: same_channel_def ch'_def)
  from with_channel_runs [where f = "enumerate_event b True cx0", OF l p h(2) n(1) sc c' f, of b]
  have "EventEnumerate b (True, True) s h Enum = Some ((EFI_SUCCESS, Some cx', Some (fst (E p ! i)), data),
      s\<lparr>el_Objects := (el_Objects s)(p \<mapsto> ch'\<lparr>ec_Lock := False\<rparr>)\<rparr>)"
    "log_holds (s\<lparr>el_Objects := (el_Objects s)(p \<mapsto> ch'\<lparr>ec_Lock := False\<rparr>)\<rparr>) ps E Q"
    using h(1) by (simp_all add: EventEnumerate_def cx0_def)
  then show ?thesis
    using n(2-5)
    by (intro exI [of _ cx'] exI [of _ data] exI [of _ "s\<lparr>el_Objects := (el_Objects s)(p \<mapsto> ch'\<lparr>ec_Lock := False\<rparr>)\<rparr>"]
        exI [of _ "ch'\<lparr>ec_Lock := False\<rparr>"]) auto
qed

subsection \<open>Resetting and flushing one or all channels\<close>

lemma reset_callback_runs:
  assumes l: "log_holds s ps E Q" and p: "p \<in> set ps"
  shows "\<exists>s'. EventChannelResetCallback b h p s = Some (EFI_SUCCESS, s') \<and> log_holds s' ps (E(p := [])) (Q(p := None))"
proof -
  obtain ch where ch: "el_Objects s p = Some ch" "chan ch (E p) (Q p)" using log_holds_channel [OF l p] by auto
  have r: "chan (channel_reset (ch\<lparr>ec_Lock := True\<rparr>)) [] None" "same_channel (ch\<lparr>ec_Lock := True\<rparr>) (channel_reset (ch\<lparr>ec_Lock := True\<rparr>))"
    using channel_reset_runs [of "ch\<lparr>ec_Lock := True\<rparr>" "E p" "Q p"] ch(2) by simp_all
  from with_channel_runs [where f = "\<lambda>channel. Some (EFI_SUCCESS, channel_reset channel)", OF l p ch(1) refl r(2,1), of b]
  show ?thesis by (auto simp: EventChannelResetCallback_def flags_ok_def)
qed

lemma table_entries:
  "log_holds s ps E Q \<Longrightarrow> ht_Handles (mEventChannels s) =
     map Some ps @ replicate (unat (ht_Size (mEventChannels s)) - length ps) None"
  by (simp add: log_holds_def table_holds_def)

lemma fun_upd_take:
  "i < length ps \<Longrightarrow> distinct ps \<Longrightarrow>
   (\<lambda>p. if p \<in> set (take i ps) then f p else g p)(ps ! i := f (ps ! i)) = (\<lambda>p. if p \<in> set (take (Suc i) ps) then f p else g p)"
  by (auto simp: take_Suc_conv_app_nth)

lemma reset_all_runs:
  assumes l: "log_holds s ps E Q"
  shows "\<exists>s'. EventChannelReset b s INVALID_EVENT_HANDLE = Some (EFI_SUCCESS, s') \<and>
    log_holds s' ps (\<lambda>p. if p \<in> set ps then [] else E p) (\<lambda>p. if p \<in> set ps then None else Q p)"
proof -
  have d: "distinct ps" using l by (simp add: log_holds_def)
  let ?I = "\<lambda>i s. log_holds s ps (\<lambda>p. if p \<in> set (take i ps) then [] else E p) (\<lambda>p. if p \<in> set (take i ps) then None else Q p)"
  have step: "runs (EventChannelResetCallback b h (ps ! i) s) (\<lambda>(st, s'). st = EFI_SUCCESS \<and> ?I (Suc i) s')"
    if "i < length ps" "?I i s" for i s h
    using reset_callback_runs [OF that(2), of "ps ! i" b h] that(1)
      fun_upd_take [OF that(1) d, of "\<lambda>_. []" E] fun_upd_take [OF that(1) d, of "\<lambda>_. None" Q]
    by (auto simp: runs_def)
  have "runs (enumerate_entries (EventChannelResetCallback b) (mEventChannels s)
      (map Some ps @ replicate (unat (ht_Size (mEventChannels s)) - length ps) None) 0 EFI_SUCCESS s)
      (\<lambda>(st, s'). st = EFI_SUCCESS \<and> ?I (length ps) s')"
    by (rule enumerate_entries_rule [where I = ?I, OF step]) (use l in \<open>simp_all\<close>)
  then show ?thesis
    by (auto simp: EventChannelReset_def EfiHandleTableEnumerateObjects_def table_entries [OF l] runs_def)
qed

text \<open>The data that a flush of the channel sends, as the host reads it.\<close>

definition flush_data :: "bios_event_channel \<Rightarrow> guid \<times> u8 list" where
  "flush_data r = (bc_Channel r, take (unat (bc_DataSize r)) (bc_Data r))"

definition flush_env_ok :: "event_log \<Rightarrow> flush_env \<Rightarrow> nat \<Rightarrow> bool" where
  "flush_env_ok s env p \<longleftrightarrow> (\<exists>Data ch. fe_Data env = Some Data \<and> el_Objects s p = Some ch \<and>
     length Data = ring_len (ec_Ring ch)) \<and> \<not> (fe_Isolated env \<and> (fe_HostEmulators env \<longrightarrow> EFI_ERROR (fe_Visible env)))"

lemma concat_lt_stored: "length (concat ds) \<le> stored ds"
  by (induction ds) simp_all

lemma flush_callback_runs:
  assumes l: "log_holds s ps E Q" and p: "p \<in> set ps" "el_Objects s p = Some ch" and env: "flush_env_ok s (env p) p"
    and evs: "evs = force_commit (fe_Now (env p)) ch (E p) (Q p)"
  shows "\<exists>s' r ch'. EventChannelFlushCallback b env h p s = Some (EFI_SUCCESS, s') \<and>
    log_holds s' ps (E(p := evs)) (Q(p := None)) \<and> el_Flushed s' = el_Flushed s @ [r] \<and>
    flush_data r = (ec_Id ch, concat (map event_bytes evs)) \<and> el_Objects s' = (el_Objects s)(p \<mapsto> ch') \<and> mEventChannels s' = mEventChannels s"
proof -
  obtain c: "chan ch (E p) (Q p)" and f: "flags_ok (E p) (Q p)" using log_holds_channel [OF l p(1)] p(2) by auto
  let ?L = "ch\<lparr>ec_Lock := True\<rparr>" and ?out = "concat (map event_bytes evs)"
  have fl: "force_commit (fe_Now (env p)) ?L = force_commit (fe_Now (env p)) ch"
    by (intro ext) (simp add: force_commit_def cached_data_def split: option.splits)
  obtain Data where Data: "fe_Data (env p) = Some Data" "length Data = ring_len (ec_Ring ?L)"
      "\<not> (fe_Isolated (env p) \<and> fe_HostEmulators (env p) \<and> EFI_ERROR (fe_Visible (env p)))"
      "\<not> (fe_Isolated (env p) \<and> \<not> fe_HostEmulators (env p))"
    using env p(2) by (auto simp: flush_env_ok_def)
  have cL: "chan ?L (E p) (Q p)" using c by simp
  obtain ch' r where ch': "flush_channel b (env p) Data ?L = Some ((EFI_SUCCESS, [r]), ch')" "chan ch' evs None" "same_channel ?L ch'"
      "bc_Channel r = ec_Id ch" "bc_DataSize r = of_nat (length ?out)" "bc_Data r = ?out @ drop (length ?out) Data"
    using flush_channel_runs [OF cL Data(2,3), of ?out b] Data(4) evs fl by auto
  have "length ?out < 4294967296"
    using concat_lt_stored [of "map event_bytes evs"] aligned_ringD(2,6) [OF chanD(1) [OF ch'(2)]] ring_okD(2) [of "ec_Ring ch'"] by simp
  then have fd: "flush_data r = (ec_Id ch, ?out)" using ch'(4-6) by (simp add: flush_data_def unat_of_nat32)
  have "flags_ok evs None" using flags_ok_force [OF f] evs by simp
  from with_channel_runs [where f = "flush_channel b (env p) Data", OF l p ch'(1,3,2) this, of b] fd Data(1)
  show ?thesis
    by (intro exI [of _ "s\<lparr>el_Objects := (el_Objects s)(p \<mapsto> ch'\<lparr>ec_Lock := False\<rparr>), el_Flushed := el_Flushed s @ [r]\<rparr>"]
        exI [of _ r] exI [of _ "ch'\<lparr>ec_Lock := False\<rparr>"])
      (simp add: EventChannelFlushCallback_def log_holds_flushed)
qed

lemma flush_all_runs:
  assumes l: "log_holds s ps E Q" and env: "\<And>p. p \<in> set ps \<Longrightarrow> flush_env_ok s (env p) p"
    and F: "\<And>p. F p = force_commit (fe_Now (env p)) (the (el_Objects s p)) (E p) (Q p)"
  shows "\<exists>s' rs. EventChannelFlush b env s INVALID_EVENT_HANDLE = Some (EFI_SUCCESS, s') \<and>
    log_holds s' ps (\<lambda>p. if p \<in> set ps then F p else E p) (\<lambda>p. if p \<in> set ps then None else Q p) \<and>
    el_Flushed s' = el_Flushed s @ rs \<and>
    map flush_data rs = map (\<lambda>p. (ec_Id (the (el_Objects s p)), concat (map event_bytes (F p)))) ps"
proof -
  have d: "distinct ps" using l by (simp add: log_holds_def)
  let ?J = "\<lambda>i t. log_holds t ps (\<lambda>p. if p \<in> set (take i ps) then F p else E p) (\<lambda>p. if p \<in> set (take i ps) then None else Q p)"
  let ?I = "\<lambda>i t. ?J i t \<and> (\<forall>p. p \<notin> set (take i ps) \<longrightarrow> el_Objects t p = el_Objects s p) \<and>
    (\<exists>rs. el_Flushed t = el_Flushed s @ rs \<and>
      map flush_data rs = map (\<lambda>p. (ec_Id (the (el_Objects s p)), concat (map event_bytes (F p)))) (take i ps))"
  have step: "runs (EventChannelFlushCallback b env h (ps ! i) t) (\<lambda>(st, t'). st = EFI_SUCCESS \<and> ?I (Suc i) t')"
    if i: "i < length ps" and I: "?I i t" for i t h
  proof -
    let ?p = "ps ! i"
    have p: "?p \<in> set ps" "?p \<notin> set (take i ps)" using i d by (auto simp: distinct_conv_nth in_set_conv_nth)
    obtain ch where ch: "el_Objects s ?p = Some ch" using log_holds_channel [OF l p(1)] by auto
    have t: "el_Objects t ?p = Some ch" "flush_env_ok t (env ?p) ?p"
      using I p(2) ch env [OF p(1)] by (auto simp: flush_env_ok_def)
    have J: "?J i t" using I by blast
    have evs: "F ?p = force_commit (fe_Now (env ?p)) ch (if ?p \<in> set (take i ps) then F ?p else E ?p) (if ?p \<in> set (take i ps) then None else Q ?p)"
      using F [of ?p] ch p(2) by simp
    obtain t' r ch' where r: "EventChannelFlushCallback b env h ?p t = Some (EFI_SUCCESS, t')"
        "?J (Suc i) t'" "el_Flushed t' = el_Flushed t @ [r]"
        "flush_data r = (ec_Id ch, concat (map event_bytes (F ?p)))" "el_Objects t' = (el_Objects t)(?p \<mapsto> ch')"
      using flush_callback_runs [where env = env, OF J p(1) t evs, of b h] fun_upd_take [OF i d, of F E] fun_upd_take [OF i d, of "\<lambda>_. None" Q]
      by auto
    have "?I (Suc i) t'"
      using r I ch i by (auto simp: take_Suc_conv_app_nth)
    then show ?thesis using r(1) by (simp add: runs_def)
  qed
  have "runs (enumerate_entries (EventChannelFlushCallback b env) (mEventChannels s)
      (map Some ps @ replicate (unat (ht_Size (mEventChannels s)) - length ps) None) 0 EFI_SUCCESS s)
      (\<lambda>(st, t). st = EFI_SUCCESS \<and> ?I (length ps) t)"
    by (rule enumerate_entries_rule [where I = ?I, OF step]) (use l in \<open>simp_all\<close>)
  then obtain s' where "enumerate_entries (EventChannelFlushCallback b env) (mEventChannels s)
      (map Some ps @ replicate (unat (ht_Size (mEventChannels s)) - length ps) None) 0 EFI_SUCCESS s = Some (EFI_SUCCESS, s')"
      "?I (length ps) s'" by (auto simp: runs_def)
  then show ?thesis
    by (auto simp: EventChannelFlush_def EfiHandleTableEnumerateObjects_def table_entries [OF l])
qed

subsection \<open>Creating and opening channels\<close>

lemma le_bytes_guid: "le_bytes 16 a = le_bytes 16 b \<longleftrightarrow> a = b" for a b :: guid
proof
  assume "le_bytes 16 a = le_bytes 16 b"
  then have "(of_le_bytes (le_bytes 16 a) :: guid) = of_le_bytes (le_bytes 16 b)" by simp
  then show "a = b" by simp
qed simp

lemma object_bytes_id:
  "channel_id s p = Some g \<Longrightarrow> object_bytes s p = le_bytes 16 g"
  by (auto simp: channel_id_def object_bytes_def split: option.splits)

lemma log_holds_id: "log_holds s ps E Q \<Longrightarrow> p \<in> set ps \<Longrightarrow> \<exists>g. channel_id s p = Some g"
  by (auto simp: log_holds_def channel_id_def)

lemma from_guid_found:
  assumes l: "log_holds s ps E Q" and i: "i < length ps" "channel_id s (ps ! i) = Some g"
  shows "EventChannelFromGuid s g = Some (Some (ps ! i), HANDLE_TABLE_ENCODE (of_nat i) (mEventChannels s))"
proof -
  have len: "length (object_bytes s (ps ! j)) = 16" if "j \<le> i" for j
    using log_holds_id [OF l, of "ps ! j"] that i by (auto simp: object_bytes_id)
  have other: "object_bytes s (ps ! j) \<noteq> le_bytes 16 g" if j: "j < i" for j
  proof -
    obtain g' where g': "channel_id s (ps ! j) = Some g'" using log_holds_id [OF l, of "ps ! j"] j i by auto
    have "distinct (map (channel_id s) ps)" using l by (simp add: log_holds_def)
    then have "g' \<noteq> g" using nth_eq_iff_index_eq [of "map (channel_id s) ps" j i] g' i j by auto
    then show ?thesis using g' by (simp add: object_bytes_id le_bytes_guid)
  qed
  have "find_key (object_bytes s) (le_bytes 16 g) 16 (ht_Handles (mEventChannels s)) 0 = Some (Some (ps ! i, 0 + of_nat i))"
    unfolding table_entries [OF l]
    using i len other by (intro find_key_first) (simp_all add: object_bytes_id)
  then show ?thesis
    using l by (simp add: EventChannelFromGuid_def EfiHandleTableLookupByKey_def log_holds_def)
qed

lemma from_guid_none:
  assumes l: "log_holds s ps E Q" and g: "Some g \<notin> channel_id s ` set ps"
  shows "EventChannelFromGuid s g = Some (None, INVALID_EVENT_HANDLE)"
proof -
  have "unat (16 :: u32) \<le> length (object_bytes s p) \<and>
      take (unat (16 :: u32)) (object_bytes s p) \<noteq> take (unat (16 :: u32)) (le_bytes 16 g)" if p: "p \<in> set ps" for p
  proof -
    obtain g' where "channel_id s p = Some g'" using log_holds_id [OF l p] by auto
    moreover from this have "g' \<noteq> g" using g p by (metis image_eqI)
    ultimately show ?thesis by (simp add: object_bytes_id le_bytes_guid)
  qed
  then have "find_key (object_bytes s) (le_bytes 16 g) 16 (ht_Handles (mEventChannels s)) 0 = Some None"
    unfolding table_entries [OF l] by (intro find_key_none) simp_all
  then show ?thesis
    using l by (simp add: EventChannelFromGuid_def EfiHandleTableLookupByKey_def log_holds_def)
qed

definition attributes_ok :: "event_channel_info \<Rightarrow> bool" where
  "attributes_ok a \<longleftrightarrow> 5 \<le> ci_BufferSize a \<and> ci_BufferSize a AND (ci_BufferSize a - 1) = 0 \<and>
     (ci_Flags a AND EVENT_CHANNEL_FIXED_RECORDS \<noteq> 0 \<longrightarrow>
       ci_RecordSize a \<noteq> 0 \<and> ci_BufferSize a mod ci_RecordSize a = 0)"

text \<open>The channel that a successful creation puts behind the new pointer: empty, and nothing pending.\<close>

lemma new_channel:
  assumes a: "attributes_ok a"
  shows "\<exists>ring. RingBufferInitialize (ec_Ring (zero_channel (ci_BufferSize a))) (ci_BufferSize a) fl = (EFI_SUCCESS, ring) \<and>
    rb_Size ring = ci_BufferSize a \<and> rb_Flags ring = fl \<and>
    chan ((zero_channel (ci_BufferSize a))\<lparr>ec_Id := g, ec_Attributes := a,
      ec_Pending := (ec_Pending (zero_channel (ci_BufferSize a)))\<lparr>pe_Handle := INVALID_RING_HANDLE, pe_Cache := None, pe_CacheSize := 0\<rparr>,
      ec_Ring := ring\<rparr>) [] None"
proof -
  let ?z = "ec_Ring (zero_channel (ci_BufferSize a))"
  have "length (rb_Buffer ?z) = unat (ci_BufferSize a)" by (simp add: zero_channel_def)
  then obtain ring where r: "RingBufferInitialize ?z (ci_BufferSize a) fl = (EFI_SUCCESS, ring)" "ring_inv ring []"
      "rb_Size ring = ci_BufferSize a" "rb_Flags ring = fl"
    using initialize_empty [of "ci_BufferSize a" ?z fl] a by (auto simp: attributes_ok_def)
  moreover from this(1) have "rb_Tail ring = 0"
    by (auto simp: RingBufferInitialize_def RingBufferReset_def split: if_splits)
  ultimately show ?thesis
    by (auto simp: chan_def aligned_ring_def cache_ok_def pending_at_def)
qed

lemma object_size: "(16 :: u64) \<le> 208 + ucast (n :: u32)"
proof -
  have "unat (208 + ucast n :: u64) = 208 + unat n"
    using unat_lt32 [of n] by (subst unat_word_ariths) simp
  then show ?thesis by (simp add: word_le_nat_alt)
qed

lemma create_runs:
  assumes l: "log_holds s ps E Q" and g: "Some g \<notin> channel_id s ` set ps" and a: "attributes_ok a"
    and p: "p \<notin> set ps" and room: "length ps < unat (ht_Size (mEventChannels s))"
  shows "\<exists>s' h ch. EventChannelCreate b (Some p) s g (Some a) = Some (EFI_SUCCESS, h, s') \<and>
    h = HANDLE_TABLE_ENCODE (of_nat (length ps)) (mEventChannels s') \<and> mEventChannels s' = add_object (mEventChannels s) p \<and>
    EventChannelFromHandle s' h = Some p \<and> el_Objects s' p = Some ch \<and> ec_Id ch = g \<and>
    rb_Size (ec_Ring ch) = ci_BufferSize a \<and> (overwrites ch \<longleftrightarrow> ci_Flags a AND EVENT_CHANNEL_OVERWRITE_RECORDS \<noteq> 0) \<and>
    log_holds s' (ps @ [p]) (E(p := [])) (Q(p := None))"
proof -
  define fl :: u32 where "fl = (if ci_Flags a AND EVENT_CHANNEL_OVERWRITE_RECORDS \<noteq> 0 then RING_BUFFER_OVERWRITE else 0)"
  obtain ring where ring: "RingBufferInitialize (ec_Ring (zero_channel (ci_BufferSize a))) (ci_BufferSize a) fl = (EFI_SUCCESS, ring)"
      "rb_Size ring = ci_BufferSize a" "rb_Flags ring = fl"
      "chan ((zero_channel (ci_BufferSize a))\<lparr>ec_Id := g, ec_Attributes := a,
        ec_Pending := (ec_Pending (zero_channel (ci_BufferSize a)))\<lparr>pe_Handle := INVALID_RING_HANDLE, pe_Cache := None, pe_CacheSize := 0\<rparr>,
        ec_Ring := ring\<rparr>) [] None"
    using new_channel [OF a, of fl g] by blast
  define ch where "ch = (zero_channel (ci_BufferSize a))\<lparr>ec_Id := g, ec_Attributes := a,
      ec_Pending := (ec_Pending (zero_channel (ci_BufferSize a)))\<lparr>pe_Handle := INVALID_RING_HANDLE, pe_Cache := None, pe_CacheSize := 0\<rparr>,
      ec_Ring := ring\<rparr>"
  have t: "table_holds (mEventChannels s) ps" "ti_ObjectKeySize (ht_Info (mEventChannels s)) = 16"
    using l by (simp_all add: log_holds_def)
  note sz = object_size [of "ci_BufferSize a"]
  obtain t' where t': "EfiHandleTableAllocateObject (mEventChannels s) (208 + ucast (ci_BufferSize a)) (Some p) =
        (EFI_SUCCESS, t', Some p, HANDLE_TABLE_ENCODE (of_nat (length ps)) t')"
      "table_holds t' (ps @ [p])" "ht_Size t' = ht_Size (mEventChannels s)" "ht_Info t' = ht_Info (mEventChannels s)"
    using allocate_object [OF t(1), of "208 + ucast (ci_BufferSize a)" "Some p"] sz t(2) room by auto
  have add: "t' = add_object (mEventChannels s) p"
    using t'(1) sz t(2) by (auto simp: add_object_def EfiHandleTableAllocateObject_def Let_def split: if_splits)
  let ?s = "s\<lparr>mEventChannels := t', el_Objects := (el_Objects s)(p \<mapsto> ch)\<rparr>" and ?h = "HANDLE_TABLE_ENCODE (of_nat (length ps)) t'"
  have "EventChannelCreate b (Some p) s g (Some a) = Some (EFI_SUCCESS, ?h, ?s)"
    using a from_guid_none [OF l g] ring(1) t'(1)
    by (auto simp: EventChannelCreate_def attributes_ok_def ch_def Let_def fl_def)
  moreover have "EventChannelFromHandle ?s ?h = Some p"
  proof -
    have "EfiHandleTableLookupByHandle t' ?h = Some p"
      using lookup_index [OF t'(2), of "length ps"] room t'(3) by simp
    moreover from this have "?h \<noteq> INVALID_EVENT_HANDLE"
      by (auto simp: EfiHandleTableLookupByHandle_def INVALID_EVENT_HANDLE_def EFI_INVALID_HANDLE_def)
    ultimately show ?thesis by (simp add: EventChannelFromHandle_def)
  qed
  moreover have "log_holds ?s (ps @ [p]) (E(p := [])) (Q(p := None))"
  proof -
    have ids: "map (channel_id ?s) ps = map (channel_id s) ps" "channel_id ?s p = Some g"
      using p by (auto simp: channel_id_def ch_def)
    have "\<not> ec_Lock ch" by (simp add: ch_def zero_channel_def)
    moreover have "chan ch [] None" using ring(4) by (simp add: ch_def)
    moreover have "distinct (map (channel_id ?s) (ps @ [p]))"
      using l g by (simp add: ids log_holds_def del: map_eq_conv)
    ultimately show ?thesis
      using l p t'(2,4) by (auto simp: log_holds_def flags_ok_def)
  qed
  moreover have "overwrites ch \<longleftrightarrow> ci_Flags a AND EVENT_CHANNEL_OVERWRITE_RECORDS \<noteq> 0"
    using ring(3) by (simp add: overwrites_def ch_def fl_def RING_BUFFER_OVERWRITE_def)
  ultimately show ?thesis
    using ring(2) by (intro exI [of _ ?s] exI [of _ ?h] exI [of _ ch]) (simp add: ch_def add [symmetric])
qed

subsection \<open>Sequences of calls\<close>

datatype event_op =
    OpCreate "nat option" guid "event_channel_info option"
  | OpLog log_env efi_handle "efi_event_descriptor option" "u8 list option"
  | OpGet efi_handle
  | OpCommit u64 efi_handle
  | OpReset efi_handle
  | OpFlush "nat \<Rightarrow> flush_env" efi_handle
  | OpEnumerate "bool \<times> bool" efi_handle "event_enum_context option"

fun run_op :: "build \<Rightarrow> event_op \<Rightarrow> event_log \<Rightarrow> (efi_status \<times> event_log) option" where
  "run_op b (OpCreate allocation g a) s = map_option (\<lambda>(st, h, s'). (st, s')) (EventChannelCreate b allocation s g a)"
| "run_op b (OpLog env h Ev Data) s = EventLog b env s h Ev Data"
| "run_op b (OpGet h) s = map_option (\<lambda>(r, s'). (fst r, s')) (EventPendingGet b s h)"
| "run_op b (OpCommit now h) s = EventPendingCommit b now s h"
| "run_op b (OpReset h) s = EventChannelReset b s h"
| "run_op b (OpFlush env h) s = EventChannelFlush b env s h"
| "run_op b (OpEnumerate memory h en) s = map_option (\<lambda>(r, s'). (fst r, s')) (EventEnumerate b memory s h en)"

text \<open>
  The calls that are considered: new channels have a buffer of at least five bytes and come from
  fresh memory; events are as \<open>log_ok\<close> says and, if pending, logged at a low task priority;
  enumerators are new, or stand at an event of the channel or behind its last one, or were
  invalidated; a key that has run through all its values is not met.
\<close>

definition enum_ok :: "event_channel \<Rightarrow> event list \<Rightarrow> event_enum_context \<Rightarrow> bool" where
  "enum_ok ch evs cx \<longleftrightarrow> context_ok cx \<and>
     ((\<exists>i \<le> length evs. enum_at (ec_Ring ch) (map event_bytes evs) i (en_RingEnum cx)) \<or>
      en_RingEnum cx \<noteq> INVALID_RING_HANDLE \<and> RING_HANDLE_GET_KEY (en_RingEnum cx) \<noteq> ucast (rb_HandleKey (ec_Ring ch)))"

definition flush_block_ok :: "event_log \<Rightarrow> flush_env \<Rightarrow> nat \<Rightarrow> bool" where
  "flush_block_ok s env p \<longleftrightarrow> (\<forall>Data ch. fe_Data env = Some Data \<longrightarrow> el_Objects s p = Some ch \<longrightarrow>
     length Data = ring_len (ec_Ring ch))"

definition op_ok :: "event_log \<Rightarrow> nat list \<Rightarrow> (nat \<Rightarrow> event list) \<Rightarrow> (nat \<Rightarrow> nat option) \<Rightarrow> event_op \<Rightarrow> bool" where
  "op_ok s ps E Q op \<longleftrightarrow> (case op of
     OpCreate allocation g a \<Rightarrow> (\<forall>p. allocation = Some p \<longrightarrow> p \<notin> set ps) \<and> (\<forall>x. a = Some x \<longrightarrow> 5 \<le> ci_BufferSize x)
   | OpLog env h Ev Data \<Rightarrow> (\<forall>p ch e. EventChannelFromHandle s h = Some p \<longrightarrow> el_Objects s p = Some ch \<longrightarrow> Ev = Some e \<longrightarrow>
       log_ok ch (E p) (Q p) e Data \<and> (ed_Flags e AND EVENT_FLAG_PENDING \<noteq> 0 \<longrightarrow> le_Tpl env \<le> TPL_NOTIFY))
   | OpGet h \<Rightarrow> (\<forall>p ch. EventChannelFromHandle s h = Some p \<longrightarrow> el_Objects s p = Some ch \<longrightarrow> rb_HandleKey (ec_Ring ch) \<noteq> 0xFFFFFFFF)
   | OpCommit now h \<Rightarrow> (\<forall>p ch. EventChannelFromHandle s h = Some p \<longrightarrow> el_Objects s p = Some ch \<longrightarrow> rb_HandleKey (ec_Ring ch) \<noteq> 0xFFFFFFFF)
   | OpReset h \<Rightarrow> True
   | OpFlush env h \<Rightarrow> (\<forall>p \<in> set ps. flush_block_ok s (env p) p)
   | OpEnumerate memory h en \<Rightarrow> (\<forall>p ch. EventChannelFromHandle s h = Some p \<longrightarrow> el_Objects s p = Some ch \<longrightarrow>
       (\<forall>e \<in> set (E p). unat (ed_DataSize (fst e)) < 2147483648) \<and> (\<forall>cx. en = Some cx \<longrightarrow> enum_ok ch (E p) cx)))"

definition log_inv :: "event_log \<Rightarrow> bool" where
  "log_inv s \<longleftrightarrow> (\<exists>ps E Q. log_holds s ps E Q)"

lemma log_invI: "log_holds s ps E Q \<Longrightarrow> log_inv s"
  by (auto simp: log_inv_def)

lemma initialize_inv:
  assumes "EventLoggerInitialize b True EFI_SUCCESS = Some (st, Some s)"
  shows "st = EFI_SUCCESS \<and> log_holds s [] E Q"
  using assms
  by (auto simp: EventLoggerInitialize_def EfiHandleTableInitialize_def HANDLE_TABLE_MAX_SIZE_def Let_def
      log_holds_def table_holds_def intro!: exI [of _ "0x42 :: u8"])

text \<open>One lemma per call; a call on an unknown handle changes nothing.\<close>

lemma with_channel_inv:
  assumes l: "log_holds s ps E Q" and p: "p \<in> set ps" "el_Objects s p = Some ch"
    and f: "f (ch\<lparr>ec_Lock := True\<rparr>) = Some (r, ch')" "same_channel (ch\<lparr>ec_Lock := True\<rparr>) ch'" "chan ch' evs q" "flags_ok evs q"
  shows "\<exists>s'. with_channel b s p f = Some (r, s') \<and> log_inv s'"
  using with_channel_runs [OF l p, where f = f, OF f, of b] unfolding log_inv_def by blast

lemma log_op_inv:
  assumes l: "log_holds s ps E Q" and ok: "op_ok s ps E Q (OpLog env h Ev Data)"
  shows "\<exists>st s'. EventLog b env s h Ev Data = Some (st, s') \<and> log_inv s'"
proof (cases "EventChannelFromHandle s h")
  case None
  then show ?thesis using l by (auto simp: EventLog_def log_inv_def)
next
  case (Some p)
  note p = log_holds_lookup [OF l Some]
  obtain ch where ch: "el_Objects s p = Some ch" "chan ch (E p) (Q p)" "flags_ok (E p) (Q p)"
    using log_holds_channel [OF l p] by auto
  show ?thesis
  proof (cases Ev)
    case None
    then show ?thesis using l Some by (auto simp: EventLog_def log_inv_def)
  next
    case e: (Some e)
    have lo: "log_ok ch (E p) (Q p) e Data" and tpl: "ed_Flags e AND EVENT_FLAG_PENDING \<noteq> 0 \<longrightarrow> le_Tpl env \<le> TPL_NOTIFY"
      using ok Some ch(1) e by (auto simp: op_ok_def)
    show ?thesis
    proof (cases "ed_Flags e AND EVENT_FLAG_PENDING = 0")
      case True
      from event_log_plain [OF l Some ch(1) lo True refl, of b env] show ?thesis unfolding e log_inv_def by blast
    next
      case False
      let ?env = "env\<lparr>le_Memory := True\<rparr>" and ?L = "ch\<lparr>ec_Lock := True\<rparr>"
      have full: "\<exists>st s'. EventLog b ?env s h (Some e) Data = Some (st, s') \<and> log_inv s'"
        using event_log_pending [OF l Some ch(1) lo False _ _ refl, of ?env b] tpl False
        unfolding log_inv_def by (auto split: if_splits)
      from log_event_memory [of b env e Data ?L] show ?thesis
      proof
        assume "log_event b env e Data ?L = log_event b ?env e Data ?L"
        then have "EventLog b env s h (Some e) Data = EventLog b ?env s h (Some e) Data"
          using Some ch(1) l p log_holds_channel [OF l p]
          by (auto simp: EventLog_def with_channel_def EventChannelLock_def)
        with full e show ?thesis by simp
      next
        assume "log_event b env e Data ?L = (if ASSERTS b \<and> \<not> le_Tpl env \<le> TPL_NOTIFY then None else Some (EFI_OUT_OF_RESOURCES, ?L))"
        then have "log_event b env e Data ?L = Some (EFI_OUT_OF_RESOURCES, ?L)" using tpl False by simp
        from with_channel_inv [where f = "log_event b env e Data", OF l p ch(1) this _ _ ch(3), of b] ch(2) Some e
        show ?thesis by (auto simp: EventLog_def same_channel_def)
      qed
    qed
  qed
qed

lemma get_commit_op_inv:
  assumes l: "log_holds s ps E Q" and ok: "op_ok s ps E Q (OpGet h)"
  shows "\<exists>r s'. EventPendingGet b s h = Some (r, s') \<and> log_inv s'" "\<exists>st s'. EventPendingCommit b now s h = Some (st, s') \<and> log_inv s'"
proof -
  consider "EventChannelFromHandle s h = None" | p ch where "EventChannelFromHandle s h = Some p" "el_Objects s p = Some ch"
    using log_holds_lookup [OF l] log_holds_channel [OF l] by (cases "EventChannelFromHandle s h") blast+
  then have "(\<exists>r s'. EventPendingGet b s h = Some (r, s') \<and> log_inv s') \<and> (\<exists>st s'. EventPendingCommit b now s h = Some (st, s') \<and> log_inv s')"
  proof cases
    case 1
    then show ?thesis using l by (auto simp: EventPendingGet_def EventPendingCommit_def log_inv_def)
  next
    case (2 p ch)
    show ?thesis
    proof (cases "Q p")
      case None
      have "rb_HandleKey (ec_Ring ch) \<noteq> 0xFFFFFFFF" using ok 2 by (simp add: op_ok_def)
      from nothing_pending_runs [OF l 2 None this, of b now] show ?thesis unfolding log_inv_def by blast
    next
      case (Some i)
      from get_runs [OF l 2 Some, of b] commit_runs [OF l 2 Some, of b now] show ?thesis unfolding log_inv_def by blast
    qed
  qed
  then show "\<exists>r s'. EventPendingGet b s h = Some (r, s') \<and> log_inv s'" "\<exists>st s'. EventPendingCommit b now s h = Some (st, s') \<and> log_inv s'"
    by blast+
qed

lemma reset_op_inv:
  assumes l: "log_holds s ps E Q"
  shows "\<exists>st s'. EventChannelReset b s h = Some (st, s') \<and> log_inv s'"
proof (cases "h = INVALID_EVENT_HANDLE")
  case True
  then show ?thesis using reset_all_runs [OF l, of b] unfolding log_inv_def by blast
next
  case False
  show ?thesis
  proof (cases "EventChannelFromHandle s h")
    case None
    then show ?thesis using False l by (auto simp: EventChannelReset_def log_inv_def)
  next
    case (Some p)
    with reset_callback_runs [OF l log_holds_lookup [OF l Some], of b h] False
    show ?thesis by (auto simp: EventChannelReset_def intro: log_invI)
  qed
qed

text \<open>An enumeration of the table whose callback keeps an invariant, whatever status it returns.\<close>

lemma enumerate_entries_inv:
  assumes "\<And>h p s. p \<in> set ps \<Longrightarrow> I s \<Longrightarrow> \<exists>st s'. cb h p s = Some (st, s') \<and> I s'" "I s"
  shows "\<exists>st s'. enumerate_entries cb table (map Some ps @ replicate m None) index st0 s = Some (st, s') \<and> I s'"
  using assms
proof (induction ps arbitrary: index st0 s)
  case Nil
  have "enumerate_entries cb table (replicate m None) i st0 s = Some (st0, s)" for i
    by (induction m arbitrary: i) simp_all
  with Nil show ?case by simp
next
  case (Cons p ps)
  obtain st s' where cb: "cb (HANDLE_TABLE_ENCODE index table) p s = Some (st, s')" "I s'"
    using Cons.prems by (meson list.set_intros(1))
  show ?case
  proof (cases "EFI_ERROR st")
    case True
    then show ?thesis using cb by simp
  next
    case False
    then show ?thesis using cb Cons.IH [of s' "index + 1" st] Cons.prems(1) by simp
  qed
qed

lemma flush_callback_inv:
  assumes l: "log_holds s ps E Q" and p: "p \<in> set ps" and ok: "flush_block_ok s (env p) p"
  shows "\<exists>st s' E' Q'. EventChannelFlushCallback b env h p s = Some (st, s') \<and> log_holds s' ps E' Q' \<and>
    (\<forall>p'. flush_block_ok s (env p') p' \<longrightarrow> flush_block_ok s' (env p') p')"
proof -
  obtain ch where ch: "el_Objects s p = Some ch" "chan ch (E p) (Q p)" "flags_ok (E p) (Q p)"
    using log_holds_channel [OF l p] by auto
  let ?L = "ch\<lparr>ec_Lock := True\<rparr>"
  show ?thesis
  proof (cases "fe_Data (env p)")
    case None
    then show ?thesis using l by (auto simp: EventChannelFlushCallback_def)
  next
    case (Some Data)
    have len: "length Data = ring_len (ec_Ring ?L)" using ok Some ch(1) by (simp add: flush_block_ok_def)
    have cL: "chan ?L (E p) (Q p)" using ch(2) by simp
    obtain r ch' evs q where r: "flush_channel b (env p) Data ?L = Some (r, ch')" "same_channel ?L ch'" "chan ch' evs q" "flags_ok evs q"
    proof (cases "fe_Isolated (env p) \<and> fe_HostEmulators (env p) \<and> EFI_ERROR (fe_Visible (env p))")
      case True
      then have "flush_channel b (env p) Data ?L = Some ((fe_Visible (env p), []), ?L)" by (simp add: flush_channel_def)
      then show ?thesis using that cL ch(3) by (simp add: same_channel_def)
    next
      case False
      from flush_channel_runs [OF cL len False refl, of b] that flags_ok_force [OF ch(3)] show ?thesis by blast
    qed
    let ?s = "s\<lparr>el_Objects := (el_Objects s)(p \<mapsto> ch'\<lparr>ec_Lock := False\<rparr>)\<rparr>"
    have "with_channel b s p (flush_channel b (env p) Data) = Some (r, ?s)" "log_holds ?s ps (E(p := evs)) (Q(p := q))"
      using with_channel_runs [where f = "flush_channel b (env p) Data", OF l p ch(1) r, of b] by simp_all
    moreover have "flush_block_ok (?s\<lparr>el_Flushed := out\<rparr>) (env p') p'" if "flush_block_ok s (env p') p'" for p' out
      using that ch(1) r(2) by (auto simp: flush_block_ok_def same_channel_def)
    moreover obtain st out where "r = (st, out)" by (cases r)
    ultimately show ?thesis
      using Some by (intro exI [of _ st] exI [of _ "?s\<lparr>el_Flushed := el_Flushed s @ out\<rparr>"] exI [of _ "E(p := evs)"] exI [of _ "Q(p := q)"])
        (simp add: EventChannelFlushCallback_def log_holds_flushed)
  qed
qed

lemma flush_op_inv:
  assumes l: "log_holds s ps E Q" and ok: "op_ok s ps E Q (OpFlush env h)"
  shows "\<exists>st s'. EventChannelFlush b env s h = Some (st, s') \<and> log_inv s'"
proof -
  let ?I = "\<lambda>t. (\<exists>E Q. log_holds t ps E Q) \<and> (\<forall>p \<in> set ps. flush_block_ok t (env p) p)"
  have I: "?I s" using l ok by (auto simp: op_ok_def)
  have step: "\<exists>st t'. EventChannelFlushCallback b env h' p t = Some (st, t') \<and> ?I t'" if "p \<in> set ps" "?I t" for h' p t
    using flush_callback_inv [of t ps _ _ p env b h'] that by blast
  show ?thesis
  proof (cases "h = INVALID_EVENT_HANDLE")
    case True
    from enumerate_entries_inv [where I = ?I and cb = "EventChannelFlushCallback b env", OF step I]
    show ?thesis using True unfolding log_inv_def
      by (fastforce simp: EventChannelFlush_def EfiHandleTableEnumerateObjects_def table_entries [OF l])
  next
    case False
    show ?thesis
    proof (cases "EventChannelFromHandle s h")
      case None
      then show ?thesis using False l by (auto simp: EventChannelFlush_def log_inv_def)
    next
      case (Some p)
      with step [OF log_holds_lookup [OF l Some] I, of h] False show ?thesis
        by (auto simp: EventChannelFlush_def intro: log_invI)
    qed
  qed
qed

lemma enumerate_event_memory:
  assumes "RingBufferHandleEnumerate b (ec_Ring ch) (en_RingEnum cx) = Some (st, R, r)"
  shows "enumerate_event b False cx ch = enumerate_event b True cx ch \<or>
    (\<exists>cx' m. enumerate_event b False cx ch = Some ((EFI_OUT_OF_RESOURCES, cx', m, None), ch\<lparr>ec_Ring := R\<rparr>))"
proof (cases "enumerate_event b False cx ch = enumerate_event b True cx ch")
  case False
  then show ?thesis
    using assms by (cases r) (auto simp: enumerate_event_def Let_def split: if_splits Option.bind_splits)
qed blast

lemma enumerate_event_any:
  assumes c: "chan ch evs q" and f: "flags_ok evs q" and cx: "enum_ok ch evs cx"
    and size: "\<And>e. e \<in> set evs \<Longrightarrow> unat (ed_DataSize (fst e)) < 2147483648"
  shows "\<exists>r ch'. enumerate_event b memory cx ch = Some (r, ch') \<and> chan ch' evs q \<and> same_channel ch ch'"
proof -
  consider (step) i where "i < length evs" "enum_at (ec_Ring ch) (map event_bytes evs) i (en_RingEnum cx)"
    | (last) "enum_at (ec_Ring ch) (map event_bytes evs) (length evs) (en_RingEnum cx)"
    | (stale) "en_RingEnum cx \<noteq> INVALID_RING_HANDLE" "RING_HANDLE_GET_KEY (en_RingEnum cx) \<noteq> ucast (rb_HandleKey (ec_Ring ch))"
    using cx by (auto simp: enum_ok_def le_less)
  then show ?thesis
  proof cases
    case step
    let ?R = "(ec_Ring ch)\<lparr>rb_HandleKey := live_key (ec_Ring ch)\<rparr>"
    have c': "chan (ch\<lparr>ec_Ring := ?R\<rparr>) evs q" "same_channel ch (ch\<lparr>ec_Ring := ?R\<rparr>)"
      using chan_live_key [OF c] by (simp_all add: same_channel_def)
    have T: "\<exists>r. enumerate_event b True cx ch = Some (r, ch\<lparr>ec_Ring := ?R\<rparr>)"
      using enumerate_event_next [OF c f step(1) _ step(2) _ refl, of b] cx size [of "evs ! i"] step(1)
      by (auto simp: enum_ok_def)
    obtain e' h where "RingBufferHandleEnumerate b (ec_Ring ch) (en_RingEnum cx) =
        Some (EFI_SUCCESS, ?R, e', h, of_nat (4 + length (map event_bytes evs ! i)))"
      using enumerate_next [OF aligned_ringD(1) [OF chanD(1) [OF c]] step(2), of b] step(1) by auto
    from enumerate_event_memory [OF this] T c' show ?thesis by (cases memory) auto
  next
    case last
    from enumerate_event_end [OF c last, of b memory] c show ?thesis by (auto simp: same_channel_def)
  next
    case stale
    then have "RingBufferHandleEnumerate b (ec_Ring ch) (en_RingEnum cx) =
        Some (EFI_INVALID_PARAMETER, ec_Ring ch, INVALID_RING_HANDLE, INVALID_RING_HANDLE, 0)"
      by (simp add: RingBufferHandleEnumerate_def)
    with c show ?thesis by (auto simp: enumerate_event_def Let_def same_channel_def)
  qed
qed

lemma enumerate_op_inv:
  assumes l: "log_holds s ps E Q" and ok: "op_ok s ps E Q (OpEnumerate memory h en)"
  shows "\<exists>r s'. EventEnumerate b memory s h en = Some (r, s') \<and> log_inv s'"
proof (cases "EventChannelFromHandle s h")
  case None
  then show ?thesis using l by (auto simp: EventEnumerate_def intro: log_invI)
next
  case (Some p)
  note p = log_holds_lookup [OF l Some]
  obtain ch where ch: "el_Objects s p = Some ch" "chan ch (E p) (Q p)" "flags_ok (E p) (Q p)"
    using log_holds_channel [OF l p] by auto
  let ?L = "ch\<lparr>ec_Lock := True\<rparr>"
  define cx where "cx = (case en of None \<Rightarrow> new_context INVALID_RING_HANDLE EVENT_ENUM_BUFFER_STEP_SIZE | Some cx \<Rightarrow> cx)"
  have cx: "enum_ok ?L (E p) cx"
    using ok Some ch(1)
    by (auto simp: op_ok_def cx_def enum_ok_def new_context_ok EVENT_ENUM_BUFFER_STEP_SIZE_def enum_at_def new_context_def context_ok_def
        split: option.splits)
  have "unat (ed_DataSize (fst e)) < 2147483648" if "e \<in> set (E p)" for e
    using ok Some ch(1) that by (simp add: op_ok_def)
  moreover have "chan ?L (E p) (Q p)" using ch(2) by simp
  ultimately obtain r ch' where r: "enumerate_event b (snd memory) cx ?L = Some (r, ch')" "chan ch' (E p) (Q p)" "same_channel ?L ch'"
    using enumerate_event_any [of ?L "E p" "Q p" cx b "snd memory"] ch(3) cx by blast
  from with_channel_inv [where f = "enumerate_event b (snd memory) cx", OF l p ch(1) r(1,3,2) ch(3), of b]
  show ?thesis
    using Some l by (cases r) (auto simp: EventEnumerate_def cx_def intro: log_invI split: option.splits)
qed

lemma create_op_inv:
  assumes l: "log_holds s ps E Q" and ok: "op_ok s ps E Q (OpCreate allocation g a)"
  shows "\<exists>st h s'. EventChannelCreate b allocation s g a = Some (st, h, s') \<and> log_inv s'"
proof (cases "Some g \<in> channel_id s ` set ps")
  case True
  then obtain i where "i < length ps" "channel_id s (ps ! i) = Some g" by (auto simp: in_set_conv_nth)
  from from_guid_found [OF l this] l show ?thesis by (auto simp: EventChannelCreate_def intro: log_invI)
next
  case False
  note none = from_guid_none [OF l False]
  show ?thesis
  proof (cases a)
    case None
    then show ?thesis using none l by (auto simp: EventChannelCreate_def intro: log_invI)
  next
    case (Some x)
    show ?thesis
    proof (cases "attributes_ok x")
      case bad: False
      then show ?thesis
        using none l Some ok by (auto simp: EventChannelCreate_def attributes_ok_def op_ok_def intro: log_invI)
    next
      case good: True
      have t: "table_holds (mEventChannels s) ps" "ti_ObjectKeySize (ht_Info (mEventChannels s)) = 16"
        using l by (simp_all add: log_holds_def)
      have sz: "(16 :: u64) \<le> 208 + ucast (ci_BufferSize x)" by (rule object_size)
      show ?thesis
      proof (cases "length ps < unat (ht_Size (mEventChannels s)) \<and> allocation \<noteq> None")
        case True
        then obtain p where "allocation = Some p" "p \<notin> set ps" using ok by (auto simp: op_ok_def)
        with create_runs [OF l False good this(2), of b] True Some show ?thesis by (auto intro: log_invI)
      next
        case full: False
        then have "EfiHandleTableAllocateObject (mEventChannels s) (208 + ucast (ci_BufferSize x)) allocation =
            (EFI_OUT_OF_RESOURCES, mEventChannels s, None, EFI_INVALID_HANDLE)"
          using allocate_object [OF t(1), of "208 + ucast (ci_BufferSize x)" allocation] sz t(2) by auto
        then show ?thesis
          using none good Some l by (auto simp: EventChannelCreate_def attributes_ok_def Let_def intro: log_invI)
      qed
    qed
  qed
qed

text \<open>Every considered call returns, and leaves the log well formed with all channels unlocked.\<close>

lemma run_op_inv:
  assumes l: "log_holds s ps E Q" and ok: "op_ok s ps E Q op"
  shows "\<exists>st s'. run_op b op s = Some (st, s') \<and> log_inv s'"
proof (cases op)
  case (OpCreate allocation g a)
  then show ?thesis using create_op_inv [OF l, of allocation g a b] ok by fastforce
next
  case (OpLog env h Ev Data)
  then show ?thesis using log_op_inv [OF l, of env h Ev Data b] ok by simp
next
  case (OpGet h)
  then show ?thesis using get_commit_op_inv(1) [OF l, of h b] ok by fastforce
next
  case (OpCommit now h)
  then have "op_ok s ps E Q (OpGet h)" using ok by (simp add: op_ok_def)
  with OpCommit show ?thesis using get_commit_op_inv(2) [OF l, of h b now] by simp
next
  case (OpReset h)
  then show ?thesis using reset_op_inv [OF l, of b h] by simp
next
  case (OpFlush env h)
  then show ?thesis using flush_op_inv [OF l, of env h b] ok by simp
next
  case (OpEnumerate memory h en)
  then show ?thesis using enumerate_op_inv [OF l, of memory h en b] ok by fastforce
qed

end
