(* ===== verification/Event_Overwrite.thy ===== *)
theory Event_Overwrite
  imports Event_Log
begin

text \<open>
  Overwriting while an event is pending. Removing the oldest record changes the key of the ring,
  and with it every handle becomes stale, also the one of a pending event that stays in the ring.
\<close>

subsection \<open>The key of the ring\<close>

lemma next_key_unat: "k \<noteq> 0 \<Longrightarrow> unat (next_key k) = (if unat k = 4294967295 then 1 else unat k + 1)"
proof -
  assume "k \<noteq> 0"
  show ?thesis
  proof (cases "unat k = 4294967295")
    case True
    then have "k = of_nat 4294967295" using word_eq_of_nat [of k 4294967295] by simp
    then show ?thesis using True by (simp add: next_key_def)
  next
    case False
    then have u: "unat (k + 1) = unat k + 1" using unat_lt32 [of k] by (subst unat_add32) simp_all
    then have "k + 1 \<noteq> 0" by (metis add_is_0 unat_0 zero_neq_one)
    then show ?thesis using u False by (simp add: next_key_def)
  qed
qed

lemma next_key_power:
  assumes "k \<noteq> 0"
  shows "unat ((next_key ^^ j) k) = (unat k - 1 + j) mod 4294967295 + 1"
proof (induction j)
  case 0
  have "unat k \<noteq> 0" using assms by (simp add: unat_eq_zero)
  then show ?case using unat_lt32 [of k] by simp
next
  case (Suc j)
  let ?x = "unat k - 1 + j"
  have "(next_key ^^ j) k \<noteq> 0" using Suc by (metis Suc_eq_plus1 nat.distinct(1) unat_0)
  from next_key_unat [OF this] Suc show ?case by (simp add: mod_Suc)
qed

lemma next_key_changes:
  assumes "k \<noteq> 0" "0 < j" "j < 4294967295"
  shows "(next_key ^^ j) k \<noteq> k"
proof
  assume "(next_key ^^ j) k = k"
  then have e: "unat k = (unat k - 1 + j) mod 4294967295 + 1" using next_key_power [OF assms(1), of j] by (simp only:)
  have u: "unat k \<noteq> 0" "unat k - 1 < 4294967295" using assms(1) unat_lt32 [of k] by (simp_all add: unat_eq_zero)
  have "(unat k - 1 + j) mod 4294967295 = unat k - 1" using e by linarith
  then have "(unat k - 1 + j) mod 4294967295 = (unat k - 1) mod 4294967295" using u(2) by simp
  then have "4294967295 dvd j" by (simp add: mod_eq_dvd_iff_nat)
  then show False using assms(2,3) by (auto dest: dvd_imp_le)
qed

lemma evict_key:
  "ring_inv R ds \<Longrightarrow> unat m < ring_len R \<Longrightarrow> reserve_evict b R m = Some R' \<Longrightarrow>
   \<exists>k \<le> length ds. rb_HandleKey R' = (next_key ^^ k) (rb_HandleKey R) \<and> (RingBufferBytesFree R < m \<longrightarrow> 0 < k)"
proof (induction ds arbitrary: R)
  case Nil
  have "\<not> RingBufferBytesFree R < m"
    using bytes_free [OF ring_invD(1) [OF Nil(1)]] ring_invD(2) [OF Nil(1)] Nil(2) by (simp add: word_less_nat_alt)
  with Nil(3) show ?case by (simp add: reserve_evict.simps)
next
  case (Cons d ds)
  show ?case
  proof (cases "RingBufferBytesFree R < m")
    case False
    with Cons.prems(3) show ?thesis by (auto simp: reserve_evict.simps)
  next
    case True
    obtain R1 where R1: "RingBufferRemove b R None None = Some (EFI_SUCCESS, R1, None, None)"
        "ring_inv R1 ds" "removed R d R1"
      using remove_record [OF Cons.prems(1), of None None b] by auto
    have "reserve_evict b (lose_write R1) m = Some R'"
      using True R1(1) Cons.prems(3) by (subst (asm) reserve_evict.simps) simp
    with Cons.IH [of "lose_write R1"] R1(2,3) Cons.prems(2)
    obtain k where "k \<le> length ds" "rb_HandleKey R' = (next_key ^^ k) (next_key (rb_HandleKey R))"
      by (auto simp: removed_def)
    then show ?thesis by (intro exI [of _ "Suc k"]) (simp add: funpow_swap1)
  qed
qed

lemma fill_data_same:
  assumes "RingBufferFillDataAt b R off v n = Some (off', R')"
  shows "\<exists>buffer. R' = R\<lparr>rb_Buffer := buffer\<rparr>"
  using assms unfolding RingBufferFillDataAt_def Let_def by (auto split: Option.bind_splits)

lemma reserve_key:
  assumes inv: "ring_inv R ds" and r: "RingBufferReserve b R m = Some (EFI_SUCCESS, R', h)"
    and full: "RingBufferBytesFree R < m + 4" "unat (m + 4) < ring_len R" and key: "rb_HandleKey R \<noteq> 0"
  shows "rb_HandleKey R' \<noteq> rb_HandleKey R"
proof -
  have g: "\<not> rb_Size R - 1 < m + 4" "rb_Flags R AND RING_BUFFER_OVERWRITE \<noteq> 0"
    using r full(1) by (auto simp: RingBufferReserve_def Let_def simp del: not_less split: if_splits)
  then obtain R1 q R2 where R1: "reserve_evict b R (m + 4) = Some R1"
      "(if DEBUG_CODE b then map_option snd (RingBufferFillDataAt b R1 q (ucast (rb_HandleKey R1)) (m + 4)) else Some R1) = Some R2"
      "rb_HandleKey R' = live_key R2"
    using r full(1)
    by (simp add: RingBufferReserve_def Let_def bind_eq_Some_conv)
      (elim exE conjE, rule that, assumption, assumption, auto simp: live_key_def)
  have "rb_HandleKey R2 = rb_HandleKey R1" using R1(2) by (auto dest!: fill_data_same split: if_splits)
  then have key': "rb_HandleKey R' = live_key R1" using R1(3) by (simp add: live_key_def)
  obtain k where k: "k \<le> length ds" "rb_HandleKey R1 = (next_key ^^ k) (rb_HandleKey R)" "0 < k"
    using evict_key [OF inv full(2) R1(1)] full(1) by auto
  have "4 * length xs \<le> span n t xs" for n t xs
    by (induction xs arbitrary: t) (simp_all add: trans_le_add1 add_mono)
  from this [of ds "ring_len R" "unat (rb_Tail R)"] have "length ds < 4294967295"
    using bytes_used_lt [OF ring_invD(1) [OF inv]] ring_invD(2) [OF inv] unat_lt32 [of "rb_Size R"] by linarith
  then have "(next_key ^^ k) (rb_HandleKey R) \<noteq> rb_HandleKey R" using next_key_changes [OF key k(3)] k(1) by simp
  moreover have "(next_key ^^ k) (rb_HandleKey R) \<noteq> 0"
    using next_key_power [OF key, of k] by (metis Suc_eq_plus1 nat.distinct(1) unat_0)
  ultimately show ?thesis using key' k(2) by (simp add: live_key_def)
qed

subsection \<open>Logging while an event is pending\<close>

lemma log_event_pending_same:
  assumes "ed_Flags Ev AND EVENT_FLAG_PENDING = 0"
  shows "log_event b env Ev Data (ch\<lparr>ec_Pending := x\<rparr>) = map_option (\<lambda>(st, ch'). (st, ch'\<lparr>ec_Pending := x\<rparr>)) (log_event b env Ev Data ch)"
  using assms
  by (auto simp: log_event_def grow_cache_def Let_def ASSERT_def split: option.splits if_splits Option.bind_splits)

lemma log_event_ring:
  assumes "log_event b env Ev Data ch = Some (EFI_SUCCESS, ch')" "ed_Flags Ev AND EVENT_FLAG_PENDING = 0"
  shows "\<exists>R1 h. RingBufferReserve b (ec_Ring ch) (ed_DataSize Ev + 64) = Some (EFI_SUCCESS, R1, h) \<and>
    rb_HandleKey (ec_Ring ch') = rb_HandleKey R1 \<and> ec_Pending ch' = ec_Pending ch"
proof -
  have r: "st = EFI_SUCCESS" if "RingBufferReserve b R m = Some (st, R1, h)" "\<not> EFI_ERROR st" for R m st R1 h
    using that by (auto simp: RingBufferReserve_def Let_def split: if_splits Option.bind_splits prod.splits)
  show ?thesis
    using assms
    by (auto simp: log_event_def grow_cache_def Let_def ASSERT_def SIZEOF_EFI_EVENT_DESCRIPTOR_def dest!: io_same(3)
        split: option.splits if_splits Option.bind_splits) (rule r, assumption, assumption)+
qed

lemma plain_log_overwrites:
  assumes c: "chan ch evs (Some i)" and plain: "ed_Flags Ev AND EVENT_FLAG_PENDING = 0"
    and size: "4 dvd unat (ed_DataSize Ev)" "unat (ed_DataSize Ev) < 2147483648" "data_ok Data (ed_DataSize Ev)"
    and full: "overwrites ch" "68 + unat (ed_DataSize Ev) < ring_len (ec_Ring ch)"
      "ring_len (ec_Ring ch) \<le> stored (map event_bytes evs) + 68 + unat (ed_DataSize Ev)"
    and evs': "evs' = drop_oldest_events (ring_len (ec_Ring ch)) (68 + unat (ed_DataSize Ev)) evs @
      [(event_meta env Ev, payload Data (ed_DataSize Ev))]"
  shows "\<exists>ch'. log_event b env Ev Data ch = Some (EFI_SUCCESS, ch') \<and> same_channel ch ch' \<and>
    aligned_ring (ec_Ring ch') (map event_bytes evs') \<and> ec_Pending ch' = ec_Pending ch \<and>
    rb_HandleKey (ec_Ring ch') \<noteq> rb_HandleKey (ec_Ring ch)"
proof -
  let ?x = "(ec_Pending ch)\<lparr>pe_Handle := INVALID_RING_HANDLE\<rparr>"
  let ?ch = "ch\<lparr>ec_Pending := ?x\<rparr>" and ?e = "(event_meta env Ev, payload Data (ed_DataSize Ev))"
  note D = chanD [OF c]
  have c0: "chan ?ch evs None" using c by (auto simp: chan_def pending_at_def cache_ok_def split: option.splits)
  have spec: "spec_of ?ch evs ?e = (EFI_SUCCESS, evs')"
    using full by (auto simp: log_spec_def Let_def evs' event_meta_def overwrites_def)
  obtain ch0 where ch0: "log_event b env Ev Data ?ch = Some (EFI_SUCCESS, ch0)" "chan ch0 evs' None" "same_channel ?ch ch0"
    using log_event_plain [OF c0 plain size _ refl, of b env] spec by auto
  obtain ch' where ch': "log_event b env Ev Data ch = Some (EFI_SUCCESS, ch')" "ch0 = ch'\<lparr>ec_Pending := ?x\<rparr>"
    using ch0(1) unfolding log_event_pending_same [OF plain] by auto
  obtain R1 h where R1: "RingBufferReserve b (ec_Ring ch) (ed_DataSize Ev + 64) = Some (EFI_SUCCESS, R1, h)"
      "rb_HandleKey (ec_Ring ch') = rb_HandleKey R1" "ec_Pending ch' = ec_Pending ch"
    using log_event_ring [OF ch'(1) plain] by blast
  have inv: "ring_inv (ec_Ring ch) (map event_bytes evs)" and ok: "ring_ok (ec_Ring ch)"
    using aligned_ringD(1,2) [OF D(1)] by simp_all
  have u: "unat (ed_DataSize Ev + 64 + 4) = 68 + unat (ed_DataSize Ev)"
    using size(2) by (simp add: unat_add32)
  have "rb_HandleKey R1 \<noteq> rb_HandleKey (ec_Ring ch)"
  proof (rule reserve_key [OF inv R1(1)])
    show "RingBufferBytesFree (ec_Ring ch) < ed_DataSize Ev + 64 + 4"
      unfolding word_less_nat_alt u using bytes_free [OF ok] aligned_ringD(3,6) [OF D(1)] full(3) by simp
    show "unat (ed_DataSize Ev + 64 + 4) < ring_len (ec_Ring ch)" using full(2) u by (simp only:)
    show "rb_HandleKey (ec_Ring ch) \<noteq> 0" using D(4) by (simp add: pending_at_def)
  qed
  moreover have "aligned_ring (ec_Ring ch') (map event_bytes evs')" using chanD(1) [OF ch0(2)] ch'(2) by simp
  moreover have "same_channel ch ch'" using ch0(3) ch'(2) by (simp add: same_channel_def)
  ultimately show ?thesis using ch'(1) R1(2,3) by (intro exI [of _ ch']) simp
qed

text \<open>A channel whose pending handle is stale reports that nothing is pending.\<close>

lemma stale_commit:
  assumes "RING_HANDLE_GET_KEY (pe_Handle (ec_Pending ch)) \<noteq> ucast (rb_HandleKey (ec_Ring ch))"
  shows "pending_commit b now ch = Some (EFI_NOT_FOUND, EventPendingCleanup ch)"
  using assms by (simp add: pending_commit_def RingBufferHandleIsValid_def)

end
