(* ===== verification/Event_Properties.thy ===== *)
theory Event_Properties
  imports Event_Overwrite
begin

text \<open>
  What the event log guarantees, from the ring of records up to the protocol that drivers call,
  with an example for every theorem that has hypotheses.
\<close>

subsection \<open>Callers of the event log\<close>

text \<open>The states that calls of the protocol reach from the initialised log.\<close>

inductive log_reach :: "build \<Rightarrow> event_log \<Rightarrow> bool" for b where
  start: "EventLoggerInitialize b True EFI_SUCCESS = Some (EFI_SUCCESS, Some s) \<Longrightarrow> log_reach b s"
| call: "log_reach b s \<Longrightarrow> log_holds s ps E Q \<Longrightarrow> op_ok s ps E Q op \<Longrightarrow> run_op b op s = Some (st, s') \<Longrightarrow> log_reach b s'"

text \<open>A caller that writes through the pointer to the cache.\<close>

definition write_cache :: "event_log \<Rightarrow> nat \<Rightarrow> u8 list \<Rightarrow> event_log" where
  "write_cache s p c = s\<lparr>el_Objects := (el_Objects s)(p := map_option
     (\<lambda>ch. ch\<lparr>ec_Pending := (ec_Pending ch)\<lparr>pe_Cache := Some c\<rparr>\<rparr>) (el_Objects s p))\<rparr>"


subsection \<open>Example objects\<close>

definition checked_build :: build where
  "checked_build = \<lparr>ASSERTS = True, DBG = True, DEBUG_CODE = True\<rparr>"

definition fresh_ring :: "u32 \<Rightarrow> u32 \<Rightarrow> efi_ring_buffer" where
  "fresh_ring n flags = snd (RingBufferInitialize (ec_Ring (zero_channel n)) n flags)"

lemma fresh_ring_holds:
  assumes "5 \<le> n" "n AND (n - 1) = 0"
  shows "aligned_ring (fresh_ring n fl) []" "rb_Size (fresh_ring n fl) = n" "rb_Flags (fresh_ring n fl) = fl"
proof -
  obtain R where R: "RingBufferInitialize (ec_Ring (zero_channel n)) n fl = (EFI_SUCCESS, R)" "ring_inv R []"
      "rb_Size R = n" "rb_Flags R = fl"
    using initialize_empty [OF assms, of "ec_Ring (zero_channel n)" fl] by (auto simp: zero_channel_def)
  moreover from R(1) have "rb_Tail R = 0" by (auto simp: RingBufferInitialize_def RingBufferReset_def split: if_splits)
  ultimately show "aligned_ring (fresh_ring n fl) []" "rb_Size (fresh_ring n fl) = n" "rb_Flags (fresh_ring n fl) = fl"
    by (simp_all add: fresh_ring_def aligned_ring_def)
qed

lemma ring_of_two:
  "\<exists>R. aligned_ring R [[1, 2, 3, 4], [5, 6, 7, 8]] \<and> rb_Size R = 32 \<and> rb_Flags R = 1"
proof -
  note f = fresh_ring_holds [of 32 1, simplified]
  obtain R1 hv1 where R1: "aligned_ring R1 [[1, 2, 3, 4]]" "rb_Size R1 = 32" "rb_Flags R1 = 1"
    using add_refines [OF f(1), of 4 "[1, 2, 3, 4]" checked_build None] f(2,3) by (auto simp: queue_add_def)
  show ?thesis
    using add_refines [OF R1(1), of 4 "[5, 6, 7, 8]" checked_build None] R1(2,3) by (auto simp: queue_add_def)
qed

definition sample_info :: event_channel_info where
  "sample_info = \<lparr>ci_Tpl = 16, ci_Flags = 2, ci_RecordSize = 0, ci_BufferSize = 256\<rparr>"

definition sample_event :: "u32 \<Rightarrow> efi_event_descriptor" where
  "sample_event flags = zero_descriptor\<lparr>ed_EventId := 7, ed_Flags := flags, ed_DataSize := 4\<rparr>"

definition sample_env :: log_env where
  "sample_env = \<lparr>le_Now = 100, le_CommitNow = 101, le_Tpl = 8, le_Memory = True\<rparr>"

definition sample_flush :: "nat \<Rightarrow> flush_env" where
  "sample_flush p = \<lparr>fe_Data = Some (replicate 256 0), fe_Isolated = False, fe_HostEmulators = False,
     fe_Visible = EFI_SUCCESS, fe_Now = 200\<rparr>"

definition empty_log :: event_log where
  "empty_log = the (snd (the (EventLoggerInitialize checked_build True EFI_SUCCESS)))"

lemma empty_log_initial: "EventLoggerInitialize checked_build True EFI_SUCCESS = Some (EFI_SUCCESS, Some empty_log)"
  by (simp add: empty_log_def EventLoggerInitialize_def EfiHandleTableInitialize_def HANDLE_TABLE_MAX_SIZE_def)

lemma empty_log_holds: "log_holds empty_log [] E Q" "ht_Size (mEventChannels empty_log) = 8"
  using initialize_inv [OF empty_log_initial]
  by (simp_all add: empty_log_def EventLoggerInitialize_def EfiHandleTableInitialize_def HANDLE_TABLE_MAX_SIZE_def)

lemma sample_channel:
  "\<exists>s h ch. EventChannelCreate checked_build (Some 0) empty_log 5 (Some sample_info) = Some (EFI_SUCCESS, h, s) \<and>
    EventChannelFromHandle s h = Some 0 \<and> el_Objects s 0 = Some ch \<and> ring_len (ec_Ring ch) = 256 \<and> overwrites ch \<and>
    log_holds s [0] (\<lambda>_. []) (\<lambda>_. None)"
  using create_runs [OF empty_log_holds(1) [of "\<lambda>_. []" "\<lambda>_. None"], of 5 sample_info 0 checked_build] empty_log_holds(2)
  by (auto simp: attributes_ok_def sample_info_def EVENT_CHANNEL_FIXED_RECORDS_def EVENT_CHANNEL_OVERWRITE_RECORDS_def fun_upd_idem)

lemma sample_event_simps [simp]:
  "ed_DataSize (sample_event fl) = 4" "ed_Flags (sample_event fl) = fl" "ed_DataSize (event_meta env e) = ed_DataSize e"
  by (simp_all add: sample_event_def event_meta_def)

lemma sample_log_ok:
  "ring_len (ec_Ring ch) = 256 \<Longrightarrow> log_ok ch [] None (sample_event fl) (Some [1, 2, 3, 4])"
  by (simp add: log_ok_def data_ok_def)

lemma sample_logged:
  assumes "EventChannelFromHandle s h = Some 0" "el_Objects s 0 = Some ch" "ring_len (ec_Ring ch) = 256"
    and "log_holds s [0] (\<lambda>_. []) (\<lambda>_. None)"
  shows "\<exists>s1 ch1. EventLog checked_build sample_env s h (Some (sample_event 0)) (Some [1, 2, 3, 4]) = Some (EFI_SUCCESS, s1) \<and>
    log_holds s1 [0] ((\<lambda>_. [])(0 := [(event_meta sample_env (sample_event 0), [1, 2, 3, 4])])) (\<lambda>_. None) \<and>
    el_Objects s1 0 = Some ch1 \<and> ring_len (ec_Ring ch1) = 256"
proof -
  have "ed_Flags (sample_event 0) AND EVENT_FLAG_PENDING = 0" by simp
  from event_log_plain [OF assms(4,1,2) sample_log_ok [OF assms(3)] this refl, of checked_build sample_env] assms(3)
  show ?thesis by (auto simp: log_spec_def payload_def same_channel_def)
qed

subsection \<open>The ring of records\<close>

text \<open>
  C2: Adding a record to the ring is adding it to a bounded queue. Whenever the sizes are
  multiples of four, \<^verbatim>\<open>RingBufferAdd\<close> returns, reports the status of the queue,
  and leaves exactly the records of the queue: a record that can never fit is refused, one that
  fits is appended, and in a full ring either the oldest records give way, as few as possible, or
  the new one is refused.
\<close>

theorem efi_ring_add_refines_queue:
  assumes "aligned_ring R ds" "4 dvd unat m" "unat m \<le> length Data" "unat m < 2147483648"
  defines "q \<equiv> queue_add (ring_len R) (rb_Flags R AND RING_BUFFER_OVERWRITE \<noteq> 0) ds (take (unat m) Data)"
  shows "\<exists>R' hv'. RingBufferAdd b R Data m hv = Some (fst q, R', hv') \<and> aligned_ring R' (snd q) \<and>
    rb_Size R' = rb_Size R \<and> rb_Flags R' = rb_Flags R"
  unfolding q_def by (rule add_refines [OF assms(1-4)])

theorem efi_ring_add_refines_queue_witness:
  "\<exists>R R' hv. aligned_ring R [[1, 2, 3, 4], [5, 6, 7, 8]] \<and> rb_Size R = 32 \<and>
    RingBufferAdd checked_build R [9, 9, 9, 9, 8, 8, 8, 8, 7, 7, 7, 7] 12 None = Some (EFI_SUCCESS, R', hv) \<and>
    aligned_ring R' [[5, 6, 7, 8], [9, 9, 9, 9, 8, 8, 8, 8, 7, 7, 7, 7]]"
proof -
  obtain R where R: "aligned_ring R [[1, 2, 3, 4], [5, 6, 7, 8]]" "rb_Size R = 32" "rb_Flags R = 1"
    using ring_of_two by blast
  from efi_ring_add_refines_queue [OF R(1), of 12 "[9, 9, 9, 9, 8, 8, 8, 8, 7, 7, 7, 7]" checked_build None] R(2,3)
  have "\<exists>R' hv. RingBufferAdd checked_build R [9, 9, 9, 9, 8, 8, 8, 8, 7, 7, 7, 7] 12 None = Some (EFI_SUCCESS, R', hv) \<and>
      aligned_ring R' [[5, 6, 7, 8], [9, 9, 9, 9, 8, 8, 8, 8, 7, 7, 7, 7]]"
    by (simp add: queue_add_def RING_BUFFER_OVERWRITE_def) blast
  with R show ?thesis by blast
qed

text \<open>
  C9: The loop that makes room in an overwriting ring ends, for records of any size: it removes
  the \<open>k\<close> oldest records and no others, counts each of them as lost, and afterwards the requested
  number of bytes is free. It removes something exactly if the bytes were not free before.
\<close>

theorem efi_ring_eviction_ends:
  assumes inv: "ring_inv R ds" and m: "unat m < ring_len R"
  shows "\<exists>R' k. reserve_evict b R m = Some R' \<and> k \<le> length ds \<and> ring_inv R' (drop k ds) \<and>
    m \<le> RingBufferBytesFree R' \<and> (k = 0 \<longleftrightarrow> m \<le> RingBufferBytesFree R) \<and> same_ring R R' \<and>
    LostWrites (rb_Stats R') = LostWrites (rb_Stats R) + of_nat k"
proof -
  let ?rest = "snd (evict (ring_len R) (unat m) (unat (rb_Tail R)) ds)"
  obtain R' where R': "reserve_evict b R m = Some R'" "ring_inv R' ?rest" "unat m \<le> ring_len R - 1 - bytes_used R'" "same_ring R R'"
      "LostWrites (rb_Stats R') = LostWrites (rb_Stats R) + of_nat (length ds - length ?rest)"
    using reserve_evict_runs [OF inv m, of b] by blast
  obtain j where "?rest = drop j ds" using evict_suffix by blast
  then have k: "?rest = drop (length ds - length ?rest) ds" by (cases "j \<le> length ds") simp_all
  have free: "m \<le> RingBufferBytesFree R'"
    using R'(3,4) bytes_free [OF ring_invD(1) [OF R'(2)]] by (simp add: word_le_nat_alt same_ring_def)
  have "length ds - length ?rest = 0 \<longleftrightarrow> m \<le> RingBufferBytesFree R"
  proof
    assume "m \<le> RingBufferBytesFree R"
    then have "unat m \<le> ring_len R - 1 - span (ring_len R) (unat (rb_Tail R)) ds"
      using bytes_free [OF ring_invD(1) [OF inv]] ring_invD(2) [OF inv] by (simp add: word_le_nat_alt)
    from evict_fits [OF this] show "length ds - length ?rest = 0" by simp
  next
    assume none: "length ds - length ?rest = 0"
    show "m \<le> RingBufferBytesFree R"
    proof (rule ccontr)
      assume "\<not> m \<le> RingBufferBytesFree R"
      then have less: "ring_len R - 1 - span (ring_len R) (unat (rb_Tail R)) ds < unat m"
        using bytes_free [OF ring_invD(1) [OF inv]] ring_invD(2) [OF inv] by (simp add: word_le_nat_alt)
      show False
      proof (cases ds)
        case Nil
        then show False using less m by simp
      next
        case (Cons d ds')
        then show False
          using less none evict_length [of "ring_len R" "unat m" "(unat (rb_Tail R) + gap (ring_len R) (unat (rb_Tail R)) + 4 + length d) mod ring_len R" ds']
          by simp
      qed
    qed
  qed
  with R' free k show ?thesis
    by (intro exI [of _ R'] exI [of _ "length ds - length ?rest"]) simp
qed

theorem efi_ring_eviction_ends_witness:
  "\<exists>R R' k. ring_inv R [[1, 2, 3, 4], [5, 6, 7, 8]] \<and> reserve_evict checked_build R 20 = Some R' \<and> 0 < k \<and> k \<le> 2 \<and>
    ring_inv R' (drop k [[1, 2, 3, 4], [5, 6, 7, 8]])"
proof -
  obtain R where R: "aligned_ring R [[1, 2, 3, 4], [5, 6, 7, 8]]" "rb_Size R = 32" "rb_Flags R = 1"
    using ring_of_two by blast
  note D = aligned_ringD [OF R(1)]
  have "unat (20 :: u32) < ring_len R" using R(2) by simp
  from efi_ring_eviction_ends [OF D(1) this, of checked_build]
  obtain R' k where R': "reserve_evict checked_build R 20 = Some R'" "k \<le> length [[1, 2, 3, 4 :: u8], [5, 6, 7, 8]]"
      "ring_inv R' (drop k [[1, 2, 3, 4], [5, 6, 7, 8]])" "k = 0 \<longleftrightarrow> 20 \<le> RingBufferBytesFree R" by blast
  have "unat (RingBufferBytesFree R) = 15" using bytes_free [OF D(2)] D(3) R(2) by simp
  then have "0 < k" using R'(4) by (simp add: word_le_nat_alt)
  moreover have "k \<le> 2" using R'(2) by simp
  ultimately show ?thesis using R'(1,3) D(1) by blast
qed

text \<open>
  C24: Flattening ends and writes the data of all records, oldest first and without their
  headers, to the start of the buffer; the rest of the buffer is untouched. A buffer of the size
  of the ring is always large enough.
\<close>

theorem efi_ring_flatten_all:
  assumes "ring_inv R ds" "ring_len R \<le> unat n" "unat n \<le> length Buffer"
  shows "RingBufferFlatten b R n Buffer =
    Some (EFI_SUCCESS, of_nat (length (concat ds)), concat ds @ drop (length (concat ds)) Buffer)"
  using flatten_records_all [OF assms(1), of n Buffer b] bytes_used_lt [OF ring_invD(1) [OF assms(1)]] assms(2,3) by simp

theorem efi_ring_flatten_all_witness:
  "\<exists>R. ring_inv R [[1, 2, 3, 4], [5, 6, 7, 8]] \<and> RingBufferFlatten checked_build R 32 (replicate 32 0) =
    Some (EFI_SUCCESS, 8, [1, 2, 3, 4, 5, 6, 7, 8] @ replicate 24 0)"
proof -
  obtain R where R: "aligned_ring R [[1, 2, 3, 4], [5, 6, 7, 8]]" "rb_Size R = 32"
    using ring_of_two by blast
  note D = aligned_ringD [OF R(1)]
  from efi_ring_flatten_all [OF D(1), of 32 "replicate 32 0" checked_build] R(2) D(1) show ?thesis
    by (intro exI [of _ R]) simp
qed



subsection \<open>The event log\<close>

text \<open>
  C1: In every state that calls of the event log protocol reach, the log is well formed: the
  handle table holds distinct channels with distinct identifiers, all unlocked, each with a ring
  that holds whole events and at most one pending event whose data is in the cache. Every further
  admissible call (creating or opening a channel, logging, getting and committing a pending
  event, enumerating, flushing, resetting) returns: no access leaves its buffer, no assertion
  fails, no lock is taken twice or left behind.
\<close>

theorem event_log_safe:
  assumes "log_reach b s"
  shows "\<exists>ps E Q. log_holds s ps E Q \<and> (\<forall>op. op_ok s ps E Q op \<longrightarrow> (\<exists>st s'. run_op b op s = Some (st, s') \<and> log_inv s'))"
proof -
  have "log_inv s" using assms
  proof induction
    case (start s)
    from initialize_inv [OF start] show ?case by (auto intro: log_invI)
  next
    case (call s ps E Q op st s')
    with run_op_inv [OF call(2,3), of b] show ?case by auto
  qed
  then obtain ps E Q where l: "log_holds s ps E Q" by (auto simp: log_inv_def)
  show ?thesis
    by (intro exI [of _ ps] exI [of _ E] exI [of _ Q] conjI allI impI l run_op_inv [OF l])
qed

theorem event_log_safe_witness:
  "\<exists>s. log_reach checked_build s \<and> (\<exists>h. EventChannelFromHandle s h = Some 0) \<and>
    (\<exists>ps E Q. log_holds s ps E Q \<and> (\<exists>st s'. run_op checked_build (OpReset INVALID_EVENT_HANDLE) s = Some (st, s') \<and> log_inv s'))"
proof -
  obtain s h where s: "EventChannelCreate checked_build (Some 0) empty_log 5 (Some sample_info) = Some (EFI_SUCCESS, h, s)"
      "EventChannelFromHandle s h = Some 0"
    using sample_channel by blast
  have "log_reach checked_build empty_log" by (rule log_reach.start [OF empty_log_initial])
  then have r: "log_reach checked_build s"
    by (rule log_reach.call [where op = "OpCreate (Some 0) 5 (Some sample_info)", OF _ empty_log_holds(1)])
      (simp_all add: op_ok_def sample_info_def s(1) [unfolded sample_info_def])
  from event_log_safe [OF r] obtain ps E Q where "log_holds s ps E Q"
    "op_ok s ps E Q (OpReset INVALID_EVENT_HANDLE) \<longrightarrow>
      (\<exists>st s'. run_op checked_build (OpReset INVALID_EVENT_HANDLE) s = Some (st, s') \<and> log_inv s')"
    by blast
  with r s(2) show ?thesis by (auto simp: op_ok_def)
qed



lemma get_same:
  assumes l: "log_holds s ps E Q" and h: "EventChannelFromHandle s h = Some p" "el_Objects s p = Some ch" and q: "Q p = Some i"
  shows "EventPendingGet b s h = Some ((EFI_SUCCESS, Some (fst (E p ! i)), pe_Cache (ec_Pending ch)), s)"
proof -
  note p = log_holds_lookup [OF l h(1)]
  obtain c: "chan ch (E p) (Q p)" and f: "flags_ok (E p) (Q p)" and u: "\<not> ec_Lock ch"
    using log_holds_channel [OF l p] h(2) by auto
  have "pending_get b (ch\<lparr>ec_Lock := True\<rparr>) =
      Some ((EFI_SUCCESS, Some (fst (E p ! i)), pe_Cache (ec_Pending ch)), ch\<lparr>ec_Lock := True\<rparr>)"
    using pending_get_runs [of "ch\<lparr>ec_Lock := True\<rparr>" "E p" i b] c q by simp
  moreover have "ch\<lparr>ec_Lock := False\<rparr> = ch" using u by simp
  ultimately show ?thesis
    using h u by (simp add: EventPendingGet_def with_channel_def EventChannelLock_def EventChannelUnlock_def fun_upd_idem)
qed

lemma write_cache_holds:
  assumes l: "log_holds s ps E Q" and p: "p \<in> set ps" "el_Objects s p = Some ch"
    and c: "pe_Cache (ec_Pending ch) = Some c" "length c' = length c"
  shows "log_holds (write_cache s p c') ps E Q"
proof -
  obtain ok: "chan ch (E p) (Q p)" and f: "flags_ok (E p) (Q p)" and u: "\<not> ec_Lock ch"
    using log_holds_channel [OF l p(1)] p(2) by auto
  let ?ch = "ch\<lparr>ec_Pending := (ec_Pending ch)\<lparr>pe_Cache := Some c'\<rparr>\<rparr>"
  have "chan ?ch (E p) (Q p)" using ok c by (auto simp: chan_def cache_ok_def pending_at_def split: option.splits)
  from log_holds_update [OF l p _ _ this f] u p(2) show ?thesis by (simp add: write_cache_def)
qed

lemma spec_prefix:
  assumes "fst (log_spec n ow evs (m, d)) = EFI_SUCCESS"
  shows "\<exists>kept. \<forall>d. snd (log_spec n ow evs (m, d)) = kept @ [(m, d)]"
  using assms by (auto simp: log_spec_def Let_def split: if_splits)

lemma spec_status: "fst (log_spec n ow evs (m, d)) = fst (log_spec n ow evs (m, d'))"
  by (simp add: log_spec_def Let_def)

text \<open>
  C7: The life of a pending event. Logging it stores its data in the cache and returns it, with
  its descriptor, to whoever asks for the pending event; whatever the caller then writes through
  that pointer is what the commit stores, with the time of the commit and without the pending
  flag. An event that was pending before is committed first and marked incomplete.
\<close>

theorem event_pending_life_cycle:
  assumes l: "log_holds s ps E Q" and h: "EventChannelFromHandle s h = Some p" "el_Objects s p = Some ch"
    and ok: "log_ok ch (E p) (Q p) Ev (Some d)" and pend: "ed_Flags Ev AND EVENT_FLAG_PENDING \<noteq> 0"
    and env: "le_Tpl env \<le> TPL_NOTIFY" "le_Memory env" and size: "0 < unat (ed_DataSize Ev)"
    and fits: "log_spec (ring_len (ec_Ring ch)) (overwrites ch) (E p) (event_meta env Ev, []) = (EFI_SUCCESS, kept @ [(event_meta env Ev, [])])"
  shows "\<exists>s1 c. EventLog b env s h (Some Ev) (Some d) = Some (EFI_SUCCESS, s1) \<and>
    EventPendingGet b s1 h = Some ((EFI_SUCCESS, Some (event_meta env Ev), Some c), s1) \<and>
    take (unat (ed_DataSize Ev)) c = take (unat (ed_DataSize Ev)) d \<and>
    (\<forall>c'. length c' = length c \<longrightarrow> (\<exists>s2. EventPendingCommit b now (write_cache s1 p c') h = Some (EFI_SUCCESS, s2) \<and>
      log_holds s2 ps (E(p := force_commit (le_CommitNow env) ch kept (Q p) @
        [(committed now (event_meta env Ev), take (unat (ed_DataSize Ev)) c')])) (Q(p := None))))"
proof -
  let ?m = "event_meta env Ev" and ?n = "unat (ed_DataSize Ev)"
  let ?F = "force_commit (le_CommitNow env) ch kept (Q p)"
  have spec: "fst (spec_of ch (E p) (?m, x)) = EFI_SUCCESS \<and> snd (spec_of ch (E p) (?m, x)) = kept @ [(?m, x)]" for x
  proof -
    from fits have "fst (spec_of ch (E p) (?m, [])) = EFI_SUCCESS" by simp
    then obtain kept' where k: "snd (spec_of ch (E p) (?m, y)) = kept' @ [(?m, y)]" for y
      using spec_prefix [of "ring_len (ec_Ring ch)" "overwrites ch" "E p" ?m "[]"] by blast
    have "kept' = kept" using k [of "[]"] fits by simp
    then show ?thesis using k [of x] fits spec_status [of "ring_len (ec_Ring ch)" "overwrites ch" "E p" ?m x "[]"] by simp
  qed
  obtain s1 x evs' ch1 where s1: "EventLog b env s h (Some Ev) (Some d) = Some (EFI_SUCCESS, s1)" "el_Objects s1 p = Some ch1"
      "evs' = kept" "cached_data ch1 = payload (Some d) (ed_DataSize Ev)"
      "log_holds s1 ps (E(p := force_commit (le_CommitNow env) ch evs' (Q p) @ [(?m, x)])) (Q(p := Some (length evs')))"
    using event_log_pending [OF l h ok pend env refl, of b] spec by auto
  note l1 = s1(5) [unfolded s1(3)]
  have p: "p \<in> set ps" by (rule log_holds_lookup [OF l h(1)])
  have h1: "EventChannelFromHandle s1 h = Some p"
    using s1(1) h by (auto simp: EventLog_def with_channel_def EventChannelFromHandle_def split: Option.bind_splits)
  obtain c1: "chan ch1 (?F @ [(?m, x)]) (Some (length kept))"
    using log_holds_channel [OF l1 p] s1(2) by auto
  have nth: "(?F @ [(?m, x)]) ! length kept = (?m, x)"
    using nth_append_length [of ?F "(?m, x)"] by simp
  have meta: "pe_Metadata (ec_Pending ch1) = ?m" and cs: "?n \<le> unat (pe_CacheSize (ec_Pending ch1))" and co: "cache_ok ch1"
    using c1 nth by (simp_all add: chan_def pending_at_def event_meta_def)
  obtain c where c: "pe_Cache (ec_Pending ch1) = Some c" "?n \<le> length c"
    using co cs size by (auto simp: cache_ok_def split: option.splits)
  have get: "EventPendingGet b s1 h = Some ((EFI_SUCCESS, Some ?m, Some c), s1)"
    using get_same [OF l1 h1 s1(2), of "length kept" b] c(1) nth by simp
  have data: "take ?n c = take ?n d" using s1(4) c(1) meta by (simp add: cached_data_def payload_def event_meta_def)
  have "\<exists>s2. EventPendingCommit b now (write_cache s1 p c') h = Some (EFI_SUCCESS, s2) \<and>
      log_holds s2 ps (E(p := ?F @ [(committed now ?m, take ?n c')])) (Q(p := None))" if c': "length c' = length c" for c'
  proof -
    let ?ch = "ch1\<lparr>ec_Pending := (ec_Pending ch1)\<lparr>pe_Cache := Some c'\<rparr>\<rparr>"
    have w: "EventChannelFromHandle (write_cache s1 p c') h = Some p" "el_Objects (write_cache s1 p c') p = Some ?ch"
      using h1 s1(2) by (simp_all add: write_cache_def EventChannelFromHandle_def split: if_splits)
    have "cached_data ?ch = take ?n c'" using meta by (simp add: cached_data_def event_meta_def)
    moreover have "(?F @ [(?m, x)])[length kept := y] = ?F @ [y]" for y
      using list_update_append [of ?F "[(?m, x)]" "length kept" y] by simp
    ultimately show ?thesis
      using commit_runs [OF write_cache_holds [OF l1 p s1(2) c(1) c'] w, of "length kept" b now] nth by simp
  qed
  with s1(1) get data show ?thesis by blast
qed

theorem event_pending_life_cycle_witness:
  "\<exists>s h s1 c s2. EventChannelCreate checked_build (Some 0) empty_log 5 (Some sample_info) = Some (EFI_SUCCESS, h, s) \<and>
    EventLog checked_build sample_env s h (Some (sample_event 1)) (Some [1, 2, 3, 4]) = Some (EFI_SUCCESS, s1) \<and>
    EventPendingGet checked_build s1 h = Some ((EFI_SUCCESS, Some (event_meta sample_env (sample_event 1)), Some c), s1) \<and>
    take 4 c = [1, 2, 3, 4] \<and>
    EventPendingCommit checked_build 150 (write_cache s1 0 (map (\<lambda>_. 9) c)) h = Some (EFI_SUCCESS, s2)"
proof -
  obtain s h ch where s: "EventChannelCreate checked_build (Some 0) empty_log 5 (Some sample_info) = Some (EFI_SUCCESS, h, s)"
      "EventChannelFromHandle s h = Some 0" "el_Objects s 0 = Some ch" "ring_len (ec_Ring ch) = 256"
      "log_holds s [0] (\<lambda>_. []) (\<lambda>_. None)"
    using sample_channel by blast
  have ok: "ed_Flags (sample_event 1) AND EVENT_FLAG_PENDING \<noteq> 0" "le_Tpl sample_env \<le> TPL_NOTIFY" "le_Memory sample_env"
    "0 < unat (ed_DataSize (sample_event 1))"
    by (simp_all add: EVENT_FLAG_PENDING_def sample_env_def TPL_NOTIFY_def)
  have "log_spec (ring_len (ec_Ring ch)) (overwrites ch) [] (event_meta sample_env (sample_event 1), []) =
      (EFI_SUCCESS, [] @ [(event_meta sample_env (sample_event 1), [])])"
    using s(4) by (simp add: log_spec_def)
  note r = event_pending_life_cycle [OF s(5,2,3) sample_log_ok [OF s(4)] ok this, of checked_build 150]
  then obtain s1 c where c: "EventLog checked_build sample_env s h (Some (sample_event 1)) (Some [1, 2, 3, 4]) = Some (EFI_SUCCESS, s1)"
      "EventPendingGet checked_build s1 h = Some ((EFI_SUCCESS, Some (event_meta sample_env (sample_event 1)), Some c), s1)"
      "take (unat (ed_DataSize (sample_event 1))) c = take (unat (ed_DataSize (sample_event 1))) [1, 2, 3, 4]"
      "\<forall>c'. length c' = length c \<longrightarrow> (\<exists>s2. EventPendingCommit checked_build 150 (write_cache s1 0 c') h = Some (EFI_SUCCESS, s2))"
    by blast
  have "length (map (\<lambda>_. 9 :: u8) c) = length c" by simp
  with c(4) obtain s2 where "EventPendingCommit checked_build 150 (write_cache s1 0 (map (\<lambda>_. 9) c)) h = Some (EFI_SUCCESS, s2)"
    by blast
  moreover have "take 4 c = [1, 2, 3, 4]" using c(3) by simp
  ultimately show ?thesis using s(1) c(1,2) by blast
qed





text \<open>
  C22: Flushing all channels sends each channel to the host exactly once, in the order of the
  table, as its identifier followed by all its events, oldest first; a pending event is committed
  first and marked incomplete. The events stay in the channels.
\<close>

theorem event_flush_all:
  assumes "log_holds s ps E Q" "\<And>p. p \<in> set ps \<Longrightarrow> flush_env_ok s (env p) p"
  defines "F \<equiv> \<lambda>p. force_commit (fe_Now (env p)) (the (el_Objects s p)) (E p) (Q p)"
  shows "\<exists>s' rs. EventChannelFlush b env s INVALID_EVENT_HANDLE = Some (EFI_SUCCESS, s') \<and>
    log_holds s' ps (\<lambda>p. if p \<in> set ps then F p else E p) (\<lambda>p. if p \<in> set ps then None else Q p) \<and>
    el_Flushed s' = el_Flushed s @ rs \<and>
    map flush_data rs = map (\<lambda>p. (ec_Id (the (el_Objects s p)), concat (map event_bytes (F p)))) ps"
  by (rule flush_all_runs [OF assms(1,2)]) (simp_all add: F_def)

theorem event_flush_all_witness:
  "\<exists>s h s1 s2 rs. EventChannelCreate checked_build (Some 0) empty_log 5 (Some sample_info) = Some (EFI_SUCCESS, h, s) \<and>
    EventLog checked_build sample_env s h (Some (sample_event 0)) (Some [1, 2, 3, 4]) = Some (EFI_SUCCESS, s1) \<and>
    EventChannelFlush checked_build sample_flush s1 INVALID_EVENT_HANDLE = Some (EFI_SUCCESS, s2) \<and>
    el_Flushed s2 = el_Flushed s1 @ rs \<and>
    map (\<lambda>r. snd (flush_data r)) rs = [event_bytes (event_meta sample_env (sample_event 0), [1, 2, 3, 4])]"
proof -
  obtain s h ch where s: "EventChannelCreate checked_build (Some 0) empty_log 5 (Some sample_info) = Some (EFI_SUCCESS, h, s)"
      "EventChannelFromHandle s h = Some 0" "el_Objects s 0 = Some ch" "ring_len (ec_Ring ch) = 256"
      "log_holds s [0] (\<lambda>_. []) (\<lambda>_. None)"
    using sample_channel by blast
  obtain s1 ch1 where s1: "EventLog checked_build sample_env s h (Some (sample_event 0)) (Some [1, 2, 3, 4]) = Some (EFI_SUCCESS, s1)"
      "log_holds s1 [0] ((\<lambda>_. [])(0 := [(event_meta sample_env (sample_event 0), [1, 2, 3, 4])])) (\<lambda>_. None)"
      "el_Objects s1 0 = Some ch1" "ring_len (ec_Ring ch1) = 256"
    using sample_logged [OF s(2-5)] by blast
  have "flush_env_ok s1 (sample_flush p) p" if "p \<in> set [0]" for p
    using that s1(3,4) by (simp add: flush_env_ok_def sample_flush_def)
  from event_flush_all [OF s1(2) this, of checked_build]
  obtain s2 rs where "EventChannelFlush checked_build sample_flush s1 INVALID_EVENT_HANDLE = Some (EFI_SUCCESS, s2)"
      "el_Flushed s2 = el_Flushed s1 @ rs"
      "map flush_data rs = map (\<lambda>p. (ec_Id (the (el_Objects s1 p)), concat (map event_bytes
        (force_commit (fe_Now (sample_flush p)) (the (el_Objects s1 p)) (((\<lambda>_. [])(0 := [(event_meta sample_env (sample_event 0), [1, 2, 3, 4])])) p) None)))) [0]"
    by blast
  moreover from arg_cong [where f = "map snd", OF this(3)]
  have "map (\<lambda>r. snd (flush_data r)) rs = [event_bytes (event_meta sample_env (sample_event 0), [1, 2, 3, 4])]"
    by (simp add: force_commit_def comp_def)
  ultimately show ?thesis using s(1) s1(1) by (intro exI conjI)
qed

text \<open>
  C28: A channel is found again. Creating a channel in a log that has room and no channel of that
  identifier registers an empty channel under a new handle; opening the identifier afterwards
  returns that handle and changes nothing, whatever attributes are passed; the handles of the
  other channels find what they found before.
\<close>

theorem event_channel_create_open:
  assumes "log_holds s ps E Q" "Some g \<notin> channel_id s ` set ps" "attributes_ok a" "p \<notin> set ps"
    and "length ps < unat (ht_Size (mEventChannels s))"
  shows "\<exists>h s'. EventChannelCreate b (Some p) s g (Some a) = Some (EFI_SUCCESS, h, s') \<and>
    log_holds s' (ps @ [p]) (E(p := [])) (Q(p := None)) \<and> EventChannelFromHandle s' h = Some p \<and>
    EventChannelCreate b allocation s' g a' = Some (EFI_SUCCESS, h, s') \<and>
    (\<forall>i < length ps. EfiHandleTableLookupByHandle (mEventChannels s') (HANDLE_TABLE_ENCODE (of_nat i) (mEventChannels s)) =
       EfiHandleTableLookupByHandle (mEventChannels s) (HANDLE_TABLE_ENCODE (of_nat i) (mEventChannels s)))"
proof -
  obtain s' h ch where c: "EventChannelCreate b (Some p) s g (Some a) = Some (EFI_SUCCESS, h, s')"
      "h = HANDLE_TABLE_ENCODE (of_nat (length ps)) (mEventChannels s')" "mEventChannels s' = add_object (mEventChannels s) p"
      "EventChannelFromHandle s' h = Some p" "el_Objects s' p = Some ch" "ec_Id ch = g"
      "log_holds s' (ps @ [p]) (E(p := [])) (Q(p := None))"
    using create_runs [OF assms, of b] by blast
  have "EventChannelFromGuid s' g = Some (Some p, h)"
    using from_guid_found [OF c(7), of "length ps" g] c(2,5,6) by (simp add: channel_id_def)
  then have "EventChannelCreate b allocation s' g a' = Some (EFI_SUCCESS, h, s')" by (simp add: EventChannelCreate_def)
  moreover have "EfiHandleTableLookupByHandle (mEventChannels s') (HANDLE_TABLE_ENCODE (of_nat i) (mEventChannels s)) =
      EfiHandleTableLookupByHandle (mEventChannels s) (HANDLE_TABLE_ENCODE (of_nat i) (mEventChannels s))" if "i < length ps" for i
    unfolding c(3) using assms(1,5) that by (intro ht.lookup_after_add(2)) (auto simp: log_holds_def)
  ultimately show ?thesis using c(1,4,7) by blast
qed

theorem event_channel_create_open_witness:
  "\<exists>h s'. EventChannelCreate checked_build (Some 0) empty_log 5 (Some sample_info) = Some (EFI_SUCCESS, h, s') \<and>
    EventChannelFromHandle s' h = Some 0 \<and> EventChannelCreate checked_build None s' 5 None = Some (EFI_SUCCESS, h, s')"
proof -
  have "attributes_ok sample_info" by (simp add: attributes_ok_def sample_info_def EVENT_CHANNEL_FIXED_RECORDS_def)
  moreover have "length ([] :: nat list) < unat (ht_Size (mEventChannels empty_log))" using empty_log_holds(2) by simp
  ultimately show ?thesis
    using event_channel_create_open [OF empty_log_holds(1) [of "\<lambda>_. []" "\<lambda>_. None"],
      of 5 sample_info 0 checked_build None None] by auto
qed

lemma ucast_key: "(ucast a :: u64) = ucast b \<longleftrightarrow> a = b" for a b :: u32
proof
  assume "(ucast a :: u64) = ucast b"
  then have "(ucast (ucast a :: u64) :: u32) = ucast (ucast b :: u64)" by simp
  then show "a = b" by simp
qed simp

text \<open>
  C38: Overwriting makes a pending event unreachable. If the log of an overwriting channel is full
  and a plain event is logged while another is pending, the oldest events are dropped and with
  them the key of all handles. The pending event can no longer be committed, even if it is still
  in the ring: the commit reports that nothing is pending.
\<close>

theorem event_overwrite_strands_pending:
  assumes l: "log_holds s ps E Q" and h: "EventChannelFromHandle s h = Some p" "el_Objects s p = Some ch" and q: "Q p = Some i"
    and ev: "ed_Flags Ev AND EVENT_FLAG_PENDING = 0" "4 dvd unat (ed_DataSize Ev)" "unat (ed_DataSize Ev) < 2147483648"
      "data_ok Data (ed_DataSize Ev)"
    and full: "overwrites ch" "68 + unat (ed_DataSize Ev) < ring_len (ec_Ring ch)"
      "ring_len (ec_Ring ch) \<le> stored (map event_bytes (E p)) + 68 + unat (ed_DataSize Ev)"
  shows "\<exists>s' s'' ch'. EventLog b env s h (Some Ev) Data = Some (EFI_SUCCESS, s') \<and> el_Objects s' p = Some ch' \<and>
    aligned_ring (ec_Ring ch') (map event_bytes (drop_oldest_events (ring_len (ec_Ring ch)) (68 + unat (ed_DataSize Ev)) (E p) @
      [(event_meta env Ev, payload Data (ed_DataSize Ev))])) \<and>
    EventPendingCommit b now s' h = Some (EFI_NOT_FOUND, s'')"
proof -
  note p = log_holds_lookup [OF l h(1)]
  obtain c: "chan ch (E p) (Some i)" and u: "\<not> ec_Lock ch" using log_holds_channel [OF l p] h(2) q by auto
  let ?L = "ch\<lparr>ec_Lock := True\<rparr>"
  obtain ch' where ch': "log_event b env Ev Data ?L = Some (EFI_SUCCESS, ch')" "same_channel ?L ch'" "ec_Pending ch' = ec_Pending ?L"
      "aligned_ring (ec_Ring ch') (map event_bytes (drop_oldest_events (ring_len (ec_Ring ch)) (68 + unat (ed_DataSize Ev)) (E p) @
        [(event_meta env Ev, payload Data (ed_DataSize Ev))]))"
      "rb_HandleKey (ec_Ring ch') \<noteq> rb_HandleKey (ec_Ring ?L)"
    using plain_log_overwrites [of ?L "E p" i Ev Data _ env b, OF _ ev _ _ _ refl] c full by auto
  let ?s = "s\<lparr>el_Objects := (el_Objects s)(p \<mapsto> ch'\<lparr>ec_Lock := False\<rparr>)\<rparr>"
  have log: "EventLog b env s h (Some Ev) Data = Some (EFI_SUCCESS, ?s)"
    using h u ch'(1,2) by (simp add: EventLog_def with_channel_def EventChannelLock_def EventChannelUnlock_def same_channel_def)
  have "RING_HANDLE_GET_KEY (pe_Handle (ec_Pending ch)) = ucast (rb_HandleKey (ec_Ring ch))"
    using chanD(4) [OF c] by (simp add: pending_at_def record_handle_def)
  then have "RING_HANDLE_GET_KEY (pe_Handle (ec_Pending ch')) \<noteq> ucast (rb_HandleKey (ec_Ring ch'))"
    using ch'(3,5) ucast_key by simp
  then have "pending_commit b now (ch'\<lparr>ec_Lock := True\<rparr>) = Some (EFI_NOT_FOUND, EventPendingCleanup (ch'\<lparr>ec_Lock := True\<rparr>))"
    by (intro stale_commit) simp
  moreover have "EventChannelFromHandle ?s h = Some p" using h(1) by (simp add: EventChannelFromHandle_def split: if_splits)
  ultimately obtain s'' where "EventPendingCommit b now ?s h = Some (EFI_NOT_FOUND, s'')"
    by (simp add: EventPendingCommit_def with_channel_def EventChannelLock_def EventChannelUnlock_def EventPendingCleanup_def)
  with log ch'(4) show ?thesis by (intro exI [of _ ?s] exI [of _ s''] exI [of _ "ch'\<lparr>ec_Lock := False\<rparr>"]) simp
qed

theorem event_overwrite_strands_pending_witness:
  "\<exists>s h s1 s2 s3. EventChannelCreate checked_build (Some 0) empty_log 5 (Some sample_info) = Some (EFI_SUCCESS, h, s) \<and>
    EventLog checked_build sample_env s h (Some (sample_event 1)) (Some [1, 2, 3, 4]) = Some (EFI_SUCCESS, s1) \<and>
    EventLog checked_build sample_env s1 h (Some ((sample_event 0)\<lparr>ed_DataSize := 120\<rparr>)) (Some (replicate 120 0)) = Some (EFI_SUCCESS, s2) \<and>
    EventPendingCommit checked_build 150 s2 h = Some (EFI_NOT_FOUND, s3)"
proof -
  obtain s h ch where s: "EventChannelCreate checked_build (Some 0) empty_log 5 (Some sample_info) = Some (EFI_SUCCESS, h, s)"
      "EventChannelFromHandle s h = Some 0" "el_Objects s 0 = Some ch" "ring_len (ec_Ring ch) = 256" "overwrites ch"
      "log_holds s [0] (\<lambda>_. []) (\<lambda>_. None)"
    using sample_channel by blast
  have ok: "ed_Flags (sample_event 1) AND EVENT_FLAG_PENDING \<noteq> 0" "le_Tpl sample_env \<le> TPL_NOTIFY" "le_Memory sample_env"
    by (simp_all add: EVENT_FLAG_PENDING_def sample_env_def TPL_NOTIFY_def)
  obtain s1 d ch1 where s1: "EventLog checked_build sample_env s h (Some (sample_event 1)) (Some [1, 2, 3, 4]) = Some (EFI_SUCCESS, s1)"
      "el_Objects s1 0 = Some ch1" "same_channel ch ch1"
      "log_holds s1 [0] ((\<lambda>_. [])(0 := [(event_meta sample_env (sample_event 1), d)])) ((\<lambda>_. None)(0 := Some 0))"
    using event_log_pending [OF s(6,2,3) sample_log_ok [OF s(4)] ok refl, of checked_build] s(4)
    by (auto simp: log_spec_def force_commit_def)
  have h1: "EventChannelFromHandle s1 h = Some 0"
    using s1(1) s(2) by (auto simp: EventLog_def with_channel_def EventChannelFromHandle_def split: Option.bind_splits)
  have "length d = 4"
    using log_holds_channel [OF s1(4), of 0] s1(2) by (auto simp: chan_def event_ok_def)
  moreover have "ring_len (ec_Ring ch1) = 256" "overwrites ch1"
    using s1(3) s(4,5) by (simp_all add: same_channel_def overwrites_def)
  ultimately show ?thesis
    using event_overwrite_strands_pending [OF s1(4) h1 s1(2), of 0 "(sample_event 0)\<lparr>ed_DataSize := 120\<rparr>"
        "Some (replicate 120 0)" checked_build sample_env 150] s(1) s1(1)
    by (auto simp: data_ok_def)
qed

end
