(* ===== verification/Iommu_Bounce.thy ===== *)
theory Iommu_Bounce
  imports Msvm_Prelude
begin

text \<open>
  The bounce buffers of the IOMMU driver, \<^verbatim>\<open>MsvmPkg/IoMmuDxe/IoMmuBounce.c\<close>:
  blocks of pages that are prepared once for the host and handed out in contiguous runs, with a
  bitmap of the pages in use.

  Pointers are numbers, the two linked lists are lists. What the pool, the page allocator and
  the hypervisor answered are arguments; the calls of the hypervisor and of
  \<^verbatim>\<open>FreePages\<close> are recorded in the state. Memory is a function from physical
  addresses to bytes; the processor reaches it at virtual addresses, from which the bits that
  make them canonical are stripped.
\<close>

subsection \<open>State\<close>

definition EFI_PAGE_SIZE :: u64 where "EFI_PAGE_SIZE = 0x1000"
definition SIZE_4GB :: u64 where "SIZE_4GB = 0x100000000"

definition EFI_SIZE_TO_PAGES :: "u64 \<Rightarrow> u64" where
  "EFI_SIZE_TO_PAGES Size = drop_bit 12 Size + (if Size AND 0xFFF \<noteq> 0 then 1 else 0)"

definition IOMMU_BOUNCE_MODE_NONE :: u32 where "IOMMU_BOUNCE_MODE_NONE = 0"
definition IOMMU_BOUNCE_MODE_BOUNCE :: u32 where "IOMMU_BOUNCE_MODE_BOUNCE = 1"
definition IOMMU_BOUNCE_MODE_HOST_VISIBILITY :: u32 where "IOMMU_BOUNCE_MODE_HOST_VISIBILITY = 2"
definition IOMMU_BOUNCE_MODE_PINNING :: u32 where "IOMMU_BOUNCE_MODE_PINNING = 4"
definition IOMMU_BOUNCE_INITIAL_BLOCK_PAGES :: u32 where "IOMMU_BOUNCE_INITIAL_BLOCK_PAGES = 1024"
definition IOMMU_BOUNCE_GROWTH_BLOCK_PAGES :: u32 where "IOMMU_BOUNCE_GROWTH_BLOCK_PAGES = 32"
definition IOMMU_BOUNCE_BLOCK_SIGNATURE :: u32 where "IOMMU_BOUNCE_BLOCK_SIGNATURE = 0x626D6F69"

record iommu_dma_range_context =
  dc_RangeProtectionHandle :: u64
  dc_BaseAddress :: u64
  dc_PageCount :: u32
  dc_PinApplied :: bool

text \<open>\<open>bb_Pointer\<close>: the address of the structure, by which mappings refer to it.\<close>

record iommu_bounce_block =
  bb_Pointer :: nat
  bb_Signature :: u32
  bb_BlockBase :: u64
  bb_BlockPageCount :: u32
  bb_BitmapWordCount :: u32
  bb_AllocBitmap :: "u64 list"
  bb_InUsePageCount :: u32
  bb_IsPreparedForDma :: bool
  bb_DmaContext :: iommu_dma_range_context

datatype edkii_iommu_operation =
    BusMasterRead | BusMasterWrite | BusMasterCommonBuffer
  | BusMasterRead64 | BusMasterWrite64 | BusMasterCommonBuffer64

text \<open>A null \<open>BounceBlock\<close> is \<open>None\<close>.\<close>

record iommu_map_context =
  mc_Signature :: u32
  mc_Operation :: edkii_iommu_operation
  mc_HostAddress :: u64
  mc_NumberOfBytes :: u64
  mc_BounceBase :: u64
  mc_BouncePageCount :: u32
  mc_BounceBlock :: "nat option"
  mc_BounceStartPage :: u32

record iommu_alloc_context =
  ac_OriginalAddress :: u64
  ac_Pages :: u64
  ac_DmaContext :: iommu_dma_range_context

text \<open>The calls that leave the driver, with the status that they returned.\<close>

datatype platform_call =
    MakeVisible u64 u32 efi_status u64
  | MakeNotVisible u64
  | PinRange u64 u32 efi_status bool
  | UnpinRange u64 u32
  | FreePagesCall u64 u64

record iommu =
  im_BounceMode :: u32
  im_SharedGpaBoundary :: u64
  im_CanonicalizationMask :: u64
  im_Blocks :: "iommu_bounce_block list"
  im_Allocs :: "iommu_alloc_context list"
  im_Maps :: "nat \<Rightarrow> iommu_map_context option"
  im_Memory :: "u64 \<Rightarrow> u8"
  im_Calls :: "platform_call list"

definition record_call :: "platform_call \<Rightarrow> iommu \<Rightarrow> iommu" where
  "record_call c s = s\<lparr>im_Calls := im_Calls s @ [c]\<rparr>"

subsection \<open>Memory\<close>

definition phys :: "iommu \<Rightarrow> u64 \<Rightarrow> u64" where
  "phys s v = v AND NOT (im_CanonicalizationMask s)"

primrec store_bytes :: "u64 \<Rightarrow> (u64 \<Rightarrow> u8) \<Rightarrow> u64 \<Rightarrow> u8 list \<Rightarrow> u64 \<Rightarrow> u8" where
  "store_bytes canon m v [] = m"
| "store_bytes canon m v (x # xs) = store_bytes canon (m(v AND NOT canon := x)) (v + 1) xs"

definition load :: "iommu \<Rightarrow> u64 \<Rightarrow> nat \<Rightarrow> u8 list" where
  "load s v n = map (\<lambda>k. im_Memory s (phys s (v + of_nat k))) [0..<n]"

definition store :: "iommu \<Rightarrow> u64 \<Rightarrow> u8 list \<Rightarrow> iommu" where
  "store s v xs = s\<lparr>im_Memory := store_bytes (im_CanonicalizationMask s) (im_Memory s) v xs\<rparr>"

definition CopyMem :: "iommu \<Rightarrow> u64 \<Rightarrow> u64 \<Rightarrow> u64 \<Rightarrow> iommu" where
  "CopyMem s dst src n = store s dst (load s src (unat n))"

definition ZeroMem :: "iommu \<Rightarrow> u64 \<Rightarrow> u64 \<Rightarrow> iommu" where
  "ZeroMem s dst n = store s dst (replicate (unat n) 0)"

subsection \<open>Mode\<close>

definition IoMmuComputeBounceMode :: "bool \<Rightarrow> bool \<Rightarrow> bool \<Rightarrow> u32" where
  "IoMmuComputeBounceMode IsIsolated PcdDmaPinningRequired PcdForceDmaBounceEnabled =
     (let Mode = IOMMU_BOUNCE_MODE_NONE;
          Mode = (if IsIsolated then Mode OR (IOMMU_BOUNCE_MODE_BOUNCE OR IOMMU_BOUNCE_MODE_HOST_VISIBILITY) else Mode);
          Mode = (if PcdDmaPinningRequired then Mode OR (IOMMU_BOUNCE_MODE_BOUNCE OR IOMMU_BOUNCE_MODE_PINNING) else Mode)
      in if PcdForceDmaBounceEnabled then Mode OR IOMMU_BOUNCE_MODE_BOUNCE else Mode)"

definition IoMmuIsBounceActive :: "iommu \<Rightarrow> bool" where
  "IoMmuIsBounceActive s \<longleftrightarrow> im_BounceMode s AND IOMMU_BOUNCE_MODE_BOUNCE \<noteq> 0"

definition IoMmuRequiresHostVisibility :: "iommu \<Rightarrow> bool" where
  "IoMmuRequiresHostVisibility s \<longleftrightarrow> im_BounceMode s AND IOMMU_BOUNCE_MODE_HOST_VISIBILITY \<noteq> 0"

definition IoMmuRequiresPinning :: "iommu \<Rightarrow> bool" where
  "IoMmuRequiresPinning s \<longleftrightarrow> im_BounceMode s AND IOMMU_BOUNCE_MODE_PINNING \<noteq> 0"

text \<open>\<open>boundary\<close> and \<open>bitmask\<close>: the configured values; \<open>located\<close>: the result of locating the protocol.\<close>

definition IoMmuInitializeBounce :: "u64 \<Rightarrow> u64 \<Rightarrow> efi_status \<Rightarrow> iommu \<Rightarrow> efi_status \<times> iommu" where
  "IoMmuInitializeBounce boundary bitmask located s =
     (let s = s\<lparr>im_Allocs := [], im_Blocks := [], im_SharedGpaBoundary := boundary, im_CanonicalizationMask := bitmask\<rparr>
      in if \<not> IoMmuRequiresHostVisibility s \<and> \<not> IoMmuRequiresPinning s then (EFI_SUCCESS, s) else (located, s))"

definition IoMmuGetSharedPa :: "iommu \<Rightarrow> u64 \<Rightarrow> u64" where
  "IoMmuGetSharedPa s Address =
     (let Addr = Address AND NOT (im_CanonicalizationMask s)
      in if Addr < im_SharedGpaBoundary s then Addr + im_SharedGpaBoundary s else Addr)"

definition IoMmuGetSharedVa :: "iommu \<Rightarrow> u64 \<Rightarrow> u64" where
  "IoMmuGetSharedVa s Address = IoMmuGetSharedPa s Address OR im_CanonicalizationMask s"

subsection \<open>Preparing a range for the host\<close>

text \<open>What the hypervisor answers: status and handle, status and whether the range was pinned.\<close>

record hv_env =
  he_Visible :: "efi_status \<times> u64"
  he_Pin :: "efi_status \<times> bool"

definition IoMmuPrepareAddressRangeForDma ::
  "hv_env \<Rightarrow> iommu \<Rightarrow> u64 \<Rightarrow> u32 \<Rightarrow> efi_status \<times> iommu_dma_range_context \<times> iommu" where
  "IoMmuPrepareAddressRangeForDma env s BaseAddress PageCount =
     (let DmaContext = \<lparr>dc_RangeProtectionHandle = 0, dc_BaseAddress = BaseAddress, dc_PageCount = PageCount, dc_PinApplied = False\<rparr>;
          (Status, DmaContext, s) =
            (if IoMmuRequiresHostVisibility s
             then (fst (he_Visible env), DmaContext\<lparr>dc_RangeProtectionHandle := snd (he_Visible env)\<rparr>,
               record_call (MakeVisible BaseAddress (PageCount * 0x1000) (fst (he_Visible env)) (snd (he_Visible env))) s)
             else (EFI_SUCCESS, DmaContext, s))
      in if EFI_ERROR Status then (Status, DmaContext, s)
         else if IoMmuRequiresPinning s then
           let Status = fst (he_Pin env);
               DmaContext = DmaContext\<lparr>dc_PinApplied := snd (he_Pin env)\<rparr>;
               s = record_call (PinRange BaseAddress (PageCount * 0x1000) Status (snd (he_Pin env))) s
           in if EFI_ERROR Status
              then (Status, DmaContext, if IoMmuRequiresHostVisibility s
                then record_call (MakeNotVisible (dc_RangeProtectionHandle DmaContext)) s else s)
              else (EFI_SUCCESS, DmaContext, s)
         else (EFI_SUCCESS, DmaContext, s))"

definition IoMmuReleaseAddressRangeFromDma ::
  "iommu \<Rightarrow> iommu_dma_range_context \<Rightarrow> iommu_dma_range_context \<times> iommu" where
  "IoMmuReleaseAddressRangeFromDma s DmaContext =
     (let (DmaContext, s) =
        (if dc_PinApplied DmaContext
         then (DmaContext\<lparr>dc_PinApplied := False\<rparr>,
           record_call (UnpinRange (dc_BaseAddress DmaContext) (dc_PageCount DmaContext * 0x1000)) s)
         else (DmaContext, s))
      in (DmaContext, if IoMmuRequiresHostVisibility s
        then record_call (MakeNotVisible (dc_RangeProtectionHandle DmaContext)) s else s))"

subsection \<open>The bitmap of a block\<close>

definition word_at :: "u64 list \<Rightarrow> u32 \<Rightarrow> u64 option" where
  "word_at Bitmap i = (if unat i < length Bitmap then Some (Bitmap ! unat i) else None)"

definition bit_mask :: "u32 \<Rightarrow> u64" where
  "bit_mask i = push_bit (unat (i AND 63)) 1"

text \<open>The loop of \<^verbatim>\<open>FindFreeRun\<close>.\<close>

function find_run :: "u64 list \<Rightarrow> u32 \<Rightarrow> u32 \<Rightarrow> u32 \<Rightarrow> u32 \<Rightarrow> u32 option option" where
  "find_run Bitmap BitmapSize RunLength i Run =
     (if i < BitmapSize then do {
        w \<leftarrow> word_at Bitmap (drop_bit 6 i);
        if w AND bit_mask i = 0 then
          if Run + 1 = RunLength then Some (Some (i + 1 - RunLength))
          else find_run Bitmap BitmapSize RunLength (i + 1) (Run + 1)
        else find_run Bitmap BitmapSize RunLength (i + 1) 0
      }
      else Some None)"
  by pat_completeness auto
termination
proof (relation "measure (\<lambda>(_, n, _, i, _). unat n - unat i)")
  fix i n :: u32
  assume "i < n"
  then have "unat i < unat n" "unat (i + 1) = unat i + 1"
    using unat_lt32 [of n] by (simp_all add: word_less_nat_alt unat_add32)
  then have "unat n - unat (i + 1) < unat n - unat i" by simp
  then show "((B, n, r, i + 1, k + 1), B, n, r, i, k) \<in> measure (\<lambda>(_, n, _, i, _). unat n - unat i)"
    "((B, n, r, i + 1, 0), B, n, r, i, k) \<in> measure (\<lambda>(_, n, _, i, _). unat n - unat i)" for B :: "u64 list" and r k :: u32
    by simp_all
qed simp

declare find_run.simps [simp del]

definition FindFreeRun :: "u64 list \<Rightarrow> u32 \<Rightarrow> u32 \<Rightarrow> u32 option option" where
  "FindFreeRun Bitmap BitmapSize RunLength =
     (if RunLength = 0 \<or> BitmapSize < RunLength then Some None
      else find_run Bitmap BitmapSize RunLength 0 0)"

primrec update_run :: "nat \<Rightarrow> u64 list \<Rightarrow> u32 \<Rightarrow> bool \<Rightarrow> u64 list option" where
  "update_run 0 Bitmap Bit Set' = Some Bitmap"
| "update_run (Suc n) Bitmap Bit Set' = do {
     w \<leftarrow> word_at Bitmap (drop_bit 6 Bit);
     update_run n (Bitmap[unat (drop_bit 6 Bit) := (if Set' then w OR bit_mask Bit else w AND NOT (bit_mask Bit))]) (Bit + 1) Set'
   }"

definition UpdateBitmapRun :: "u64 list \<Rightarrow> u32 \<Rightarrow> u32 \<Rightarrow> bool \<Rightarrow> u64 list option" where
  "UpdateBitmapRun Bitmap Start Count Set' = update_run (unat Count) Bitmap Start Set'"

subsection \<open>The pool of blocks\<close>

text \<open>The structure, its bitmap, the pages below 4 GB, and the answers of the hypervisor.\<close>

record block_env =
  be_Block :: "nat option"
  be_Bitmap :: bool
  be_Pages :: "efi_status \<times> u64"
  be_Hv :: hv_env

definition IoMmuPreAllocateBounceBlock ::
  "build \<Rightarrow> block_env \<Rightarrow> iommu \<Rightarrow> u32 \<Rightarrow> (efi_status \<times> iommu_bounce_block option \<times> iommu) option" where
  "IoMmuPreAllocateBounceBlock b env s PageCount = do {
     ASSERT b (0 < PageCount);
     case be_Block env of
       None \<Rightarrow> Some (EFI_OUT_OF_RESOURCES, None, s)
     | Some pointer \<Rightarrow>
         let BitmapWordCount = (PageCount + 63) div 64 in
         if \<not> be_Bitmap env then Some (EFI_OUT_OF_RESOURCES, None, s)
         else if EFI_ERROR (fst (be_Pages env)) then Some (fst (be_Pages env), None, s)
         else
           let PhysicalAddress = snd (be_Pages env);
               (Status, DmaContext, s) = IoMmuPrepareAddressRangeForDma (be_Hv env) s PhysicalAddress PageCount
           in if EFI_ERROR Status then Some (Status, None, record_call (FreePagesCall PhysicalAddress (ucast PageCount)) s)
              else
                let Block = \<lparr>bb_Pointer = pointer, bb_Signature = IOMMU_BOUNCE_BLOCK_SIGNATURE,
                  bb_BlockBase = PhysicalAddress, bb_BlockPageCount = PageCount, bb_BitmapWordCount = BitmapWordCount,
                  bb_AllocBitmap = replicate (unat BitmapWordCount) 0, bb_InUsePageCount = 0,
                  bb_IsPreparedForDma = True, bb_DmaContext = DmaContext\<rparr>
                in Some (EFI_SUCCESS, Some Block, s\<lparr>im_Blocks := im_Blocks s @ [Block]\<rparr>)
   }"

text \<open>The loop over the blocks: the blocks with the run marked, the block, and the first page.\<close>

primrec acquire_from ::
  "iommu_bounce_block list \<Rightarrow> u32 \<Rightarrow> (iommu_bounce_block list \<times> iommu_bounce_block \<times> u32) option option" where
  "acquire_from [] PageCount = Some None"
| "acquire_from (Candidate # Blocks) PageCount = do {
     found \<leftarrow> (if bb_BlockPageCount Candidate < PageCount then Some None
       else FindFreeRun (bb_AllocBitmap Candidate) (bb_BlockPageCount Candidate) PageCount);
     case found of
       None \<Rightarrow> map_option (map_option (\<lambda>(Blocks, r). (Candidate # Blocks, r))) (acquire_from Blocks PageCount)
     | Some StartBit \<Rightarrow> do {
         Bitmap \<leftarrow> UpdateBitmapRun (bb_AllocBitmap Candidate) StartBit PageCount True;
         let Candidate = Candidate\<lparr>bb_AllocBitmap := Bitmap, bb_InUsePageCount := bb_InUsePageCount Candidate + PageCount\<rparr>;
         Some (Some (Candidate # Blocks, Candidate, StartBit))
       }
   }"

text \<open>On success: the pointer of the block, the first page and its address.\<close>

definition IoMmuAcquireBouncePages ::
  "build \<Rightarrow> block_env \<Rightarrow> iommu \<Rightarrow> u32 \<Rightarrow> (efi_status \<times> (nat \<times> u32 \<times> u64) option \<times> iommu) option" where
  "IoMmuAcquireBouncePages b env s PageCount =
     (if PageCount = 0 then Some (EFI_INVALID_PARAMETER, None, s)
      else do {
        found \<leftarrow> acquire_from (im_Blocks s) PageCount;
        case found of
          Some (Blocks, Candidate, StartBit) \<Rightarrow>
            Some (EFI_SUCCESS, Some (bb_Pointer Candidate, StartBit, bb_BlockBase Candidate + ucast StartBit * EFI_PAGE_SIZE),
              s\<lparr>im_Blocks := Blocks\<rparr>)
        | None \<Rightarrow> do {
            let NewBlockPages = (if PageCount < IOMMU_BOUNCE_GROWTH_BLOCK_PAGES then IOMMU_BOUNCE_GROWTH_BLOCK_PAGES else PageCount);
            (Status, Candidate, s) \<leftarrow> IoMmuPreAllocateBounceBlock b env s NewBlockPages;
            if EFI_ERROR Status then Some (Status, None, s)
            else do {
              Candidate \<leftarrow> Candidate;
              Bitmap \<leftarrow> UpdateBitmapRun (bb_AllocBitmap Candidate) 0 PageCount True;
              Some (EFI_SUCCESS, Some (bb_Pointer Candidate, 0, bb_BlockBase Candidate),
                s\<lparr>im_Blocks := butlast (im_Blocks s) @ [Candidate\<lparr>bb_AllocBitmap := Bitmap, bb_InUsePageCount := PageCount\<rparr>]\<rparr>)
            }
          }
      })"

text \<open>The block behind a pointer, updated by a function.\<close>

primrec update_block ::
  "nat \<Rightarrow> (iommu_bounce_block \<Rightarrow> iommu_bounce_block option) \<Rightarrow> iommu_bounce_block list \<Rightarrow> iommu_bounce_block list option" where
  "update_block p f [] = None"
| "update_block p f (Block # Blocks) =
     (if bb_Pointer Block = p then map_option (\<lambda>Block. Block # Blocks) (f Block)
      else map_option (Cons Block) (update_block p f Blocks))"

definition release_pages :: "build \<Rightarrow> u32 \<Rightarrow> u32 \<Rightarrow> iommu_bounce_block \<Rightarrow> iommu_bounce_block option" where
  "release_pages b StartPageIndex PageCount Block = do {
     ASSERT b (bb_Signature Block = IOMMU_BOUNCE_BLOCK_SIGNATURE);
     ASSERT b (0 < PageCount);
     ASSERT b (StartPageIndex + PageCount \<le> bb_BlockPageCount Block);
     Bitmap \<leftarrow> UpdateBitmapRun (bb_AllocBitmap Block) StartPageIndex PageCount False;
     Some (Block\<lparr>bb_AllocBitmap := Bitmap, bb_InUsePageCount := bb_InUsePageCount Block - PageCount\<rparr>)
   }"

definition IoMmuReleaseBouncePages :: "build \<Rightarrow> iommu \<Rightarrow> nat \<Rightarrow> u32 \<Rightarrow> u32 \<Rightarrow> iommu option" where
  "IoMmuReleaseBouncePages b s Block StartPageIndex PageCount = do {
     Blocks \<leftarrow> update_block Block (release_pages b StartPageIndex PageCount) (im_Blocks s);
     Some (s\<lparr>im_Blocks := Blocks\<rparr>)
   }"

end
