(* ===== verification/Iommu_Bitmap.thy ===== *)
theory Iommu_Bitmap
  imports Iommu_Bounce
begin

text \<open>
  The bitmap of a bounce block: searching a run of free pages and marking a run, against the
  set of pages in use.
\<close>

definition in_use :: "u64 list \<Rightarrow> nat \<Rightarrow> bool" where
  "in_use B k \<longleftrightarrow> bit (B ! (k div 64)) (k mod 64)"

lemma page_index: "unat (drop_bit 6 i) = unat i div 64" "unat (i AND 63) = unat i mod 64" for i :: u32
proof -
  have "unat (drop_bit 6 i) = drop_bit 6 (unat i)" by (rule unat_drop_bit_eq)
  also have "\<dots> = unat i div 64" by (simp add: drop_bit_eq_div)
  finally show "unat (drop_bit 6 i) = unat i div 64" .
  have "i AND 63 = take_bit 6 i" by (simp add: take_bit_eq_mask mask_eq_exp_minus_1)
  then have "unat (i AND 63) = take_bit 6 (unat i)" by (simp only: unsigned_take_bit_eq)
  also have "\<dots> = unat i mod 64" by (simp add: take_bit_eq_mod)
  finally show "unat (i AND 63) = unat i mod 64" .
qed

lemma bit_bit_mask: "bit (bit_mask i) n \<longleftrightarrow> n = unat i mod 64"
proof -
  have "unat i mod 64 < 64" by simp
  then show ?thesis by (auto simp: bit_mask_def page_index bit_simps)
qed

lemma and_bit_mask: "w AND bit_mask i = 0 \<longleftrightarrow> \<not> bit w (unat i mod 64)"
proof
  assume "w AND bit_mask i = 0"
  then have "\<not> bit (w AND bit_mask i) (unat i mod 64)" by simp
  then show "\<not> bit w (unat i mod 64)" by (simp add: bit_and_iff bit_bit_mask)
next
  assume "\<not> bit w (unat i mod 64)"
  then show "w AND bit_mask i = 0" by (auto intro!: bit_eqI simp: bit_and_iff bit_bit_mask)
qed

lemma word_at_page:
  assumes "unat i < 64 * length B"
  shows "word_at B (drop_bit 6 i) = Some (B ! (unat i div 64))"
    and "B ! (unat i div 64) AND bit_mask i = 0 \<longleftrightarrow> \<not> in_use B (unat i)"
  using assms by (auto simp: word_at_def page_index and_bit_mask in_use_def)

subsection \<open>Searching\<close>

definition free_run :: "u64 list \<Rightarrow> nat \<Rightarrow> nat \<Rightarrow> bool" where
  "free_run B s r \<longleftrightarrow> (\<forall>k. s \<le> k \<and> k < s + r \<longrightarrow> \<not> in_use B k)"

lemma find_run_spec:
  assumes "unat i \<le> unat n" "unat n \<le> 64 * length B" "unat Run \<le> unat i" "unat Run < unat r"
    and "\<forall>k. unat i - unat Run \<le> k \<and> k < unat i \<longrightarrow> \<not> in_use B k"
    and "unat Run < unat i \<longrightarrow> in_use B (unat i - unat Run - 1)"
    and "\<forall>s. s + unat r \<le> unat i \<longrightarrow> \<not> free_run B s (unat r)"
  shows "\<exists>res. find_run B n r i Run = Some res \<and>
    (case res of None \<Rightarrow> \<forall>s. s + unat r \<le> unat n \<longrightarrow> \<not> free_run B s (unat r)
     | Some st \<Rightarrow> unat st + unat r \<le> unat n \<and> free_run B (unat st) (unat r) \<and>
         (\<forall>s < unat st. \<not> free_run B s (unat r)))"
  using assms
proof (induction B n r i Run rule: find_run.induct)
  case (1 B n r i Run)
  show ?case
  proof (cases "i < n")
    case False
    then have "unat i = unat n" using 1(3) by (simp add: word_less_nat_alt)
    then show ?thesis using False 1(9) by (simp add: find_run.simps [of B n r i Run])
  next
    case True
    then have lt: "unat i < unat n" by (simp add: word_less_nat_alt)
    then have i1: "unat (i + 1) = unat i + 1" using unat_lt32 [of n] by (subst unat_add32) simp_all
    have w: "word_at B (drop_bit 6 i) = Some (B ! (unat i div 64))"
        "B ! (unat i div 64) AND bit_mask i = 0 \<longleftrightarrow> \<not> in_use B (unat i)"
      using lt 1(4) by (simp_all add: word_at_page)
    show ?thesis
    proof (cases "in_use B (unat i)")
      case used: True
      have "\<not> free_run B s (unat r)" if "s + unat r \<le> unat i + 1" for s
      proof (cases "s + unat r \<le> unat i")
        case False
        with that have "s \<le> unat i \<and> unat i < s + unat r" using 1(6) by linarith
        with used show ?thesis by (auto simp: free_run_def)
      qed (use 1(9) in simp)
      moreover have "find_run B n r i Run = find_run B n r (i + 1) 0"
        using True w used by (simp add: find_run.simps [of B n r i Run])
      moreover have "\<forall>k. Suc (unat i) \<le> k \<and> k < Suc (unat i) \<longrightarrow> \<not> in_use B k" by auto
      ultimately show ?thesis
        using 1(2) [OF True w(1)] w(2) used lt i1 1(4,6) by simp
    next
      case free: False
      have run: "\<forall>k. unat i - unat Run \<le> k \<and> k < unat i + 1 \<longrightarrow> \<not> in_use B k"
        using 1(7) free by (auto simp: less_Suc_eq)
      have R1: "unat (Run + 1) = unat Run + 1" using 1(6) unat_lt32 [of r] by (subst unat_add32) simp_all
      show ?thesis
      proof (cases "Run + 1 = r")
        case full: True
        then have r: "unat r = unat Run + 1" using R1 by simp
        have st: "unat (i + 1 - r) = unat i - unat Run"
          using i1 r 1(5) by (subst unat_diff_le) (simp_all add: word_le_nat_alt)
        have "find_run B n r i Run = Some (Some (i + 1 - r))"
          using True w free full by (simp add: find_run.simps [of B n r i Run])
        moreover have "free_run B (unat i - unat Run) (unat r)"
          using run r 1(5) by (simp add: free_run_def)
        ultimately show ?thesis using st r lt 1(5,9) by simp
      next
        case more: False
        then have lt_r: "unat Run + 1 < unat r" using R1 1(6) by (metis Suc_eq_plus1 Suc_lessI word_unat_eq_iff)
        have "\<not> free_run B s (unat r)" if "s + unat r \<le> unat i + 1" for s
        proof (cases "s + unat r \<le> unat i")
          case False
          with that have s: "s + unat r = unat i + 1" by simp
          then have "unat Run < unat i" using lt_r by linarith
          then have "in_use B (unat i - unat Run - 1)" using 1(8) by simp
          moreover have "s \<le> unat i - unat Run - 1" "unat i - unat Run - 1 < s + unat r" using s lt_r by linarith+
          ultimately show ?thesis by (auto simp: free_run_def)
        qed (use 1(9) in simp)
        moreover have "find_run B n r i Run = find_run B n r (i + 1) (Run + 1)"
          using True w free more by (simp add: find_run.simps [of B n r i Run])
        ultimately show ?thesis
          using 1(1) [OF True w(1) _ more] w(2) free lt i1 R1 lt_r run 1(4,5,8) by simp
      qed
    qed
  qed
qed

lemma find_free_run:
  assumes "unat n \<le> 64 * length B" "0 < r" "r \<le> n"
  shows "\<exists>res. FindFreeRun B n r = Some res \<and>
    (case res of None \<Rightarrow> \<forall>s. s + unat r \<le> unat n \<longrightarrow> \<not> free_run B s (unat r)
     | Some st \<Rightarrow> unat st + unat r \<le> unat n \<and> free_run B (unat st) (unat r) \<and>
         (\<forall>s < unat st. \<not> free_run B s (unat r)))"
proof -
  have r: "0 < unat r" using assms(2) by (simp add: word_less_nat_alt)
  have "FindFreeRun B n r = find_run B n r 0 0" using assms(2,3) by (simp add: FindFreeRun_def word_gt_0 leD)
  then show ?thesis
    using find_run_spec [of 0 n B 0 r] assms(1) r by simp
qed

subsection \<open>Marking\<close>

lemma update_run_spec:
  assumes "unat i + n \<le> 64 * length B" "unat i + n < 4294967296"
  shows "\<exists>B'. update_run n B i S = Some B' \<and> length B' = length B \<and>
    (\<forall>k < 64 * length B. in_use B' k = (if unat i \<le> k \<and> k < unat i + n then S else in_use B k))"
  using assms
proof (induction n arbitrary: B i)
  case (Suc n)
  let ?w = "B ! (unat i div 64)"
  let ?B = "B[unat i div 64 := if S then ?w OR bit_mask i else ?w AND NOT (bit_mask i)]"
  have i1: "unat (i + 1) = unat i + 1" using Suc.prems(2) by (subst unat_add32) simp_all
  have w: "word_at B (drop_bit 6 i) = Some ?w" using Suc.prems(1) by (intro word_at_page) simp
  have B: "in_use ?B k = (if k = unat i then S else in_use B k)" if k: "k < 64 * length B" for k
  proof (cases "k div 64 = unat i div 64")
    case True
    have eq: "k mod 64 = unat i mod 64 \<longleftrightarrow> k = unat i"
      using True by (metis div_mult_mod_eq)
    have "k div 64 < length B" using k by (simp add: less_mult_imp_div_less mult.commute)
    moreover have "k mod 64 < 64" by simp
    ultimately show ?thesis
      using True eq by (auto simp: in_use_def bit_simps bit_bit_mask)
  next
    case False
    then show ?thesis by (auto simp: in_use_def)
  qed
  obtain B' where B': "update_run n ?B (i + 1) S = Some B'" "length B' = length B"
      "\<forall>k < 64 * length B. in_use B' k = (if unat i + 1 \<le> k \<and> k < unat i + 1 + n then S else in_use ?B k)"
    using Suc.IH [of "i + 1" ?B] Suc.prems i1 by auto
  have "in_use B' k = (if unat i \<le> k \<and> k < unat i + Suc n then S else in_use B k)" if "k < 64 * length B" for k
    using B'(3) B [OF that] that by auto
  then show ?case using B'(1,2) w by (simp add: page_index)
qed auto

lemma update_bitmap:
  assumes "unat i + unat n \<le> 64 * length B" "unat i + unat n < 4294967296"
  shows "\<exists>B'. UpdateBitmapRun B i n S = Some B' \<and> length B' = length B \<and>
    (\<forall>k < 64 * length B. in_use B' k = (if unat i \<le> k \<and> k < unat i + unat n then S else in_use B k))"
  using update_run_spec [OF assms] by (simp add: UpdateBitmapRun_def)

lemma in_use_fresh: "k < 64 * n \<Longrightarrow> \<not> in_use (replicate n 0) k"
  by (simp add: in_use_def less_mult_imp_div_less mult.commute)

end
