(* ===== verification/Iommu_Pool.thy ===== *)
theory Iommu_Pool
  imports Iommu_Bitmap
begin

text \<open>
  The pool of bounce blocks: every page is owned by at most one request, and the bitmaps and
  counters of the blocks say which pages are owned.
\<close>

subsection \<open>Blocks\<close>

definition pages_in_use :: "iommu_bounce_block \<Rightarrow> nat set" where
  "pages_in_use blk = {k. k < unat (bb_BlockPageCount blk) \<and> in_use (bb_AllocBitmap blk) k}"

definition block_ok :: "iommu_bounce_block \<Rightarrow> bool" where
  "block_ok blk \<longleftrightarrow> bb_Signature blk = IOMMU_BOUNCE_BLOCK_SIGNATURE \<and> 0 < unat (bb_BlockPageCount blk) \<and>
     unat (bb_BlockBase blk) + unat (bb_BlockPageCount blk) * 4096 \<le> 4294967296 \<and>
     length (bb_AllocBitmap blk) = (unat (bb_BlockPageCount blk) + 63) div 64 \<and>
     unat (bb_InUsePageCount blk) = card (pages_in_use blk)"

lemma block_okD:
  assumes "block_ok blk"
  shows "unat (bb_BlockPageCount blk) \<le> 64 * length (bb_AllocBitmap blk)" "unat (bb_BlockPageCount blk) \<le> 1048576"
    "finite (pages_in_use blk)"
proof -
  show "unat (bb_BlockPageCount blk) \<le> 64 * length (bb_AllocBitmap blk)" "unat (bb_BlockPageCount blk) \<le> 1048576"
    using assms unfolding block_ok_def by (simp, linarith)
  have "pages_in_use blk \<subseteq> {..<unat (bb_BlockPageCount blk)}" by (auto simp: pages_in_use_def)
  then show "finite (pages_in_use blk)" by (rule finite_subset) simp
qed

text \<open>Marking and clearing a run of pages.\<close>

definition mark :: "iommu_bounce_block \<Rightarrow> u64 list \<Rightarrow> u32 \<Rightarrow> iommu_bounce_block" where
  "mark blk Bitmap n = blk\<lparr>bb_AllocBitmap := Bitmap, bb_InUsePageCount := n\<rparr>"

lemma mark_run:
  assumes ok: "block_ok blk" and r: "unat st + unat n \<le> unat (bb_BlockPageCount blk)"
    and fresh: "{unat st..<unat st + unat n} \<inter> pages_in_use blk = {}"
  shows "\<exists>Bitmap. UpdateBitmapRun (bb_AllocBitmap blk) st n True = Some Bitmap \<and>
    block_ok (mark blk Bitmap (bb_InUsePageCount blk + n)) \<and>
    pages_in_use (mark blk Bitmap (bb_InUsePageCount blk + n)) = pages_in_use blk \<union> {unat st..<unat st + unat n}"
proof -
  note D = block_okD [OF ok]
  obtain Bitmap where B: "UpdateBitmapRun (bb_AllocBitmap blk) st n True = Some Bitmap" "length Bitmap = length (bb_AllocBitmap blk)"
      "\<forall>k < 64 * length (bb_AllocBitmap blk). in_use Bitmap k = (if unat st \<le> k \<and> k < unat st + unat n then True else in_use (bb_AllocBitmap blk) k)"
    using update_bitmap [of st n "bb_AllocBitmap blk" True] r D(1,2) by auto
  let ?blk = "mark blk Bitmap (bb_InUsePageCount blk + n)"
  have use: "pages_in_use ?blk = pages_in_use blk \<union> {unat st..<unat st + unat n}"
  proof (intro equalityI subsetI)
    fix k
    have k: "in_use Bitmap k = (unat st \<le> k \<and> k < unat st + unat n \<or> in_use (bb_AllocBitmap blk) k)" if "k < unat (bb_BlockPageCount blk)"
      using B(3) [rule_format, of k] D(1) that by auto
    show "k \<in> pages_in_use ?blk \<Longrightarrow> k \<in> pages_in_use blk \<union> {unat st..<unat st + unat n}"
      "k \<in> pages_in_use blk \<union> {unat st..<unat st + unat n} \<Longrightarrow> k \<in> pages_in_use ?blk"
      using k r by (auto simp: pages_in_use_def mark_def)
  qed
  have "pages_in_use ?blk \<subseteq> {..<unat (bb_BlockPageCount blk)}" by (auto simp: pages_in_use_def mark_def)
  from card_mono [OF finite_lessThan this] have "card (pages_in_use ?blk) \<le> unat (bb_BlockPageCount blk)" by simp
  moreover have c: "card (pages_in_use ?blk) = card (pages_in_use blk) + unat n"
    unfolding use using D(3) fresh by (subst card_Un_disjoint) auto
  ultimately have "unat (bb_InUsePageCount blk + n) = card (pages_in_use ?blk)"
    using ok D(2) by (subst unat_add32) (simp_all add: block_ok_def)
  then have "block_ok ?blk" using ok B(2) by (simp add: block_ok_def mark_def)
  with B(1) use show ?thesis by blast
qed

lemma clear_run:
  assumes ok: "block_ok blk" and r: "unat st + unat n \<le> unat (bb_BlockPageCount blk)"
    and used: "{unat st..<unat st + unat n} \<subseteq> pages_in_use blk"
  shows "\<exists>Bitmap. UpdateBitmapRun (bb_AllocBitmap blk) st n False = Some Bitmap \<and>
    block_ok (mark blk Bitmap (bb_InUsePageCount blk - n)) \<and>
    pages_in_use (mark blk Bitmap (bb_InUsePageCount blk - n)) = pages_in_use blk - {unat st..<unat st + unat n}"
proof -
  note D = block_okD [OF ok]
  obtain Bitmap where B: "UpdateBitmapRun (bb_AllocBitmap blk) st n False = Some Bitmap" "length Bitmap = length (bb_AllocBitmap blk)"
      "\<forall>k < 64 * length (bb_AllocBitmap blk). in_use Bitmap k = (if unat st \<le> k \<and> k < unat st + unat n then False else in_use (bb_AllocBitmap blk) k)"
    using update_bitmap [of st n "bb_AllocBitmap blk" False] r D(1,2) by auto
  let ?blk = "mark blk Bitmap (bb_InUsePageCount blk - n)"
  have use: "pages_in_use ?blk = pages_in_use blk - {unat st..<unat st + unat n}"
  proof (intro equalityI subsetI)
    fix k
    have k: "in_use Bitmap k = (\<not> (unat st \<le> k \<and> k < unat st + unat n) \<and> in_use (bb_AllocBitmap blk) k)" if "k < unat (bb_BlockPageCount blk)"
      using B(3) [rule_format, of k] D(1) that by auto
    show "k \<in> pages_in_use ?blk \<Longrightarrow> k \<in> pages_in_use blk - {unat st..<unat st + unat n}"
      "k \<in> pages_in_use blk - {unat st..<unat st + unat n} \<Longrightarrow> k \<in> pages_in_use ?blk"
      using k r by (auto simp: pages_in_use_def mark_def)
  qed
  have c: "card (pages_in_use ?blk) = card (pages_in_use blk) - unat n"
    unfolding use using D(3) used by (subst card_Diff_subset) auto
  have "unat n \<le> card (pages_in_use blk)" using card_mono [OF D(3) used] by simp
  then have "unat (bb_InUsePageCount blk - n) = card (pages_in_use ?blk)"
    using ok c by (subst unat_diff_le) (simp_all add: block_ok_def word_le_nat_alt)
  then have "block_ok ?blk" using ok B(2) by (simp add: block_ok_def mark_def)
  with B(1) use show ?thesis by blast
qed

subsection \<open>Owners\<close>

text \<open>
  A request owns a run: a block, a first page and a number of pages. \<open>pool_holds\<close>: the pages
  in use are the owned ones, different owners own different pages, blocks lie apart in memory.
\<close>

type_synonym run = "nat \<times> nat \<times> nat"

definition covers :: "(nat \<Rightarrow> run option) \<Rightarrow> nat \<Rightarrow> nat \<Rightarrow> nat \<Rightarrow> bool" where
  "covers O' p q k \<longleftrightarrow> (\<exists>st n. O' p = Some (q, st, n) \<and> st \<le> k \<and> k < st + n)"

definition apart :: "iommu_bounce_block \<Rightarrow> iommu_bounce_block \<Rightarrow> bool" where
  "apart blk blk' \<longleftrightarrow> unat (bb_BlockBase blk) + unat (bb_BlockPageCount blk) * 4096 \<le> unat (bb_BlockBase blk') \<or>
     unat (bb_BlockBase blk') + unat (bb_BlockPageCount blk') * 4096 \<le> unat (bb_BlockBase blk)"

definition pool_holds :: "iommu_bounce_block list \<Rightarrow> (nat \<Rightarrow> run option) \<Rightarrow> bool" where
  "pool_holds Blocks O' \<longleftrightarrow> finite (dom O') \<and> distinct (map bb_Pointer Blocks) \<and>
     (\<forall>blk \<in> set Blocks. block_ok blk \<and> pages_in_use blk = {k. \<exists>p. covers O' p (bb_Pointer blk) k}) \<and>
     (\<forall>p q st n. O' p = Some (q, st, n) \<longrightarrow> 0 < n \<and> (\<exists>blk \<in> set Blocks. bb_Pointer blk = q \<and> st + n \<le> unat (bb_BlockPageCount blk))) \<and>
     (\<forall>p p' q k. covers O' p q k \<and> covers O' p' q k \<longrightarrow> p = p') \<and>
     (\<forall>blk \<in> set Blocks. \<forall>blk' \<in> set Blocks. bb_Pointer blk \<noteq> bb_Pointer blk' \<longrightarrow> apart blk blk')"

lemma pool_holdsD:
  assumes "pool_holds Blocks O'"
  shows "distinct (map bb_Pointer Blocks)" "blk \<in> set Blocks \<Longrightarrow> block_ok blk"
    "blk \<in> set Blocks \<Longrightarrow> pages_in_use blk = {k. \<exists>p. covers O' p (bb_Pointer blk) k}"
  using assms by (simp_all add: pool_holds_def)

lemma pool_holds_run:
  "pool_holds Blocks O' \<Longrightarrow> O' p = Some (q, st, n) \<Longrightarrow>
   0 < n \<and> (\<exists>blk \<in> set Blocks. bb_Pointer blk = q \<and> st + n \<le> unat (bb_BlockPageCount blk))"
  unfolding pool_holds_def by blast

lemma pool_holds_unique: "pool_holds Blocks O' \<Longrightarrow> covers O' p q k \<Longrightarrow> covers O' p' q k \<Longrightarrow> p = p'"
  unfolding pool_holds_def by blast

text \<open>Replacing a block by one with the same pointer, place and size.\<close>

definition same_place :: "iommu_bounce_block \<Rightarrow> iommu_bounce_block \<Rightarrow> bool" where
  "same_place blk blk' \<longleftrightarrow> bb_Pointer blk' = bb_Pointer blk \<and> bb_BlockBase blk' = bb_BlockBase blk \<and>
     bb_BlockPageCount blk' = bb_BlockPageCount blk"

lemma same_place_mark [simp]: "same_place blk (mark blk B n)"
  by (simp add: same_place_def mark_def)

lemma pool_replace:
  assumes h: "pool_holds (xs @ blk # ys) O'" and b: "same_place blk blk'" "block_ok blk'"
    and fin: "finite (dom N)"
    and own: "pages_in_use blk' = {k. \<exists>p. covers N p (bb_Pointer blk) k}"
    and other: "\<And>p q k. q \<noteq> bb_Pointer blk \<Longrightarrow> covers N p q k = covers O' p q k"
    and runs: "\<And>p q st n. N p = Some (q, st, n) \<Longrightarrow> 0 < n \<and> (\<exists>b \<in> set (xs @ blk # ys). bb_Pointer b = q \<and> st + n \<le> unat (bb_BlockPageCount b))"
    and unique: "\<And>p p' q k. covers N p q k \<Longrightarrow> covers N p' q k \<Longrightarrow> p = p'"
  shows "pool_holds (xs @ blk' # ys) N"
proof -
  have d: "distinct (map bb_Pointer (xs @ blk # ys))" using h by (simp add: pool_holds_def)
  have p: "bb_Pointer blk' = bb_Pointer blk" "bb_BlockBase blk' = bb_BlockBase blk" "bb_BlockPageCount blk' = bb_BlockPageCount blk"
    using b(1) by (simp_all add: same_place_def)
  have ne: "bb_Pointer c \<noteq> bb_Pointer blk" if "c \<in> set xs \<union> set ys" for c
  proof -
    have "bb_Pointer c \<in> bb_Pointer ` (set xs \<union> set ys)" using that by (rule imageI)
    moreover have "bb_Pointer blk \<notin> bb_Pointer ` (set xs \<union> set ys)" using d by auto
    ultimately show ?thesis by metis
  qed
  show ?thesis
    unfolding pool_holds_def
  proof (intro conjI allI impI ballI)
    show "finite (dom N)" by (rule fin)
    show "distinct (map bb_Pointer (xs @ blk' # ys))" using d p(1) by simp
    fix c
    assume c: "c \<in> set (xs @ blk' # ys)"
    have "block_ok c \<and> pages_in_use c = {k. \<exists>p. covers N p (bb_Pointer c) k}"
    proof (cases "c = blk'")
      case True
      then show ?thesis using b(2) own p(1) by simp
    next
      case False
      then have "c \<in> set (xs @ blk # ys)" "c \<in> set xs \<union> set ys" using c by auto
      then show ?thesis using pool_holdsD(2,3) [OF h, of c] other [OF ne] by simp
    qed
    then show "block_ok c" "pages_in_use c = {k. \<exists>p. covers N p (bb_Pointer c) k}" by simp_all
    fix c'
    assume c': "c' \<in> set (xs @ blk' # ys)" "bb_Pointer c \<noteq> bb_Pointer c'"
    define old where "old = (\<lambda>x. if x = blk' then blk else x)"
    have "old c \<in> set (xs @ blk # ys)" "old c' \<in> set (xs @ blk # ys)" using c c'(1) by (auto simp: old_def)
    moreover have "bb_Pointer (old c) \<noteq> bb_Pointer (old c')" using c'(2) p(1) by (auto simp: old_def)
    ultimately have "apart (old c) (old c')" using h unfolding pool_holds_def by blast
    then show "apart c c'" using p by (auto simp: apart_def old_def split: if_splits)
  next
    fix p' q st n
    assume "N p' = Some (q, st, n)"
    from runs [OF this] show "0 < n" by simp
    from runs [OF \<open>N p' = Some (q, st, n)\<close>] obtain c where "c \<in> set (xs @ blk # ys)" "bb_Pointer c = q" "st + n \<le> unat (bb_BlockPageCount c)"
      by blast
    then show "\<exists>c \<in> set (xs @ blk' # ys). bb_Pointer c = q \<and> st + n \<le> unat (bb_BlockPageCount c)"
      using p by (cases "c = blk") auto
  next
    fix p' p'' q k
    assume "covers N p' q k \<and> covers N p'' q k"
    then show "p' = p''" using unique by blast
  qed
qed

lemma covers_upd:
  "covers (O'(p \<mapsto> (q, st, n))) p' q' k \<longleftrightarrow> (if p' = p then q' = q \<and> st \<le> k \<and> k < st + n else covers O' p' q' k)"
  "covers (O'(p := None)) p' q' k \<longleftrightarrow> p' \<noteq> p \<and> covers O' p' q' k"
  by (auto simp: covers_def)

lemma own_run:
  assumes h: "pool_holds (xs @ blk # ys) O'" and p: "O' p = None" and n: "0 < n" "st + n \<le> unat (bb_BlockPageCount blk)"
    and fresh: "{st..<st + n} \<inter> pages_in_use blk = {}"
    and b: "same_place blk blk'" "block_ok blk'" "pages_in_use blk' = pages_in_use blk \<union> {st..<st + n}"
  shows "pool_holds (xs @ blk' # ys) (O'(p \<mapsto> (bb_Pointer blk, st, n)))"
proof (rule pool_replace [OF h b(1,2)])
  have use: "pages_in_use blk = {k. \<exists>p. covers O' p (bb_Pointer blk) k}" using pool_holdsD(3) [OF h, of blk] by simp
  have none: "\<not> covers O' p q k" for q k using p by (simp add: covers_def)
  show "finite (dom (O'(p \<mapsto> (bb_Pointer blk, st, n))))" using h by (simp add: pool_holds_def)
  show "pages_in_use blk' = {k. \<exists>p'. covers (O'(p \<mapsto> (bb_Pointer blk, st, n))) p' (bb_Pointer blk) k}"
    unfolding b(3) use using none by (auto simp: covers_upd) (metis none)
  show "covers (O'(p \<mapsto> (bb_Pointer blk, st, n))) p' q k = covers O' p' q k" if "q \<noteq> bb_Pointer blk" for p' q k
    using that none by (auto simp: covers_upd)
  show "0 < n' \<and> (\<exists>b \<in> set (xs @ blk # ys). bb_Pointer b = q \<and> st' + n' \<le> unat (bb_BlockPageCount b))"
    if "(O'(p \<mapsto> (bb_Pointer blk, st, n))) p' = Some (q, st', n')" for p' q st' n'
    using that h n by (auto simp: pool_holds_def split: if_splits)
  show "p' = p''" if "covers (O'(p \<mapsto> (bb_Pointer blk, st, n))) p' q k" "covers (O'(p \<mapsto> (bb_Pointer blk, st, n))) p'' q k" for p' p'' q k
    using that fresh pool_holds_unique [OF h, of p' q k p''] unfolding use by (auto simp: covers_upd split: if_splits)
qed

lemma disown_run:
  assumes h: "pool_holds (xs @ blk # ys) O'" and p: "O' p = Some (bb_Pointer blk, st, n)"
    and b: "same_place blk blk'" "block_ok blk'" "pages_in_use blk' = pages_in_use blk - {st..<st + n}"
  shows "pool_holds (xs @ blk' # ys) (O'(p := None))"
proof (rule pool_replace [OF h b(1,2)])
  have use: "pages_in_use blk = {k. \<exists>p. covers O' p (bb_Pointer blk) k}" using pool_holdsD(3) [OF h, of blk] by simp
  have own: "covers O' p q k \<longleftrightarrow> q = bb_Pointer blk \<and> k \<in> {st..<st + n}" for q k using p by (auto simp: covers_def)
  have one: "covers O' p' q k \<Longrightarrow> covers O' p'' q k \<Longrightarrow> p' = p''" for p' p'' q k using pool_holds_unique [OF h] by blast
  show "finite (dom (O'(p := None)))" using h by (simp add: pool_holds_def)
  show "pages_in_use blk' = {k. \<exists>p'. covers (O'(p := None)) p' (bb_Pointer blk) k}"
  proof (intro equalityI subsetI)
    fix k
    assume "k \<in> pages_in_use blk'"
    then obtain p' where "covers O' p' (bb_Pointer blk) k" "k \<notin> {st..<st + n}" unfolding b(3) use by blast
    moreover from this have "p' \<noteq> p" using own by blast
    ultimately show "k \<in> {k. \<exists>p'. covers (O'(p := None)) p' (bb_Pointer blk) k}" by (auto simp: covers_upd)
  next
    fix k
    assume "k \<in> {k. \<exists>p'. covers (O'(p := None)) p' (bb_Pointer blk) k}"
    then obtain p' where "p' \<noteq> p" "covers O' p' (bb_Pointer blk) k" by (auto simp: covers_upd)
    then show "k \<in> pages_in_use blk'" unfolding b(3) use using own [of "bb_Pointer blk" k] one [of p' "bb_Pointer blk" k p] by blast
  qed
  show "covers (O'(p := None)) p' q k = covers O' p' q k" if "q \<noteq> bb_Pointer blk" for p' q k
    using that own by (auto simp: covers_upd)
  show "0 < n' \<and> (\<exists>b \<in> set (xs @ blk # ys). bb_Pointer b = q \<and> st' + n' \<le> unat (bb_BlockPageCount b))"
    if "(O'(p := None)) p' = Some (q, st', n')" for p' q st' n'
    using that h by (auto simp: pool_holds_def split: if_splits)
  show "p' = p''" if "covers (O'(p := None)) p' q k" "covers (O'(p := None)) p'' q k" for p' p'' q k
    using that one by (auto simp: covers_upd)
qed

subsection \<open>Acquiring and releasing\<close>

lemma free_run_in_block:
  assumes "st + n \<le> unat (bb_BlockPageCount blk)"
  shows "free_run (bb_AllocBitmap blk) st n \<longleftrightarrow> {st..<st + n} \<inter> pages_in_use blk = {}"
  using assms by (auto simp: free_run_def pages_in_use_def)

definition acquired ::
  "iommu_bounce_block list \<Rightarrow> nat \<Rightarrow> iommu_bounce_block list \<Rightarrow> iommu_bounce_block \<Rightarrow> nat \<Rightarrow> bool" where
  "acquired Blocks n Blocks' blk' st \<longleftrightarrow> (\<exists>xs blk ys. Blocks = xs @ blk # ys \<and> Blocks' = xs @ blk' # ys \<and> same_place blk blk' \<and>
     block_ok blk' \<and> st + n \<le> unat (bb_BlockPageCount blk) \<and> {st..<st + n} \<inter> pages_in_use blk = {} \<and>
     pages_in_use blk' = pages_in_use blk \<union> {st..<st + n})"

lemma acquired_here:
  "same_place blk blk' \<Longrightarrow> block_ok blk' \<Longrightarrow> st + n \<le> unat (bb_BlockPageCount blk) \<Longrightarrow> {st..<st + n} \<inter> pages_in_use blk = {} \<Longrightarrow>
   pages_in_use blk' = pages_in_use blk \<union> {st..<st + n} \<Longrightarrow> acquired (blk # Blocks) n (blk' # Blocks) blk' st"
  unfolding acquired_def by (intro exI [of _ "[]"] exI [of _ blk] exI [of _ Blocks]) simp

lemma acquired_later: "acquired Blocks n Blocks' blk' st \<Longrightarrow> acquired (c # Blocks) n (c # Blocks') blk' st"
  unfolding acquired_def by (metis append_Cons)

lemma acquired_owned:
  assumes "pool_holds Blocks O'" "acquired Blocks n Blocks' blk st" "O' p = None" "0 < n"
  shows "pool_holds Blocks' (O'(p \<mapsto> (bb_Pointer blk, st, n))) \<and> blk \<in> set Blocks'"
proof -
  obtain xs c ys where c: "Blocks = xs @ c # ys" "Blocks' = xs @ blk # ys" "same_place c blk" "block_ok blk"
      "st + n \<le> unat (bb_BlockPageCount c)" "{st..<st + n} \<inter> pages_in_use c = {}" "pages_in_use blk = pages_in_use c \<union> {st..<st + n}"
    using assms(2) by (auto simp: acquired_def)
  have "bb_Pointer blk = bb_Pointer c" using c(3) by (simp add: same_place_def)
  then show ?thesis
    using own_run [OF assms(1) [unfolded c(1)] assms(3,4) c(5,6,3,4,7)] c(2) by simp
qed

lemma acquire_from_blocks:
  assumes "\<forall>blk \<in> set Blocks. block_ok blk" "0 < n"
  shows "\<exists>res. acquire_from Blocks n = Some res \<and>
    (case res of
       None \<Rightarrow> \<forall>blk \<in> set Blocks. \<forall>st. st + unat n \<le> unat (bb_BlockPageCount blk) \<longrightarrow> \<not> free_run (bb_AllocBitmap blk) st (unat n)
     | Some (Blocks', blk', st) \<Rightarrow> acquired Blocks (unat n) Blocks' blk' (unat st))"
  using assms(1)
proof (induction Blocks)
  case (Cons blk Blocks)
  have ok: "block_ok blk" using Cons.prems by simp
  obtain found where f: "(if bb_BlockPageCount blk < n then Some None
        else FindFreeRun (bb_AllocBitmap blk) (bb_BlockPageCount blk) n) = Some found"
      "case found of None \<Rightarrow> \<forall>st. st + unat n \<le> unat (bb_BlockPageCount blk) \<longrightarrow> \<not> free_run (bb_AllocBitmap blk) st (unat n)
       | Some st \<Rightarrow> unat st + unat n \<le> unat (bb_BlockPageCount blk) \<and> free_run (bb_AllocBitmap blk) (unat st) (unat n)"
  proof (cases "bb_BlockPageCount blk < n")
    case True
    then show ?thesis using that [of None] by (auto simp: word_less_nat_alt)
  next
    case False
    then obtain res where r: "FindFreeRun (bb_AllocBitmap blk) (bb_BlockPageCount blk) n = Some res"
        "case res of None \<Rightarrow> \<forall>s. s + unat n \<le> unat (bb_BlockPageCount blk) \<longrightarrow> \<not> free_run (bb_AllocBitmap blk) s (unat n)
         | Some st \<Rightarrow> unat st + unat n \<le> unat (bb_BlockPageCount blk) \<and> free_run (bb_AllocBitmap blk) (unat st) (unat n) \<and>
           (\<forall>s < unat st. \<not> free_run (bb_AllocBitmap blk) s (unat n))"
      using find_free_run [OF block_okD(1) [OF ok] assms(2)] by (auto simp: not_less)
    have "(if bb_BlockPageCount blk < n then Some None
        else FindFreeRun (bb_AllocBitmap blk) (bb_BlockPageCount blk) n) = Some res" using False r(1) by simp
    moreover have "case res of None \<Rightarrow> \<forall>st. st + unat n \<le> unat (bb_BlockPageCount blk) \<longrightarrow> \<not> free_run (bb_AllocBitmap blk) st (unat n)
       | Some st \<Rightarrow> unat st + unat n \<le> unat (bb_BlockPageCount blk) \<and> free_run (bb_AllocBitmap blk) (unat st) (unat n)"
      using r(2) by (cases res) simp_all
    ultimately show ?thesis by (rule that)
  qed
  show ?case
  proof (cases found)
    case (Some st)
    have st: "unat st + unat n \<le> unat (bb_BlockPageCount blk)" "{unat st..<unat st + unat n} \<inter> pages_in_use blk = {}"
      using f(2) Some free_run_in_block by auto
    obtain B where B: "UpdateBitmapRun (bb_AllocBitmap blk) st n True = Some B" "block_ok (mark blk B (bb_InUsePageCount blk + n))"
        "pages_in_use (mark blk B (bb_InUsePageCount blk + n)) = pages_in_use blk \<union> {unat st..<unat st + unat n}"
      using mark_run [OF ok st] by blast
    have "acquire_from (blk # Blocks) n = Some (Some (mark blk B (bb_InUsePageCount blk + n) # Blocks, mark blk B (bb_InUsePageCount blk + n), st))"
      using f(1) Some B(1) by (simp add: mark_def Let_def)
    moreover have "acquired (blk # Blocks) (unat n) (mark blk B (bb_InUsePageCount blk + n) # Blocks) (mark blk B (bb_InUsePageCount blk + n)) (unat st)"
      by (rule acquired_here [OF _ B(2) st B(3)]) simp
    ultimately show ?thesis by simp
  next
    case None
    obtain res where res: "acquire_from Blocks n = Some res"
        "case res of
          None \<Rightarrow> \<forall>blk \<in> set Blocks. \<forall>st. st + unat n \<le> unat (bb_BlockPageCount blk) \<longrightarrow> \<not> free_run (bb_AllocBitmap blk) st (unat n)
        | Some (Blocks', blk', st) \<Rightarrow> acquired Blocks (unat n) Blocks' blk' (unat st)"
      using Cons by auto
    have a: "acquire_from (blk # Blocks) n = Some (map_option (\<lambda>(Blocks, r). (blk # Blocks, r)) res)"
      using f(1) None res(1) by simp
    show ?thesis
    proof (cases res)
      case None
      then show ?thesis using a res(2) f(2) \<open>found = None\<close> by simp
    next
      case (Some t)
      obtain Blocks' blk' st where t: "t = (Blocks', blk', st)" by (cases t) auto
      then show ?thesis using a Some res(2) by (simp add: acquired_later)
    qed
  qed
qed simp

lemma release_block:
  assumes h: "pool_holds Blocks O'" and p: "O' p = Some (q, unat st, unat n)"
  shows "\<exists>Blocks'. update_block q (release_pages b st n) Blocks = Some Blocks' \<and> pool_holds Blocks' (O'(p := None))"
proof -
  obtain blk where blk: "blk \<in> set Blocks" "bb_Pointer blk = q" "unat st + unat n \<le> unat (bb_BlockPageCount blk)" and n: "0 < unat n"
    using pool_holds_run [OF h p] by blast
  obtain xs ys where s: "Blocks = xs @ blk # ys" using blk(1) by (auto simp: in_set_conv_decomp)
  have ok: "block_ok blk" and use: "pages_in_use blk = {k. \<exists>p. covers O' p (bb_Pointer blk) k}"
    using pool_holdsD(2,3) [OF h blk(1)] by simp_all
  have "{unat st..<unat st + unat n} \<subseteq> pages_in_use blk" unfolding use using p blk(2) by (auto simp: covers_def) blast
  then obtain B where B: "UpdateBitmapRun (bb_AllocBitmap blk) st n False = Some B" "block_ok (mark blk B (bb_InUsePageCount blk - n))"
      "pages_in_use (mark blk B (bb_InUsePageCount blk - n)) = pages_in_use blk - {unat st..<unat st + unat n}"
    using clear_run [OF ok blk(3)] by blast
  have "unat (st + n) = unat st + unat n" using blk(3) block_okD(2) [OF ok] by (subst unat_add32) simp_all
  then have r: "release_pages b st n blk = Some (mark blk B (bb_InUsePageCount blk - n))"
    using ok n blk(3) B(1) by (simp add: release_pages_def mark_def block_ok_def word_le_nat_alt word_less_nat_alt)
  have "q \<notin> bb_Pointer ` set xs" using pool_holdsD(1) [OF h] s blk(2) by auto
  then have "update_block q (release_pages b st n) Blocks = Some (xs @ mark blk B (bb_InUsePageCount blk - n) # ys)"
    unfolding s using r blk(2) by (induction xs) auto
  moreover have "pool_holds (xs @ mark blk B (bb_InUsePageCount blk - n) # ys) (O'(p := None))"
    using disown_run [of xs blk ys O' p "unat st" "unat n"] h p B(2,3) s blk(2) by simp
  ultimately show ?thesis by blast
qed

end
