(* ===== verification/Iommu.thy ===== *)
theory Iommu
  imports Iommu_Bounce
begin

text \<open>
  The IOMMU protocol, \<^verbatim>\<open>MsvmPkg/IoMmuDxe/IoMmuDxe.c\<close>: mapping buffers for
  devices, through bounce pages where the device cannot reach the buffer, and allocating buffers
  that the device shares.
\<close>

definition IOMMU_MAP_CONTEXT_SIGNATURE :: u32 where "IOMMU_MAP_CONTEXT_SIGNATURE = 0x636D6F69"
definition EDKII_IOMMU_ATTRIBUTE_DUAL_ADDRESS_CYCLE :: u64 where "EDKII_IOMMU_ATTRIBUTE_DUAL_ADDRESS_CYCLE = 0x8000"

definition IoMmuSetAttribute :: "iommu \<Rightarrow> efi_status \<times> iommu" where
  "IoMmuSetAttribute s = (EFI_SUCCESS, s)"

subsection \<open>Mapping\<close>

text \<open>The pages below 4 GB, the structure of the mapping, and the answers for a new block.\<close>

record map_env =
  me_Pages :: "efi_status \<times> u64"
  me_Context :: "nat option"
  me_Block :: block_env

text \<open>Variables that are not written are \<open>None\<close>; \<open>Some None\<close> is a null mapping.\<close>

record map_result =
  mr_NumberOfBytes :: u64
  mr_DeviceAddress :: "u64 option"
  mr_Mapping :: "nat option option"

definition is_read :: "edkii_iommu_operation \<Rightarrow> bool" where
  "is_read Operation \<longleftrightarrow> Operation = BusMasterRead \<or> Operation = BusMasterRead64"

definition is_write :: "edkii_iommu_operation \<Rightarrow> bool" where
  "is_write Operation \<longleftrightarrow> Operation = BusMasterWrite \<or> Operation = BusMasterWrite64"

definition is_common :: "edkii_iommu_operation \<Rightarrow> bool" where
  "is_common Operation \<longleftrightarrow> Operation = BusMasterCommonBuffer \<or> Operation = BusMasterCommonBuffer64"

text \<open>The part of \<^verbatim>\<open>IoMmuMap\<close> without bounce blocks.\<close>

definition map_direct ::
  "map_env \<Rightarrow> iommu \<Rightarrow> edkii_iommu_operation \<Rightarrow> u64 \<Rightarrow> u64 \<Rightarrow> efi_status \<times> map_result \<times> iommu" where
  "map_direct env s Operation HostAddress NumberOfBytes =
     (if Operation \<noteq> BusMasterCommonBuffer \<and> Operation \<noteq> BusMasterCommonBuffer64 \<and> Operation \<noteq> BusMasterRead64 \<and>
         Operation \<noteq> BusMasterWrite64 \<and> SIZE_4GB < HostAddress + NumberOfBytes then
        let Pages = EFI_SIZE_TO_PAGES NumberOfBytes; (Status, MappedAddress) = me_Pages env in
        if EFI_ERROR Status then (Status, \<lparr>mr_NumberOfBytes = 0, mr_DeviceAddress = None, mr_Mapping = None\<rparr>, s)
        else
          let s = (if is_read Operation then CopyMem s MappedAddress HostAddress NumberOfBytes else s) in
          (case me_Context env of
             None \<Rightarrow> (EFI_OUT_OF_RESOURCES, \<lparr>mr_NumberOfBytes = 0, mr_DeviceAddress = None, mr_Mapping = None\<rparr>,
               record_call (FreePagesCall MappedAddress Pages) s)
           | Some MapContext \<Rightarrow>
               (EFI_SUCCESS, \<lparr>mr_NumberOfBytes = NumberOfBytes, mr_DeviceAddress = Some MappedAddress, mr_Mapping = Some (Some MapContext)\<rparr>,
                s\<lparr>im_Maps := (im_Maps s)(MapContext \<mapsto> \<lparr>mc_Signature = IOMMU_MAP_CONTEXT_SIGNATURE, mc_Operation = Operation,
                  mc_HostAddress = HostAddress, mc_NumberOfBytes = NumberOfBytes, mc_BounceBase = MappedAddress,
                  mc_BouncePageCount = ucast Pages, mc_BounceBlock = None, mc_BounceStartPage = 0\<rparr>)\<rparr>))
      else (EFI_SUCCESS, \<lparr>mr_NumberOfBytes = NumberOfBytes, mr_DeviceAddress = Some HostAddress, mr_Mapping = Some None\<rparr>, s))"

text \<open>The part of \<^verbatim>\<open>IoMmuMap\<close> that uses bounce pages.\<close>

definition map_bounce ::
  "build \<Rightarrow> map_env \<Rightarrow> iommu \<Rightarrow> edkii_iommu_operation \<Rightarrow> u64 \<Rightarrow> u64 \<Rightarrow> (efi_status \<times> map_result \<times> iommu) option" where
  "map_bounce b env s Operation HostAddress NumberOfBytes =
     (let RequestedPages = EFI_SIZE_TO_PAGES NumberOfBytes;
          unchanged = \<lparr>mr_NumberOfBytes = NumberOfBytes, mr_DeviceAddress = None, mr_Mapping = None\<rparr> in
      if 0xFFFFFFFF < RequestedPages then Some (EFI_OUT_OF_RESOURCES, unchanged, s)
      else do {
        let BouncePageCount = ucast RequestedPages;
        (Status, found, s) \<leftarrow> IoMmuAcquireBouncePages b (me_Block env) s BouncePageCount;
        if EFI_ERROR Status then Some (EFI_OUT_OF_RESOURCES, unchanged, s)
        else do {
          (BounceBlock, BounceStartPage, BounceBase) \<leftarrow> found;
          let SharedVa = IoMmuGetSharedVa s BounceBase;
          let s = ZeroMem s SharedVa (ucast BouncePageCount * EFI_PAGE_SIZE);
          let s = (if is_read Operation then CopyMem s SharedVa HostAddress NumberOfBytes else s);
          let result = unchanged\<lparr>mr_DeviceAddress := Some (IoMmuGetSharedPa s BounceBase)\<rparr>;
          case me_Context env of
            None \<Rightarrow> do {
              s \<leftarrow> IoMmuReleaseBouncePages b s BounceBlock BounceStartPage BouncePageCount;
              Some (EFI_OUT_OF_RESOURCES, result, s)
            }
          | Some MapContext \<Rightarrow>
              Some (EFI_SUCCESS, result\<lparr>mr_Mapping := Some (Some MapContext)\<rparr>,
                s\<lparr>im_Maps := (im_Maps s)(MapContext \<mapsto> \<lparr>mc_Signature = IOMMU_MAP_CONTEXT_SIGNATURE, mc_Operation = Operation,
                  mc_HostAddress = HostAddress, mc_NumberOfBytes = NumberOfBytes, mc_BounceBase = BounceBase,
                  mc_BouncePageCount = BouncePageCount, mc_BounceBlock = Some BounceBlock,
                  mc_BounceStartPage = BounceStartPage\<rparr>)\<rparr>)
        }
      })"

definition IoMmuMap ::
  "build \<Rightarrow> map_env \<Rightarrow> iommu \<Rightarrow> edkii_iommu_operation \<Rightarrow> u64 \<Rightarrow> u64 \<Rightarrow> (efi_status \<times> map_result \<times> iommu) option" where
  "IoMmuMap b env s Operation HostAddress NumberOfBytes =
     (if \<not> IoMmuIsBounceActive s then Some (map_direct env s Operation HostAddress NumberOfBytes)
      else if is_common Operation
      then Some (EFI_SUCCESS, \<lparr>mr_NumberOfBytes = NumberOfBytes, mr_DeviceAddress = Some (IoMmuGetSharedPa s HostAddress),
        mr_Mapping = Some None\<rparr>, s)
      else map_bounce b env s Operation HostAddress NumberOfBytes)"

definition IoMmuUnmap :: "build \<Rightarrow> iommu \<Rightarrow> nat option \<Rightarrow> (efi_status \<times> iommu) option" where
  "IoMmuUnmap b s Mapping =
     (case Mapping of
        None \<Rightarrow> Some (EFI_SUCCESS, s)
      | Some p \<Rightarrow> do {
          MapContext \<leftarrow> im_Maps s p;
          ASSERT b (mc_Signature MapContext = IOMMU_MAP_CONTEXT_SIGNATURE);
          case mc_BounceBlock MapContext of
            None \<Rightarrow> do {
              let s = (if is_write (mc_Operation MapContext)
                then CopyMem s (mc_HostAddress MapContext) (mc_BounceBase MapContext) (mc_NumberOfBytes MapContext) else s);
              let s = record_call (FreePagesCall (mc_BounceBase MapContext) (ucast (mc_BouncePageCount MapContext))) s;
              Some (EFI_SUCCESS, s\<lparr>im_Maps := (im_Maps s)(p := None)\<rparr>)
            }
          | Some Block \<Rightarrow> do {
              let s = (if is_write (mc_Operation MapContext)
                then CopyMem s (mc_HostAddress MapContext) (IoMmuGetSharedVa s (mc_BounceBase MapContext)) (mc_NumberOfBytes MapContext)
                else s);
              if \<not> is_common (mc_Operation MapContext) then do {
                s \<leftarrow> IoMmuReleaseBouncePages b s Block (mc_BounceStartPage MapContext) (mc_BouncePageCount MapContext);
                Some (EFI_SUCCESS, s\<lparr>im_Maps := (im_Maps s)(p := None)\<rparr>)
              }
              else Some (EFI_SUCCESS, s)
            }
        })"

subsection \<open>Buffers that a device shares\<close>

datatype efi_allocate_type = AllocateAnyPages | AllocateMaxAddress | AllocateAddress

text \<open>
  The page allocator, as a function of the type and the address that is passed in, the answers of
  the hypervisor, and whether the pool has room for the tracking structure.
\<close>

record alloc_env =
  ae_Pages :: "efi_allocate_type \<Rightarrow> u64 \<Rightarrow> efi_status \<times> u64"
  ae_Hv :: hv_env
  ae_Context :: bool

text \<open>
  \<open>This\<close> and \<open>out\<close>: the pointers to the protocol and to the result are not null. On success the
  address is returned.
\<close>

definition allocate_buffer ::
  "alloc_env \<Rightarrow> iommu \<Rightarrow> bool \<Rightarrow> efi_allocate_type \<Rightarrow> u64 \<Rightarrow> bool \<Rightarrow> u64 \<Rightarrow> efi_status \<times> u64 option \<times> iommu" where
  "allocate_buffer env s This Type Pages out Attributes =
     (if \<not> This \<or> Pages = 0 \<or> \<not> out then (EFI_INVALID_PARAMETER, None, s)
      else
        let (Type, PhysicalAddress) = (if Attributes AND EDKII_IOMMU_ATTRIBUTE_DUAL_ADDRESS_CYCLE = 0
              then (AllocateMaxAddress, SIZE_4GB - 1) else (Type, - 1));
            (Status, PhysicalAddress) = ae_Pages env Type PhysicalAddress in
        if EFI_ERROR Status then (Status, None, s)
        else if \<not> IoMmuIsBounceActive s then (Status, Some PhysicalAddress, s)
        else
          let (Status, DmaContext, s) = IoMmuPrepareAddressRangeForDma (ae_Hv env) s PhysicalAddress (ucast Pages) in
          if EFI_ERROR Status then (Status, None, record_call (FreePagesCall PhysicalAddress Pages) s)
          else if \<not> ae_Context env then
            let (_, s) = IoMmuReleaseAddressRangeFromDma s DmaContext
            in (EFI_OUT_OF_RESOURCES, None, record_call (FreePagesCall PhysicalAddress Pages) s)
          else
            (Status, Some (IoMmuGetSharedVa s PhysicalAddress),
             s\<lparr>im_Allocs := im_Allocs s @ [\<lparr>ac_OriginalAddress = PhysicalAddress, ac_Pages = Pages, ac_DmaContext = DmaContext\<rparr>]\<rparr>))"

definition IoMmuAllocateBuffer ::
  "build \<Rightarrow> alloc_env \<Rightarrow> iommu \<Rightarrow> bool \<Rightarrow> efi_allocate_type \<Rightarrow> u64 \<Rightarrow> bool \<Rightarrow> u64
     \<Rightarrow> (efi_status \<times> u64 option \<times> iommu) option" where
  "IoMmuAllocateBuffer b env s This Type Pages out Attributes = do {
     let (Status, HostAddress, s) = allocate_buffer env s This Type Pages out Attributes;
     ASSERT b (\<not> EFI_ERROR Status);
     Some (Status, HostAddress, s)
   }"

text \<open>The loop that releases the first tracked allocation whose shared address is \<open>HostAddress\<close>.\<close>

primrec release_alloc :: "u64 \<Rightarrow> iommu_alloc_context list \<Rightarrow> iommu \<Rightarrow> iommu_alloc_context list \<times> iommu" where
  "release_alloc HostAddress [] s = ([], s)"
| "release_alloc HostAddress (AllocContext # rest) s =
     (if IoMmuGetSharedVa s (ac_OriginalAddress AllocContext) = HostAddress
      then (rest, snd (IoMmuReleaseAddressRangeFromDma s (ac_DmaContext AllocContext)))
      else let (rest, s) = release_alloc HostAddress rest s in (AllocContext # rest, s))"

text \<open>\<open>freed\<close>: the status of \<^verbatim>\<open>FreePages\<close>.\<close>

definition IoMmuFreeBuffer :: "efi_status \<Rightarrow> iommu \<Rightarrow> u64 \<Rightarrow> u64 \<Rightarrow> efi_status \<times> iommu" where
  "IoMmuFreeBuffer freed s Pages HostAddress =
     (if \<not> IoMmuIsBounceActive s then (freed, record_call (FreePagesCall HostAddress Pages) s)
      else
        let (Allocs, s) = release_alloc HostAddress (im_Allocs s) s
        in (EFI_SUCCESS, record_call (FreePagesCall HostAddress Pages) (s\<lparr>im_Allocs := Allocs\<rparr>)))"

subsection \<open>Entry point\<close>

record iommu_config =
  cf_IsIsolated :: bool
  cf_DmaPinningRequired :: bool
  cf_ForceDmaBounce :: bool
  cf_SharedGpaBoundary :: u64
  cf_CanonicalizationBitmask :: u64

text \<open>\<open>memory\<close>: the contents of memory; \<open>located\<close> and \<open>installed\<close>: results for the protocols.\<close>

definition IoMmuDxeEntryPoint ::
  "build \<Rightarrow> block_env \<Rightarrow> iommu_config \<Rightarrow> (u64 \<Rightarrow> u8) \<Rightarrow> efi_status \<Rightarrow> efi_status \<Rightarrow> (efi_status \<times> iommu) option" where
  "IoMmuDxeEntryPoint b env config memory located installed = do {
     let s = \<lparr>im_BounceMode = IoMmuComputeBounceMode (cf_IsIsolated config) (cf_DmaPinningRequired config) (cf_ForceDmaBounce config),
       im_SharedGpaBoundary = 0, im_CanonicalizationMask = 0, im_Blocks = [], im_Allocs = [], im_Maps = Map.empty,
       im_Memory = memory, im_Calls = []\<rparr>;
     if IoMmuIsBounceActive s then do {
       let (Status, s) = IoMmuInitializeBounce (cf_SharedGpaBoundary config) (cf_CanonicalizationBitmask config) located s;
       if EFI_ERROR Status then Some (Status, s)
       else do {
         (_, _, s) \<leftarrow> IoMmuPreAllocateBounceBlock b env s IOMMU_BOUNCE_INITIAL_BLOCK_PAGES;
         Some (installed, s)
       }
     }
     else Some (installed, s)
   }"

end
