(* ===== verification/Iommu_Dma.thy ===== *)
theory Iommu_Dma
  imports Iommu_Pool Iommu
begin

text \<open>
  Addresses and memory of the transfers through bounce pages: the shared aliases of an address, and
  what loads and stores of the processor do to the bytes that a device sees.
\<close>

subsection \<open>Addresses\<close>

text \<open>
  The configuration of \<^verbatim>\<open>PlatformPei/Hv.c\<close>: no boundary, or a power of two above
  4 GB, with the upper bits as canonicalization mask if it is the topmost bit of an address.
\<close>

definition boundary_ok :: "u64 \<Rightarrow> u64 \<Rightarrow> bool" where
  "boundary_ok Boundary Bitmask \<longleftrightarrow> Boundary = 0 \<and> Bitmask = 0 \<or>
     (\<exists>k. 32 \<le> k \<and> k \<le> 47 \<and> Boundary = 2 ^ k \<and> Bitmask = (if k = 47 then NOT (mask 48) else 0))"

definition gpa_ok :: "iommu \<Rightarrow> bool" where
  "gpa_ok s \<longleftrightarrow> boundary_ok (im_SharedGpaBoundary s) (im_CanonicalizationMask s)"

lemma unat_of_nat64: "n < 18446744073709551616 \<Longrightarrow> unat (of_nat n :: u64) = n"
  by (simp add: unsigned_of_nat take_bit_nat_eq_self)

lemma unat_boundary:
  assumes "k < 64"
  shows "unat (2 ^ k :: u64) = 2 ^ k"
proof -
  have "(2 :: nat) ^ k < 2 ^ 64" using assms by (rule power_strict_increasing) simp
  then show ?thesis using unat_of_nat64 [of "2 ^ k"] by simp
qed

lemma and_mask48:
  assumes "unat a < 2 ^ 48"
  shows "a AND mask 48 = (a :: u64)"
proof -
  have "unat (take_bit 48 a) = unat a" using assms by (simp add: unsigned_take_bit_eq take_bit_nat_eq_self)
  then have "take_bit 48 a = a" by (simp add: word_unat_eq_iff)
  then show ?thesis by (simp add: take_bit_eq_mask)
qed

lemma or_high:
  assumes "unat a < 2 ^ 48"
  shows "a OR NOT (mask 48) = (a :: u64) + NOT (mask 48)"
proof -
  have "\<not> bit a n \<or> n < 48" for n using and_mask48 [OF assms] by (metis bit_and_iff bit_mask_iff)
  then show ?thesis by (intro disjunctive_add [symmetric]) (auto simp: bit_not_iff bit_mask_iff)
qed

lemma strip_low:
  assumes "gpa_ok s" "unat a < 2 ^ 48"
  shows "a AND NOT (im_CanonicalizationMask s) = a"
  using assms and_mask48 [OF assms(2)] by (auto simp: gpa_ok_def boundary_ok_def split: if_splits)

lemma boundary_cases:
  assumes "gpa_ok s"
  shows "im_SharedGpaBoundary s = 0 \<or> 4294967296 \<le> unat (im_SharedGpaBoundary s)" "unat (im_SharedGpaBoundary s) \<le> 2 ^ 47"
proof -
  have "(2 :: nat) ^ 32 \<le> 2 ^ k" "(2 :: nat) ^ k \<le> 2 ^ 47" if "32 \<le> k" "k \<le> 47" for k
    using power_increasing [of 32 k "2 :: nat"] power_increasing [of k 47 "2 :: nat"] that by simp_all
  then show "im_SharedGpaBoundary s = 0 \<or> 4294967296 \<le> unat (im_SharedGpaBoundary s)" "unat (im_SharedGpaBoundary s) \<le> 2 ^ 47"
    using assms by (auto simp: gpa_ok_def boundary_ok_def unat_boundary)
qed

lemma shared_pa:
  assumes "gpa_ok s" "unat a < 4294967296"
  shows "IoMmuGetSharedPa s a = a + im_SharedGpaBoundary s" "unat (IoMmuGetSharedPa s a) = unat a + unat (im_SharedGpaBoundary s)"
proof -
  note b = boundary_cases [OF assms(1)]
  have strip: "a AND NOT (im_CanonicalizationMask s) = a" using assms by (intro strip_low) simp_all
  show e: "IoMmuGetSharedPa s a = a + im_SharedGpaBoundary s"
    using b(1) assms(2) by (auto simp: IoMmuGetSharedPa_def Let_def strip word_less_nat_alt)
  show "unat (IoMmuGetSharedPa s a) = unat a + unat (im_SharedGpaBoundary s)"
    unfolding e using b(2) assms(2) by (subst unat_add_lem [THEN iffD1]) simp_all
qed

lemma shared_phys:
  assumes g: "gpa_ok s" and a: "unat a + j < 4294967296"
  shows "phys s (IoMmuGetSharedVa s a + of_nat j) = IoMmuGetSharedPa s a + of_nat j"
proof -
  let ?x = "IoMmuGetSharedPa s a" and ?m = "im_CanonicalizationMask s"
  have x: "unat ?x = unat a + unat (im_SharedGpaBoundary s)" using shared_pa(2) [OF g] a by simp
  have xj: "unat (?x + of_nat j) = unat a + unat (im_SharedGpaBoundary s) + j"
    using x a boundary_cases(2) [OF g] by (subst unat_add_lem [THEN iffD1]) (simp_all add: unat_of_nat64)
  show ?thesis
  proof (cases "?m = 0")
    case True
    then show ?thesis by (simp add: phys_def IoMmuGetSharedVa_def)
  next
    case False
    then have m: "?m = NOT (mask 48)" using g by (auto simp: gpa_ok_def boundary_ok_def split: if_splits)
    have low: "unat ?x < 2 ^ 48" "unat (?x + of_nat j) < 2 ^ 48"
      using x xj a boundary_cases(2) [OF g] by simp_all
    have "IoMmuGetSharedVa s a + of_nat j = ?x + of_nat j + NOT (mask 48)"
      by (simp add: IoMmuGetSharedVa_def m or_high [OF low(1)])
    also have "\<dots> = (?x + of_nat j) OR NOT (mask 48)" by (rule or_high [OF low(2), symmetric])
    finally show ?thesis
      using and_mask48 [OF low(2)] by (simp add: phys_def m bit.conj_disj_distrib2)
  qed
qed

subsection \<open>Memory\<close>

lemma store_bytes_span:
  "\<forall>k < length xs. (v + of_nat k) AND NOT canon = c + of_nat k \<Longrightarrow> length xs < 2 ^ 64 \<Longrightarrow>
   store_bytes canon m v xs = (\<lambda>a. if unat (a - c) < length xs then xs ! unat (a - c) else m a)"
proof (induction xs arbitrary: m v c)
  case (Cons x xs)
  have v: "v AND NOT canon = c" using Cons.prems(1) [rule_format, of 0] by simp
  have "(v + 1 + of_nat k) AND NOT canon = c + 1 + of_nat k" if "k < length xs" for k
    using Cons.prems(1) [rule_format, of "Suc k"] that by (simp add: ac_simps)
  then have IH: "store_bytes canon (m(c := x)) (v + 1) xs =
      (\<lambda>a. if unat (a - (c + 1)) < length xs then xs ! unat (a - (c + 1)) else (m(c := x)) a)"
    using Cons.IH [of "v + 1" "c + 1" "m(c := x)"] Cons.prems(2) by (simp del: fun_upd_apply)
  show ?case
  proof (rule ext)
    fix a
    have "a - (c + 1) = a - c - 1" by simp
    moreover have "unat (a - c - 1) = unat (a - c) - 1 \<and> 0 < unat (a - c)" if "a \<noteq> c"
      using that by (simp add: unat_minus_one unat_gt_0)
    moreover have "unat (- 1 :: u64) = 18446744073709551615" by (simp add: unsigned_minus_1_eq_mask mask_eq_exp_minus_1)
    ultimately show "store_bytes canon m v (x # xs) a = (if unat (a - c) < length (x # xs) then (x # xs) ! unat (a - c) else m a)"
      using Cons.prems(2) by (cases "a = c") (auto simp: v IH nth_Cons diff_diff_add [symmetric] split: nat.splits)
  qed
qed simp

text \<open>The processor's address \<open>v\<close> reaches the \<open>n\<close> bytes of memory from \<open>c\<close> on.\<close>

definition reaches :: "iommu \<Rightarrow> u64 \<Rightarrow> u64 \<Rightarrow> nat \<Rightarrow> bool" where
  "reaches s v c n \<longleftrightarrow> n < 2 ^ 64 \<and> (\<forall>k < n. phys s (v + of_nat k) = c + of_nat k)"

definition bytes_at :: "iommu \<Rightarrow> u64 \<Rightarrow> nat \<Rightarrow> u8 list" where
  "bytes_at s c n = map (\<lambda>k. im_Memory s (c + of_nat k)) [0..<n]"

lemma length_bytes_at [simp]: "length (bytes_at s c n) = n"
  by (simp add: bytes_at_def)

lemma load_reaches: "reaches s v c n \<Longrightarrow> load s v n = bytes_at s c n"
  by (simp add: load_def bytes_at_def reaches_def)

lemma store_reaches:
  "reaches s v c (length xs) \<Longrightarrow>
   im_Memory (store s v xs) = (\<lambda>a. if unat (a - c) < length xs then xs ! unat (a - c) else im_Memory s a)"
  by (simp add: store_def reaches_def phys_def store_bytes_span)

lemma store_same [simp]:
  "im_Maps (store s v xs) = im_Maps s" "im_Blocks (store s v xs) = im_Blocks s" "im_BounceMode (store s v xs) = im_BounceMode s"
  "im_SharedGpaBoundary (store s v xs) = im_SharedGpaBoundary s" "im_CanonicalizationMask (store s v xs) = im_CanonicalizationMask s"
  "im_Allocs (store s v xs) = im_Allocs s" "im_Calls (store s v xs) = im_Calls s"
  by (simp_all add: store_def)

lemma reaches_mono: "reaches s v c n \<Longrightarrow> m \<le> n \<Longrightarrow> reaches s v c m"
  by (auto simp: reaches_def)

lemma reaches_same: "im_CanonicalizationMask s' = im_CanonicalizationMask s \<Longrightarrow> reaches s' v c n = reaches s v c n"
  by (simp add: reaches_def phys_def)

lemma reaches_shared:
  "gpa_ok s \<Longrightarrow> unat a + n \<le> 4294967296 \<Longrightarrow> reaches s (IoMmuGetSharedVa s a) (IoMmuGetSharedPa s a) n"
  by (simp add: reaches_def shared_phys)

lemma bytes_at_nth: "k < n \<Longrightarrow> bytes_at s c n ! k = im_Memory s (c + of_nat k)"
  by (simp add: bytes_at_def)

lemma bytes_at_store:
  assumes "reaches s v c (length xs)"
  shows "bytes_at (store s v xs) c (length xs) = xs"
proof (rule nth_equalityI)
  show "bytes_at (store s v xs) c (length xs) ! i = xs ! i" if "i < length (bytes_at (store s v xs) c (length xs))" for i
    using that assms by (simp add: bytes_at_nth store_reaches [OF assms]) (simp add: reaches_def unat_of_nat64)
qed simp

end
