(* ===== verification/Iommu_State.thy ===== *)
theory Iommu_State
  imports Iommu_Dma
begin

text \<open>
  The state of the IOMMU driver: the invariant that ties the live mappings to the pages of the
  bounce blocks, and its preservation by every operation of the protocol.
\<close>

subsection \<open>New blocks\<close>

definition place_apart :: "u64 \<Rightarrow> nat \<Rightarrow> iommu_bounce_block \<Rightarrow> bool" where
  "place_apart a n blk \<longleftrightarrow> unat a + n * 4096 \<le> unat (bb_BlockBase blk) \<or>
     unat (bb_BlockBase blk) + unat (bb_BlockPageCount blk) * 4096 \<le> unat a"

text \<open>
  What the allocators promise for a block of \<open>n\<close> pages: a pointer that is not in use, and pages
  below 4 GB that no block has.
\<close>

definition block_env_ok :: "block_env \<Rightarrow> iommu_bounce_block list \<Rightarrow> nat \<Rightarrow> bool" where
  "block_env_ok env Blocks n \<longleftrightarrow> (\<forall>p. be_Block env = Some p \<longrightarrow> p \<notin> bb_Pointer ` set Blocks) \<and>
     (\<not> EFI_ERROR (fst (be_Pages env)) \<longrightarrow> unat (snd (be_Pages env)) + n * 4096 \<le> 4294967296 \<and>
        (\<forall>blk \<in> set Blocks. place_apart (snd (be_Pages env)) n blk))"

text \<open>States that differ in the blocks and the calls only.\<close>

definition same_maps :: "iommu \<Rightarrow> iommu \<Rightarrow> bool" where
  "same_maps s s' \<longleftrightarrow> im_Maps s' = im_Maps s \<and> im_Memory s' = im_Memory s \<and> im_Allocs s' = im_Allocs s \<and> im_BounceMode s' = im_BounceMode s \<and>
     im_SharedGpaBoundary s' = im_SharedGpaBoundary s \<and> im_CanonicalizationMask s' = im_CanonicalizationMask s"

lemma same_maps_refl [simp]: "same_maps s s"
  by (simp add: same_maps_def)

lemma same_maps_trans: "same_maps s s' \<Longrightarrow> same_maps s' s'' \<Longrightarrow> same_maps s s''"
  by (simp add: same_maps_def)

lemma same_maps_upd [simp]:
  "same_maps s (s'\<lparr>im_Blocks := B\<rparr>) = same_maps s s'" "same_maps s (record_call c s') = same_maps s s'"
  "im_Blocks (record_call c s) = im_Blocks s"
  by (simp_all add: same_maps_def record_call_def)

lemma prepare_same:
  assumes "IoMmuPrepareAddressRangeForDma env s a n = (st, ctx, s')"
  shows "same_maps s s'" "im_Blocks s' = im_Blocks s"
  using assms by (auto simp: IoMmuPrepareAddressRangeForDma_def Let_def split: if_splits)

lemma release_range_same:
  assumes "IoMmuReleaseAddressRangeFromDma s ctx = (ctx', s')"
  shows "same_maps s s'" "im_Blocks s' = im_Blocks s"
  using assms by (auto simp: IoMmuReleaseAddressRangeFromDma_def Let_def split: if_splits)

definition fresh_block :: "iommu_bounce_block list \<Rightarrow> iommu_bounce_block \<Rightarrow> bool" where
  "fresh_block Blocks blk \<longleftrightarrow> block_ok blk \<and> pages_in_use blk = {} \<and> bb_Pointer blk \<notin> bb_Pointer ` set Blocks \<and>
     (\<forall>c \<in> set Blocks. apart blk c)"

lemma fresh_block_new:
  assumes n: "0 < n" and a: "unat a + unat n * 4096 \<le> 4294967296" and p: "p \<notin> bb_Pointer ` set Blocks"
    and far: "\<forall>blk \<in> set Blocks. place_apart a (unat n) blk"
  shows "fresh_block Blocks \<lparr>bb_Pointer = p, bb_Signature = IOMMU_BOUNCE_BLOCK_SIGNATURE, bb_BlockBase = a, bb_BlockPageCount = n,
    bb_BitmapWordCount = w, bb_AllocBitmap = replicate (unat ((n + 63) div 64)) 0, bb_InUsePageCount = 0,
    bb_IsPreparedForDma = d, bb_DmaContext = ctx\<rparr>"
proof -
  have "unat (n + 63) = unat n + 63" using a by (subst unat_add32) simp_all
  then have w: "unat ((n + 63) div 64) = (unat n + 63) div 64" by (simp add: unat_div)
  have "\<not> in_use (replicate ((unat n + 63) div 64) 0) k" if "k < unat n" for k
    by (rule in_use_fresh) (use that in linarith)
  then show ?thesis
    using n a p far by (auto simp: fresh_block_def block_ok_def pages_in_use_def w apart_def place_apart_def word_less_nat_alt)
qed

lemma prealloc:
  assumes n: "0 < n" and env: "block_env_ok env (im_Blocks s) (unat n)"
  shows "\<exists>st r s'. IoMmuPreAllocateBounceBlock b env s n = Some (st, r, s') \<and> same_maps s s' \<and>
    (if EFI_ERROR st then r = None \<and> im_Blocks s' = im_Blocks s
     else \<exists>blk. r = Some blk \<and> im_Blocks s' = im_Blocks s @ [blk] \<and> fresh_block (im_Blocks s) blk \<and> bb_BlockPageCount blk = n \<and>
       bb_InUsePageCount blk = 0)"
proof -
  obtain st ctx s1 where p: "IoMmuPrepareAddressRangeForDma (be_Hv env) s (snd (be_Pages env)) n = (st, ctx, s1)"
    by (metis prod_cases3)
  show ?thesis
  proof (cases "be_Block env = None \<or> \<not> be_Bitmap env \<or> EFI_ERROR (fst (be_Pages env)) \<or> EFI_ERROR st")
    case True
    then show ?thesis
      using n p prepare_same [OF p] by (auto simp: IoMmuPreAllocateBounceBlock_def Let_def EFI_ERROR_def split: option.splits)
  next
    case False
    then obtain q where q: "be_Block env = Some q" and ok: "be_Bitmap env" "\<not> EFI_ERROR (fst (be_Pages env))" "\<not> EFI_ERROR st" by auto
    have e: "q \<notin> bb_Pointer ` set (im_Blocks s)" "unat (snd (be_Pages env)) + unat n * 4096 \<le> 4294967296"
        "\<forall>blk \<in> set (im_Blocks s). place_apart (snd (be_Pages env)) (unat n) blk"
      using env q ok(2) by (simp_all add: block_env_ok_def)
    note f = fresh_block_new [OF n e(2,1,3)]
    show ?thesis
      using n p q ok f prepare_same [OF p] by (auto simp: IoMmuPreAllocateBounceBlock_def Let_def EFI_ERROR_def)
  qed
qed

lemma pool_append:
  assumes h: "pool_holds Blocks O'" and f: "fresh_block Blocks blk"
  shows "pool_holds (Blocks @ [blk]) O'"
proof -
  have f': "block_ok blk" "pages_in_use blk = {}" "bb_Pointer blk \<notin> bb_Pointer ` set Blocks" "\<forall>c \<in> set Blocks. apart blk c"
    using f by (simp_all add: fresh_block_def)
  have none: "\<not> covers O' p (bb_Pointer blk) k" for p k
    using pool_holds_run [OF h, of p "bb_Pointer blk"] f'(3) by (auto simp: covers_def) (metis imageI)
  have sym: "\<forall>c \<in> set Blocks. apart c blk" using f'(4) by (auto simp: apart_def)
  show ?thesis
    using h f' none sym unfolding pool_holds_def by (auto; blast)
qed

subsection \<open>Acquiring pages\<close>

definition growth :: "u32 \<Rightarrow> u32" where
  "growth n = (if n < IOMMU_BOUNCE_GROWTH_BLOCK_PAGES then IOMMU_BOUNCE_GROWTH_BLOCK_PAGES else n)"

lemma growth_ge: "0 < growth n" "unat n \<le> unat (growth n)" if "0 < n"
  using that by (auto simp: growth_def IOMMU_BOUNCE_GROWTH_BLOCK_PAGES_def word_less_nat_alt)

text \<open>What a successful request for \<open>n\<close> pages hands out.\<close>

definition granted :: "iommu_bounce_block list \<Rightarrow> u32 \<Rightarrow> nat \<Rightarrow> u32 \<Rightarrow> u64 \<Rightarrow> bool" where
  "granted Blocks n q i a \<longleftrightarrow> 0 < n \<and> (\<exists>blk \<in> set Blocks. bb_Pointer blk = q \<and> unat i + unat n \<le> unat (bb_BlockPageCount blk) \<and>
     a = bb_BlockBase blk + ucast i * EFI_PAGE_SIZE)"

lemma acquire_pages:
  assumes h: "pool_holds (im_Blocks s) O'" and env: "block_env_ok env (im_Blocks s) (unat (growth n))" and p: "O' p = None"
  shows "\<exists>st r s'. IoMmuAcquireBouncePages b env s n = Some (st, r, s') \<and> same_maps s s' \<and>
    (if EFI_ERROR st then r = None \<and> im_Blocks s' = im_Blocks s
     else \<exists>q i a. r = Some (q, i, a) \<and> granted (im_Blocks s') n q i a \<and> pool_holds (im_Blocks s') (O'(p \<mapsto> (q, unat i, unat n))))"
proof (cases "n = 0")
  case True
  then show ?thesis by (simp add: IoMmuAcquireBouncePages_def EFI_ERROR_def)
next
  case False
  then have n: "0 < n" by (simp add: word_neq_0_conv)
  have ok: "\<forall>blk \<in> set (im_Blocks s). block_ok blk" using pool_holdsD(2) [OF h] by blast
  obtain res where res: "acquire_from (im_Blocks s) n = Some res"
      "case res of None \<Rightarrow> True | Some (B, blk, i) \<Rightarrow> acquired (im_Blocks s) (unat n) B blk (unat i)"
    using acquire_from_blocks [OF ok n] by (auto split: option.splits)
  show ?thesis
  proof (cases res)
    case (Some t)
    obtain B blk i where t: "t = (B, blk, i)" by (cases t)
    have a: "acquired (im_Blocks s) (unat n) B blk (unat i)" using res(2) Some t by simp
    from acquired_owned [OF h a p] n have own: "pool_holds B (O'(p \<mapsto> (bb_Pointer blk, unat i, unat n)))" "blk \<in> set B"
      by (simp_all add: word_less_nat_alt)
    have "unat i + unat n \<le> unat (bb_BlockPageCount blk)" using a by (auto simp: acquired_def same_place_def)
    with own n have "granted B n (bb_Pointer blk) i (bb_BlockBase blk + ucast i * EFI_PAGE_SIZE)" by (auto simp: granted_def)
    then show ?thesis
      using False res(1) Some t own(1) by (simp add: IoMmuAcquireBouncePages_def EFI_ERROR_def)
  next
    case None
    obtain st r s' where pre: "IoMmuPreAllocateBounceBlock b env s (growth n) = Some (st, r, s')" "same_maps s s'"
        "if EFI_ERROR st then r = None \<and> im_Blocks s' = im_Blocks s
         else \<exists>blk. r = Some blk \<and> im_Blocks s' = im_Blocks s @ [blk] \<and> fresh_block (im_Blocks s) blk \<and> bb_BlockPageCount blk = growth n \<and>
           bb_InUsePageCount blk = 0"
      using prealloc [OF growth_ge(1) [OF n] env, of b] by blast
    show ?thesis
    proof (cases "EFI_ERROR st")
      case True
      then show ?thesis using False res(1) None pre by (simp add: IoMmuAcquireBouncePages_def growth_def Let_def)
    next
      case ok: False
      then obtain blk where blk: "r = Some blk" "im_Blocks s' = im_Blocks s @ [blk]" "fresh_block (im_Blocks s) blk"
          "bb_BlockPageCount blk = growth n" "bb_InUsePageCount blk = 0" using pre(3) by auto
      have f: "block_ok blk" "pages_in_use blk = {}" using blk(3) by (simp_all add: fresh_block_def)
      have r: "unat 0 + unat n \<le> unat (bb_BlockPageCount blk)" using growth_ge(2) [OF n] blk(4) by simp
      obtain M where M: "UpdateBitmapRun (bb_AllocBitmap blk) 0 n True = Some M" "block_ok (mark blk M n)"
          "pages_in_use (mark blk M n) = {0..<unat n}"
        using mark_run [OF f(1) r] f(2) blk(5) by auto
      have "pool_holds (im_Blocks s @ [mark blk M n]) (O'(p \<mapsto> (bb_Pointer blk, 0, unat n)))"
        using own_run [OF pool_append [OF h blk(3)] p, of "unat n" 0 "mark blk M n"] n r f(2) M(2,3)
        by (simp add: word_less_nat_alt)
      moreover have "granted (im_Blocks s @ [mark blk M n]) n (bb_Pointer blk) 0 (bb_BlockBase blk)"
        using n r by (auto simp: granted_def mark_def)
      ultimately show ?thesis
        using False res(1) None pre(1,2) blk(1,2) ok M(1) by (auto simp: IoMmuAcquireBouncePages_def growth_def [symmetric] Let_def EFI_ERROR_def mark_def)
    qed
  qed
qed

subsection \<open>Sizes and places\<close>

lemma unat_lt64: "unat (x :: u64) < 18446744073709551616"
  using unsigned_less [of x] by simp

lemma unat_pages: "unat (ucast (n :: u32) * EFI_PAGE_SIZE) = unat n * 4096"
proof -
  have u: "unat (ucast n :: u64) = unat n" using unat_lt32 [of n] by (simp add: unsigned_ucast_eq take_bit_nat_eq_self)
  have "unat (ucast n :: u64) * unat EFI_PAGE_SIZE < 2 ^ 64" unfolding u EFI_PAGE_SIZE_def using unat_lt32 [of n] by simp
  then have "unat (ucast n * EFI_PAGE_SIZE) = unat (ucast n :: u64) * unat EFI_PAGE_SIZE" by (subst unat_mult_lem [symmetric]) simp
  then show ?thesis by (simp add: u EFI_PAGE_SIZE_def)
qed

lemma granted_place:
  assumes "pool_holds Blocks O'" "granted Blocks n q i a"
  shows "unat a + unat n * 4096 \<le> 4294967296"
    "\<exists>blk \<in> set Blocks. bb_Pointer blk = q \<and> unat a = unat (bb_BlockBase blk) + unat i * 4096"
proof -
  obtain blk where blk: "blk \<in> set Blocks" "bb_Pointer blk = q" "unat i + unat n \<le> unat (bb_BlockPageCount blk)"
      "a = bb_BlockBase blk + ucast i * EFI_PAGE_SIZE"
    using assms(2) by (auto simp: granted_def)
  have ok: "unat (bb_BlockBase blk) + unat (bb_BlockPageCount blk) * 4096 \<le> 4294967296"
    using pool_holdsD(2) [OF assms(1) blk(1)] by (simp add: block_ok_def)
  have m: "unat i * 4096 + unat n * 4096 \<le> unat (bb_BlockPageCount blk) * 4096" using blk(3) by simp
  have a: "unat a = unat (bb_BlockBase blk) + unat i * 4096"
    unfolding blk(4) by (subst unat_add_lem [THEN iffD1]) (use ok m in \<open>simp_all add: unat_pages\<close>)
  then show "unat a + unat n * 4096 \<le> 4294967296" using ok m by simp
  show "\<exists>blk \<in> set Blocks. bb_Pointer blk = q \<and> unat a = unat (bb_BlockBase blk) + unat i * 4096" using a blk by blast
qed

lemma size_to_pages: "unat (EFI_SIZE_TO_PAGES n) = (unat n + 4095) div 4096"
proof -
  have d: "unat (drop_bit 12 n) = unat n div 4096" unfolding unat_drop_bit_eq by (simp add: drop_bit_eq_div)
  have "n AND 0xFFF = take_bit 12 n" by (simp add: take_bit_eq_mask mask_eq_exp_minus_1)
  then have "unat (n AND 0xFFF) = take_bit 12 (unat n)" by (simp only: unsigned_take_bit_eq)
  then have "unat (n AND 0xFFF) = unat n mod 4096" by (simp add: take_bit_eq_mod)
  then have m: "n AND 0xFFF \<noteq> 0 \<longleftrightarrow> unat n mod 4096 \<noteq> 0" by (metis unat_eq_zero unsigned_0)
  have "unat n div 4096 < 2 ^ 63" using unat_lt64 [of n] by simp
  then have u: "unat (drop_bit 12 n + 1) = unat n div 4096 + 1" by (subst unat_add_lem [THEN iffD1]) (simp_all add: d)
  have r: "(N + 4095) div 4096 = (if N mod 4096 \<noteq> 0 then N div 4096 + 1 else N div 4096)" for N :: nat
  proof -
    have N: "N = 4096 * (N div 4096) + N mod 4096" "N mod 4096 < 4096" by simp_all
    show ?thesis
      by (rule div_nat_eqI) (use N in \<open>cases "N mod 4096 = 0"; simp; linarith\<close>)+
  qed
  show ?thesis unfolding EFI_SIZE_TO_PAGES_def using m u d r by simp
qed

lemma bounce_pages:
  assumes "\<not> 0xFFFFFFFF < EFI_SIZE_TO_PAGES n"
  shows "unat (ucast (EFI_SIZE_TO_PAGES n) :: u32) = (unat n + 4095) div 4096" "unat n \<le> unat (ucast (EFI_SIZE_TO_PAGES n) :: u32) * 4096"
proof -
  have "unat (EFI_SIZE_TO_PAGES n) < 4294967296" using assms by (simp add: word_less_nat_alt not_less)
  then show u: "unat (ucast (EFI_SIZE_TO_PAGES n) :: u32) = (unat n + 4095) div 4096"
    by (simp add: unsigned_ucast_eq take_bit_nat_eq_self size_to_pages)
  show "unat n \<le> unat (ucast (EFI_SIZE_TO_PAGES n) :: u32) * 4096" unfolding u by linarith
qed

subsection \<open>Filling the bounce pages\<close>

definition fill :: "iommu \<Rightarrow> edkii_iommu_operation \<Rightarrow> u64 \<Rightarrow> u32 \<Rightarrow> u64 \<Rightarrow> u64 \<Rightarrow> iommu" where
  "fill s Operation BounceBase BouncePageCount HostAddress NumberOfBytes =
     (let SharedVa = IoMmuGetSharedVa s BounceBase; s = ZeroMem s SharedVa (ucast BouncePageCount * EFI_PAGE_SIZE)
      in if is_read Operation then CopyMem s SharedVa HostAddress NumberOfBytes else s)"

lemma length_load [simp]: "length (load s v n) = n"
  by (simp add: load_def)

lemma store_phys [simp]: "phys (store s v xs) = phys s"
  by (simp add: store_def phys_def fun_eq_iff)

lemma fill_same [simp]:
  "im_Maps (fill s op a c h n) = im_Maps s" "im_Blocks (fill s op a c h n) = im_Blocks s" "im_BounceMode (fill s op a c h n) = im_BounceMode s"
  "im_SharedGpaBoundary (fill s op a c h n) = im_SharedGpaBoundary s" "im_CanonicalizationMask (fill s op a c h n) = im_CanonicalizationMask s"
  "im_Allocs (fill s op a c h n) = im_Allocs s" "im_Calls (fill s op a c h n) = im_Calls s"
  by (simp_all add: fill_def Let_def ZeroMem_def CopyMem_def)

text \<open>The pages that the device sees from \<open>x\<close> on.\<close>

definition span :: "u64 \<Rightarrow> nat \<Rightarrow> u64 set" where
  "span x n = {y. unat (y - x) < n}"

lemma fill_memory:
  assumes g: "gpa_ok s" and a: "unat a + unat c * 4096 \<le> 4294967296" and n: "unat n \<le> unat c * 4096"
    and x: "x = IoMmuGetSharedPa s a"
  shows "y \<notin> span x (unat c * 4096) \<Longrightarrow> im_Memory (fill s op a c h n) y = im_Memory s y"
    "\<not> is_read op \<Longrightarrow> bytes_at (fill s op a c h n) x (unat c * 4096) = replicate (unat c * 4096) 0"
    "is_read op \<Longrightarrow> \<forall>k < unat n. phys s (h + of_nat k) \<notin> span x (unat c * 4096) \<Longrightarrow>
       bytes_at (fill s op a c h n) x (unat c * 4096) = load s h (unat n) @ replicate (unat c * 4096 - unat n) 0"
proof -
  let ?v = "IoMmuGetSharedVa s a" and ?N = "unat c * 4096"
  define z where "z = store s ?v (replicate ?N 0)"
  have f: "fill s op a c h n = (if is_read op then store z ?v (load z h (unat n)) else z)"
    by (simp add: fill_def Let_def ZeroMem_def CopyMem_def unat_pages z_def)
  have r: "reaches s ?v x ?N" unfolding x using reaches_shared [OF g a] .
  have zp: "phys z = phys s" by (simp add: z_def)
  have zr: "reaches z ?v x (unat n)" using reaches_mono [OF r n] by (simp add: reaches_def z_def)
  have zm: "im_Memory z = (\<lambda>y. if unat (y - x) < ?N then 0 else im_Memory s y)"
    unfolding z_def by (subst store_reaches [of _ _ x]) (use r in \<open>auto simp: fun_eq_iff\<close>)
  have fm: "im_Memory (store z ?v (load z h (unat n))) = (\<lambda>y. if unat (y - x) < unat n then load z h (unat n) ! unat (y - x) else im_Memory z y)"
    by (subst store_reaches [of _ _ x]) (use zr in \<open>simp_all add: load_def fun_eq_iff\<close>)
  show "im_Memory (fill s op a c h n) y = im_Memory s y" if "y \<notin> span x ?N"
    using that n by (auto simp: f fm zm span_def)
  have off: "unat (x + of_nat k - x) = k" if "k < ?N" for k using that a by (simp add: unat_of_nat64)
  show "bytes_at (fill s op a c h n) x ?N = replicate ?N 0" if "\<not> is_read op"
    by (rule nth_equalityI) (use that off in \<open>simp_all add: f bytes_at_nth zm\<close>)
  show "bytes_at (fill s op a c h n) x ?N = load s h (unat n) @ replicate (?N - unat n) 0"
    if rd: "is_read op" and host: "\<forall>k < unat n. phys s (h + of_nat k) \<notin> span x ?N"
  proof -
    have l: "load z h (unat n) = load s h (unat n)"
      unfolding load_def using host by (intro map_cong) (auto simp: zm zp span_def)
    show ?thesis
      by (rule nth_equalityI) (use rd off n in \<open>simp_all add: f bytes_at_nth fm [unfolded l] zm l nth_append length_load\<close>)
  qed
qed

subsection \<open>The invariant\<close>

text \<open>The run of pages that a mapping owns; mappings without a bounce block own none.\<close>

definition owner :: "iommu \<Rightarrow> nat \<Rightarrow> run option" where
  "owner s p = (case im_Maps s p of
     None \<Rightarrow> None
   | Some m \<Rightarrow> map_option (\<lambda>q. (q, unat (mc_BounceStartPage m), unat (mc_BouncePageCount m))) (mc_BounceBlock m))"

definition context_ok :: "iommu_bounce_block list \<Rightarrow> iommu_map_context \<Rightarrow> bool" where
  "context_ok Blocks m \<longleftrightarrow> mc_Signature m = IOMMU_MAP_CONTEXT_SIGNATURE \<and> \<not> is_common (mc_Operation m) \<and>
     (case mc_BounceBlock m of
        None \<Rightarrow> True
      | Some q \<Rightarrow> granted Blocks (mc_BouncePageCount m) q (mc_BounceStartPage m) (mc_BounceBase m) \<and>
          unat (mc_NumberOfBytes m) \<le> unat (mc_BouncePageCount m) * 4096)"

definition iommu_ok :: "iommu \<Rightarrow> bool" where
  "iommu_ok s \<longleftrightarrow> gpa_ok s \<and> pool_holds (im_Blocks s) (owner s) \<and> (\<forall>p m. im_Maps s p = Some m \<longrightarrow> context_ok (im_Blocks s) m)"

lemma iommu_okD:
  assumes "iommu_ok s"
  shows "gpa_ok s" "pool_holds (im_Blocks s) (owner s)" "im_Maps s p = Some m \<Longrightarrow> context_ok (im_Blocks s) m"
  using assms by (simp_all add: iommu_ok_def)

lemma owner_cong: "im_Maps s' = im_Maps s \<Longrightarrow> owner s' = owner s"
  by (simp add: owner_def fun_eq_iff)

lemma owner_upd:
  "im_Maps s' = (im_Maps s)(p \<mapsto> m) \<Longrightarrow> mc_BounceBlock m = Some q \<Longrightarrow>
   owner s' = (owner s)(p \<mapsto> (q, unat (mc_BounceStartPage m), unat (mc_BouncePageCount m)))"
  "im_Maps s' = (im_Maps s)(p \<mapsto> m) \<Longrightarrow> mc_BounceBlock m = None \<Longrightarrow> im_Maps s p = None \<Longrightarrow> owner s' = owner s"
  "im_Maps s' = (im_Maps s)(p := None) \<Longrightarrow> owner s' = (owner s)(p := None)"
  by (auto simp: owner_def fun_eq_iff)

lemma iommu_ok_cong:
  assumes "im_Maps s' = im_Maps s" "im_Blocks s' = im_Blocks s" "im_SharedGpaBoundary s' = im_SharedGpaBoundary s"
    "im_CanonicalizationMask s' = im_CanonicalizationMask s"
  shows "iommu_ok s' = iommu_ok s"
  using assms owner_cong [OF assms(1)] by (simp add: iommu_ok_def gpa_ok_def)

text \<open>Blocks keep their places: what was granted stays granted.\<close>

definition keeps_places :: "iommu_bounce_block list \<Rightarrow> iommu_bounce_block list \<Rightarrow> bool" where
  "keeps_places Blocks Blocks' \<longleftrightarrow> (\<forall>blk \<in> set Blocks. \<exists>blk' \<in> set Blocks'. same_place blk blk')"

lemma keeps_places_refl [simp]: "keeps_places B B"
  by (auto simp: keeps_places_def same_place_def)

lemma keeps_places_trans: "keeps_places A B \<Longrightarrow> keeps_places B C \<Longrightarrow> keeps_places A C"
  unfolding keeps_places_def same_place_def by (metis (no_types))

lemma granted_keeps: "granted Blocks n q i a \<Longrightarrow> keeps_places Blocks Blocks' \<Longrightarrow> granted Blocks' n q i a"
  unfolding granted_def keeps_places_def same_place_def by metis

lemma context_ok_keeps: "context_ok Blocks m \<Longrightarrow> keeps_places Blocks Blocks' \<Longrightarrow> context_ok Blocks' m"
  by (auto simp: context_ok_def granted_keeps split: option.splits)

lemma update_block_keeps:
  "update_block q (release_pages b i n) Blocks = Some Blocks' \<Longrightarrow> keeps_places Blocks Blocks'"
proof (induction Blocks arbitrary: Blocks')
  case (Cons blk Blocks)
  show ?case
  proof (cases "bb_Pointer blk = q")
    case True
    with Cons.prems obtain blk' where "release_pages b i n blk = Some blk'" "Blocks' = blk' # Blocks" by auto
    moreover from this(1) have "same_place blk blk'"
      by (auto simp: release_pages_def same_place_def ASSERT_def split: bind_splits if_splits)
    ultimately show ?thesis by (auto simp: keeps_places_def same_place_def)
  next
    case False
    with Cons.prems obtain Bs where "update_block q (release_pages b i n) Blocks = Some Bs" "Blocks' = blk # Bs" by auto
    then show ?thesis using Cons.IH [of Bs] by (auto simp: keeps_places_def same_place_def)
  qed
qed simp

lemma acquire_from_keeps: "acquire_from Blocks n = Some (Some (Blocks', blk, i)) \<Longrightarrow> keeps_places Blocks Blocks'"
proof (induction Blocks arbitrary: Blocks')
  case (Cons c Blocks)
  then show ?case
    by (auto simp: keeps_places_def same_place_def Let_def split: bind_splits option.splits if_splits)
qed simp

lemma prealloc_keeps: "IoMmuPreAllocateBounceBlock b env s n = Some (st, r, s') \<Longrightarrow> keeps_places (im_Blocks s) (im_Blocks s')"
proof -
  assume a: "IoMmuPreAllocateBounceBlock b env s n = Some (st, r, s')"
  obtain st1 ctx s1 where p: "IoMmuPrepareAddressRangeForDma (be_Hv env) s (snd (be_Pages env)) n = (st1, ctx, s1)"
    by (metis prod_cases3)
  show ?thesis
    using a prepare_same(2) [OF p] p
    by (auto simp: IoMmuPreAllocateBounceBlock_def Let_def keeps_places_def same_place_def ASSERT_def split: option.splits if_splits bind_splits)
qed

lemma acquire_keeps:
  assumes "IoMmuAcquireBouncePages b env s n = Some (st, r, s')"
    and "\<And>st' c s1. IoMmuPreAllocateBounceBlock b env s (growth n) = Some (st', Some c, s1) \<Longrightarrow> im_Blocks s1 = im_Blocks s @ [c]"
  shows "keeps_places (im_Blocks s) (im_Blocks s')"
proof (cases "n = 0")
  case True
  then show ?thesis using assms(1) by (simp add: IoMmuAcquireBouncePages_def)
next
  case False
  with assms(1) obtain found where f: "acquire_from (im_Blocks s) n = Some found"
    by (cases "acquire_from (im_Blocks s) n") (simp_all add: IoMmuAcquireBouncePages_def)
  show ?thesis
  proof (cases found)
    case (Some t)
    obtain B blk i where t: "t = (B, blk, i)" by (cases t)
    then show ?thesis using False assms(1) f Some acquire_from_keeps [of "im_Blocks s" n B blk i]
      by (auto simp: IoMmuAcquireBouncePages_def)
  next
    case None
    have g: "(if n < IOMMU_BOUNCE_GROWTH_BLOCK_PAGES then IOMMU_BOUNCE_GROWTH_BLOCK_PAGES else n) = growth n" by (simp add: growth_def)
    obtain st1 c s1 where p: "IoMmuPreAllocateBounceBlock b env s (growth n) = Some (st1, c, s1)"
      using False assms(1) f None by (auto simp: IoMmuAcquireBouncePages_def g Let_def split: bind_splits)
    show ?thesis
      using False assms(1) f None p prealloc_keeps [OF p] assms(2) [of st1 _ s1]
      by (auto simp: IoMmuAcquireBouncePages_def g Let_def keeps_places_def same_place_def split: bind_splits if_splits)
  qed
qed

end
