(* ===== verification/Iommu_Map.thy ===== *)
theory Iommu_Map
  imports Iommu_State
begin

text \<open>
  Mapping and unmapping keep the state of the IOMMU driver in order, return on every path, and
  move the bytes of the transfer.
\<close>

subsection \<open>Mapping through bounce pages\<close>

text \<open>What the allocators promise for a mapping of \<open>n\<close> bytes: also a context that is not in use.\<close>

definition map_env_ok :: "map_env \<Rightarrow> iommu \<Rightarrow> u64 \<Rightarrow> bool" where
  "map_env_ok env s n \<longleftrightarrow> block_env_ok (me_Block env) (im_Blocks s) (unat (growth (ucast (EFI_SIZE_TO_PAGES n)))) \<and>
     (\<forall>p. me_Context env = Some p \<longrightarrow> im_Maps s p = None)"

definition bounce_context ::
  "edkii_iommu_operation \<Rightarrow> u64 \<Rightarrow> u64 \<Rightarrow> u64 \<Rightarrow> nat \<Rightarrow> u32 \<Rightarrow> iommu_map_context" where
  "bounce_context op h n a q i = \<lparr>mc_Signature = IOMMU_MAP_CONTEXT_SIGNATURE, mc_Operation = op, mc_HostAddress = h, mc_NumberOfBytes = n,
     mc_BounceBase = a, mc_BouncePageCount = ucast (EFI_SIZE_TO_PAGES n), mc_BounceBlock = Some q, mc_BounceStartPage = i\<rparr>"

text \<open>A successful mapping: the pages come from \<open>s1\<close>, a state that differs from \<open>s\<close> in the blocks and calls.\<close>

definition mapped ::
  "iommu \<Rightarrow> edkii_iommu_operation \<Rightarrow> u64 \<Rightarrow> u64 \<Rightarrow> nat \<Rightarrow> map_result \<Rightarrow> iommu \<Rightarrow> u64 \<Rightarrow> bool" where
  "mapped s op h n p r s' a \<longleftrightarrow> (\<exists>s1 q i. same_maps s s1 \<and> im_Blocks s' = im_Blocks s1 \<and>
     s' = (fill s1 op a (ucast (EFI_SIZE_TO_PAGES n)) h n)\<lparr>im_Maps := (im_Maps s)(p \<mapsto> bounce_context op h n a q i)\<rparr> \<and>
     unat a + unat (ucast (EFI_SIZE_TO_PAGES n) :: u32) * 4096 \<le> 4294967296 \<and> unat n \<le> unat (ucast (EFI_SIZE_TO_PAGES n) :: u32) * 4096 \<and>
     r = \<lparr>mr_NumberOfBytes = n, mr_DeviceAddress = Some (IoMmuGetSharedPa s a), mr_Mapping = Some (Some p)\<rparr>)"

lemma shared_pa_cong:
  "same_maps s s' \<Longrightarrow> IoMmuGetSharedPa s' a = IoMmuGetSharedPa s a"
  by (simp add: same_maps_def IoMmuGetSharedPa_def Let_def)

lemma map_bounce_fill:
  "map_bounce b env s op h n =
     (let c = ucast (EFI_SIZE_TO_PAGES n); unchanged = \<lparr>mr_NumberOfBytes = n, mr_DeviceAddress = None, mr_Mapping = None\<rparr> in
      if 0xFFFFFFFF < EFI_SIZE_TO_PAGES n then Some (EFI_OUT_OF_RESOURCES, unchanged, s)
      else do {
        (Status, found, s) \<leftarrow> IoMmuAcquireBouncePages b (me_Block env) s c;
        if EFI_ERROR Status then Some (EFI_OUT_OF_RESOURCES, unchanged, s)
        else do {
          (q, i, a) \<leftarrow> found;
          let s' = fill s op a c h n;
          let result = unchanged\<lparr>mr_DeviceAddress := Some (IoMmuGetSharedPa s a)\<rparr>;
          case me_Context env of
            None \<Rightarrow> do {
              s \<leftarrow> IoMmuReleaseBouncePages b s' q i c;
              Some (EFI_OUT_OF_RESOURCES, result, s)
            }
          | Some p \<Rightarrow> Some (EFI_SUCCESS, result\<lparr>mr_Mapping := Some (Some p)\<rparr>, s'\<lparr>im_Maps := (im_Maps s)(p \<mapsto> bounce_context op h n a q i)\<rparr>)
        }
      })"
proof -
  have f: "IoMmuGetSharedPa (fill s op a c h n) x = IoMmuGetSharedPa s x" for s a c x by (simp add: IoMmuGetSharedPa_def Let_def)
  have e: "(if is_read op then CopyMem (ZeroMem s (IoMmuGetSharedVa s a) (ucast c * EFI_PAGE_SIZE)) (IoMmuGetSharedVa s a) h n
      else ZeroMem s (IoMmuGetSharedVa s a) (ucast c * EFI_PAGE_SIZE)) = fill s op a c h n" for s a c
    by (simp add: fill_def Let_def)
  show ?thesis unfolding map_bounce_def Let_def e f fill_same bounce_context_def ..
qed

lemma gpa_ok_cong: "same_maps s s' \<Longrightarrow> gpa_ok s' = gpa_ok s"
  by (simp add: same_maps_def gpa_ok_def)

lemma unused_handle: "pool_holds Blocks O' \<Longrightarrow> \<exists>p. O' p = None"
  unfolding pool_holds_def by (metis domIff ex_new_if_finite infinite_UNIV_nat)

lemma unused_context: "map_env_ok env s n \<Longrightarrow> me_Context env = Some p \<Longrightarrow> owner s p = None"
  by (simp add: map_env_ok_def owner_def)

text \<open>Pages are acquired for the handle \<open>p\<close>, and the state stays in order.\<close>

lemma acquire_ok:
  assumes ok: "iommu_ok s" and env: "block_env_ok env (im_Blocks s) (unat (growth n))" and p: "owner s p = None"
  shows "\<exists>st r s'. IoMmuAcquireBouncePages b env s n = Some (st, r, s') \<and> same_maps s s' \<and> keeps_places (im_Blocks s) (im_Blocks s') \<and>
    (if EFI_ERROR st then r = None \<and> im_Blocks s' = im_Blocks s
     else \<exists>q i a. r = Some (q, i, a) \<and> granted (im_Blocks s') n q i a \<and> pool_holds (im_Blocks s') ((owner s)(p \<mapsto> (q, unat i, unat n))))"
proof -
  obtain st r s' where a: "IoMmuAcquireBouncePages b env s n = Some (st, r, s')" "same_maps s s'"
      "if EFI_ERROR st then r = None \<and> im_Blocks s' = im_Blocks s
       else \<exists>q i a. r = Some (q, i, a) \<and> granted (im_Blocks s') n q i a \<and> pool_holds (im_Blocks s') ((owner s)(p \<mapsto> (q, unat i, unat n)))"
    using acquire_pages [OF iommu_okD(2) [OF ok] env p, of b] by blast
  have "im_Blocks s1 = im_Blocks s @ [c]" if pre: "IoMmuPreAllocateBounceBlock b env s (growth n) = Some (st', Some c, s1)" for st' c s1
  proof -
    have "n \<noteq> 0 \<or> growth n = 32" by (auto simp: growth_def IOMMU_BOUNCE_GROWTH_BLOCK_PAGES_def)
    then have "0 < growth n" using growth_ge(1) [of n] by (auto simp: word_neq_0_conv)
    from prealloc [OF this env, of b] pre show ?thesis by (auto split: if_splits)
  qed
  then have "keeps_places (im_Blocks s) (im_Blocks s')" by (rule acquire_keeps [OF a(1)])
  with a show ?thesis by blast
qed

lemma release_ok:
  assumes h: "pool_holds (im_Blocks s) O'" and p: "O' p = Some (q, unat i, unat n)"
  shows "\<exists>B. IoMmuReleaseBouncePages b s q i n = Some (s\<lparr>im_Blocks := B\<rparr>) \<and> pool_holds B (O'(p := None)) \<and> keeps_places (im_Blocks s) B"
  using release_block [OF h p, of b] update_block_keeps by (auto simp: IoMmuReleaseBouncePages_def)

lemma iommu_okI:
  "gpa_ok s \<Longrightarrow> pool_holds (im_Blocks s) (owner s) \<Longrightarrow> (\<And>p m. im_Maps s p = Some m \<Longrightarrow> context_ok (im_Blocks s) m) \<Longrightarrow> iommu_ok s"
  by (simp add: iommu_ok_def)

text \<open>The two ends of a mapping whose pages were granted in \<open>s1\<close>: without and with a context.\<close>

lemma abandon_run:
  assumes ok: "iommu_ok s" and p: "owner s p = None"
    and s1: "same_maps s s1" "keeps_places (im_Blocks s) (im_Blocks s1)" "pool_holds (im_Blocks s1) ((owner s)(p \<mapsto> (q, unat i, unat c)))"
  shows "\<exists>B. IoMmuReleaseBouncePages b (fill s1 op x c h n) q i c = Some ((fill s1 op x c h n)\<lparr>im_Blocks := B\<rparr>) \<and>
    iommu_ok ((fill s1 op x c h n)\<lparr>im_Blocks := B\<rparr>)"
proof -
  obtain B where B: "IoMmuReleaseBouncePages b (fill s1 op x c h n) q i c = Some ((fill s1 op x c h n)\<lparr>im_Blocks := B\<rparr>)"
      "pool_holds B ((owner s)(p := None))" "keeps_places (im_Blocks s1) B"
    using release_ok [of "fill s1 op x c h n" "(owner s)(p \<mapsto> (q, unat i, unat c))" p q i c b] s1(3) by auto
  let ?s = "(fill s1 op x c h n)\<lparr>im_Blocks := B\<rparr>"
  have m: "im_Maps ?s = im_Maps s" using s1(1) by (simp add: same_maps_def)
  have own: "(owner s)(p := None) = owner ?s" using p owner_cong [OF m] by (simp add: fun_eq_iff)
  have "iommu_ok ?s"
  proof (rule iommu_okI)
    show "gpa_ok ?s" using iommu_okD(1) [OF ok] s1(1) by (simp add: gpa_ok_def same_maps_def)
    show "pool_holds (im_Blocks ?s) (owner ?s)" using B(2) unfolding own by simp
    show "context_ok (im_Blocks ?s) m'" if "im_Maps ?s p' = Some m'" for p' m'
      using context_ok_keeps [OF context_ok_keeps [OF iommu_okD(3) [OF ok] s1(2)] B(3)] that unfolding m by simp
  qed
  with B(1) show ?thesis by blast
qed

lemma commit_run:
  assumes ok: "iommu_ok s" and op: "\<not> is_common op" and n: "unat n \<le> unat (ucast (EFI_SIZE_TO_PAGES n) :: u32) * 4096"
    and s1: "same_maps s s1" "keeps_places (im_Blocks s) (im_Blocks s1)"
    and run: "granted (im_Blocks s1) (ucast (EFI_SIZE_TO_PAGES n)) q i x"
      "pool_holds (im_Blocks s1) ((owner s)(p \<mapsto> (q, unat i, unat (ucast (EFI_SIZE_TO_PAGES n) :: u32))))"
  shows "iommu_ok ((fill s1 op x (ucast (EFI_SIZE_TO_PAGES n)) h n)\<lparr>im_Maps := (im_Maps s1)(p \<mapsto> bounce_context op h n x q i)\<rparr>)"
    (is "iommu_ok ?s")
proof -
  let ?m = "bounce_context op h n x q i"
  have m: "im_Maps ?s = (im_Maps s)(p \<mapsto> ?m)" using s1(1) by (simp add: same_maps_def)
  have own: "owner ?s = (owner s)(p \<mapsto> (q, unat i, unat (ucast (EFI_SIZE_TO_PAGES n) :: u32)))"
    using owner_upd(1) [OF m, of q] by (simp add: bounce_context_def)
  have new: "context_ok (im_Blocks s1) ?m" using run(1) op n by (simp add: context_ok_def bounce_context_def)
  show ?thesis
  proof (rule iommu_okI)
    show "gpa_ok ?s" using iommu_okD(1) [OF ok] s1(1) by (simp add: gpa_ok_def same_maps_def)
    show "pool_holds (im_Blocks ?s) (owner ?s)" using run(2) unfolding own by simp
    show "context_ok (im_Blocks ?s) m'" if "im_Maps ?s p' = Some m'" for p' m'
      using context_ok_keeps [OF iommu_okD(3) [OF ok, of p' m'] s1(2)] that new unfolding m by (auto split: if_splits)
  qed
qed

lemma map_bounce_ok:
  assumes ok: "iommu_ok s" and env: "map_env_ok env s n" and op: "\<not> is_common op"
  shows "\<exists>st r s'. map_bounce b env s op h n = Some (st, r, s') \<and> iommu_ok s' \<and> im_BounceMode s' = im_BounceMode s \<and>
    (if EFI_ERROR st then im_Maps s' = im_Maps s else st = EFI_SUCCESS \<and> (\<exists>p a. me_Context env = Some p \<and> mapped s op h n p r s' a))"
proof (cases "0xFFFFFFFF < EFI_SIZE_TO_PAGES n")
  case True
  then show ?thesis using ok by (simp add: map_bounce_def EFI_ERROR_def)
next
  case False
  let ?c = "ucast (EFI_SIZE_TO_PAGES n) :: u32"
  note le = bounce_pages(2) [OF False]
  have benv: "block_env_ok (me_Block env) (im_Blocks s) (unat (growth ?c))" using env by (simp add: map_env_ok_def)
  obtain p where p: "owner s p = None" "me_Context env = None \<or> me_Context env = Some p"
    using unused_handle [OF iommu_okD(2) [OF ok]] unused_context [OF env] by (cases "me_Context env") blast+
  obtain st found s1 where a: "IoMmuAcquireBouncePages b (me_Block env) s ?c = Some (st, found, s1)" "same_maps s s1"
      "keeps_places (im_Blocks s) (im_Blocks s1)"
      "if EFI_ERROR st then found = None \<and> im_Blocks s1 = im_Blocks s
       else \<exists>q i a. found = Some (q, i, a) \<and> granted (im_Blocks s1) ?c q i a \<and> pool_holds (im_Blocks s1) ((owner s)(p \<mapsto> (q, unat i, unat ?c)))"
    using acquire_ok [OF ok benv p(1), of b] by blast
  have s1: "im_Maps s1 = im_Maps s" "gpa_ok s1" "im_BounceMode s1 = im_BounceMode s"
    using a(2) iommu_okD(1) [OF ok] gpa_ok_cong [OF a(2)] by (simp_all add: same_maps_def)
  show ?thesis
  proof (cases "EFI_ERROR st")
    case True
    then have "iommu_ok s1" using a(2,4) ok iommu_ok_cong [of s1 s] by (simp add: same_maps_def)
    then show ?thesis using False a(1) True s1 by (simp add: map_bounce_fill Let_def EFI_ERROR_def)
  next
    case good: False
    then obtain q i x where f: "found = Some (q, i, x)" "granted (im_Blocks s1) ?c q i x"
        "pool_holds (im_Blocks s1) ((owner s)(p \<mapsto> (q, unat i, unat ?c)))"
      using a(4) by auto
    have eq: "map_bounce b env s op h n =
      (case me_Context env of
         None \<Rightarrow> do {
           s \<leftarrow> IoMmuReleaseBouncePages b (fill s1 op x ?c h n) q i ?c;
           Some (EFI_OUT_OF_RESOURCES, \<lparr>mr_NumberOfBytes = n, mr_DeviceAddress = Some (IoMmuGetSharedPa s1 x), mr_Mapping = None\<rparr>, s)
         }
       | Some p \<Rightarrow> Some (EFI_SUCCESS, \<lparr>mr_NumberOfBytes = n, mr_DeviceAddress = Some (IoMmuGetSharedPa s1 x), mr_Mapping = Some (Some p)\<rparr>,
           (fill s1 op x ?c h n)\<lparr>im_Maps := (im_Maps s1)(p \<mapsto> bounce_context op h n x q i)\<rparr>))"
      using False good by (simp add: map_bounce_fill a(1) f(1) Let_def cong: option.case_cong)
    show ?thesis
    proof (cases "me_Context env")
      case None
      then show ?thesis using eq abandon_run [OF ok p(1) a(2,3) f(3), of b op x h n] s1(1,3) by (auto simp: EFI_ERROR_def)
    next
      case (Some p')
      then have p': "p' = p" using p(2) by simp
      let ?s = "(fill s1 op x ?c h n)\<lparr>im_Maps := (im_Maps s1)(p \<mapsto> bounce_context op h n x q i)\<rparr>"
      have "iommu_ok ?s" by (rule commit_run [OF ok op le a(2,3) f(2,3)])
      moreover have "mapped s op h n p \<lparr>mr_NumberOfBytes = n, mr_DeviceAddress = Some (IoMmuGetSharedPa s1 x), mr_Mapping = Some (Some p)\<rparr> ?s x"
        unfolding mapped_def using a(2) s1(1) le granted_place(1) [OF f(3,2)] shared_pa_cong [OF a(2), of x]
        by (intro exI [of _ s1] exI [of _ q] exI [of _ i]) simp
      ultimately show ?thesis using eq Some p' s1 by (auto simp: EFI_ERROR_def)
    qed
  qed
qed

subsection \<open>Mapping\<close>

lemma copy_same [simp]:
  "im_Maps (CopyMem s d f n) = im_Maps s" "im_Blocks (CopyMem s d f n) = im_Blocks s" "im_BounceMode (CopyMem s d f n) = im_BounceMode s"
  "im_SharedGpaBoundary (CopyMem s d f n) = im_SharedGpaBoundary s" "im_CanonicalizationMask (CopyMem s d f n) = im_CanonicalizationMask s"
  "im_Allocs (CopyMem s d f n) = im_Allocs s" "im_Calls (CopyMem s d f n) = im_Calls s"
  by (simp_all add: CopyMem_def)

lemma call_same [simp]:
  "im_Maps (record_call c s) = im_Maps s" "im_BounceMode (record_call c s) = im_BounceMode s" "im_Memory (record_call c s) = im_Memory s"
  "im_SharedGpaBoundary (record_call c s) = im_SharedGpaBoundary s" "im_CanonicalizationMask (record_call c s) = im_CanonicalizationMask s"
  "im_Allocs (record_call c s) = im_Allocs s" "im_Calls (record_call c s) = im_Calls s @ [c]"
  by (simp_all add: record_call_def)

text \<open>A context of its own pages changes no owner.\<close>

lemma iommu_ok_direct:
  assumes ok: "iommu_ok s" and p: "im_Maps s p = None" and m: "mc_Signature m = IOMMU_MAP_CONTEXT_SIGNATURE" "\<not> is_common (mc_Operation m)" "mc_BounceBlock m = None"
    and s': "im_Maps s' = (im_Maps s)(p \<mapsto> m)" "im_Blocks s' = im_Blocks s" "im_SharedGpaBoundary s' = im_SharedGpaBoundary s"
      "im_CanonicalizationMask s' = im_CanonicalizationMask s"
  shows "iommu_ok s'"
proof (rule iommu_okI)
  show "gpa_ok s'" using iommu_okD(1) [OF ok] s'(3,4) by (simp add: gpa_ok_def)
  show "pool_holds (im_Blocks s') (owner s')" using iommu_okD(2) [OF ok] owner_upd(2) [OF s'(1) m(3) p] s'(2) by simp
  show "context_ok (im_Blocks s') m'" if "im_Maps s' p' = Some m'" for p' m'
    using that iommu_okD(3) [OF ok, of p' m'] m s'(1,2) by (auto simp: context_ok_def split: if_splits)
qed

text \<open>The live mappings of \<open>s\<close> are those of \<open>s'\<close>, which has at most a new one.\<close>

definition adds_map :: "map_env \<Rightarrow> iommu \<Rightarrow> iommu \<Rightarrow> bool" where
  "adds_map env s s' \<longleftrightarrow> im_Maps s' = im_Maps s \<or> (\<exists>p m. me_Context env = Some p \<and> im_Maps s' = (im_Maps s)(p \<mapsto> m))"

lemma map_direct_ok:
  assumes ok: "iommu_ok s" and env: "map_env_ok env s n" and d: "map_direct env s op h n = (st, r, s')"
  shows "iommu_ok s'" "im_BounceMode s' = im_BounceMode s" "adds_map env s s'" "im_Blocks s' = im_Blocks s" "im_Allocs s' = im_Allocs s"
proof -
  have p: "me_Context env = Some p \<Longrightarrow> im_Maps s p = None" for p using env by (simp add: map_env_ok_def)
  show "im_BounceMode s' = im_BounceMode s" "adds_map env s s'" "im_Blocks s' = im_Blocks s" "im_Allocs s' = im_Allocs s"
    using d by (auto simp: map_direct_def adds_map_def Let_def split: if_splits option.splits prod.splits)
  show "iommu_ok s'"
  proof (cases "im_Maps s' = im_Maps s")
    case True
    then show ?thesis
      using ok d iommu_ok_cong [of s' s] by (auto simp: map_direct_def Let_def split: if_splits option.splits prod.splits)
  next
    case False
    then obtain q m where "me_Context env = Some q" "im_Maps s' = (im_Maps s)(q \<mapsto> m)"
        "mc_Signature m = IOMMU_MAP_CONTEXT_SIGNATURE" "\<not> is_common (mc_Operation m)" "mc_BounceBlock m = None"
        "im_Blocks s' = im_Blocks s" "im_SharedGpaBoundary s' = im_SharedGpaBoundary s" "im_CanonicalizationMask s' = im_CanonicalizationMask s"
      using d by (auto simp: map_direct_def Let_def is_common_def split: if_splits option.splits prod.splits)
    then show ?thesis using iommu_ok_direct [OF ok] p by blast
  qed
qed

lemma map_ok:
  assumes ok: "iommu_ok s" and env: "map_env_ok env s n"
  shows "\<exists>st r s'. IoMmuMap b env s op h n = Some (st, r, s') \<and> iommu_ok s' \<and> im_BounceMode s' = im_BounceMode s \<and> adds_map env s s'"
proof (cases "IoMmuIsBounceActive s \<and> \<not> is_common op")
  case True
  obtain st r s' where m: "map_bounce b env s op h n = Some (st, r, s')" "iommu_ok s'" "im_BounceMode s' = im_BounceMode s"
      "if EFI_ERROR st then im_Maps s' = im_Maps s else st = EFI_SUCCESS \<and> (\<exists>p a. me_Context env = Some p \<and> mapped s op h n p r s' a)"
    using map_bounce_ok [OF ok env, of op b h] True by blast
  have "adds_map env s s'" using m(4) by (auto simp: adds_map_def mapped_def split: if_splits)
  then show ?thesis using True m(1-3) by (simp add: IoMmuMap_def)
next
  case False
  obtain st r s' where d: "map_direct env s op h n = (st, r, s')" by (metis prod_cases3)
  show ?thesis using False ok d map_direct_ok [OF ok env d] by (auto simp: IoMmuMap_def adds_map_def)
qed

subsection \<open>Unmapping\<close>

lemma unmap_ok:
  assumes ok: "iommu_ok s" and p: "im_Maps s p = Some m"
  shows "\<exists>s'. IoMmuUnmap b s (Some p) = Some (EFI_SUCCESS, s') \<and> iommu_ok s' \<and> im_Maps s' = (im_Maps s)(p := None) \<and>
    im_BounceMode s' = im_BounceMode s \<and> im_SharedGpaBoundary s' = im_SharedGpaBoundary s \<and> im_CanonicalizationMask s' = im_CanonicalizationMask s \<and>
    im_Allocs s' = im_Allocs s \<and>
    im_Memory s' = (if is_write (mc_Operation m)
      then im_Memory (CopyMem s (mc_HostAddress m) (if mc_BounceBlock m = None then mc_BounceBase m else IoMmuGetSharedVa s (mc_BounceBase m)) (mc_NumberOfBytes m))
      else im_Memory s)"
proof (cases "mc_BounceBlock m")
  case None
  define s1 where "s1 = (if is_write (mc_Operation m) then CopyMem s (mc_HostAddress m) (mc_BounceBase m) (mc_NumberOfBytes m) else s)"
  let ?s = "(record_call (FreePagesCall (mc_BounceBase m) (ucast (mc_BouncePageCount m))) s1)\<lparr>im_Maps := (im_Maps s)(p := None)\<rparr>"
  have same: "im_Blocks s1 = im_Blocks s" "im_Maps s1 = im_Maps s" "im_SharedGpaBoundary s1 = im_SharedGpaBoundary s" "im_BounceMode s1 = im_BounceMode s"
      "im_CanonicalizationMask s1 = im_CanonicalizationMask s" "im_Allocs s1 = im_Allocs s"
    by (simp_all add: s1_def)
  have "owner s p = None" using p None by (simp add: owner_def)
  then have own: "owner ?s = owner s" using owner_upd(3) [of ?s s p] by (simp add: fun_eq_iff)
  have "iommu_ok ?s"
  proof (rule iommu_okI)
    show "gpa_ok ?s" using iommu_okD(1) [OF ok] same by (simp add: gpa_ok_def)
    show "pool_holds (im_Blocks ?s) (owner ?s)" unfolding own using iommu_okD(2) [OF ok] same by simp
    show "context_ok (im_Blocks ?s) m'" if "im_Maps ?s p' = Some m'" for p' m'
      using that iommu_okD(3) [OF ok, of p' m'] same by (auto split: if_splits)
  qed
  moreover have "IoMmuUnmap b s (Some p) = Some (EFI_SUCCESS, ?s)"
    using p None iommu_okD(3) [OF ok p] by (simp add: IoMmuUnmap_def s1_def context_ok_def Let_def)
  ultimately show ?thesis using same None by (simp add: s1_def)
next
  case (Some q)
  define s1 where "s1 = (if is_write (mc_Operation m)
    then CopyMem s (mc_HostAddress m) (IoMmuGetSharedVa s (mc_BounceBase m)) (mc_NumberOfBytes m) else s)"
  have same: "im_Blocks s1 = im_Blocks s" "im_Maps s1 = im_Maps s" "im_SharedGpaBoundary s1 = im_SharedGpaBoundary s" "im_BounceMode s1 = im_BounceMode s"
      "im_CanonicalizationMask s1 = im_CanonicalizationMask s" "im_Allocs s1 = im_Allocs s"
    by (simp_all add: s1_def)
  have own: "owner s p = Some (q, unat (mc_BounceStartPage m), unat (mc_BouncePageCount m))" using p Some by (simp add: owner_def)
  obtain B where B: "IoMmuReleaseBouncePages b s1 q (mc_BounceStartPage m) (mc_BouncePageCount m) = Some (s1\<lparr>im_Blocks := B\<rparr>)"
      "pool_holds B ((owner s)(p := None))" "keeps_places (im_Blocks s) B"
    using release_ok [of s1 "owner s", OF _ own, of b] iommu_okD(2) [OF ok] same(1) by auto
  let ?s = "s1\<lparr>im_Blocks := B, im_Maps := (im_Maps s)(p := None)\<rparr>"
  have "iommu_ok ?s"
  proof (rule iommu_okI)
    show "gpa_ok ?s" using iommu_okD(1) [OF ok] same by (simp add: gpa_ok_def)
    show "pool_holds (im_Blocks ?s) (owner ?s)" using B(2) owner_upd(3) [of ?s s p] by simp
    show "context_ok (im_Blocks ?s) m'" if "im_Maps ?s p' = Some m'" for p' m'
      using that context_ok_keeps [OF iommu_okD(3) [OF ok, of p' m'] B(3)] by (auto split: if_splits)
  qed
  moreover have "IoMmuUnmap b s (Some p) = Some (EFI_SUCCESS, ?s)"
    using p Some iommu_okD(3) [OF ok p] B(1) same(2) by (simp add: IoMmuUnmap_def context_ok_def Let_def s1_def [symmetric])
  ultimately show ?thesis using same Some by (simp add: s1_def)
qed

end
