(* ===== verification/Iommu_Ledger.thy ===== *)
theory Iommu_Ledger
  imports Iommu_Map "HOL-Library.Multiset"
begin

text \<open>
  What the host may see and what it has pinned: the calls of the hypervisor add up to the ranges
  of the bounce blocks and of the tracked buffers.
\<close>

subsection \<open>The effect of the calls\<close>

definition visible_after :: "platform_call \<Rightarrow> u64 multiset \<Rightarrow> u64 multiset" where
  "visible_after c M = (case c of
     MakeVisible a n st h \<Rightarrow> if EFI_ERROR st then M else add_mset h M
   | MakeNotVisible h \<Rightarrow> M - {#h#}
   | _ \<Rightarrow> M)"

definition pinned_after :: "platform_call \<Rightarrow> (u64 \<times> u32) multiset \<Rightarrow> (u64 \<times> u32) multiset" where
  "pinned_after c M = (case c of
     PinRange a n st applied \<Rightarrow> if EFI_ERROR st \<or> \<not> applied then M else add_mset (a, n) M
   | UnpinRange a n \<Rightarrow> M - {#(a, n)#}
   | _ \<Rightarrow> M)"

definition visible :: "iommu \<Rightarrow> u64 multiset" where
  "visible s = fold visible_after (im_Calls s) {#}"

definition pinned :: "iommu \<Rightarrow> (u64 \<times> u32) multiset" where
  "pinned s = fold pinned_after (im_Calls s) {#}"

lemma visible_call [simp]: "visible (record_call c s) = visible_after c (visible s)"
  by (simp add: visible_def record_call_def)

lemma pinned_call [simp]: "pinned (record_call c s) = pinned_after c (pinned s)"
  by (simp add: pinned_def record_call_def)

lemma ledger_cong:
  assumes "im_Calls s' = im_Calls s"
  shows "visible s' = visible s" "pinned s' = pinned s"
  using assms by (simp_all add: visible_def pinned_def)

lemma requires_call [simp]:
  "IoMmuRequiresHostVisibility (record_call c s) = IoMmuRequiresHostVisibility s" "IoMmuRequiresPinning (record_call c s) = IoMmuRequiresPinning s"
  by (simp_all add: IoMmuRequiresHostVisibility_def IoMmuRequiresPinning_def record_call_def)

text \<open>The part of a range context in the ledger.\<close>

definition ctx_visible :: "iommu \<Rightarrow> iommu_dma_range_context \<Rightarrow> u64 multiset" where
  "ctx_visible s ctx = (if IoMmuRequiresHostVisibility s then {#dc_RangeProtectionHandle ctx#} else {#})"

definition ctx_pinned :: "iommu_dma_range_context \<Rightarrow> (u64 \<times> u32) multiset" where
  "ctx_pinned ctx = (if dc_PinApplied ctx then {#(dc_BaseAddress ctx, dc_PageCount ctx * 0x1000)#} else {#})"

lemma prepare_ledger:
  assumes "IoMmuPrepareAddressRangeForDma env s a n = (st, ctx, s')"
  shows "EFI_ERROR st \<Longrightarrow> visible s' = visible s" "EFI_ERROR st \<Longrightarrow> pinned s' = pinned s"
    "\<not> EFI_ERROR st \<Longrightarrow> visible s' = ctx_visible s ctx + visible s" "\<not> EFI_ERROR st \<Longrightarrow> pinned s' = ctx_pinned ctx + pinned s"
  using assms
  by (auto simp: IoMmuPrepareAddressRangeForDma_def Let_def visible_after_def pinned_after_def ctx_visible_def ctx_pinned_def
      split: if_splits)

lemma release_ledger:
  assumes "IoMmuReleaseAddressRangeFromDma s ctx = (ctx', s')"
  shows "visible s' = visible s - ctx_visible s ctx" "pinned s' = pinned s - ctx_pinned ctx"
  using assms
  by (auto simp: IoMmuReleaseAddressRangeFromDma_def Let_def visible_after_def pinned_after_def ctx_visible_def ctx_pinned_def
      split: if_splits)

subsection \<open>The ledger of a state\<close>

definition contexts :: "iommu \<Rightarrow> iommu_dma_range_context list" where
  "contexts s = map ac_DmaContext (im_Allocs s) @ map bb_DmaContext (im_Blocks s)"

primrec ctxs_visible :: "iommu \<Rightarrow> iommu_dma_range_context list \<Rightarrow> u64 multiset" where
  "ctxs_visible s [] = {#}"
| "ctxs_visible s (c # cs) = ctx_visible s c + ctxs_visible s cs"

primrec ctxs_pinned :: "iommu_dma_range_context list \<Rightarrow> (u64 \<times> u32) multiset" where
  "ctxs_pinned [] = {#}"
| "ctxs_pinned (c # cs) = ctx_pinned c + ctxs_pinned cs"

definition ledger_ok :: "iommu \<Rightarrow> bool" where
  "ledger_ok s \<longleftrightarrow> visible s = ctxs_visible s (contexts s) \<and> pinned s = ctxs_pinned (contexts s)"

lemma ctxs_append [simp]:
  "ctxs_visible s (xs @ ys) = ctxs_visible s xs + ctxs_visible s ys" "ctxs_pinned (xs @ ys) = ctxs_pinned xs + ctxs_pinned ys"
  by (induction xs) (simp_all add: ac_simps)

lemma ctxs_cong:
  assumes "im_BounceMode s' = im_BounceMode s"
  shows "ctx_visible s' c = ctx_visible s c" "ctxs_visible s' cs = ctxs_visible s cs"
proof -
  show c: "ctx_visible s' c = ctx_visible s c" for c using assms by (simp add: ctx_visible_def IoMmuRequiresHostVisibility_def)
  show "ctxs_visible s' cs = ctxs_visible s cs" by (induction cs) (simp_all add: c)
qed

lemma ledger_ok_cong:
  assumes "im_Calls s' = im_Calls s" "im_BounceMode s' = im_BounceMode s" "contexts s' = contexts s"
  shows "ledger_ok s' = ledger_ok s"
  using ledger_cong [OF assms(1)] ctxs_cong(2) [OF assms(2)] assms(3) by (simp add: ledger_ok_def)

lemma ledger_ok_free [simp]: "ledger_ok (record_call (FreePagesCall a n) s) = ledger_ok s"
  by (simp add: ledger_ok_def visible_after_def pinned_after_def contexts_def ctxs_cong(2) [of "record_call (FreePagesCall a n) s" s])

subsection \<open>Blocks\<close>

lemma prealloc_ledger:
  assumes "IoMmuPreAllocateBounceBlock b env s n = Some (st, r, s')" and ok: "ledger_ok s"
  shows "ledger_ok s'" "r = Some c \<Longrightarrow> im_Blocks s' = im_Blocks s @ [c]" "\<not> EFI_ERROR st \<Longrightarrow> r \<noteq> None"
proof -
  obtain st1 ctx s1 where p: "IoMmuPrepareAddressRangeForDma (be_Hv env) s (snd (be_Pages env)) n = (st1, ctx, s1)"
    by (metis prod_cases3)
  note same = prepare_same [OF p]
  have m: "im_BounceMode s1 = im_BounceMode s" "im_Allocs s1 = im_Allocs s" using same(1) by (simp_all add: same_maps_def)
  have bad: "ledger_ok s1" if "EFI_ERROR st1"
    using ok prepare_ledger(1,2) [OF p that] m same(2) ctxs_cong(2) [OF m(1)] by (simp add: ledger_ok_def contexts_def)
  have good: "ledger_ok (s1\<lparr>im_Blocks := im_Blocks s1 @ [blk]\<rparr>)" if "\<not> EFI_ERROR st1" "bb_DmaContext blk = ctx" for blk
  proof -
    let ?s = "s1\<lparr>im_Blocks := im_Blocks s1 @ [blk]\<rparr>"
    have "im_BounceMode ?s = im_BounceMode s" using m by simp
    note c = ctxs_cong [OF this]
    have "visible ?s = visible s1" "pinned ?s = pinned s1" by (rule ledger_cong; simp)+
    then show ?thesis using ok prepare_ledger(3,4) [OF p that(1)] m same(2) that(2) c by (simp add: ledger_ok_def contexts_def ac_simps)
  qed
  show "ledger_ok s'" "r = Some c \<Longrightarrow> im_Blocks s' = im_Blocks s @ [c]" "\<not> EFI_ERROR st \<Longrightarrow> r \<noteq> None"
    using assms p bad good same(2)
    by (auto simp: IoMmuPreAllocateBounceBlock_def Let_def ASSERT_def EFI_ERROR_def split: option.splits if_splits bind_splits)
qed

lemma acquire_from_contexts:
  "acquire_from Blocks n = Some (Some (Blocks', blk, i)) \<Longrightarrow> map bb_DmaContext Blocks' = map bb_DmaContext Blocks"
  by (induction Blocks arbitrary: Blocks') (auto simp: Let_def split: bind_splits option.splits if_splits)

lemma update_block_contexts:
  "update_block q (release_pages b i n) Blocks = Some Blocks' \<Longrightarrow> map bb_DmaContext Blocks' = map bb_DmaContext Blocks"
  by (induction Blocks arbitrary: Blocks') (auto simp: release_pages_def ASSERT_def split: bind_splits option.splits if_splits)

lemma ledger_ok_blocks:
  assumes "map bb_DmaContext B = map bb_DmaContext (im_Blocks s)"
  shows "ledger_ok (s\<lparr>im_Blocks := B\<rparr>) = ledger_ok s"
  by (rule ledger_ok_cong) (simp_all add: contexts_def assms)

lemma release_pages_ledger: "IoMmuReleaseBouncePages b s q i n = Some s' \<Longrightarrow> ledger_ok s \<Longrightarrow> ledger_ok s'"
  using update_block_contexts ledger_ok_blocks by (fastforce simp: IoMmuReleaseBouncePages_def split: bind_splits)

lemma acquire_ledger:
  assumes "IoMmuAcquireBouncePages b env s n = Some (st, r, s')" and ok: "ledger_ok s"
  shows "ledger_ok s'"
proof (cases "n = 0")
  case True
  then show ?thesis using assms by (simp add: IoMmuAcquireBouncePages_def)
next
  case False
  with assms(1) obtain found where f: "acquire_from (im_Blocks s) n = Some found"
    by (cases "acquire_from (im_Blocks s) n") (simp_all add: IoMmuAcquireBouncePages_def)
  show ?thesis
  proof (cases found)
    case (Some t)
    obtain B blk i where t: "t = (B, blk, i)" by (cases t)
    then show ?thesis
      using False assms(1) f Some ok ledger_ok_blocks [OF acquire_from_contexts [of "im_Blocks s" n B blk i]] by (simp add: IoMmuAcquireBouncePages_def)
  next
    case None
    have g: "(if n < IOMMU_BOUNCE_GROWTH_BLOCK_PAGES then IOMMU_BOUNCE_GROWTH_BLOCK_PAGES else n) = growth n" by (simp add: growth_def)
    obtain st1 c s1 where p: "IoMmuPreAllocateBounceBlock b env s (growth n) = Some (st1, c, s1)"
      using False assms(1) f None by (auto simp: IoMmuAcquireBouncePages_def g Let_def split: bind_splits)
    note l = prealloc_ledger [OF p ok]
    show ?thesis
    proof (cases "EFI_ERROR st1")
      case True
      then show ?thesis using False assms(1) f None p l(1) by (simp add: IoMmuAcquireBouncePages_def g Let_def)
    next
      case good: False
      then obtain blk where blk: "c = Some blk" "im_Blocks s1 = im_Blocks s @ [blk]" using l(2,3) by auto
      with False good assms(1) f None p obtain B where
        "s' = s1\<lparr>im_Blocks := im_Blocks s @ [blk\<lparr>bb_AllocBitmap := B, bb_InUsePageCount := n\<rparr>]\<rparr>"
        by (auto simp: IoMmuAcquireBouncePages_def g Let_def split: bind_splits)
      then show ?thesis using l(1) ledger_ok_blocks [of _ s1] blk(2) by simp
    qed
  qed
qed

subsection \<open>Mappings\<close>

lemma contexts_fill [simp]: "contexts (fill s op a c h n) = contexts s"
  by (simp add: contexts_def)

lemma ledger_ok_maps [simp]: "ledger_ok (s\<lparr>im_Maps := M\<rparr>) = ledger_ok s" "ledger_ok (s\<lparr>im_Memory := m\<rparr>) = ledger_ok s"
  by (rule ledger_ok_cong; simp add: contexts_def)+

lemma ledger_ok_fill [simp]: "ledger_ok (fill s op a c h n) = ledger_ok s" "ledger_ok (CopyMem s d f k) = ledger_ok s"
  by (rule ledger_ok_cong; simp add: contexts_def)+

lemma map_ledger:
  assumes "IoMmuMap b env s op h n = Some (st, r, s')" and ok: "ledger_ok s"
  shows "ledger_ok s'"
proof (cases "IoMmuIsBounceActive s \<and> \<not> is_common op \<and> \<not> 0xFFFFFFFF < EFI_SIZE_TO_PAGES n")
  case False
  then show ?thesis
    using assms by (auto simp: IoMmuMap_def map_direct_def map_bounce_def Let_def split: if_splits option.splits prod.splits)
next
  case active: True
  let ?c = "ucast (EFI_SIZE_TO_PAGES n) :: u32"
  have m: "map_bounce b env s op h n = Some (st, r, s')" using assms(1) active by (simp add: IoMmuMap_def)
  then obtain st1 found s1 where a: "IoMmuAcquireBouncePages b (me_Block env) s ?c = Some (st1, found, s1)"
    using active by (auto simp: map_bounce_fill Let_def split: bind_splits)
  note l = acquire_ledger [OF a ok]
  show ?thesis
  proof (cases "EFI_ERROR st1")
    case True
    then show ?thesis using m a l active by (simp add: map_bounce_fill Let_def)
  next
    case False
    then show ?thesis
      using m a l active release_pages_ledger [of b "fill s1 op _ ?c h n" _ _ ?c s']
      by (auto simp: map_bounce_fill Let_def split: bind_splits option.splits)
  qed
qed

lemma unmap_ledger:
  assumes "IoMmuUnmap b s p = Some (st, s')" and ok: "ledger_ok s"
  shows "ledger_ok s'"
proof -
  have "ledger_ok t" if "IoMmuReleaseBouncePages b s1 q i n = Some t" "ledger_ok s1" for t s1 q i n
    using release_pages_ledger [OF that] .
  then show ?thesis
    using assms by (auto simp: IoMmuUnmap_def Let_def ASSERT_def split: option.splits if_splits bind_splits) 
qed

subsection \<open>Buffers\<close>

lemma allocate_buffer_ledger:
  assumes a: "allocate_buffer env s This Type Pages out Attributes = (st, r, s')" and ok: "ledger_ok s"
  shows "ledger_ok s'"
proof -
  define place where "place = (if Attributes AND EDKII_IOMMU_ATTRIBUTE_DUAL_ADDRESS_CYCLE = 0
    then ae_Pages env AllocateMaxAddress (SIZE_4GB - 1) else ae_Pages env Type (- 1))"
  obtain st1 ctx s1 where p: "IoMmuPrepareAddressRangeForDma (ae_Hv env) s (snd place) (ucast Pages) = (st1, ctx, s1)"
    by (metis prod_cases3)
  have m: "im_BounceMode s1 = im_BounceMode s" "contexts s1 = contexts s" "im_Allocs s1 = im_Allocs s" "im_Blocks s1 = im_Blocks s"
    using prepare_same [OF p] by (simp_all add: same_maps_def contexts_def)
  obtain ctx2 s2 where r: "IoMmuReleaseAddressRangeFromDma s1 ctx = (ctx2, s2)" by (metis surj_pair)
  have m2: "im_BounceMode s2 = im_BounceMode s" "contexts s2 = contexts s"
    using release_range_same [OF r] m by (simp_all add: same_maps_def contexts_def)
  note c = ctxs_cong [OF m(1)] ctxs_cong [OF m2(1)]
  have bad: "ledger_ok s1" if "EFI_ERROR st1" using ok prepare_ledger(1,2) [OF p that] m c by (simp add: ledger_ok_def)
  have undone: "ledger_ok s2" if "\<not> EFI_ERROR st1"
    using ok prepare_ledger(3,4) [OF p that] release_ledger [OF r] m2 c by (simp add: ledger_ok_def)
  have good: "ledger_ok (s1\<lparr>im_Allocs := im_Allocs s1 @ [\<lparr>ac_OriginalAddress = x, ac_Pages = k, ac_DmaContext = ctx\<rparr>]\<rparr>)"
    if "\<not> EFI_ERROR st1" for x k
  proof -
    let ?s = "s1\<lparr>im_Allocs := im_Allocs s1 @ [\<lparr>ac_OriginalAddress = x, ac_Pages = k, ac_DmaContext = ctx\<rparr>]\<rparr>"
    have v: "visible ?s = visible s1" "pinned ?s = pinned s1" by (rule ledger_cong; simp)+
    have x: "ctxs_visible ?s (contexts ?s) = ctx_visible s ctx + ctxs_visible s (contexts s)"
        "ctxs_pinned (contexts ?s) = ctx_pinned ctx + ctxs_pinned (contexts s)"
      using ctxs_cong [of ?s s] m(1,3,4) by (simp_all add: contexts_def ac_simps)
    show ?thesis unfolding ledger_ok_def v x using ok prepare_ledger(3,4) [OF p that] by (simp add: ledger_ok_def)
  qed
  show ?thesis
    using a ok p r bad undone good unfolding allocate_buffer_def Let_def
    by (auto simp: place_def split: if_splits prod.splits)
qed

text \<open>Freeing releases the first tracked buffer at the address, if there is one.\<close>

lemma release_alloc_split:
  "release_alloc h Allocs s = (rest, s') \<Longrightarrow>
   (rest = Allocs \<and> s' = s \<and> (\<forall>a \<in> set Allocs. IoMmuGetSharedVa s (ac_OriginalAddress a) \<noteq> h)) \<or>
   (\<exists>xs a ys. Allocs = xs @ a # ys \<and> rest = xs @ ys \<and> IoMmuGetSharedVa s (ac_OriginalAddress a) = h \<and>
     s' = snd (IoMmuReleaseAddressRangeFromDma s (ac_DmaContext a)))"
proof (induction Allocs arbitrary: rest)
  case (Cons a Allocs)
  show ?case
  proof (cases "IoMmuGetSharedVa s (ac_OriginalAddress a) = h")
    case True
    then show ?thesis using Cons.prems by (intro disjI2 exI [of _ "[]"] exI [of _ a] exI [of _ Allocs]) simp
  next
    case False
    obtain r t where r: "release_alloc h Allocs s = (r, t)" by (metis surj_pair)
    then have "rest = a # r" "s' = t" using Cons.prems False by auto
    with Cons.IH [of r] r have "(rest = a # Allocs \<and> s' = s \<and> (\<forall>a \<in> set Allocs. IoMmuGetSharedVa s (ac_OriginalAddress a) \<noteq> h)) \<or>
      (\<exists>xs c ys. a # Allocs = (a # xs) @ c # ys \<and> rest = (a # xs) @ ys \<and> IoMmuGetSharedVa s (ac_OriginalAddress c) = h \<and>
        s' = snd (IoMmuReleaseAddressRangeFromDma s (ac_DmaContext c)))" by simp
    then show ?thesis using False by (metis set_ConsD)
  qed
qed simp

lemma free_buffer_ledger:
  assumes f: "IoMmuFreeBuffer freed s Pages h = (st, s')" and ok: "ledger_ok s"
  shows "ledger_ok s'"
proof (cases "IoMmuIsBounceActive s")
  case False
  then show ?thesis using assms by (auto simp: IoMmuFreeBuffer_def)
next
  case True
  obtain rest s1 where r: "release_alloc h (im_Allocs s) s = (rest, s1)" by (metis surj_pair)
  have s': "s' = record_call (FreePagesCall h Pages) (s1\<lparr>im_Allocs := rest\<rparr>)"
    using f True r by (simp add: IoMmuFreeBuffer_def)
  from release_alloc_split [OF r] have "ledger_ok (s1\<lparr>im_Allocs := rest\<rparr>)"
  proof (elim disjE exE conjE)
    assume "rest = im_Allocs s" "s1 = s"
    then show ?thesis using ok by simp
  next
    fix xs a ys
    assume a: "im_Allocs s = xs @ a # ys" "rest = xs @ ys" "s1 = snd (IoMmuReleaseAddressRangeFromDma s (ac_DmaContext a))"
    then obtain ctx where c: "IoMmuReleaseAddressRangeFromDma s (ac_DmaContext a) = (ctx, s1)" by (metis prod.collapse)
    note same = release_range_same [OF c]
    let ?s = "s1\<lparr>im_Allocs := rest\<rparr>"
    have v: "visible ?s = visible s1" "pinned ?s = pinned s1" by (rule ledger_cong; simp)+
    have "im_BounceMode ?s = im_BounceMode s" using same(1) by (simp add: same_maps_def)
    note m = ctxs_cong [OF this]
    show ?thesis
      using ok unfolding ledger_ok_def v release_ledger [OF c] m by (simp add: contexts_def a(1,2) same(2) ac_simps)
  qed
  then show ?thesis using s' by simp
qed

end
