(* ===== verification/Iommu_Trace.thy ===== *)
theory Iommu_Trace
  imports Iommu_Ledger
begin

text \<open>
  The IOMMU driver over time: every state that the entry point and the calls of the protocol lead
  to, with devices and processors writing to memory in between.
\<close>

subsection \<open>Steps\<close>

datatype iommu_event = Map_call | Unmap_call "nat option" | Memory_write | Allocate_call | Free_call

inductive iommu_step :: "build \<Rightarrow> iommu \<Rightarrow> iommu_event \<Rightarrow> iommu \<Rightarrow> bool" for b where
  step_map: "map_env_ok env s n \<Longrightarrow> IoMmuMap b env s op h n = Some (st, r, s') \<Longrightarrow> iommu_step b s Map_call s'"
| step_unmap: "IoMmuUnmap b s p = Some (st, s') \<Longrightarrow> iommu_step b s (Unmap_call p) s'"
| step_write: "iommu_step b s Memory_write (s\<lparr>im_Memory := m\<rparr>)"
| step_allocate: "IoMmuAllocateBuffer b env s This Type Pages out Attributes = Some (st, r, s') \<Longrightarrow> iommu_step b s Allocate_call s'"
| step_free: "IoMmuFreeBuffer freed s Pages h = (st, s') \<Longrightarrow> iommu_step b s Free_call s'"

inductive iommu_trace :: "build \<Rightarrow> iommu \<Rightarrow> iommu_event list \<Rightarrow> iommu \<Rightarrow> bool" for b where
  trace_nil: "iommu_trace b s [] s"
| trace_step: "iommu_trace b s es s' \<Longrightarrow> iommu_step b s' e s'' \<Longrightarrow> iommu_trace b s (es @ [e]) s''"

inductive_cases iommu_step_cases: "iommu_step b s e s'"

definition iommu_start :: "build \<Rightarrow> iommu \<Rightarrow> bool" where
  "iommu_start b s \<longleftrightarrow> (\<exists>env config memory located installed st. IoMmuDxeEntryPoint b env config memory located installed = Some (st, s) \<and>
     boundary_ok (cf_SharedGpaBoundary config) (cf_CanonicalizationBitmask config) \<and>
     block_env_ok env [] (unat IOMMU_BOUNCE_INITIAL_BLOCK_PAGES))"

definition iommu_reach :: "build \<Rightarrow> iommu \<Rightarrow> bool" where
  "iommu_reach b s \<longleftrightarrow> (\<exists>s0 es. iommu_start b s0 \<and> iommu_trace b s0 es s)"

subsection \<open>Every state is in order\<close>

definition keeps :: "iommu \<Rightarrow> iommu \<Rightarrow> bool" where
  "keeps s s' \<longleftrightarrow> im_BounceMode s' = im_BounceMode s \<and> im_SharedGpaBoundary s' = im_SharedGpaBoundary s \<and>
     im_CanonicalizationMask s' = im_CanonicalizationMask s"

lemma keeps_same: "same_maps s s' \<Longrightarrow> keeps s s'"
  by (simp add: same_maps_def keeps_def)

lemma pool_start: "iommu_ok s" if "gpa_ok s" "im_Blocks s = []" "im_Maps s = Map.empty"
  using that by (simp add: iommu_ok_def pool_holds_def owner_def covers_def dom_def)

lemma entry_ok:
  assumes "boundary_ok (cf_SharedGpaBoundary config) (cf_CanonicalizationBitmask config)"
    and env: "block_env_ok env [] (unat IOMMU_BOUNCE_INITIAL_BLOCK_PAGES)"
  shows "\<exists>st s. IoMmuDxeEntryPoint b env config memory located installed = Some (st, s) \<and> iommu_ok s \<and> ledger_ok s"
proof -
  define s0 where "s0 = \<lparr>im_BounceMode = IoMmuComputeBounceMode (cf_IsIsolated config) (cf_DmaPinningRequired config) (cf_ForceDmaBounce config),
    im_SharedGpaBoundary = 0, im_CanonicalizationMask = 0, im_Blocks = [], im_Allocs = [], im_Maps = Map.empty, im_Memory = memory, im_Calls = []\<rparr>"
  let ?s1 = "s0\<lparr>im_Allocs := [], im_Blocks := [], im_SharedGpaBoundary := cf_SharedGpaBoundary config, im_CanonicalizationMask := cf_CanonicalizationBitmask config\<rparr>"
  have ok: "iommu_ok s0" "iommu_ok ?s1" "ledger_ok s0" "ledger_ok ?s1"
    using assms(1) by (auto intro!: pool_start simp: s0_def gpa_ok_def boundary_ok_def ledger_ok_def visible_def pinned_def contexts_def)
  have blocks: "im_Blocks ?s1 = []" by simp
  have "0 < IOMMU_BOUNCE_INITIAL_BLOCK_PAGES" by (simp add: IOMMU_BOUNCE_INITIAL_BLOCK_PAGES_def)
  from prealloc [OF this, of env ?s1 b] env obtain st r s2 where p: "IoMmuPreAllocateBounceBlock b env ?s1 IOMMU_BOUNCE_INITIAL_BLOCK_PAGES = Some (st, r, s2)"
      "same_maps ?s1 s2" "if EFI_ERROR st then r = None \<and> im_Blocks s2 = [] else \<exists>blk. r = Some blk \<and> im_Blocks s2 = [blk] \<and> fresh_block [] blk"
    by (auto split: if_splits)
  have "iommu_ok s2"
  proof (rule iommu_okI)
    show "gpa_ok s2" using iommu_okD(1) [OF ok(2)] gpa_ok_cong [OF p(2)] by simp
    have own: "owner s2 = owner ?s1" using p(2) by (intro owner_cong) (simp add: same_maps_def)
    show "pool_holds (im_Blocks s2) (owner s2)"
      unfolding own using p(3) iommu_okD(2) [OF ok(2)] pool_append [of "[]" "owner ?s1"] by (auto split: if_splits)
    show "context_ok (im_Blocks s2) m" if "im_Maps s2 p = Some m" for p m using that p(2) by (simp add: same_maps_def s0_def)
  qed
  moreover have "ledger_ok s2" using prealloc_ledger(1) [OF p(1) ok(4)] .
  ultimately show ?thesis
    using ok p(1) by (auto simp: IoMmuDxeEntryPoint_def IoMmuInitializeBounce_def Let_def s0_def [symmetric])
qed

lemma allocate_ok:
  assumes "IoMmuAllocateBuffer b env s This Type Pages out Attributes = Some (st, r, s')"
  shows "im_Maps s' = im_Maps s" "im_Blocks s' = im_Blocks s" "keeps s s'"
proof -
  have a: "allocate_buffer env s This Type Pages out Attributes = (st, r, s')"
    using assms by (auto simp: IoMmuAllocateBuffer_def ASSERT_def split: prod.splits if_splits)
  have p: "im_Maps t = im_Maps s \<and> im_Blocks t = im_Blocks s \<and> keeps s t" if "IoMmuPrepareAddressRangeForDma e s x k = (st1, c, t)" for e x k st1 c t
    using prepare_same [OF that] keeps_same by (auto simp: same_maps_def)
  have r: "im_Maps t = im_Maps u \<and> im_Blocks t = im_Blocks u \<and> keeps u t" if "IoMmuReleaseAddressRangeFromDma u c = (c', t)" for u c c' t
    using release_range_same [OF that] keeps_same by (auto simp: same_maps_def)
  have "im_Maps s' = im_Maps s \<and> im_Blocks s' = im_Blocks s \<and> keeps s s'"
    using a by (auto simp: allocate_buffer_def Let_def keeps_def split: if_splits prod.splits dest!: p r)
  then show "im_Maps s' = im_Maps s" "im_Blocks s' = im_Blocks s" "keeps s s'" by simp_all
qed

lemma free_ok:
  assumes "IoMmuFreeBuffer freed s Pages h = (st, s')"
  shows "im_Maps s' = im_Maps s" "im_Blocks s' = im_Blocks s" "keeps s s'"
proof -
  obtain rest s1 where r: "release_alloc h (im_Allocs s) s = (rest, s1)" by (metis surj_pair)
  have "im_Maps s1 = im_Maps s \<and> im_Blocks s1 = im_Blocks s \<and> keeps s s1"
    using release_alloc_split [OF r]
  proof (elim disjE exE conjE)
    fix a
    assume "s1 = snd (IoMmuReleaseAddressRangeFromDma s (ac_DmaContext a))"
    then obtain ctx where "IoMmuReleaseAddressRangeFromDma s (ac_DmaContext a) = (ctx, s1)" by (metis prod.collapse)
    then show ?thesis using release_range_same keeps_same by (auto simp: same_maps_def keeps_def)
  qed (simp add: keeps_def)
  then show "im_Maps s' = im_Maps s" "im_Blocks s' = im_Blocks s" "keeps s s'"
    using assms r by (auto simp: IoMmuFreeBuffer_def keeps_def split: if_splits)
qed

lemma prealloc_same: "IoMmuPreAllocateBounceBlock b env s n = Some (st, r, s') \<Longrightarrow> same_maps s s'"
proof -
  assume a: "IoMmuPreAllocateBounceBlock b env s n = Some (st, r, s')"
  obtain st1 ctx s1 where p: "IoMmuPrepareAddressRangeForDma (be_Hv env) s (snd (be_Pages env)) n = (st1, ctx, s1)"
    by (metis prod_cases3)
  show ?thesis
    using a p prepare_same(1) [OF p]
    by (auto simp: IoMmuPreAllocateBounceBlock_def Let_def ASSERT_def split: option.splits if_splits bind_splits)
qed

lemma acquire_same: "IoMmuAcquireBouncePages b env s n = Some (st, r, s') \<Longrightarrow> same_maps s s'"
  by (auto simp: IoMmuAcquireBouncePages_def Let_def split: if_splits bind_splits option.splits) (erule prealloc_same)+

lemma map_keeps:
  assumes "IoMmuMap b env s op h n = Some (st, r, s')"
  shows "keeps s s'"
proof (cases "IoMmuIsBounceActive s \<and> \<not> is_common op \<and> \<not> 0xFFFFFFFF < EFI_SIZE_TO_PAGES n")
  case False
  then show ?thesis
    using assms by (auto simp: IoMmuMap_def map_direct_def map_bounce_def Let_def keeps_def split: if_splits option.splits prod.splits)
next
  case active: True
  let ?c = "ucast (EFI_SIZE_TO_PAGES n) :: u32"
  have m: "map_bounce b env s op h n = Some (st, r, s')" using assms active by (simp add: IoMmuMap_def)
  then obtain st1 found s1 where a: "IoMmuAcquireBouncePages b (me_Block env) s ?c = Some (st1, found, s1)"
    using active by (auto simp: map_bounce_fill Let_def split: bind_splits)
  note k = keeps_same [OF acquire_same [OF a]]
  have r: "keeps s t" if "IoMmuReleaseBouncePages b (fill s1 op x ?c h n) q i ?c = Some t" for t x q i
    using that k by (auto simp: IoMmuReleaseBouncePages_def keeps_def split: bind_splits)
  show ?thesis
  proof (cases "EFI_ERROR st1")
    case True
    then show ?thesis using m a k active by (simp add: map_bounce_fill Let_def)
  next
    case False
    have f: "keeps s ((fill s1 op x ?c h n)\<lparr>im_Maps := M\<rparr>)" for x M using k by (simp add: keeps_def)
    show ?thesis
      using m a False r active f by (auto simp: map_bounce_fill Let_def split: bind_splits option.splits)
  qed
qed

lemma unmap_dead: "im_Maps s p = None \<Longrightarrow> IoMmuUnmap b s (Some p) = None"
  by (simp add: IoMmuUnmap_def)

text \<open>One step: the state stays in order, the configuration stays, and a mapping lives until it is unmapped.\<close>

lemma step_ok:
  assumes "iommu_step b s e s'" and ok: "iommu_ok s" and l: "ledger_ok s"
  shows "iommu_ok s' \<and> ledger_ok s' \<and> keeps s s' \<and> (\<forall>p m. im_Maps s p = Some m \<and> e \<noteq> Unmap_call (Some p) \<longrightarrow> im_Maps s' p = Some m)"
  using assms(1)
proof cases
  case (step_map env n op h st r)
  obtain st1 r1 s1 where m: "IoMmuMap b env s op h n = Some (st1, r1, s1)" "iommu_ok s1" "adds_map env s s1"
    using map_ok [OF ok step_map(2), of b op h] by blast
  then have s1: "s1 = s'" using step_map(3) by simp
  have "im_Maps s' p = Some m" if "im_Maps s p = Some m" for p m
    using m(3) s1 step_map(2) that by (auto simp: adds_map_def map_env_ok_def)
  then show ?thesis using m(2) s1 map_ledger [OF step_map(3) l] map_keeps [OF step_map(3)] by auto
next
  case (step_unmap p st)
  show ?thesis
  proof (cases p)
    case None
    then show ?thesis using step_unmap ok l by (simp add: IoMmuUnmap_def keeps_def)
  next
    case (Some q)
    then obtain m where m: "im_Maps s q = Some m" using step_unmap(2) unmap_dead [of s q b] by (cases "im_Maps s q") auto
    then show ?thesis using unmap_ok [OF ok m, of b] step_unmap Some unmap_ledger [OF step_unmap(2) l] by (auto simp: keeps_def)
  qed
next
  case (step_write m)
  then show ?thesis using ok l iommu_ok_cong [of s' s] by (simp add: keeps_def)
next
  case (step_allocate env This Type Pages out Attributes st r)
  note a = allocate_ok [OF step_allocate(2)]
  have "allocate_buffer env s This Type Pages out Attributes = (st, r, s')"
    using step_allocate(2) by (auto simp: IoMmuAllocateBuffer_def ASSERT_def split: prod.splits if_splits)
  then have "ledger_ok s'" using l by (rule allocate_buffer_ledger)
  then show ?thesis using a ok iommu_ok_cong [of s' s] by (simp add: keeps_def)
next
  case (step_free freed Pages h st)
  note f = free_ok [OF step_free(2)]
  show ?thesis using f ok iommu_ok_cong [of s' s] free_buffer_ledger [OF step_free(2) l] by (simp add: keeps_def)
qed

lemma trace_ok:
  assumes "iommu_trace b s es s'" "iommu_ok s" "ledger_ok s"
  shows "iommu_ok s' \<and> ledger_ok s' \<and> keeps s s' \<and> (\<forall>p m. im_Maps s p = Some m \<and> Unmap_call (Some p) \<notin> set es \<longrightarrow> im_Maps s' p = Some m)"
  using assms
proof induction
  case (trace_nil s)
  then show ?case by (simp add: keeps_def)
next
  case (trace_step s es s' e s'')
  note IH = trace_step.IH [OF trace_step.prems]
  show ?case using step_ok [OF trace_step.hyps(2)] IH by (auto simp: keeps_def)
qed

lemma reach_ok: "iommu_reach b s \<Longrightarrow> iommu_ok s \<and> ledger_ok s"
  unfolding iommu_reach_def iommu_start_def using entry_ok trace_ok by (metis Pair_inject option.inject)

subsection \<open>The bytes of a transfer\<close>

definition device_region :: "iommu \<Rightarrow> iommu_map_context \<Rightarrow> nat set" where
  "device_region s m = {unat (IoMmuGetSharedPa s (mc_BounceBase m))..<unat (IoMmuGetSharedPa s (mc_BounceBase m)) + unat (mc_BouncePageCount m) * 4096}"

lemma device_region_page:
  assumes "unat a = B + i * 4096" "z \<in> {unat a + c..<unat a + c + n * 4096}"
  shows "i \<le> (z - c - B) div 4096" "(z - c - B) div 4096 < i + n" "B + c \<le> z"
proof -
  show "B + c \<le> z" using assms by simp
  have "4096 * i \<le> z - c - B" "z - c - B < 4096 * (i + n)" using assms by (auto simp: algebra_simps)
  then show "i \<le> (z - c - B) div 4096" "(z - c - B) div 4096 < i + n" by (simp_all add: less_eq_div_iff_mult_less_eq div_less_iff_less_mult ac_simps)
qed

lemma live_place:
  assumes ok: "iommu_ok s" and p: "im_Maps s p = Some m" and q: "mc_BounceBlock m = Some q"
  shows "\<exists>blk \<in> set (im_Blocks s). bb_Pointer blk = q \<and> unat (mc_BounceBase m) = unat (bb_BlockBase blk) + unat (mc_BounceStartPage m) * 4096 \<and>
      unat (mc_BounceStartPage m) + unat (mc_BouncePageCount m) \<le> unat (bb_BlockPageCount blk)"
    "unat (mc_BounceBase m) + unat (mc_BouncePageCount m) * 4096 \<le> 4294967296" "unat (mc_NumberOfBytes m) \<le> unat (mc_BouncePageCount m) * 4096"
    "unat (IoMmuGetSharedPa s (mc_BounceBase m)) = unat (mc_BounceBase m) + unat (im_SharedGpaBoundary s)"
proof -
  have g: "granted (im_Blocks s) (mc_BouncePageCount m) q (mc_BounceStartPage m) (mc_BounceBase m)"
      "unat (mc_NumberOfBytes m) \<le> unat (mc_BouncePageCount m) * 4096"
    using iommu_okD(3) [OF ok p] q by (simp_all add: context_ok_def)
  note h = iommu_okD(2) [OF ok]
  note place = granted_place [OF h g(1)]
  show "unat (mc_BounceBase m) + unat (mc_BouncePageCount m) * 4096 \<le> 4294967296" by (rule place)
  show "unat (mc_NumberOfBytes m) \<le> unat (mc_BouncePageCount m) * 4096" by (rule g)
  have "0 < unat (mc_BouncePageCount m)" using g(1) by (simp add: granted_def word_less_nat_alt)
  then show "unat (IoMmuGetSharedPa s (mc_BounceBase m)) = unat (mc_BounceBase m) + unat (im_SharedGpaBoundary s)"
    using shared_pa(2) [OF iommu_okD(1) [OF ok], of "mc_BounceBase m"] place(1) by simp
  obtain blk where blk: "blk \<in> set (im_Blocks s)" "bb_Pointer blk = q" "unat (mc_BounceBase m) = unat (bb_BlockBase blk) + unat (mc_BounceStartPage m) * 4096"
    using place(2) by blast
  obtain c where c: "c \<in> set (im_Blocks s)" "bb_Pointer c = q" "unat (mc_BounceStartPage m) + unat (mc_BouncePageCount m) \<le> unat (bb_BlockPageCount c)"
    using g(1) by (auto simp: granted_def)
  have "c = blk" using pool_holdsD(1) [OF h] blk(1,2) c(1,2) by (metis distinct_map inj_onD)
  then show "\<exists>blk \<in> set (im_Blocks s). bb_Pointer blk = q \<and> unat (mc_BounceBase m) = unat (bb_BlockBase blk) + unat (mc_BounceStartPage m) * 4096 \<and>
      unat (mc_BounceStartPage m) + unat (mc_BouncePageCount m) \<le> unat (bb_BlockPageCount blk)"
    using blk c(3) by blast
qed

lemma device_regions_disjoint:
  assumes ok: "iommu_ok s" and m: "im_Maps s p = Some m" "mc_BounceBlock m = Some q" and m': "im_Maps s p' = Some m'" "mc_BounceBlock m' = Some q'"
    and ne: "p \<noteq> p'"
  shows "device_region s m \<inter> device_region s m' = {}"
proof (rule ccontr)
  let ?c = "unat (im_SharedGpaBoundary s)"
  note h = iommu_okD(2) [OF ok]
  note pl = live_place [OF ok m] and pl' = live_place [OF ok m']
  assume "device_region s m \<inter> device_region s m' \<noteq> {}"
  then obtain z where "z \<in> device_region s m" "z \<in> device_region s m'" by blast
  then have z: "z \<in> {unat (mc_BounceBase m) + ?c..<unat (mc_BounceBase m) + ?c + unat (mc_BouncePageCount m) * 4096}"
      "z \<in> {unat (mc_BounceBase m') + ?c..<unat (mc_BounceBase m') + ?c + unat (mc_BouncePageCount m') * 4096}"
    unfolding device_region_def pl(4) pl'(4) .
  obtain blk where blk: "blk \<in> set (im_Blocks s)" "bb_Pointer blk = q" "unat (mc_BounceBase m) = unat (bb_BlockBase blk) + unat (mc_BounceStartPage m) * 4096"
      "unat (mc_BounceStartPage m) + unat (mc_BouncePageCount m) \<le> unat (bb_BlockPageCount blk)" using pl(1) by blast
  obtain blk' where blk': "blk' \<in> set (im_Blocks s)" "bb_Pointer blk' = q'" "unat (mc_BounceBase m') = unat (bb_BlockBase blk') + unat (mc_BounceStartPage m') * 4096"
      "unat (mc_BounceStartPage m') + unat (mc_BouncePageCount m') \<le> unat (bb_BlockPageCount blk')" using pl'(1) by blast
  show False
  proof (cases "q = q'")
    case True
    then have "blk = blk'" using pool_holdsD(1) [OF h] blk(1,2) blk'(1,2) by (metis distinct_map inj_onD)
    then have "covers (owner s) p q ((z - ?c - unat (bb_BlockBase blk)) div 4096)" "covers (owner s) p' q ((z - ?c - unat (bb_BlockBase blk)) div 4096)"
      using device_region_page [OF blk(3) z(1)] device_region_page [OF blk'(3) z(2)] m m' True by (simp_all add: covers_def owner_def)
    then show False using pool_holds_unique [OF h] ne by blast
  next
    case False
    then have "apart blk blk'" using h blk(1,2) blk'(1,2) unfolding pool_holds_def by blast
    moreover have "unat (mc_BounceBase m) + unat (mc_BouncePageCount m) * 4096 \<le> unat (bb_BlockBase blk) + unat (bb_BlockPageCount blk) * 4096"
        "unat (mc_BounceBase m') + unat (mc_BouncePageCount m') * 4096 \<le> unat (bb_BlockBase blk') + unat (bb_BlockPageCount blk') * 4096"
      using blk(3,4) blk'(3,4) by simp_all
    ultimately show False using z blk(3) blk'(3) by (auto simp: apart_def)
  qed
qed

end
