(* ===== verification/Iommu_Properties.thy ===== *)
theory Iommu_Properties
  imports Iommu_Trace
begin

text \<open>
  What the IOMMU driver promises to the drivers of devices: transfers see the right bytes, live
  mappings never share pages, and the host sees no more than it has to.
\<close>

subsection \<open>Transfers\<close>

text \<open>The bytes of the pages that a mapping of \<open>n\<close> bytes takes.\<close>

definition mapped_bytes :: "u64 \<Rightarrow> nat" where
  "mapped_bytes n = (unat n + 4095) div 4096 * 4096"

text \<open>The buffer of the host lies outside the pages of the bounce blocks that devices see.\<close>

definition host_apart :: "iommu \<Rightarrow> u64 \<Rightarrow> nat \<Rightarrow> bool" where
  "host_apart s h n \<longleftrightarrow> (\<forall>k < n. \<forall>blk \<in> set (im_Blocks s).
     unat (phys s (h + of_nat k)) \<notin> {unat (bb_BlockBase blk) + unat (im_SharedGpaBoundary s)..<
       unat (bb_BlockBase blk) + unat (im_SharedGpaBoundary s) + unat (bb_BlockPageCount blk) * 4096})"

lemma mapped_live:
  assumes "mapped s op h n p r s' a"
  shows "\<exists>q i. im_Maps s' p = Some (bounce_context op h n a q i)"
  using assms by (force simp: mapped_def)

lemma mapped_success:
  assumes ok: "iommu_ok s" and env: "map_env_ok env s n" and active: "IoMmuIsBounceActive s" and op: "\<not> is_common op"
    and m: "IoMmuMap b env s op h n = Some (EFI_SUCCESS, r, s')"
  shows "iommu_ok s'" "\<exists>p a. me_Context env = Some p \<and> mapped s op h n p r s' a" "\<not> 0xFFFFFFFF < EFI_SIZE_TO_PAGES n"
proof -
  have "map_bounce b env s op h n = Some (EFI_SUCCESS, r, s')" using m active op by (simp add: IoMmuMap_def)
  with map_bounce_ok [OF ok env op, of b h] show "iommu_ok s'" "\<exists>p a. me_Context env = Some p \<and> mapped s op h n p r s' a"
    by (auto simp: EFI_ERROR_def)
  show "\<not> 0xFFFFFFFF < EFI_SIZE_TO_PAGES n"
    using \<open>map_bounce b env s op h n = Some (EFI_SUCCESS, r, s')\<close> by (auto simp: map_bounce_def Let_def)
qed

lemma span_place:
  assumes "y \<in> span x N" "unat x + N < 18446744073709551616"
  shows "unat y = unat x + unat (y - x)"
proof -
  have "unat x + unat (y - x) < 2 ^ LENGTH(64)" using assms by (simp add: span_def)
  then show ?thesis using unat_add_lem [of x "y - x"] by simp
qed

lemma host_span:
  assumes ok: "iommu_ok s" and p: "im_Maps s p = Some m" "mc_BounceBlock m = Some q" and host: "host_apart s h n" and k: "k < n"
  shows "phys s (h + of_nat k) \<notin> span (IoMmuGetSharedPa s (mc_BounceBase m)) (unat (mc_BouncePageCount m) * 4096)"
proof
  let ?y = "phys s (h + of_nat k)" and ?x = "IoMmuGetSharedPa s (mc_BounceBase m)" and ?N = "unat (mc_BouncePageCount m) * 4096"
  assume y: "?y \<in> span ?x ?N"
  note pl = live_place [OF ok p]
  have "unat ?x + ?N < 18446744073709551616" using pl(2,4) boundary_cases(2) [OF iommu_okD(1) [OF ok]] by simp
  from span_place [OF y this] have u: "unat ?y = unat ?x + unat (?y - ?x)" "unat (?y - ?x) < ?N" using y by (simp_all add: span_def)
  obtain blk where blk: "blk \<in> set (im_Blocks s)" "unat (mc_BounceBase m) = unat (bb_BlockBase blk) + unat (mc_BounceStartPage m) * 4096"
      "unat (mc_BounceStartPage m) + unat (mc_BouncePageCount m) \<le> unat (bb_BlockPageCount blk)" using pl(1) by blast
  have "unat ?y \<in> {unat (bb_BlockBase blk) + unat (im_SharedGpaBoundary s)..<
      unat (bb_BlockBase blk) + unat (im_SharedGpaBoundary s) + unat (bb_BlockPageCount blk) * 4096}"
    using u pl(4) blk(2,3) by simp
  then show False using host k blk(1) by (auto simp: host_apart_def)
qed

text \<open>What the device finds behind a new mapping.\<close>

lemma mapped_contents:
  assumes ok: "iommu_ok s" "iommu_ok s'" and m: "mapped s op h n p r s' a" and n: "\<not> 0xFFFFFFFF < EFI_SIZE_TO_PAGES n"
    and host: "host_apart s' h (unat n)"
  shows "bytes_at s' (IoMmuGetSharedPa s a) (mapped_bytes n) =
      (if is_read op then load s h (unat n) @ replicate (mapped_bytes n - unat n) 0 else replicate (mapped_bytes n) 0)"
    "y \<notin> span (IoMmuGetSharedPa s a) (mapped_bytes n) \<Longrightarrow> im_Memory s' y = im_Memory s y"
proof -
  let ?c = "ucast (EFI_SIZE_TO_PAGES n) :: u32"
  obtain s1 q i where s1: "same_maps s s1" "im_Blocks s' = im_Blocks s1"
      "s' = (fill s1 op a ?c h n)\<lparr>im_Maps := (im_Maps s)(p \<mapsto> bounce_context op h n a q i)\<rparr>"
      "unat a + unat ?c * 4096 \<le> 4294967296" "unat n \<le> unat ?c * 4096"
    using m by (auto simp: mapped_def)
  have N: "mapped_bytes n = unat ?c * 4096" using bounce_pages(1) [OF n] by (simp add: mapped_bytes_def)
  have g: "gpa_ok s1" using gpa_ok_cong [OF s1(1)] iommu_okD(1) [OF ok(1)] by simp
  have pa: "IoMmuGetSharedPa s1 a = IoMmuGetSharedPa s a" "IoMmuGetSharedPa s' a = IoMmuGetSharedPa s a"
    using s1(1,3) by (simp_all add: IoMmuGetSharedPa_def same_maps_def Let_def)
  have ph: "phys s' = phys s1" "phys s1 = phys s" "im_Memory s1 = im_Memory s" "load s1 = load s" using s1(1,3) by (simp_all add: phys_def load_def same_maps_def fun_eq_iff)
  have b: "bytes_at s' x k = bytes_at (fill s1 op a ?c h n) x k" for x k by (simp add: s1(3) bytes_at_def)
  have "im_Maps s' p = Some (bounce_context op h n a q i)" by (simp add: s1(3))
  from host_span [OF ok(2) this _ host, of q] have far: "\<forall>k < unat n. phys s1 (h + of_nat k) \<notin> span (IoMmuGetSharedPa s1 a) (unat ?c * 4096)"
    by (simp add: bounce_context_def pa ph)
  note f = fill_memory [OF g s1(4,5) pa(1) [symmetric]]
  show "bytes_at s' (IoMmuGetSharedPa s a) (mapped_bytes n) =
      (if is_read op then load s h (unat n) @ replicate (mapped_bytes n - unat n) 0 else replicate (mapped_bytes n) 0)"
    unfolding b N using f(2) [of op h] f(3) [of op h] far ph(4) pa(1) by simp
  show "im_Memory s' y = im_Memory s y" if "y \<notin> span (IoMmuGetSharedPa s a) (mapped_bytes n)"
    using f(1) [of y op h] that ph(3) by (simp add: N s1(3))
qed

text \<open>What the host finds after a mapping for writing has been unmapped.\<close>

lemma unmapped_contents:
  assumes ok: "iommu_ok s" and p: "im_Maps s p = Some m" and q: "mc_BounceBlock m = Some q" and op: "is_write (mc_Operation m)"
    and c: "reaches s (mc_HostAddress m) c (unat (mc_NumberOfBytes m))"
  shows "\<exists>s'. IoMmuUnmap b s (Some p) = Some (EFI_SUCCESS, s') \<and>
    load s' (mc_HostAddress m) (unat (mc_NumberOfBytes m)) = bytes_at s (IoMmuGetSharedPa s (mc_BounceBase m)) (unat (mc_NumberOfBytes m)) \<and>
    (\<forall>y. y \<notin> span c (unat (mc_NumberOfBytes m)) \<longrightarrow> im_Memory s' y = im_Memory s y)"
proof -
  let ?n = "unat (mc_NumberOfBytes m)" and ?h = "mc_HostAddress m" and ?a = "mc_BounceBase m"
  define xs where "xs = load s (IoMmuGetSharedVa s ?a) ?n"
  obtain s' where u: "IoMmuUnmap b s (Some p) = Some (EFI_SUCCESS, s')" "im_CanonicalizationMask s' = im_CanonicalizationMask s"
      "im_Memory s' = im_Memory (store s ?h xs)"
    using unmap_ok [OF ok p, of b] q op by (auto simp: CopyMem_def xs_def)
  note pl = live_place [OF ok p q]
  have len: "length xs = ?n" by (simp add: xs_def)
  have "unat ?a + ?n \<le> 4294967296" using pl(2,3) by simp
  then have xs: "xs = bytes_at s (IoMmuGetSharedPa s ?a) ?n"
    unfolding xs_def using load_reaches [OF reaches_shared [OF iommu_okD(1) [OF ok]]] by simp
  have r: "reaches s ?h c (length xs)" using c len by simp
  have "load s' ?h ?n = bytes_at s' c ?n" using c reaches_same [OF u(2)] by (intro load_reaches) simp
  also have "\<dots> = bytes_at (store s ?h xs) c (length xs)" by (simp add: bytes_at_def u(3) len)
  also have "\<dots> = xs" by (rule bytes_at_store [OF r])
  finally have "load s' ?h ?n = bytes_at s (IoMmuGetSharedPa s ?a) ?n" unfolding xs .
  moreover have "im_Memory s' y = im_Memory s y" if "y \<notin> span c ?n" for y
    using that unfolding u(3) store_reaches [OF r] len by (simp add: span_def)
  ultimately show ?thesis using u(1) by blast
qed

lemma not_free_run: "\<not> free_run B i n \<longleftrightarrow> (\<exists>k. i \<le> k \<and> k < i + n \<and> in_use B k)"
  by (auto simp: free_run_def)

subsection \<open>An isolated machine\<close>

text \<open>
  The shared addresses start at bit 47, the hypervisor makes ranges visible, and the first block of
  1024 pages lies at 1 MB.
\<close>

definition isolated :: iommu_config where
  "isolated = \<lparr>cf_IsIsolated = True, cf_DmaPinningRequired = False, cf_ForceDmaBounce = False,
     cf_SharedGpaBoundary = 0x800000000000, cf_CanonicalizationBitmask = 0xFFFF000000000000\<rparr>"

definition first_block :: block_env where
  "first_block = \<lparr>be_Block = Some 100, be_Bitmap = True, be_Pages = (EFI_SUCCESS, 0x100000),
     be_Hv = \<lparr>he_Visible = (EFI_SUCCESS, 7), he_Pin = (EFI_SUCCESS, False)\<rparr>\<rparr>"

definition one_context :: map_env where
  "one_context = \<lparr>me_Pages = (EFI_OUT_OF_RESOURCES, 0), me_Context = Some 200,
     me_Block = \<lparr>be_Block = None, be_Bitmap = False, be_Pages = (EFI_OUT_OF_RESOURCES, 0), be_Hv = be_Hv first_block\<rparr>\<rparr>"

definition block_of :: "u64 list \<Rightarrow> u32 \<Rightarrow> iommu_bounce_block" where
  "block_of Bitmap n = \<lparr>bb_Pointer = 100, bb_Signature = IOMMU_BOUNCE_BLOCK_SIGNATURE, bb_BlockBase = 0x100000, bb_BlockPageCount = 1024,
     bb_BitmapWordCount = 16, bb_AllocBitmap = Bitmap, bb_InUsePageCount = n, bb_IsPreparedForDma = True,
     bb_DmaContext = \<lparr>dc_RangeProtectionHandle = 7, dc_BaseAddress = 0x100000, dc_PageCount = 1024, dc_PinApplied = False\<rparr>\<rparr>"

definition machine :: "(u64 \<Rightarrow> u8) \<Rightarrow> iommu" where
  "machine memory = \<lparr>im_BounceMode = 3, im_SharedGpaBoundary = 0x800000000000, im_CanonicalizationMask = 0xFFFF000000000000,
     im_Blocks = [block_of (replicate 16 0) 0], im_Allocs = [], im_Maps = Map.empty, im_Memory = memory,
     im_Calls = [MakeVisible 0x100000 0x400000 EFI_SUCCESS 7]\<rparr>"

lemma boundary_isolated: "boundary_ok 0x800000000000 0xFFFF000000000000"
proof -
  have "(0x800000000000 :: u64) = 2 ^ 47" "(0xFFFF000000000000 :: u64) = NOT (mask 48)" by (simp_all add: mask_eq_exp_minus_1)
  then show ?thesis unfolding boundary_ok_def by (intro disjI2 exI [of _ 47]) simp
qed

lemma machine_entry: "IoMmuDxeEntryPoint b first_block isolated memory EFI_SUCCESS EFI_SUCCESS = Some (EFI_SUCCESS, machine memory)"
  by (simp add: IoMmuDxeEntryPoint_def IoMmuComputeBounceMode_def IoMmuInitializeBounce_def IoMmuPreAllocateBounceBlock_def
      IoMmuPrepareAddressRangeForDma_def IoMmuIsBounceActive_def IoMmuRequiresHostVisibility_def IoMmuRequiresPinning_def
      isolated_def first_block_def machine_def block_of_def record_call_def Let_def EFI_ERROR_def
      IOMMU_BOUNCE_MODE_NONE_def IOMMU_BOUNCE_MODE_BOUNCE_def IOMMU_BOUNCE_MODE_HOST_VISIBILITY_def IOMMU_BOUNCE_MODE_PINNING_def
      IOMMU_BOUNCE_INITIAL_BLOCK_PAGES_def)

lemma machine_reach: "iommu_reach b (machine memory)"
proof -
  have "block_env_ok first_block [] (unat IOMMU_BOUNCE_INITIAL_BLOCK_PAGES)"
    by (simp add: block_env_ok_def first_block_def IOMMU_BOUNCE_INITIAL_BLOCK_PAGES_def)
  moreover have "boundary_ok (cf_SharedGpaBoundary isolated) (cf_CanonicalizationBitmask isolated)"
    using boundary_isolated by (simp add: isolated_def)
  ultimately have "iommu_start b (machine memory)" using machine_entry unfolding iommu_start_def by blast
  then show ?thesis unfolding iommu_reach_def using trace_nil by blast
qed

lemma machine_env: "map_env_ok one_context (machine memory) n"
  by (simp add: map_env_ok_def block_env_ok_def one_context_def machine_def EFI_ERROR_def)

lemma machine_active: "IoMmuIsBounceActive (machine memory)"
  by (simp add: machine_def IoMmuIsBounceActive_def IOMMU_BOUNCE_MODE_BOUNCE_def)

text \<open>A mapping of three bytes takes the first page of the block.\<close>

lemma machine_map:
  assumes "op \<in> {BusMasterRead, BusMasterWrite}"
  shows "\<exists>s'. IoMmuMap b one_context (machine memory) op 0x5000 3 = Some (EFI_SUCCESS,
      \<lparr>mr_NumberOfBytes = 3, mr_DeviceAddress = Some 0x800000100000, mr_Mapping = Some (Some 200)\<rparr>, s') \<and>
    im_Blocks s' = [block_of (1 # replicate 15 0) 1] \<and> im_SharedGpaBoundary s' = 0x800000000000 \<and> im_CanonicalizationMask s' = 0xFFFF000000000000"
proof -
  have pages: "EFI_SIZE_TO_PAGES 3 = 1" by (simp add: EFI_SIZE_TO_PAGES_def)
  have r: "replicate 16 (0 :: u64) = 0 # replicate 15 0" using replicate_Suc [of 15 "0 :: u64"] by simp
  have bitmap: "FindFreeRun (replicate 16 0) 1024 1 = Some (Some 0)" "UpdateBitmapRun (replicate 16 0) 0 1 True = Some (1 # replicate 15 0)"
    by (simp_all add: FindFreeRun_def find_run.simps [of _ _ _ 0] word_at_def bit_mask_def UpdateBitmapRun_def r)
  let ?s1 = "(machine memory)\<lparr>im_Blocks := [block_of (1 # replicate 15 0) 1]\<rparr>"
  have a: "IoMmuAcquireBouncePages b (me_Block one_context) (machine memory) 1 = Some (EFI_SUCCESS, Some (100, 0, 0x100000), ?s1)"
    by (simp add: IoMmuAcquireBouncePages_def machine_def block_of_def bitmap Let_def)
  have pa: "IoMmuGetSharedPa ?s1 0x100000 = 0x800000100000" by (simp add: IoMmuGetSharedPa_def machine_def)
  have "map_bounce b one_context (machine memory) op 0x5000 3 = Some (EFI_SUCCESS,
      \<lparr>mr_NumberOfBytes = 3, mr_DeviceAddress = Some 0x800000100000, mr_Mapping = Some (Some 200)\<rparr>,
      (fill ?s1 op 0x100000 1 0x5000 3)\<lparr>im_Maps := (im_Maps ?s1)(200 \<mapsto> bounce_context op 0x5000 3 0x100000 100 0)\<rparr>)"
    unfolding map_bounce_fill pages using a pa by (simp add: Let_def EFI_ERROR_def one_context_def)
  then show ?thesis using assms machine_active by (auto simp: IoMmuMap_def is_common_def) (simp_all add: machine_def)
qed

subsection \<open>Properties\<close>

text \<open>
  C3: In every state that the driver reaches, with devices and processors writing to memory at any
  time, the pages that different live mappings give to devices are disjoint and lie in the pages of
  a bounce block. The bitmap of a block marks exactly the pages of the live mappings, and the
  counter of the block is their number.
\<close>

theorem bounce_isolation:
  assumes "iommu_reach b s"
  shows "(\<forall>p m p' m'. im_Maps s p = Some m \<and> mc_BounceBlock m \<noteq> None \<and> im_Maps s p' = Some m' \<and> mc_BounceBlock m' \<noteq> None \<and> p \<noteq> p' \<longrightarrow>
      device_region s m \<inter> device_region s m' = {}) \<and>
    (\<forall>p m. im_Maps s p = Some m \<and> mc_BounceBlock m \<noteq> None \<longrightarrow>
      (\<exists>blk \<in> set (im_Blocks s). device_region s m \<subseteq> {unat (bb_BlockBase blk) + unat (im_SharedGpaBoundary s)..<
        unat (bb_BlockBase blk) + unat (im_SharedGpaBoundary s) + unat (bb_BlockPageCount blk) * 4096})) \<and>
    (\<forall>blk \<in> set (im_Blocks s). pages_in_use blk = {k. \<exists>p. covers (owner s) p (bb_Pointer blk) k} \<and>
      unat (bb_InUsePageCount blk) = card (pages_in_use blk))"
proof (intro conjI allI impI ballI)
  note ok = reach_ok [OF assms, THEN conjunct1]
  note h = iommu_okD(2) [OF ok]
  show "device_region s m \<inter> device_region s m' = {}"
    if "im_Maps s p = Some m \<and> mc_BounceBlock m \<noteq> None \<and> im_Maps s p' = Some m' \<and> mc_BounceBlock m' \<noteq> None \<and> p \<noteq> p'" for p m p' m'
    using that device_regions_disjoint [OF ok] by blast
  show "\<exists>blk \<in> set (im_Blocks s). device_region s m \<subseteq> {unat (bb_BlockBase blk) + unat (im_SharedGpaBoundary s)..<
      unat (bb_BlockBase blk) + unat (im_SharedGpaBoundary s) + unat (bb_BlockPageCount blk) * 4096}"
    if live: "im_Maps s p = Some m \<and> mc_BounceBlock m \<noteq> None" for p m
  proof -
    obtain q where q: "im_Maps s p = Some m" "mc_BounceBlock m = Some q" using live by blast
    note pl = live_place [OF ok q]
    obtain blk where "blk \<in> set (im_Blocks s)" "unat (mc_BounceBase m) = unat (bb_BlockBase blk) + unat (mc_BounceStartPage m) * 4096"
        "unat (mc_BounceStartPage m) + unat (mc_BouncePageCount m) \<le> unat (bb_BlockPageCount blk)" using pl(1) by blast
    then show ?thesis using pl(4) unfolding device_region_def by (intro bexI [of _ blk]) auto
  qed
  fix blk
  assume "blk \<in> set (im_Blocks s)"
  then show "pages_in_use blk = {k. \<exists>p. covers (owner s) p (bb_Pointer blk) k}" "unat (bb_InUsePageCount blk) = card (pages_in_use blk)"
    using pool_holdsD(2,3) [OF h] by (simp_all add: block_ok_def)
qed

theorem bounce_isolation_witness:
  "iommu_reach \<lparr>ASSERTS = True, DBG = True, DEBUG_CODE = True\<rparr> (machine (\<lambda>_. 0)) \<and>
   pages_in_use (block_of (replicate 16 0) 0) = {k. \<exists>p. covers (owner (machine (\<lambda>_. 0))) p 100 k}"
proof -
  have blk: "block_of (replicate 16 0) 0 \<in> set (im_Blocks (machine (\<lambda>_. 0)))" "bb_Pointer (block_of (replicate 16 0) 0) = 100"
    by (simp_all add: machine_def block_of_def)
  show ?thesis
    using bounce_isolation [OF machine_reach, THEN conjunct2, THEN conjunct2, rule_format, OF blk(1)] machine_reach blk(2) by metis
qed



text \<open>
  C15: In every state that the driver reaches, mapping returns for every request, without failing an
  assertion, whether memory runs out or not. Unmapping a live mapping succeeds and gives its pages
  back; the other mappings stay.
\<close>

theorem iommu_calls_return:
  assumes "iommu_reach b s"
  shows "(\<forall>env op h n. map_env_ok env s n \<longrightarrow> (\<exists>st r s'. IoMmuMap b env s op h n = Some (st, r, s') \<and> adds_map env s s')) \<and>
    (\<forall>p m. im_Maps s p = Some m \<longrightarrow> (\<exists>s'. IoMmuUnmap b s (Some p) = Some (EFI_SUCCESS, s') \<and> im_Maps s' = (im_Maps s)(p := None) \<and>
      (\<forall>blk \<in> set (im_Blocks s'). pages_in_use blk = {k. \<exists>p'. p' \<noteq> p \<and> covers (owner s) p' (bb_Pointer blk) k})))"
proof (intro conjI allI impI)
  note ok = reach_ok [OF assms, THEN conjunct1]
  show "\<exists>st r s'. IoMmuMap b env s op h n = Some (st, r, s') \<and> adds_map env s s'" if "map_env_ok env s n" for env op h n
    using map_ok [OF ok that, of b op h] by blast
  show "\<exists>s'. IoMmuUnmap b s (Some p) = Some (EFI_SUCCESS, s') \<and> im_Maps s' = (im_Maps s)(p := None) \<and>
      (\<forall>blk \<in> set (im_Blocks s'). pages_in_use blk = {k. \<exists>p'. p' \<noteq> p \<and> covers (owner s) p' (bb_Pointer blk) k})"
    if p: "im_Maps s p = Some m" for p m
  proof -
    obtain s' where s': "IoMmuUnmap b s (Some p) = Some (EFI_SUCCESS, s')" "iommu_ok s'" "im_Maps s' = (im_Maps s)(p := None)"
      using unmap_ok [OF ok p, of b] by blast
    have "owner s' = (owner s)(p := None)" by (rule owner_upd(3) [OF s'(3)])
    then show ?thesis using s' pool_holdsD(3) [OF iommu_okD(2) [OF s'(2)]] by (auto simp: covers_upd)
  qed
qed

theorem iommu_calls_return_witness:
  "\<exists>st r s'. IoMmuMap \<lparr>ASSERTS = True, DBG = True, DEBUG_CODE = True\<rparr> one_context (machine (\<lambda>_. 0)) BusMasterRead 0x5000 0x7000000 = Some (st, r, s')"
  using iommu_calls_return [OF machine_reach] machine_env by blast

text \<open>
  C8: A mapping for reading shows the device the bytes of the host's buffer, followed by zeros to the
  end of the page; a mapping for writing shows it zeros only. So no other data of the host leak. No
  byte outside the mapped pages changes.
\<close>

theorem bounce_map_contents:
  assumes "iommu_reach b s" "map_env_ok env s n" "IoMmuIsBounceActive s" "\<not> is_common op"
    and m: "IoMmuMap b env s op h n = Some (EFI_SUCCESS, r, s')" and host: "host_apart s' h (unat n)"
  shows "\<exists>a. mr_DeviceAddress r = Some a \<and> bytes_at s' a (mapped_bytes n) =
      (if is_read op then load s h (unat n) @ replicate (mapped_bytes n - unat n) 0 else replicate (mapped_bytes n) 0) \<and>
    (\<forall>y. y \<notin> span a (mapped_bytes n) \<longrightarrow> im_Memory s' y = im_Memory s y)"
proof -
  note ok = reach_ok [OF assms(1), THEN conjunct1]
  note ms = mapped_success [OF ok assms(2-4) m]
  obtain p a where p: "mapped s op h n p r s' a" using ms(2) by blast
  then have "mr_DeviceAddress r = Some (IoMmuGetSharedPa s a)" by (auto simp: mapped_def)
  then show ?thesis using mapped_contents [OF ok ms(1) p ms(3) host] by blast
qed

theorem bounce_map_contents_witness:
  "\<exists>r s'. IoMmuMap \<lparr>ASSERTS = True, DBG = True, DEBUG_CODE = True\<rparr> one_context (machine (\<lambda>_. 9)) BusMasterRead 0x5000 3 = Some (EFI_SUCCESS, r, s') \<and>
    bytes_at s' 0x800000100000 4096 = [9, 9, 9] @ replicate 4093 0"
proof -
  let ?b = "\<lparr>ASSERTS = True, DBG = True, DEBUG_CODE = True\<rparr>" and ?s = "machine (\<lambda>_. 9)"
    and ?r = "\<lparr>mr_NumberOfBytes = 3, mr_DeviceAddress = Some 0x800000100000, mr_Mapping = Some (Some 200)\<rparr>"
  obtain s' where s': "IoMmuMap ?b one_context ?s BusMasterRead 0x5000 3 = Some (EFI_SUCCESS, ?r, s')"
      "im_Blocks s' = [block_of (1 # replicate 15 0) 1]" "im_SharedGpaBoundary s' = 0x800000000000" "im_CanonicalizationMask s' = 0xFFFF000000000000"
    using machine_map [of BusMasterRead ?b "\<lambda>_. 9"] by auto
  have less3: "k < 3 \<longleftrightarrow> k = 0 \<or> k = 1 \<or> k = 2" for k :: nat by auto
  have "host_apart s' 0x5000 (unat (3 :: u64))"
    using s'(2-4) by (auto simp: host_apart_def block_of_def phys_def less3)
  from bounce_map_contents [OF machine_reach machine_env machine_active _ s'(1) this]
  have "bytes_at s' 0x800000100000 (mapped_bytes 3) = load ?s 0x5000 3 @ replicate (mapped_bytes 3 - 3) 0"
    by (simp add: is_common_def is_read_def)
  moreover have "load ?s 0x5000 3 = [9, 9, 9]" by (simp add: load_def machine_def upt_rec)
  ultimately show ?thesis using s'(1) by (auto simp: mapped_bytes_def)
qed

text \<open>
  C4: A mapping for writing carries data from the device to the host: whatever calls of other drivers
  and writes to memory follow the mapping, unmapping it succeeds and fills the buffer of the host with
  the bytes that memory then has at the address given to the device, and changes no other byte.
\<close>

theorem dma_write_round_trip:
  assumes "iommu_reach b s" "map_env_ok env s n" "IoMmuIsBounceActive s" "is_write op"
    and m: "IoMmuMap b env s op h n = Some (EFI_SUCCESS, r, s1)" and host: "reaches s h c (unat n)"
  shows "\<exists>p a. mr_Mapping r = Some (Some p) \<and> mr_DeviceAddress r = Some a \<and>
    (\<forall>es s2. iommu_trace b s1 es s2 \<and> Unmap_call (Some p) \<notin> set es \<longrightarrow>
      (\<exists>s3. IoMmuUnmap b s2 (Some p) = Some (EFI_SUCCESS, s3) \<and> load s3 h (unat n) = bytes_at s2 a (unat n) \<and>
        (\<forall>y. y \<notin> span c (unat n) \<longrightarrow> im_Memory s3 y = im_Memory s2 y)))"
proof -
  note reach = reach_ok [OF assms(1)]
  note ok = reach [THEN conjunct1]
  have op: "\<not> is_common op" using assms(4) by (auto simp: is_write_def is_common_def)
  note ms = mapped_success [OF ok assms(2,3) op m]
  obtain p a where p: "mapped s op h n p r s1 a" using ms(2) by blast
  then have r: "mr_Mapping r = Some (Some p)" "mr_DeviceAddress r = Some (IoMmuGetSharedPa s a)" by (auto simp: mapped_def)
  obtain q i where live: "im_Maps s1 p = Some (bounce_context op h n a q i)" using mapped_live [OF p] by blast
  note k1 = map_keeps [OF m]
  have "\<exists>s3. IoMmuUnmap b s2 (Some p) = Some (EFI_SUCCESS, s3) \<and> load s3 h (unat n) = bytes_at s2 (IoMmuGetSharedPa s a) (unat n) \<and>
      (\<forall>y. y \<notin> span c (unat n) \<longrightarrow> im_Memory s3 y = im_Memory s2 y)"
    if t: "iommu_trace b s1 es s2" "Unmap_call (Some p) \<notin> set es" for es s2
  proof -
    note tr = trace_ok [OF t(1) ms(1) map_ledger [OF m reach [THEN conjunct2]]]
    have k: "keeps s s2" using tr k1 by (auto simp: keeps_def)
    have m2: "im_Maps s2 p = Some (bounce_context op h n a q i)" using tr live t(2) by blast
    have "IoMmuGetSharedPa s2 a = IoMmuGetSharedPa s a" using k by (simp add: keeps_def IoMmuGetSharedPa_def Let_def)
    moreover have "reaches s2 h c (unat n)" using host reaches_same [of s2 s] k by (simp add: keeps_def)
    ultimately show ?thesis
      using unmapped_contents [OF conjunct1 [OF tr] m2, of q c b] assms(4) by (simp add: bounce_context_def)
  qed
  with r show ?thesis by blast
qed

theorem dma_write_round_trip_witness:
  "\<exists>s1 s3. IoMmuMap \<lparr>ASSERTS = True, DBG = True, DEBUG_CODE = True\<rparr> one_context (machine (\<lambda>_. 0)) BusMasterWrite 0x5000 3 =
      Some (EFI_SUCCESS, \<lparr>mr_NumberOfBytes = 3, mr_DeviceAddress = Some 0x800000100000, mr_Mapping = Some (Some 200)\<rparr>, s1) \<and>
    IoMmuUnmap \<lparr>ASSERTS = True, DBG = True, DEBUG_CODE = True\<rparr> (s1\<lparr>im_Memory := \<lambda>_. 5\<rparr>) (Some 200) = Some (EFI_SUCCESS, s3) \<and>
    load s3 0x5000 3 = [5, 5, 5]"
proof -
  let ?b = "\<lparr>ASSERTS = True, DBG = True, DEBUG_CODE = True\<rparr>"
  obtain s1 where s1: "IoMmuMap ?b one_context (machine (\<lambda>_. 0)) BusMasterWrite 0x5000 3 =
      Some (EFI_SUCCESS, \<lparr>mr_NumberOfBytes = 3, mr_DeviceAddress = Some 0x800000100000, mr_Mapping = Some (Some 200)\<rparr>, s1)"
    using machine_map [of BusMasterWrite ?b "\<lambda>_. 0"] by auto
  have less3: "k < 3 \<longleftrightarrow> k = 0 \<or> k = 1 \<or> k = 2" for k :: nat by auto
  have "reaches (machine (\<lambda>_. 0)) 0x5000 0x5000 (unat (3 :: u64))" by (auto simp: reaches_def phys_def machine_def less3)
  note d = dma_write_round_trip [OF machine_reach machine_env machine_active _ s1 this]
  have "iommu_trace ?b s1 ([] @ [Memory_write]) (s1\<lparr>im_Memory := \<lambda>_. 5\<rparr>)" by (rule trace_step [OF trace_nil step_write])
  with d obtain s3 where "IoMmuUnmap ?b (s1\<lparr>im_Memory := \<lambda>_. 5\<rparr>) (Some 200) = Some (EFI_SUCCESS, s3)"
      "load s3 0x5000 3 = bytes_at (s1\<lparr>im_Memory := \<lambda>_. 5\<rparr>) 0x800000100000 3"
    by (force simp: is_write_def)
  then show ?thesis using s1 by (auto simp: bytes_at_def upt_rec)
qed

text \<open>
  C29: The search for free pages returns the lowest run of the requested length that is free in the
  bitmap, and finds none only when there is none.
\<close>

theorem find_free_run_lowest:
  assumes "unat BitmapSize \<le> 64 * length Bitmap" "0 < RunLength" "RunLength \<le> BitmapSize"
  shows "\<exists>res. FindFreeRun Bitmap BitmapSize RunLength = Some res \<and>
    (case res of
       None \<Rightarrow> \<forall>st. st + unat RunLength \<le> unat BitmapSize \<longrightarrow> (\<exists>k. st \<le> k \<and> k < st + unat RunLength \<and> in_use Bitmap k)
     | Some st \<Rightarrow> unat st + unat RunLength \<le> unat BitmapSize \<and> (\<forall>k. unat st \<le> k \<and> k < unat st + unat RunLength \<longrightarrow> \<not> in_use Bitmap k) \<and>
         (\<forall>i < unat st. \<exists>k. i \<le> k \<and> k < i + unat RunLength \<and> in_use Bitmap k))"
  by (rule find_free_run [OF assms, unfolded not_free_run, unfolded free_run_def])

theorem find_free_run_lowest_witness:
  "\<exists>st. FindFreeRun [0xFFFFFFFFFFFFFF0B, 0] 128 3 = Some (Some st) \<and> unat st + 3 \<le> 128"
proof -
  have "\<not> in_use [0xFFFFFFFFFFFFFF0B, 0] k" if "64 \<le> k" "k < 67" for k
  proof -
    have "k div 64 = 1" using that by (intro div_nat_eqI) simp_all
    then show ?thesis by (simp add: in_use_def)
  qed
  then have free: "\<not> (\<exists>k. 64 \<le> k \<and> k < 64 + 3 \<and> in_use [0xFFFFFFFFFFFFFF0B, 0] k)" by auto
  have h: "unat (128 :: u32) \<le> 64 * length [0xFFFFFFFFFFFFFF0B :: u64, 0]" "0 < (3 :: u32)" "(3 :: u32) \<le> 128" by simp_all
  from find_free_run_lowest [OF h] obtain res where res: "FindFreeRun [0xFFFFFFFFFFFFFF0B, 0] 128 3 = Some res"
    and c: "case res of
        None \<Rightarrow> \<forall>st. st + unat (3 :: u32) \<le> unat (128 :: u32) \<longrightarrow> (\<exists>k. st \<le> k \<and> k < st + unat (3 :: u32) \<and> in_use [0xFFFFFFFFFFFFFF0B, 0] k)
      | Some st \<Rightarrow> unat st + unat (3 :: u32) \<le> unat (128 :: u32) \<and>
          (\<forall>k. unat st \<le> k \<and> k < unat st + unat (3 :: u32) \<longrightarrow> \<not> in_use [0xFFFFFFFFFFFFFF0B, 0] k) \<and>
          (\<forall>i < unat st. \<exists>k. i \<le> k \<and> k < i + unat (3 :: u32) \<and> in_use [0xFFFFFFFFFFFFFF0B, 0] k)" by blast
  show ?thesis
  proof (cases res)
    case None
    from c [unfolded None option.case, rule_format, of 64] free show ?thesis by simp
  next
    case (Some st)
    from c [unfolded Some option.case, THEN conjunct1] res Some show ?thesis by simp
  qed
qed

text \<open>
  C36: When shared addresses start above 4 GB, a buffer that was allocated below 4 GB is freed at its
  shared address: \<^verbatim>\<open>FreePages\<close> is called with an address that is not the one that
  \<^verbatim>\<open>AllocatePages\<close> returned.
\<close>

theorem free_buffer_misses_pages:
  assumes ok: "iommu_reach b s" and active: "IoMmuIsBounceActive s" and bound: "im_SharedGpaBoundary s \<noteq> 0"
    and att: "Attributes AND EDKII_IOMMU_ATTRIBUTE_DUAL_ADDRESS_CYCLE = 0"
    and x: "ae_Pages env AllocateMaxAddress (SIZE_4GB - 1) = (EFI_SUCCESS, x)" "unat x < 4294967296"
    and a: "IoMmuAllocateBuffer b env s True Type Pages True Attributes = Some (EFI_SUCCESS, Some h, s1)"
  shows "ac_OriginalAddress (last (im_Allocs s1)) = x \<and> (\<exists>st s2. IoMmuFreeBuffer freed s1 Pages h = (st, s2) \<and>
    last (im_Calls s2) = FreePagesCall h Pages \<and> h \<noteq> x)"
proof -
  note g = iommu_okD(1) [OF conjunct1 [OF reach_ok [OF ok]]]
  have al: "allocate_buffer env s True Type Pages True Attributes = (EFI_SUCCESS, Some h, s1)"
    using a by (auto simp: IoMmuAllocateBuffer_def ASSERT_def split: prod.splits if_splits)
  obtain st ctx t where p: "IoMmuPrepareAddressRangeForDma (ae_Hv env) s x (ucast Pages) = (st, ctx, t)" by (metis prod_cases3)
  have t: "same_maps s t" by (rule prepare_same [OF p])
  have h: "h = IoMmuGetSharedVa t x" "ac_OriginalAddress (last (im_Allocs s1)) = x"
    using al active att x(1) p by (auto simp: allocate_buffer_def Let_def EFI_ERROR_def split: if_splits prod.splits)
  have "phys t h = IoMmuGetSharedPa t x" using shared_phys [of t x 0] gpa_ok_cong [OF t] g x(2) h(1) by simp
  also have "\<dots> = x + im_SharedGpaBoundary s" using shared_pa(1) [of t x] gpa_ok_cong [OF t] g x(2) t by (simp add: same_maps_def)
  finally have "phys t h \<noteq> x" using bound by simp
  moreover have "phys t x = x" unfolding phys_def using strip_low [of t x] gpa_ok_cong [OF t] g x(2) by simp
  ultimately have "h \<noteq> x" by metis
  moreover have "\<exists>st s2. IoMmuFreeBuffer freed s1 Pages h = (st, s2) \<and> last (im_Calls s2) = FreePagesCall h Pages"
    by (auto simp: IoMmuFreeBuffer_def Let_def split: prod.splits)
  ultimately show ?thesis using h(2) by blast
qed

theorem free_buffer_misses_pages_witness:
  "\<exists>s1. IoMmuAllocateBuffer \<lparr>ASSERTS = True, DBG = True, DEBUG_CODE = True\<rparr>
      \<lparr>ae_Pages = (\<lambda>_ _. (EFI_SUCCESS, 0x7000)), ae_Hv = be_Hv first_block, ae_Context = True\<rparr>
      (machine (\<lambda>_. 0)) True AllocateAnyPages 2 True 0 = Some (EFI_SUCCESS, Some 0xFFFF800000007000, s1) \<and>
    (\<exists>st s2. IoMmuFreeBuffer EFI_SUCCESS s1 2 0xFFFF800000007000 = (st, s2) \<and> last (im_Calls s2) = FreePagesCall 0xFFFF800000007000 2)"
proof -
  let ?b = "\<lparr>ASSERTS = True, DBG = True, DEBUG_CODE = True\<rparr>"
    and ?e = "\<lparr>ae_Pages = (\<lambda>_ _. (EFI_SUCCESS, 0x7000)), ae_Hv = be_Hv first_block, ae_Context = True\<rparr>"
  obtain s1 where s1: "IoMmuAllocateBuffer ?b ?e (machine (\<lambda>_. 0)) True AllocateAnyPages 2 True 0 = Some (EFI_SUCCESS, Some 0xFFFF800000007000, s1)"
    using machine_active [of "\<lambda>_. 0"]
    by (simp add: IoMmuAllocateBuffer_def allocate_buffer_def IoMmuPrepareAddressRangeForDma_def first_block_def Let_def EFI_ERROR_def
        IoMmuRequiresHostVisibility_def IoMmuRequiresPinning_def IOMMU_BOUNCE_MODE_HOST_VISIBILITY_def IOMMU_BOUNCE_MODE_PINNING_def
        IoMmuGetSharedVa_def IoMmuGetSharedPa_def machine_def record_call_def)
  have "im_SharedGpaBoundary (machine (\<lambda>_. 0)) \<noteq> 0" by (simp add: machine_def)
  from free_buffer_misses_pages [OF machine_reach machine_active this _ _ _ s1, of "0x7000" EFI_SUCCESS] s1 show ?thesis by auto
qed

end
