(* ===== verification/Hv_Isolation.thy ===== *)
theory Hv_Isolation
  imports Msvm_Prelude
begin

text \<open>
  Detecting an isolated machine: \<^verbatim>\<open>MsvmPkg/PlatformPei/Hv.c\<close> for X64, and the
  questions of \<^verbatim>\<open>MsvmPkg/Library/IsolationLib/IsolationLib.c\<close>.

  The processor's answers to CPUID, the status of setting a configuration value, and the secrets
  page are arguments. \<open>None\<close>: the firmware stops, because an assertion or a
  \<^verbatim>\<open>FAIL_FAST\<close> fails.
\<close>

subsection \<open>Kinds of isolation\<close>

definition UefiIsolationTypeNone :: u32 where "UefiIsolationTypeNone = 0"
definition UefiIsolationTypeVbs :: u32 where "UefiIsolationTypeVbs = 1"
definition UefiIsolationTypeSnp :: u32 where "UefiIsolationTypeSnp = 2"
definition UefiIsolationTypeTdx :: u32 where "UefiIsolationTypeTdx = 3"

definition IsIsolatedEx :: "u32 \<Rightarrow> bool" where
  "IsIsolatedEx IsolationType \<longleftrightarrow> IsolationType \<noteq> UefiIsolationTypeNone"

definition IsHardwareIsolatedEx :: "u32 \<Rightarrow> bool" where
  "IsHardwareIsolatedEx IsolationType \<longleftrightarrow> UefiIsolationTypeSnp \<le> IsolationType"

definition IsSoftwareIsolatedEx :: "u32 \<Rightarrow> bool" where
  "IsSoftwareIsolatedEx IsolationType \<longleftrightarrow> IsolationType = UefiIsolationTypeVbs"

definition IsHardwareIsolatedNoParavisorEx :: "u32 \<Rightarrow> bool \<Rightarrow> bool" where
  "IsHardwareIsolatedNoParavisorEx IsolationType IsParavisorPresent \<longleftrightarrow>
     IsHardwareIsolatedEx IsolationType \<and> \<not> IsParavisorPresent"

subsection \<open>Configuration\<close>

text \<open>The configuration values (PCDs) and the variables of \<^verbatim>\<open>Hv.c\<close>.\<close>

record platform =
  pl_IsolationArchitecture :: u32
  pl_IsolationParavisorPresent :: bool
  pl_IsolationSharedGpaBoundary :: u64
  pl_IsolationSharedGpaCanonicalizationBitmask :: u64
  pl_DmaPinningRequired :: bool
  pl_SvsmCallingArea :: u64
  pl_mParavisorPresent :: bool
  pl_mIsolationType :: u32
  pl_mSharedGpaBit :: u32

definition GetIsolationType :: "platform \<Rightarrow> u32" where
  "GetIsolationType s = pl_IsolationArchitecture s"

definition IsParavisorPresent :: "platform \<Rightarrow> bool" where
  "IsParavisorPresent s = pl_IsolationParavisorPresent s"

definition IsIsolated :: "platform \<Rightarrow> bool" where
  "IsIsolated s = IsIsolatedEx (GetIsolationType s)"

definition IsHardwareIsolated :: "platform \<Rightarrow> bool" where
  "IsHardwareIsolated s = IsHardwareIsolatedEx (GetIsolationType s)"

definition IsSoftwareIsolated :: "platform \<Rightarrow> bool" where
  "IsSoftwareIsolated s = IsSoftwareIsolatedEx (GetIsolationType s)"

definition IsHardwareIsolatedNoParavisor :: "platform \<Rightarrow> bool" where
  "IsHardwareIsolatedNoParavisor s = IsHardwareIsolatedNoParavisorEx (GetIsolationType s) (IsParavisorPresent s)"

subsection \<open>The leaves of CPUID\<close>

record cpuid =
  Eax :: u32
  Ebx :: u32
  Ecx :: u32
  Edx :: u32

definition HvCpuIdFunctionVersionAndFeatures :: u32 where "HvCpuIdFunctionVersionAndFeatures = 0x00000001"
definition HvCpuIdFunctionHvInterface :: u32 where "HvCpuIdFunctionHvInterface = 0x40000001"
definition HvCpuIdFunctionMsHvFeatures :: u32 where "HvCpuIdFunctionMsHvFeatures = 0x40000003"
definition HvCpuIdFunctionMsHvEnlightenmentInformation :: u32 where "HvCpuIdFunctionMsHvEnlightenmentInformation = 0x40000004"
definition HvCpuidFunctionMsHvIsolationConfiguration :: u32 where "HvCpuidFunctionMsHvIsolationConfiguration = 0x4000000C"
definition HvMicrosoftHypervisorInterface :: u32 where "HvMicrosoftHypervisorInterface = 0x31237648"

definition HypervisorPresent :: "cpuid \<Rightarrow> bool" where
  "HypervisorPresent r = bit (Ecx r) 31"

definition Isolation :: "cpuid \<Rightarrow> bool" where
  "Isolation r = bit (Ebx r) 22"

definition UseGpaPinningHypercall :: "cpuid \<Rightarrow> bool" where
  "UseGpaPinningHypercall r = bit (Eax r) 22"

definition ParavisorPresent :: "cpuid \<Rightarrow> bool" where
  "ParavisorPresent r = bit (Eax r) 0"

definition IsolationType :: "cpuid \<Rightarrow> u32" where
  "IsolationType r = take_bit 4 (Ebx r)"

definition SharedGpaBoundaryActive :: "cpuid \<Rightarrow> bool" where
  "SharedGpaBoundaryActive r = bit (Ebx r) 5"

definition SharedGpaBoundaryBits :: "cpuid \<Rightarrow> u32" where
  "SharedGpaBoundaryBits r = take_bit 6 (drop_bit 6 (Ebx r))"

subsection \<open>Detection\<close>

text \<open>\<open>set_ok\<close>: whether a configuration value could be set; the firmware stops otherwise.\<close>

definition set_boundary :: "bool \<Rightarrow> cpuid \<Rightarrow> platform \<Rightarrow> platform option" where
  "set_boundary set_ok r s =
     (if SharedGpaBoundaryActive r then do {
        let s = s\<lparr>pl_mSharedGpaBit := SharedGpaBoundaryBits r\<rparr>;
        let sharedGpaBoundary = push_bit (unat (pl_mSharedGpaBit s)) 1;
        let virtualAddressBits = 48;
        sharedGpaCanonicalizationBitmask \<leftarrow>
          (if SharedGpaBoundaryBits r = virtualAddressBits - 1 then Some (NOT (push_bit (unat virtualAddressBits) 1 - 1))
           else if virtualAddressBits - 1 < SharedGpaBoundaryBits r then None
           else Some 0);
        if set_ok then Some (s\<lparr>pl_IsolationSharedGpaBoundary := sharedGpaBoundary,
          pl_IsolationSharedGpaCanonicalizationBitmask := sharedGpaCanonicalizationBitmask\<rparr>)
        else None
      }
      else Some s)"

definition HvDetectIsolation :: "build \<Rightarrow> (u32 \<Rightarrow> cpuid) \<Rightarrow> bool \<Rightarrow> platform \<Rightarrow> platform option" where
  "HvDetectIsolation b MsCpuid set_ok s =
     (if \<not> HypervisorPresent (MsCpuid HvCpuIdFunctionVersionAndFeatures) then Some s
      else if Eax (MsCpuid HvCpuIdFunctionHvInterface) \<noteq> HvMicrosoftHypervisorInterface then Some s
      else if \<not> Isolation (MsCpuid HvCpuIdFunctionMsHvFeatures) then Some s
      else
        let r = MsCpuid HvCpuidFunctionMsHvIsolationConfiguration in
        if IsolationType r = 0 then Some s
        else do {
          ASSERT b (IsolationType r \<in> {UefiIsolationTypeVbs, UefiIsolationTypeSnp, UefiIsolationTypeTdx});
          if IsolationType r \<notin> {UefiIsolationTypeVbs, UefiIsolationTypeSnp, UefiIsolationTypeTdx} then Some s
          else if \<not> set_ok then None
          else do {
            let s = s\<lparr>pl_mIsolationType := IsolationType r, pl_IsolationArchitecture := IsolationType r\<rparr>;
            let s = (if ParavisorPresent r then s\<lparr>pl_mParavisorPresent := True, pl_IsolationParavisorPresent := True\<rparr> else s);
            set_boundary set_ok r s
          }
        })"

text \<open>\<open>PcdHvEnabled\<close>: the configuration says that the hypervisor is there.\<close>

definition HvDetectDmaPinningRequired :: "bool \<Rightarrow> (u32 \<Rightarrow> cpuid) \<Rightarrow> bool \<Rightarrow> platform \<Rightarrow> platform option" where
  "HvDetectDmaPinningRequired PcdHvEnabled MsCpuid set_ok s =
     (if \<not> PcdHvEnabled then Some s
      else if \<not> HypervisorPresent (MsCpuid HvCpuIdFunctionVersionAndFeatures) then Some s
      else if Eax (MsCpuid HvCpuIdFunctionHvInterface) \<noteq> HvMicrosoftHypervisorInterface then Some s
      else if \<not> UseGpaPinningHypercall (MsCpuid HvCpuIdFunctionMsHvEnlightenmentInformation) then Some s
      else if set_ok then Some (s\<lparr>pl_DmaPinningRequired := True\<rparr>) else None)"

record snp_secrets =
  ss_SvsmBase :: u64
  ss_SvsmSize :: u64
  ss_SvsmCallingArea :: u64

text \<open>The base and the size of the area of the SVSM.\<close>

definition HvDetectSvsm :: "bool \<Rightarrow> snp_secrets \<Rightarrow> platform \<Rightarrow> (u64 \<times> u64 \<times> platform) option" where
  "HvDetectSvsm set_ok SecretsPage s =
     (if ss_SvsmSize SecretsPage \<noteq> 0 then
        if set_ok then Some (ss_SvsmBase SecretsPage, ss_SvsmSize SecretsPage, s\<lparr>pl_SvsmCallingArea := ss_SvsmCallingArea SecretsPage\<rparr>)
        else None
      else Some (0, 0, s))"

subsection \<open>What detection establishes\<close>

definition no_isolation :: platform where
  "no_isolation = \<lparr>pl_IsolationArchitecture = 0, pl_IsolationParavisorPresent = False, pl_IsolationSharedGpaBoundary = 0,
     pl_IsolationSharedGpaCanonicalizationBitmask = 0, pl_DmaPinningRequired = False, pl_SvsmCallingArea = 0,
     pl_mParavisorPresent = False, pl_mIsolationType = 0, pl_mSharedGpaBit = 0\<rparr>"

end
