(* ===== verification/Hv_Hypercall.thy ===== *)
theory Hv_Hypercall
  imports Hv_Isolation
begin

text \<open>
  Calling the hypervisor on X64: \<^verbatim>\<open>MsvmPkg/Library/HvHypercallLib/HvHypercallLib.c\<close>,
  \<^verbatim>\<open>X64/GhcbHypercall.c\<close> and the entry of \<^verbatim>\<open>GhcbLib/X64/GhcbCall.c\<close>.

  A call reaches the hypervisor in one of three ways: through the hypercall page, through a TDX
  call, or through the page shared with the host on SNP. The hypervisor and the processor are
  functions that answer, given everything that happened before; what leaves the firmware is
  recorded as events. \<open>None\<close>: the firmware stops or never returns. A call stands for its
  code and the contents of its input page; the output page is part of the answer. Interrupts are
  masked around calls; the fields of the shared page other than the request are not modelled.
\<close>

subsection \<open>Calls\<close>

record post_message =
  pm_ConnectionId :: u32
  pm_MessageType :: u32
  pm_PayloadSize :: u32
  pm_Payload :: "u8 list"

datatype hypercall =
    HvCallPostMessage post_message
  | HvCallSignalEvent u64 u64
  | HvCallStartVirtualProcessor u32 "u8 list"
  | HvCallModifySparseGpaPageHostVisibility u32 "u64 list"
  | HvCallPinGpaPageRanges "u64 list"
  | HvCallUnpinGpaPageRanges "u64 list"
  | HvCallQueryInformationGpaRange u64 u64

primrec CallCode :: "hypercall \<Rightarrow> u16" where
  "CallCode (HvCallPostMessage m) = 0x5c"
| "CallCode (HvCallSignalEvent r r') = 0x5d"
| "CallCode (HvCallStartVirtualProcessor i c) = 0x99"
| "CallCode (HvCallModifySparseGpaPageHostVisibility f ps) = 0xDB"
| "CallCode (HvCallPinGpaPageRanges rs) = 0x112"
| "CallCode (HvCallUnpinGpaPageRanges rs) = 0x113"
| "CallCode (HvCallQueryInformationGpaRange p n) = 0x135"

text \<open>Status, elements processed, and the output page of a query: the count and the entries.\<close>

record hv_reply =
  hr_Status :: u16
  hr_Elements :: u32
  hr_SubrangeCount :: u16
  hr_SubrangeList :: "nat \<Rightarrow> u64"

definition ElementsProcessed :: "hv_reply \<Rightarrow> u32" where
  "ElementsProcessed r = take_bit 12 (hr_Elements r)"

subsection \<open>The world outside the firmware\<close>

datatype hv_route = Native | Tdx | Ghcb

datatype hv_event =
    Hypercall hv_route hypercall u64 u64 hv_reply
  | ReadMsr hv_route u32 u64
  | WriteMsr hv_route u32 u64
  | ZeroMem_event u64 u32
  | FreePages u64 nat
  | MemoryAttributes u64 bool
  | Pvalidate u64 u32 bool u64 u64
  | GhcbRequest u64 u64
  | SvsmPvalidate "u64 list" u64 bool u16
  | PageAccept u64 u64
  | MapGpa u64 u64 u64 u64

text \<open>
  Answers to: a hypercall (the number of the attempt and the first element are given), reading a
  register, allocating from the pool and allocating pages, \<^verbatim>\<open>PVALIDATE\<close> (carry flag and
  error code), a request through the register of the shared page, a call of the SVSM (result,
  call pending, next entry), \<^verbatim>\<open>TDG.MEM.PAGE.ACCEPT\<close> and \<^verbatim>\<open>MapGpa\<close>
  (result and failed address), making a page read-only or not, and whether the hypercall page is
  mapped.
\<close>

record hv_world =
  hw_Hypercall :: "hv_event list \<Rightarrow> hv_route \<Rightarrow> hypercall \<Rightarrow> nat \<Rightarrow> u32 \<Rightarrow> hv_reply"
  hw_ReadMsr :: "hv_event list \<Rightarrow> hv_route \<Rightarrow> u32 \<Rightarrow> u64"
  hw_Pool :: "nat \<Rightarrow> nat option"
  hw_Pages :: "nat \<Rightarrow> nat \<Rightarrow> u64"
  hw_Pvalidate :: "hv_event list \<Rightarrow> u64 \<Rightarrow> u32 \<Rightarrow> bool \<Rightarrow> u64 \<times> u64"
  hw_GhcbRequest :: "hv_event list \<Rightarrow> u64 \<Rightarrow> u64"
  hw_Svsm :: "hv_event list \<Rightarrow> u64 list \<Rightarrow> u64 \<times> bool \<times> u16"
  hw_PageAccept :: "hv_event list \<Rightarrow> u64 \<Rightarrow> u64"
  hw_MapGpa :: "hv_event list \<Rightarrow> u64 \<Rightarrow> u64 \<Rightarrow> u64 \<times> u64"
  hw_SetMemoryAttributes :: "hv_event list \<Rightarrow> u64 \<Rightarrow> bool \<Rightarrow> bool"
  hw_HypercallPageMapped :: "hv_event list \<Rightarrow> u64 \<Rightarrow> bool"

subsection \<open>Contexts\<close>

text \<open>\<open>hc_Ghcb\<close> is 0 when there is no shared page.\<close>

record hv_hypercall_context =
  hc_Connected :: bool
  hc_IsTdx :: bool
  hc_Ghcb :: u64
  hc_SharedGpaBoundary :: u64
  hc_CanonicalizationMask :: u64
  hc_HypercallPage :: u64
  hc_ParavisorPresent :: bool

definition no_context :: hv_hypercall_context where
  "no_context = \<lparr>hc_Connected = False, hc_IsTdx = False, hc_Ghcb = 0, hc_SharedGpaBoundary = 0,
     hc_CanonicalizationMask = 0, hc_HypercallPage = 0, hc_ParavisorPresent = False\<rparr>"

definition hc_route :: "hv_hypercall_context \<Rightarrow> hv_route" where
  "hc_route Context = (if hc_Ghcb Context \<noteq> 0 then Ghcb else if hc_IsTdx Context then Tdx else Native)"

subsection \<open>Registers\<close>

definition HvRegisterSint0 :: u32 where "HvRegisterSint0 = 0x000A0000"
definition HvRegisterSint15 :: u32 where "HvRegisterSint15 = 0x000A000F"
definition HvRegisterScontrol :: u32 where "HvRegisterScontrol = 0x000A0010"
definition HvRegisterSirbp :: u32 where "HvRegisterSirbp = 0x000A0015"
definition HvRegisterNestedSint0 :: u32 where "HvRegisterNestedSint0 = 0x000A1000"
definition HvRegisterNestedSint15 :: u32 where "HvRegisterNestedSint15 = 0x000A100F"
definition HvRegisterNestedScontrol :: u32 where "HvRegisterNestedScontrol = 0x000A1010"
definition HvRegisterNestedSirbp :: u32 where "HvRegisterNestedSirbp = 0x000A1015"
definition HvRegisterVpIndex :: u32 where "HvRegisterVpIndex = 0x00090003"
definition HvRegisterGuestOsId :: u32 where "HvRegisterGuestOsId = 0x00090002"
definition HvRegisterTimeRefCount :: u32 where "HvRegisterTimeRefCount = 0x00090004"
definition HvRegisterNestedVpIndex :: u32 where "HvRegisterNestedVpIndex = 0x00091003"
definition HvRegisterStimer0Config :: u32 where "HvRegisterStimer0Config = 0x000B0000"
definition HvRegisterStimer3Count :: u32 where "HvRegisterStimer3Count = 0x000B0007"
definition HvX64RegisterHypercall :: u32 where "HvX64RegisterHypercall = 0x00090001"

definition HvSyntheticMsrGuestOsId :: u32 where "HvSyntheticMsrGuestOsId = 0x40000000"
definition HvSyntheticMsrHypercall :: u32 where "HvSyntheticMsrHypercall = 0x40000001"
definition HvSyntheticMsrVpIndex :: u32 where "HvSyntheticMsrVpIndex = 0x40000002"
definition HvSyntheticMsrTimeRefCount :: u32 where "HvSyntheticMsrTimeRefCount = 0x40000020"
definition HvSyntheticMsrSControl :: u32 where "HvSyntheticMsrSControl = 0x40000080"
definition HvSyntheticMsrSint0 :: u32 where "HvSyntheticMsrSint0 = 0x40000090"
definition HvSyntheticMsrSTimer0Config :: u32 where "HvSyntheticMsrSTimer0Config = 0x400000B0"
definition HvSyntheticMsrNestedVpIndex :: u32 where "HvSyntheticMsrNestedVpIndex = 0x40001002"
definition HvSyntheticMsrNestedSControl :: u32 where "HvSyntheticMsrNestedSControl = 0x40001080"
definition HvSyntheticMsrNestedSint0 :: u32 where "HvSyntheticMsrNestedSint0 = 0x40001090"
definition SEV_MSR_GHCB :: u32 where "SEV_MSR_GHCB = 0xC0010130"

text \<open>The values of the names in one group of cases are consecutive.\<close>

definition HvHypercallpGetMsrNameFromRegisterName :: "build \<Rightarrow> u32 \<Rightarrow> u32 option" where
  "HvHypercallpGetMsrNameFromRegisterName b RegisterName =
     (if HvRegisterSint0 \<le> RegisterName \<and> RegisterName \<le> HvRegisterSint15
      then Some (HvSyntheticMsrSint0 + (RegisterName - HvRegisterSint0))
      else if HvRegisterScontrol \<le> RegisterName \<and> RegisterName \<le> HvRegisterSirbp
      then Some (HvSyntheticMsrSControl + (RegisterName - HvRegisterScontrol))
      else if HvRegisterNestedSint0 \<le> RegisterName \<and> RegisterName \<le> HvRegisterNestedSint15
      then Some (HvSyntheticMsrNestedSint0 + (RegisterName - HvRegisterNestedSint0))
      else if HvRegisterNestedScontrol \<le> RegisterName \<and> RegisterName \<le> HvRegisterNestedSirbp
      then Some (HvSyntheticMsrNestedSControl + (RegisterName - HvRegisterNestedScontrol))
      else if RegisterName = HvRegisterVpIndex then Some HvSyntheticMsrVpIndex
      else if RegisterName = HvRegisterGuestOsId then Some HvSyntheticMsrGuestOsId
      else if RegisterName = HvRegisterTimeRefCount then Some HvSyntheticMsrTimeRefCount
      else if RegisterName = HvRegisterNestedVpIndex then Some HvSyntheticMsrNestedVpIndex
      else if HvRegisterStimer0Config \<le> RegisterName \<and> RegisterName \<le> HvRegisterStimer3Count
      then Some (HvSyntheticMsrSTimer0Config + (RegisterName - HvRegisterStimer0Config))
      else if RegisterName = HvX64RegisterHypercall then Some HvSyntheticMsrHypercall
      else do { ASSERT b False; Some 0 })"

definition HvHypercallGetVpRegister64Self ::
  "build \<Rightarrow> hv_world \<Rightarrow> hv_event list \<Rightarrow> hv_hypercall_context \<Rightarrow> u32 \<Rightarrow> (u64 \<times> hv_event list) option" where
  "HvHypercallGetVpRegister64Self b w es Context RegisterName = do {
     msr \<leftarrow> HvHypercallpGetMsrNameFromRegisterName b RegisterName;
     let v = hw_ReadMsr w es (hc_route Context) msr;
     Some (v, es @ [ReadMsr (hc_route Context) msr v])
   }"

definition HvHypercallSetVpRegister64Self ::
  "build \<Rightarrow> hv_event list \<Rightarrow> hv_hypercall_context \<Rightarrow> u32 \<Rightarrow> u64 \<Rightarrow> hv_event list option" where
  "HvHypercallSetVpRegister64Self b es Context RegisterName RegisterValue = do {
     msr \<leftarrow> HvHypercallpGetMsrNameFromRegisterName b RegisterName;
     Some (es @ [WriteMsr (hc_route Context) msr RegisterValue])
   }"

subsection \<open>Connecting\<close>

text \<open>A register of the shared page that is not above the boundary or not aligned is a dead loop.\<close>

definition GhcbInitializeGhcb :: "build \<Rightarrow> hv_world \<Rightarrow> platform \<Rightarrow> hv_event list \<Rightarrow> (u64 \<times> hv_event list) option" where
  "GhcbInitializeGhcb b w pcd es = do {
     let sharedGpaBoundary = pl_IsolationSharedGpaBoundary pcd;
     ASSERT b (sharedGpaBoundary \<noteq> 0);
     let canonicalizationMask = pl_IsolationSharedGpaCanonicalizationBitmask pcd;
     let ghcbAddress = hw_ReadMsr w es Native SEV_MSR_GHCB;
     if ghcbAddress < sharedGpaBoundary \<or> ghcbAddress AND 0xFFF \<noteq> 0 then None
     else Some (ghcbAddress OR canonicalizationMask, es @ [ReadMsr Native SEV_MSR_GHCB ghcbAddress])
   }"

definition guestOsId :: u64 where "guestOsId = push_bit 40 1"

text \<open>The enable bit and the page number of the hypercall register.\<close>

definition hypercall_msr :: "u64 \<Rightarrow> bool \<Rightarrow> u64 \<Rightarrow> u64" where
  "hypercall_msr v enable page = (v AND 0xFFE) OR (if enable then 1 else 0) OR push_bit 12 page"

definition HvHypercallConnect ::
  "build \<Rightarrow> hv_world \<Rightarrow> platform \<Rightarrow> hv_event list \<Rightarrow> u64 \<Rightarrow> u32 \<Rightarrow> bool \<Rightarrow> (hv_hypercall_context \<times> hv_event list) option" where
  "HvHypercallConnect b w pcd es HypercallPage isolationType paravisorPresent =
     (if UefiIsolationTypeVbs < isolationType then do {
        let Context = no_context\<lparr>hc_SharedGpaBoundary := pl_IsolationSharedGpaBoundary pcd\<rparr>;
        ASSERT b (hc_SharedGpaBoundary Context \<noteq> 0);
        let Context = Context\<lparr>hc_CanonicalizationMask := pl_IsolationSharedGpaCanonicalizationBitmask pcd,
          hc_ParavisorPresent := paravisorPresent\<rparr>;
        (Context, es) \<leftarrow> (if isolationType = UefiIsolationTypeTdx then Some (Context\<lparr>hc_IsTdx := True\<rparr>, es)
          else do {
            (g, es) \<leftarrow> GhcbInitializeGhcb b w pcd es;
            Some (Context\<lparr>hc_Ghcb := g\<rparr>, es)
          });
        let es = es @ [WriteMsr (if hc_IsTdx Context then Tdx else Ghcb) HvSyntheticMsrGuestOsId guestOsId];
        Some (Context\<lparr>hc_Connected := True\<rparr>, es)
      }
      else do {
        let Context = no_context;
        es \<leftarrow> HvHypercallSetVpRegister64Self b es Context HvRegisterGuestOsId guestOsId;
        (hypercallMsr, es) \<leftarrow> HvHypercallGetVpRegister64Self b w es Context HvX64RegisterHypercall;
        ASSERT b (\<not> bit hypercallMsr 0);
        es \<leftarrow> HvHypercallSetVpRegister64Self b es Context HvX64RegisterHypercall
          (hypercall_msr hypercallMsr True (HypercallPage div 0x1000));
        Some (Context\<lparr>hc_HypercallPage := HypercallPage, hc_Connected := True\<rparr>, es)
      })"

definition HvHypercallDisconnect ::
  "build \<Rightarrow> hv_world \<Rightarrow> hv_event list \<Rightarrow> hv_hypercall_context \<Rightarrow> (hv_hypercall_context \<times> hv_event list) option" where
  "HvHypercallDisconnect b w es Context =
     (if hc_Connected Context then do {
        es \<leftarrow> (if hc_Ghcb Context = 0 \<and> \<not> hc_IsTdx Context then do {
            (hypercallMsr, es) \<leftarrow> HvHypercallGetVpRegister64Self b w es Context HvX64RegisterHypercall;
            HvHypercallSetVpRegister64Self b es Context HvX64RegisterHypercall (hypercall_msr hypercallMsr False 0)
          } else Some es);
        es \<leftarrow> HvHypercallSetVpRegister64Self b es Context HvRegisterGuestOsId 0;
        Some (Context\<lparr>hc_Connected := False\<rparr>, es)
      }
      else Some (Context, es))"

subsection \<open>Issuing a call\<close>

definition HV_STATUS_SUCCESS :: u16 where "HV_STATUS_SUCCESS = 0"
definition HV_STATUS_INVALID_HYPERCALL_CODE :: u16 where "HV_STATUS_INVALID_HYPERCALL_CODE = 2"
definition HV_STATUS_INVALID_PARAMETER :: u16 where "HV_STATUS_INVALID_PARAMETER = 5"
definition HV_STATUS_INVALID_CONNECTION_ID :: u16 where "HV_STATUS_INVALID_CONNECTION_ID = 0x12"
definition HV_STATUS_INSUFFICIENT_BUFFERS :: u16 where "HV_STATUS_INSUFFICIENT_BUFFERS = 0x13"
definition HV_STATUS_TIMEOUT :: u16 where "HV_STATUS_TIMEOUT = 0x78"
definition HV_X64_MAX_HYPERCALL_ELEMENTS :: u32 where "HV_X64_MAX_HYPERCALL_ELEMENTS = 0xFFF"

text \<open>A call that times out goes on where the hypervisor left off; it may time out forever.\<close>

partial_function (option) retry :: "(nat \<Rightarrow> u32 \<Rightarrow> hv_reply) \<Rightarrow> u32 \<Rightarrow> nat \<Rightarrow> u32 \<Rightarrow> hv_reply option" where
  "retry answer CountOfElements attempt RepStartIndex =
     (let r = answer attempt RepStartIndex in
      if CountOfElements = 0 \<or> hr_Status r \<noteq> HV_STATUS_TIMEOUT then Some r
      else retry answer CountOfElements (attempt + 1) (ElementsProcessed r))"

text \<open>An answer that is not reasonable is replaced by a failure.\<close>

definition reasonable :: "build \<Rightarrow> u32 \<Rightarrow> hv_reply \<Rightarrow> hv_reply option" where
  "reasonable b CountOfElements r =
     (if hr_Status r = HV_STATUS_SUCCESS \<and> ElementsProcessed r = CountOfElements then Some (r\<lparr>hr_Elements := ElementsProcessed r\<rparr>)
      else if hr_Status r \<noteq> HV_STATUS_SUCCESS \<and> ElementsProcessed r < CountOfElements then Some (r\<lparr>hr_Elements := ElementsProcessed r\<rparr>)
      else do { ASSERT b False; Some (r\<lparr>hr_Elements := 0, hr_Status := 0xFFFF\<rparr>) })"

definition refused :: "u16 \<Rightarrow> hv_reply" where
  "refused status = \<lparr>hr_Status = status, hr_Elements = 0, hr_SubrangeCount = 0, hr_SubrangeList = (\<lambda>_. 0)\<rparr>"

text \<open>The header of a message is 256 bytes long with its payload; the page has room for 4072.\<close>

definition HvHypercallpIssueGhcbHypercall ::
  "build \<Rightarrow> hv_world \<Rightarrow> hv_event list \<Rightarrow> hypercall \<Rightarrow> u64 \<Rightarrow> u32 \<Rightarrow> (hv_reply \<times> hv_event list) option" where
  "HvHypercallpIssueGhcbHypercall b w es c InputPage CountOfElements = do {
     let inputSize = (case c of HvCallPostMessage m \<Rightarrow> Some (256 + pm_PayloadSize m) | _ \<Rightarrow> None);
     if InputPage \<noteq> 0 \<and> inputSize = None then do {
       ASSERT b False;
       Some (refused HV_STATUS_INVALID_HYPERCALL_CODE, es)
     }
     else if InputPage \<noteq> 0 \<and> 4072 < the inputSize then do {
       ASSERT b False;
       Some (refused HV_STATUS_INVALID_PARAMETER, es)
     }
     else do {
       r \<leftarrow> retry (hw_Hypercall w es Ghcb c) CountOfElements 0 0;
       r \<leftarrow> reasonable b CountOfElements r;
       Some (r, es @ [Hypercall Ghcb c InputPage 0 r])
     }
   }"

text \<open>An address below the boundary, as the host sees it.\<close>

definition to_shared :: "build \<Rightarrow> hv_hypercall_context \<Rightarrow> u64 \<Rightarrow> u64 option" where
  "to_shared b Context Register =
     (if Register \<noteq> 0 then do {
        ASSERT b (Register < hc_SharedGpaBoundary Context);
        Some (Register + hc_SharedGpaBoundary Context)
      }
      else Some Register)"

definition HvHypercallIssue ::
  "build \<Rightarrow> hv_world \<Rightarrow> hv_event list \<Rightarrow> hv_hypercall_context \<Rightarrow> hypercall \<Rightarrow> bool \<Rightarrow> u32 \<Rightarrow> u64 \<Rightarrow> u64 \<Rightarrow>
   (hv_reply \<times> hv_event list) option" where
  "HvHypercallIssue b w es Context c Fast CountOfElements FirstRegister SecondRegister = do {
     ASSERT b (hc_Connected Context);
     ASSERT b (CountOfElements \<le> HV_X64_MAX_HYPERCALL_ELEMENTS);
     if hc_Ghcb Context \<noteq> 0 then do {
       FirstRegister \<leftarrow> (if Fast then Some 0
         else do {
           ASSERT b (SecondRegister = 0);
           if \<not> hc_ParavisorPresent Context \<and> FirstRegister \<noteq> 0 then do {
             r \<leftarrow> to_shared b Context FirstRegister;
             Some (r OR hc_CanonicalizationMask Context)
           }
           else Some FirstRegister
         });
       HvHypercallpIssueGhcbHypercall b w es c FirstRegister CountOfElements
     }
     else if hc_IsTdx Context then do {
       FirstRegister \<leftarrow> (if Fast then Some FirstRegister else to_shared b Context FirstRegister);
       SecondRegister \<leftarrow> (if Fast then Some SecondRegister else to_shared b Context SecondRegister);
       r \<leftarrow> retry (hw_Hypercall w es Tdx c) CountOfElements 0 0;
       r \<leftarrow> reasonable b CountOfElements r;
       Some (r, es @ [Hypercall Tdx c FirstRegister SecondRegister r])
     }
     else do {
       let r = hw_Hypercall w es Native c 0 0;
       let r = r\<lparr>hr_Elements := ElementsProcessed r\<rparr>;
       Some (r, es @ [Hypercall Native c FirstRegister SecondRegister r])
     }
   }"

end
