(* ===== verification/Host_Visibility.thy ===== *)
theory Host_Visibility
  imports Hv_Hypercall
begin

text \<open>
  Changing pages without the help of a paravisor:
  \<^verbatim>\<open>MsvmPkg/Library/HostVisibilityLib/HostVisibilityLib.c\<close>.

  The instructions of the processor and the calls of the SVSM answer through the world; every one
  of them is recorded. \<open>None\<close>: an assertion fails, or a call to the SVSM never completes.
  The register of the shared page is saved and restored around a request, with interrupts off.
\<close>

subsection \<open>Instructions\<close>

definition SIZE_2MB :: u64 where "SIZE_2MB = 0x200000"
definition largePageSize :: u64 where "largePageSize = 0x200"

definition SNP_SUCCESS :: u64 where "SNP_SUCCESS = 0"
definition SNP_FAIL_INPUT :: u64 where "SNP_FAIL_INPUT = 1"
definition SNP_FAIL_SIZEMISMATCH :: u64 where "SNP_FAIL_SIZEMISMATCH = 6"

definition sev_pvalidate :: "hv_world \<Rightarrow> hv_event list \<Rightarrow> u64 \<Rightarrow> u32 \<Rightarrow> bool \<Rightarrow> u64 \<times> u64 \<times> hv_event list" where
  "sev_pvalidate w es Address PageSize Validate =
     (let (cf, errorCode) = hw_Pvalidate w es Address PageSize Validate
      in (cf, errorCode, es @ [Pvalidate Address PageSize Validate cf errorCode]))"

text \<open>A request through the register: its kind, the page and the new state.\<close>

definition GHCB_INFO_PAGE_STATE_CHANGE :: u64 where "GHCB_INFO_PAGE_STATE_CHANGE = 0x014"
definition GHCB_INFO_PAGE_STATE_UPDATED :: u64 where "GHCB_INFO_PAGE_STATE_UPDATED = 0x015"
definition GHCB_DATA_PAGE_STATE_PRIVATE :: u64 where "GHCB_DATA_PAGE_STATE_PRIVATE = 0x001"
definition GHCB_DATA_PAGE_STATE_SHARED :: u64 where "GHCB_DATA_PAGE_STATE_SHARED = 0x002"

definition ghcbMsr :: "u64 \<Rightarrow> u64 \<Rightarrow> u64 \<Rightarrow> u64" where
  "ghcbMsr GhcbInfo GpaPageNumber ExtraData =
     take_bit 12 GhcbInfo OR push_bit 12 (take_bit 40 GpaPageNumber) OR push_bit 52 ExtraData"

definition SpecialGhcbCall :: "hv_world \<Rightarrow> hv_event list \<Rightarrow> u64 \<Rightarrow> u64 \<times> hv_event list" where
  "SpecialGhcbCall w es GhcbValue = (let r = hw_GhcbRequest w es GhcbValue in (r, es @ [GhcbRequest GhcbValue r]))"

text \<open>The SVSM is called until it clears the flag of a pending call: result and next entry.\<close>

partial_function (option) svsm_call :: "hv_world \<Rightarrow> hv_event list \<Rightarrow> u64 list \<Rightarrow> (u64 \<times> u16 \<times> hv_event list) option" where
  "svsm_call w es entries =
     (case hw_Svsm w es entries of (errorCode, CallPending, NextEntryIndex) \<Rightarrow>
        let es = es @ [SvsmPvalidate entries errorCode CallPending NextEntryIndex] in
        if CallPending then svsm_call w es entries else Some (errorCode, NextEntryIndex, es))"

subsection \<open>Acceptance on SNP\<close>

definition pvalidate_page :: "hv_world \<Rightarrow> hv_event list \<Rightarrow> u64 \<Rightarrow> u32 \<Rightarrow> bool \<Rightarrow> u64 \<times> hv_event list" where
  "pvalidate_page w es PageNumber PageSize Validate =
     (let (cf, errorCode, es) = sev_pvalidate w es (PageNumber * 0x1000) PageSize Validate
      in (if cf \<noteq> 0 then SNP_FAIL_INPUT else errorCode, es))"

text \<open>The conditions for a large page compare page numbers and page counts with a size in bytes.\<close>

definition snp_large :: "u64 \<Rightarrow> u64 \<Rightarrow> bool" where
  "snp_large StartingPageNumber PageCount \<longleftrightarrow> StartingPageNumber AND (SIZE_2MB - 1) = 0 \<and> SIZE_2MB \<le> PageCount"

function EfiUpdatePageRangeAcceptanceSnp ::
  "hv_world \<Rightarrow> hv_event list \<Rightarrow> u64 \<Rightarrow> u64 \<Rightarrow> bool \<Rightarrow> efi_status \<times> hv_event list" where
  "EfiUpdatePageRangeAcceptanceSnp w es StartingPageNumber PageCount Accept =
     (if PageCount = 0 then (EFI_SUCCESS, es)
      else
        (case (if snp_large StartingPageNumber PageCount then pvalidate_page w es StartingPageNumber 1 Accept
               else (SNP_FAIL_SIZEMISMATCH, es)) of
           (errorCode, es) \<Rightarrow>
             if errorCode = SNP_SUCCESS
             then EfiUpdatePageRangeAcceptanceSnp w es (StartingPageNumber + SIZE_2MB div 0x1000) (PageCount - SIZE_2MB div 0x1000) Accept
             else if errorCode \<noteq> SNP_FAIL_SIZEMISMATCH then (EFI_SECURITY_VIOLATION, es)
             else
               (case pvalidate_page w es StartingPageNumber 0 Accept of (errorCode, es) \<Rightarrow>
                  if errorCode \<noteq> SNP_SUCCESS then (EFI_SECURITY_VIOLATION, es)
                  else EfiUpdatePageRangeAcceptanceSnp w es (StartingPageNumber + 1) (PageCount - 1) Accept)))"
  by pat_completeness auto
termination
proof -
  have one: "unat (n - 1) < unat n" if "n \<noteq> 0" for n :: u64
    using that by (simp add: unat_diff_le word_le_nat_alt unat_gt_0 Suc_leI)
  have large: "unat (n - SIZE_2MB div 0x1000) < unat n" if "snp_large p n" for p n :: u64
    using that by (simp add: snp_large_def SIZE_2MB_def unat_diff_le word_le_nat_alt)
  show ?thesis
    by (relation "measure (\<lambda>(_, _, _, n, _). unat n)")
      (auto dest: one large split: if_splits simp: SNP_SUCCESS_def SNP_FAIL_SIZEMISMATCH_def)
qed

declare EfiUpdatePageRangeAcceptanceSnp.simps [simp del]

subsection \<open>Acceptance through the SVSM\<close>

definition SVSM_PVALIDATE_SIZE_MASK :: u64 where "SVSM_PVALIDATE_SIZE_MASK = 1"
definition SVSM_PVALIDATE_VALIDATE_MASK :: u64 where "SVSM_PVALIDATE_VALIDATE_MASK = 4"
definition SVSM_SUCCESS :: u64 where "SVSM_SUCCESS = 0"
definition SVSM_ERR_INCOMPLETE :: u64 where "SVSM_ERR_INCOMPLETE = 0x80000000"
definition SVSM_ERR_PVALIDATE_SIZE_MISMATCH :: u64 where "SVSM_ERR_PVALIDATE_SIZE_MISMATCH = 0x80001006"

text \<open>The entries of the parameter page, at most \<open>m\<close> of them.\<close>

primrec svsm_fill :: "nat \<Rightarrow> u64 \<Rightarrow> u64 \<Rightarrow> u64 \<Rightarrow> u64 list" where
  "svsm_fill 0 pageNumber pagesRemaining errorCode = []"
| "svsm_fill (Suc m) pageNumber pagesRemaining errorCode =
     (if pagesRemaining = 0 then []
      else
        let entry = pageNumber * 0x1000 OR SVSM_PVALIDATE_VALIDATE_MASK in
        if pageNumber AND (largePageSize - 1) = 0 \<and> largePageSize \<le> pagesRemaining \<and> errorCode \<noteq> SVSM_ERR_PVALIDATE_SIZE_MISMATCH
        then (entry OR SVSM_PVALIDATE_SIZE_MASK) # svsm_fill m (pageNumber + largePageSize) (pagesRemaining - largePageSize) errorCode
        else entry # svsm_fill m (pageNumber + 1) (pagesRemaining - 1) SVSM_SUCCESS)"

text \<open>The entries that were processed.\<close>

primrec svsm_consume :: "build \<Rightarrow> u64 list \<Rightarrow> u64 \<Rightarrow> u64 \<Rightarrow> (u64 \<times> u64) option" where
  "svsm_consume b [] StartingPageNumber PageCount = Some (StartingPageNumber, PageCount)"
| "svsm_consume b (entry # entries) StartingPageNumber PageCount =
     (if entry AND SVSM_PVALIDATE_SIZE_MASK \<noteq> 0 then do {
        ASSERT b (entry div 0x1000 AND (largePageSize - 1) = 0);
        ASSERT b (largePageSize \<le> PageCount);
        svsm_consume b entries (StartingPageNumber + largePageSize) (PageCount - largePageSize)
      }
      else svsm_consume b entries (StartingPageNumber + 1) (PageCount - 1))"

text \<open>\<open>Accept\<close> is an argument of the source that its body does not use.\<close>

partial_function (option) svsm_accept ::
  "build \<Rightarrow> hv_world \<Rightarrow> hv_event list \<Rightarrow> nat \<Rightarrow> u64 \<Rightarrow> u64 \<Rightarrow> (efi_status \<times> hv_event list) option" where
  "svsm_accept b w es maximumEntries StartingPageNumber PageCount =
     (if PageCount = 0 then Some (EFI_SUCCESS, es)
      else do {
        let pageArray = svsm_fill maximumEntries StartingPageNumber PageCount SVSM_SUCCESS;
        (errorCode, NextEntryIndex, es) \<leftarrow> svsm_call w es pageArray;
        if errorCode \<noteq> SVSM_SUCCESS \<and> errorCode \<noteq> SVSM_ERR_INCOMPLETE \<and> errorCode \<noteq> SVSM_ERR_PVALIDATE_SIZE_MISMATCH
        then Some (EFI_SECURITY_VIOLATION, es)
        else if length pageArray < unat NextEntryIndex then None
        else do {
          (StartingPageNumber, PageCount) \<leftarrow> svsm_consume b (take (unat NextEntryIndex) pageArray) StartingPageNumber PageCount;
          svsm_accept b w es maximumEntries StartingPageNumber PageCount
        }
      })"

definition EfiUpdatePageRangeAcceptanceSnpSvsm ::
  "build \<Rightarrow> hv_world \<Rightarrow> hv_event list \<Rightarrow> u64 \<Rightarrow> u64 \<Rightarrow> u64 \<Rightarrow> bool \<Rightarrow> (efi_status \<times> hv_event list) option" where
  "EfiUpdatePageRangeAcceptanceSnpSvsm b w es SvsmCallingArea StartingPageNumber PageCount Accept =
     (let maximumEntries = ucast ((0x1000 - (SvsmCallingArea AND 0xFFF)) div 8) :: u32;
          numberOfEntries = 2 in
      if maximumEntries \<le> numberOfEntries then Some (EFI_SECURITY_VIOLATION, es)
      else svsm_accept b w es (unat (maximumEntries - numberOfEntries)) StartingPageNumber PageCount)"

subsection \<open>Acceptance on TDX\<close>

definition TDX_SUCCESS :: u64 where "TDX_SUCCESS = 0"
definition TDX_PAGE_SIZE_MISMATCH :: u64 where "TDX_PAGE_SIZE_MISMATCH = 0xC0000B0B"
definition TDX_VMCALL_RETRY :: u64 where "TDX_VMCALL_RETRY = 1"

definition TDX_TDG_STATUS :: "u64 \<Rightarrow> u64" where
  "TDX_TDG_STATUS status = drop_bit 32 status"

definition acceptGpa :: "u64 \<Rightarrow> u64 \<Rightarrow> u64" where
  "acceptGpa PageSize GpaPageNumber = take_bit 2 PageSize OR push_bit 12 GpaPageNumber"

definition tdg_mem_page_accept :: "hv_world \<Rightarrow> hv_event list \<Rightarrow> u64 \<Rightarrow> u64 \<times> hv_event list" where
  "tdg_mem_page_accept w es AcceptGpa = (let r = hw_PageAccept w es AcceptGpa in (r, es @ [PageAccept AcceptGpa r]))"

text \<open>The page number is a field of 52 bits.\<close>

definition tdx_large :: "u64 \<Rightarrow> u64 \<Rightarrow> bool" where
  "tdx_large GpaPageNumber PageCount \<longleftrightarrow> GpaPageNumber AND (largePageSize - 1) = 0 \<and> largePageSize \<le> PageCount"

function tdx_accept :: "hv_world \<Rightarrow> hv_event list \<Rightarrow> u64 \<Rightarrow> u64 \<Rightarrow> efi_status \<times> hv_event list" where
  "tdx_accept w es GpaPageNumber PageCount =
     (if PageCount = 0 then (EFI_SUCCESS, es)
      else
        (case (if tdx_large GpaPageNumber PageCount then tdg_mem_page_accept w es (acceptGpa 1 GpaPageNumber)
               else (push_bit 32 TDX_PAGE_SIZE_MISMATCH, es)) of
           (errorCode, es) \<Rightarrow>
             if TDX_TDG_STATUS errorCode = TDX_SUCCESS
             then tdx_accept w es (take_bit 52 (GpaPageNumber + largePageSize)) (PageCount - largePageSize)
             else if TDX_TDG_STATUS errorCode \<noteq> TDX_PAGE_SIZE_MISMATCH then (EFI_SECURITY_VIOLATION, es)
             else
               (case tdg_mem_page_accept w es (acceptGpa 0 GpaPageNumber) of (errorCode, es) \<Rightarrow>
                  if TDX_TDG_STATUS errorCode \<noteq> TDX_SUCCESS then (EFI_SECURITY_VIOLATION, es)
                  else tdx_accept w es (take_bit 52 (GpaPageNumber + 1)) (PageCount - 1))))"
  by pat_completeness auto
termination
proof -
  have one: "unat (n - 1) < unat n" if "n \<noteq> 0" for n :: u64
    using that by (simp add: unat_diff_le word_le_nat_alt unat_gt_0 Suc_leI)
  have large: "unat (n - largePageSize) < unat n" if "tdx_large p n" for p n :: u64
    using that by (simp add: tdx_large_def largePageSize_def unat_diff_le word_le_nat_alt)
  show ?thesis
    by (relation "measure (\<lambda>(_, _, _, n). unat n)")
      (auto dest: one large split: if_splits simp: TDX_SUCCESS_def TDX_TDG_STATUS_def TDX_PAGE_SIZE_MISMATCH_def)
qed

declare tdx_accept.simps [simp del]

definition EfiUpdatePageRangeAcceptanceTdx ::
  "hv_world \<Rightarrow> hv_event list \<Rightarrow> u64 \<Rightarrow> u64 \<Rightarrow> efi_status \<times> hv_event list" where
  "EfiUpdatePageRangeAcceptanceTdx w es StartingPageNumber PageCount =
     tdx_accept w es (take_bit 52 StartingPageNumber) PageCount"

definition EfiUpdatePageRangeAcceptance ::
  "build \<Rightarrow> hv_world \<Rightarrow> hv_event list \<Rightarrow> u32 \<Rightarrow> u64 \<Rightarrow> u64 \<Rightarrow> u64 \<Rightarrow> bool \<Rightarrow> (efi_status \<times> hv_event list) option" where
  "EfiUpdatePageRangeAcceptance b w es isolationType SvsmCallingArea StartingPageNumber PageCount Accept =
     (if isolationType = UefiIsolationTypeTdx then
        if Accept then Some (EfiUpdatePageRangeAcceptanceTdx w es StartingPageNumber PageCount)
        else Some (EFI_SUCCESS, es)
      else do {
        ASSERT b (isolationType = UefiIsolationTypeSnp);
        if SvsmCallingArea \<noteq> 0
        then EfiUpdatePageRangeAcceptanceSnpSvsm b w es SvsmCallingArea StartingPageNumber PageCount Accept
        else Some (EfiUpdatePageRangeAcceptanceSnp w es StartingPageNumber PageCount Accept)
      })"

subsection \<open>Visibility on SNP\<close>

text \<open>Without an SVSM the instruction is executed with the argument 0.\<close>

definition VispPvalidateSinglePage ::
  "hv_world \<Rightarrow> hv_event list \<Rightarrow> u64 \<Rightarrow> u64 \<Rightarrow> bool \<Rightarrow> (efi_status \<times> hv_event list) option" where
  "VispPvalidateSinglePage w es SvsmCallingArea PageNumber Validate =
     (if SvsmCallingArea \<noteq> 0 then do {
        let entry = PageNumber * 0x1000;
        let entry = (if Validate then entry OR SVSM_PVALIDATE_VALIDATE_MASK else entry);
        (errorCode, _, es) \<leftarrow> svsm_call w es [entry];
        Some (if errorCode \<noteq> SVSM_SUCCESS then EFI_SECURITY_VIOLATION else EFI_SUCCESS, es)
      }
      else
        let (cf, errorCode, es) = sev_pvalidate w es (PageNumber * 0x1000) 0 False
        in Some (if cf \<noteq> 0 then EFI_SECURITY_VIOLATION else if errorCode \<noteq> 0 then EFI_SECURITY_VIOLATION else EFI_SUCCESS, es))"

function visible_snp ::
  "hv_world \<Rightarrow> hv_event list \<Rightarrow> u64 \<Rightarrow> u64 \<Rightarrow> u64 \<Rightarrow> u64 \<Rightarrow> (efi_status \<times> u64 \<times> hv_event list) option" where
  "visible_snp w es SvsmCallingArea StartingPageNumber PageCount processed =
     (if PageCount = 0 then Some (EFI_SUCCESS, processed, es)
      else
        (case VispPvalidateSinglePage w es SvsmCallingArea StartingPageNumber False of
           None \<Rightarrow> None
         | Some (status, es) \<Rightarrow>
             if EFI_ERROR status then Some (status, processed, es)
             else
               (case SpecialGhcbCall w es (ghcbMsr GHCB_INFO_PAGE_STATE_CHANGE StartingPageNumber GHCB_DATA_PAGE_STATE_SHARED) of
                  (r, es) \<Rightarrow>
                    if r \<noteq> GHCB_INFO_PAGE_STATE_UPDATED then
                      (case VispPvalidateSinglePage w es SvsmCallingArea StartingPageNumber True of
                         None \<Rightarrow> None
                       | Some (_, es) \<Rightarrow> Some (EFI_SECURITY_VIOLATION, processed, es))
                    else visible_snp w es SvsmCallingArea (StartingPageNumber + 1) (PageCount - 1) (processed + 1))))"
  by pat_completeness auto
termination
proof -
  have one: "unat (n - 1) < unat n" if "n \<noteq> 0" for n :: u64
    using that by (simp add: unat_diff_le word_le_nat_alt unat_gt_0 Suc_leI)
  show ?thesis by (relation "measure (\<lambda>(_, _, _, _, n, _). unat n)") (auto dest: one)
qed

declare visible_snp.simps [simp del]

definition EfiMakePageRangeHostVisibleSnp ::
  "hv_world \<Rightarrow> hv_event list \<Rightarrow> u64 \<Rightarrow> u64 \<Rightarrow> u64 \<Rightarrow> (efi_status \<times> u64 \<times> hv_event list) option" where
  "EfiMakePageRangeHostVisibleSnp w es SvsmCallingArea StartingPageNumber PageCount =
     visible_snp w es SvsmCallingArea StartingPageNumber PageCount 0"

text \<open>The request names the shared state, as the one for visible pages does.\<close>

function not_visible_snp ::
  "hv_world \<Rightarrow> hv_event list \<Rightarrow> u64 \<Rightarrow> u64 \<Rightarrow> u64 \<Rightarrow> u64 \<Rightarrow> (efi_status \<times> u64 \<times> hv_event list) option" where
  "not_visible_snp w es SvsmCallingArea StartingPageNumber PageCount processed =
     (if PageCount = 0 then Some (EFI_SUCCESS, processed, es)
      else
        (case SpecialGhcbCall w es (ghcbMsr GHCB_INFO_PAGE_STATE_CHANGE StartingPageNumber GHCB_DATA_PAGE_STATE_SHARED) of
           (r, es) \<Rightarrow>
             if r \<noteq> GHCB_INFO_PAGE_STATE_UPDATED then Some (EFI_SECURITY_VIOLATION, processed, es)
             else
               (case VispPvalidateSinglePage w es SvsmCallingArea StartingPageNumber True of
                  None \<Rightarrow> None
                | Some (status, es) \<Rightarrow>
                    if EFI_ERROR status then Some (status, processed, es)
                    else not_visible_snp w es SvsmCallingArea (StartingPageNumber + 1) (PageCount - 1) (processed + 1))))"
  by pat_completeness auto
termination
proof -
  have one: "unat (n - 1) < unat n" if "n \<noteq> 0" for n :: u64
    using that by (simp add: unat_diff_le word_le_nat_alt unat_gt_0 Suc_leI)
  show ?thesis by (relation "measure (\<lambda>(_, _, _, _, n, _). unat n)") (auto dest: one)
qed

declare not_visible_snp.simps [simp del]

definition EfiMakePageRangeHostNotVisibleSnp ::
  "hv_world \<Rightarrow> hv_event list \<Rightarrow> u64 \<Rightarrow> u64 \<Rightarrow> u64 \<Rightarrow> (efi_status \<times> u64 \<times> hv_event list) option" where
  "EfiMakePageRangeHostNotVisibleSnp w es SvsmCallingArea StartingPageNumber PageCount =
     not_visible_snp w es SvsmCallingArea StartingPageNumber PageCount 0"

subsection \<open>Visibility on TDX\<close>

text \<open>The host may ask for a retry as often as it likes. The failed address is stored unless the call succeeds.\<close>

partial_function (option) map_gpa ::
  "build \<Rightarrow> hv_world \<Rightarrow> hv_event list \<Rightarrow> u64 \<Rightarrow> u64 \<Rightarrow> u64 \<Rightarrow> u64 \<Rightarrow> (efi_status \<times> u64 \<times> hv_event list) option" where
  "map_gpa b w es StartingGpa PageCount pagesProcessed nextGpa =
     (if \<not> pagesProcessed < PageCount then Some (EFI_SUCCESS, pagesProcessed, es)
      else
        (case hw_MapGpa w es nextGpa ((PageCount - pagesProcessed) * 0x1000) of (errorCode, failed) \<Rightarrow> do {
           let es = es @ [MapGpa nextGpa ((PageCount - pagesProcessed) * 0x1000) errorCode failed];
           if errorCode = TDX_SUCCESS then Some (EFI_SUCCESS, PageCount, es)
           else do {
             let pages = (failed - StartingGpa) div 0x1000;
             let unreasonable = PageCount < pages \<or> failed AND 0xFFF \<noteq> 0;
             if TDX_TDG_STATUS errorCode \<noteq> TDX_SUCCESS
             then Some (EFI_SECURITY_VIOLATION, if unreasonable then 0 else pages, es)
             else do {
               ASSERT b (errorCode = TDX_VMCALL_RETRY);
               if unreasonable then Some (EFI_SECURITY_VIOLATION, 0, es)
               else map_gpa b w es StartingGpa PageCount pages failed
             }
           }
         }))"

definition EfiChangePageRangeHostVisibilityTdx ::
  "build \<Rightarrow> hv_world \<Rightarrow> platform \<Rightarrow> hv_event list \<Rightarrow> u64 \<Rightarrow> u64 \<Rightarrow> bool \<Rightarrow> (efi_status \<times> u64 \<times> hv_event list) option" where
  "EfiChangePageRangeHostVisibilityTdx b w pcd es StartingGpa PageCount Visible = do {
     let sharedGpaBoundary = pl_IsolationSharedGpaBoundary pcd;
     ASSERT b (StartingGpa < sharedGpaBoundary);
     let StartingGpa = (if Visible then StartingGpa + sharedGpaBoundary else StartingGpa);
     (status, pagesProcessed, es) \<leftarrow> map_gpa b w es StartingGpa PageCount 0 StartingGpa;
     if pagesProcessed \<noteq> 0 \<and> \<not> Visible then do {
       let (acceptStatus, es) = EfiUpdatePageRangeAcceptanceTdx w es (StartingGpa div 0x1000) pagesProcessed;
       Some (if EFI_ERROR acceptStatus then acceptStatus else status, pagesProcessed, es)
     }
     else Some (status, pagesProcessed, es)
   }"

subsection \<open>Visibility\<close>

definition EfiMakePageRangeHostVisible ::
  "build \<Rightarrow> hv_world \<Rightarrow> platform \<Rightarrow> hv_event list \<Rightarrow> u32 \<Rightarrow> u64 \<Rightarrow> u64 \<Rightarrow> u64 \<Rightarrow> (efi_status \<times> u64 \<times> hv_event list) option" where
  "EfiMakePageRangeHostVisible b w pcd es isolationType SvsmCallingArea StartingPageNumber PageCount =
     (if isolationType = UefiIsolationTypeSnp then EfiMakePageRangeHostVisibleSnp w es SvsmCallingArea StartingPageNumber PageCount
      else if isolationType = UefiIsolationTypeTdx
      then EfiChangePageRangeHostVisibilityTdx b w pcd es (StartingPageNumber * 0x1000) PageCount True
      else Some (EFI_INVALID_PARAMETER, 0, es))"

definition EfiMakePageRangeHostNotVisible ::
  "build \<Rightarrow> hv_world \<Rightarrow> platform \<Rightarrow> hv_event list \<Rightarrow> u32 \<Rightarrow> u64 \<Rightarrow> u64 \<Rightarrow> u64 \<Rightarrow> (efi_status \<times> u64 \<times> hv_event list) option" where
  "EfiMakePageRangeHostNotVisible b w pcd es isolationType SvsmCallingArea StartingPageNumber PageCount =
     (if isolationType = UefiIsolationTypeSnp then EfiMakePageRangeHostNotVisibleSnp w es SvsmCallingArea StartingPageNumber PageCount
      else if isolationType = UefiIsolationTypeTdx
      then EfiChangePageRangeHostVisibilityTdx b w pcd es (StartingPageNumber * 0x1000) PageCount False
      else Some (EFI_INVALID_PARAMETER, 0, es))"

end
