(* ===== verification/Hv_Ivm.thy ===== *)
theory Hv_Ivm
  imports Host_Visibility
begin

text \<open>
  Sharing memory with the host: pinning and visibility of pages in
  \<^verbatim>\<open>MsvmPkg/EfiHvDxe/EfiHvPinning.c\<close>, \<^verbatim>\<open>EfiHvPageVisibility.c\<close>
  and \<^verbatim>\<open>EfiHvCommon.c\<close>.

  The state holds the variables of the driver, the configuration it reads, the number of pool
  allocations, and everything that happened so far. \<open>None\<close>: the firmware stops, at an
  assertion or a \<^verbatim>\<open>FAIL_FAST\<close>, or never returns.
\<close>

subsection \<open>State\<close>

record efi_hv_pin_object =
  po_RequestGpaPageBase :: u64
  po_RequestNumberOfPages :: u32
  po_GpaPageBase :: u64
  po_NumberOfPages :: u32

record efi_hv_protection_object =
  pr_Pointer :: nat
  pr_GpaPageBase :: u64
  pr_NumberOfPages :: u32

record efi_hv =
  eh_HvContext :: hv_hypercall_context
  eh_BypassContext :: hv_hypercall_context
  eh_UseBypassContext :: bool
  eh_BypassOnly :: bool
  eh_HvPages :: u64
  eh_HvInputPage :: u64
  eh_HypercallPage :: u64
  eh_AutoEoi :: bool
  eh_DirectTimerSupported :: bool
  eh_HostVisiblePageList :: "efi_hv_protection_object list"
  eh_PinnedPageList :: "efi_hv_pin_object list"
  eh_SharedGpaBoundary :: u64
  eh_CanonicalizationMask :: u64
  eh_IsolationType :: u32
  eh_SvsmCallingArea :: u64
  eh_Pcd :: platform
  eh_Allocations :: nat
  eh_Events :: "hv_event list"

definition happen :: "hv_event \<Rightarrow> efi_hv \<Rightarrow> efi_hv" where
  "happen e s = s\<lparr>eh_Events := eh_Events s @ [e]\<rparr>"

definition AllocatePool :: "hv_world \<Rightarrow> efi_hv \<Rightarrow> nat option \<times> efi_hv" where
  "AllocatePool w s = (hw_Pool w (eh_Allocations s), s\<lparr>eh_Allocations := eh_Allocations s + 1\<rparr>)"

definition HypercallInputPage :: "efi_hv \<Rightarrow> u64" where
  "HypercallInputPage s = eh_HvPages s"

definition HypercallOutputPage :: "efi_hv \<Rightarrow> u64" where
  "HypercallOutputPage s = eh_HvPages s + 0x1000"

text \<open>A hypercall through the bypass context or the other one, in a state.\<close>

definition issue ::
  "build \<Rightarrow> hv_world \<Rightarrow> efi_hv \<Rightarrow> bool \<Rightarrow> hypercall \<Rightarrow> bool \<Rightarrow> u32 \<Rightarrow> u64 \<Rightarrow> u64 \<Rightarrow> (hv_reply \<times> efi_hv) option" where
  "issue b w s bypass c Fast CountOfElements FirstRegister SecondRegister = do {
     (r, es) \<leftarrow> HvHypercallIssue b w (eh_Events s) (if bypass then eh_BypassContext s else eh_HvContext s)
       c Fast CountOfElements FirstRegister SecondRegister;
     Some (r, s\<lparr>eh_Events := es\<rparr>)
   }"

subsection \<open>Helpers\<close>

definition EfiHvpSharedPa :: "efi_hv \<Rightarrow> u64 \<Rightarrow> u64" where
  "EfiHvpSharedPa s Address =
     (let addr = Address AND NOT (eh_CanonicalizationMask s)
      in if addr < eh_SharedGpaBoundary s then addr + eh_SharedGpaBoundary s else addr)"

definition EfiHvpSharedVa :: "efi_hv \<Rightarrow> u64 \<Rightarrow> u64" where
  "EfiHvpSharedVa s Address = EfiHvpSharedPa s Address OR eh_CanonicalizationMask s"

definition EfiHvpBasePa :: "efi_hv \<Rightarrow> u64 \<Rightarrow> u64" where
  "EfiHvpBasePa s Address =
     (let Address = Address AND NOT (eh_CanonicalizationMask s)
      in if eh_SharedGpaBoundary s \<le> Address then Address - eh_SharedGpaBoundary s else Address)"

definition EfiHvConvertStatus :: "u16 \<Rightarrow> efi_status" where
  "EfiHvConvertStatus Status =
     (if Status = HV_STATUS_SUCCESS then EFI_SUCCESS
      else if Status = HV_STATUS_INVALID_PARAMETER then EFI_INVALID_PARAMETER
      else EFI_DEVICE_ERROR)"

definition EfiHvIssueHypercall :: "build \<Rightarrow> hv_world \<Rightarrow> efi_hv \<Rightarrow> hypercall \<Rightarrow> bool \<Rightarrow> u64 \<Rightarrow> u64 \<Rightarrow> (u16 \<times> efi_hv) option" where
  "EfiHvIssueHypercall b w s c Fast FirstRegister SecondRegister = do {
     (r, s) \<leftarrow> issue b w s (eh_UseBypassContext s) c Fast 0 FirstRegister SecondRegister;
     Some (hr_Status r, s)
   }"

subsection \<open>Ranges of pages\<close>

definition AdditionalPages :: "u64 \<Rightarrow> u64" where "AdditionalPages r = take_bit 11 r"
definition LargePage :: "u64 \<Rightarrow> bool" where "LargePage r = bit r 11"
definition BasePfn :: "u64 \<Rightarrow> u64" where "BasePfn r = drop_bit 12 r"
definition PageSize :: "u64 \<Rightarrow> bool" where "PageSize r = bit r 12"
definition BaseLargePfn :: "u64 \<Rightarrow> u64" where "BaseLargePfn r = drop_bit 21 r"

definition small_range :: "u64 \<Rightarrow> u64 \<Rightarrow> u64" where
  "small_range additional base = take_bit 11 additional OR push_bit 12 base"

definition HV_GPA_PAGE_RANGE_MAX_PAGE_COUNT :: u32 where "HV_GPA_PAGE_RANGE_MAX_PAGE_COUNT = 0x800"
definition HV_GPA_PAGE_PINNING_MAX_RANGE_COUNT :: nat where "HV_GPA_PAGE_PINNING_MAX_RANGE_COUNT = 511"
definition WINHVP_MAX_REPS_PER_HYPERCALL :: nat where "WINHVP_MAX_REPS_PER_HYPERCALL = 0xFFF"

primrec count_pages :: "u64 list \<Rightarrow> u32" where
  "count_pages [] = 0"
| "count_pages (r # rs) = ucast (AdditionalPages r) + 1 + count_pages rs"

definition EfiHvCountGpaPageRangePages :: "u64 list \<Rightarrow> u32 \<Rightarrow> u32" where
  "EfiHvCountGpaPageRangePages GpaRangeList RangeCount = count_pages (take (unat RangeCount) GpaRangeList)"

text \<open>The list of at most \<open>m\<close> ranges and the number of pages in it.\<close>

primrec build_ranges :: "nat \<Rightarrow> u64 \<Rightarrow> u32 \<Rightarrow> u32 \<Rightarrow> u64 list \<times> u32" where
  "build_ranges 0 GpaPageBase PageCount RangePageCount = ([], RangePageCount)"
| "build_ranges (Suc m) GpaPageBase PageCount RangePageCount =
     (if PageCount = 0 then ([], RangePageCount)
      else
        let pagesInRange = min PageCount HV_GPA_PAGE_RANGE_MAX_PAGE_COUNT;
            (rs, n) = build_ranges m GpaPageBase (PageCount - pagesInRange) (RangePageCount + pagesInRange)
        in (small_range (ucast (pagesInRange - 1)) (GpaPageBase + ucast RangePageCount) # rs, n))"

definition EfiHvBuildGpaPageRangeList :: "nat \<Rightarrow> u64 \<Rightarrow> u32 \<Rightarrow> u64 list \<times> u32" where
  "EfiHvBuildGpaPageRangeList MaxRangeCount GpaPageBase PageCount = build_ranges MaxRangeCount GpaPageBase PageCount 0"

text \<open>The loop of hypercalls; the result is the status and the number of pages processed.\<close>

function pin_loop ::
  "build \<Rightarrow> hv_world \<Rightarrow> efi_hv \<Rightarrow> bool \<Rightarrow> u32 \<Rightarrow> u64 \<Rightarrow> u32 \<Rightarrow> (efi_status \<times> u32 \<times> efi_hv) option" where
  "pin_loop b w s Pin PageCount GpaPageBase processed =
     (if PageCount = 0 then None
      else
        (case EfiHvBuildGpaPageRangeList HV_GPA_PAGE_PINNING_MAX_RANGE_COUNT (GpaPageBase + ucast processed) PageCount of
           (rs, rangePageCount) \<Rightarrow>
             if rs = [] \<or> WINHVP_MAX_REPS_PER_HYPERCALL < length rs \<or> PageCount < rangePageCount then None
             else
               (case issue b w s (eh_BypassOnly s) (if Pin then HvCallPinGpaPageRanges rs else HvCallUnpinGpaPageRanges rs)
                       False (of_nat (length rs)) (EfiHvpBasePa s (HypercallInputPage s)) 0 of
                  None \<Rightarrow> None
                | Some (r, s) \<Rightarrow>
                    if \<not> unat (hr_Elements r) \<le> length rs then None
                    else if \<not> (EfiHvConvertStatus (hr_Status r) \<noteq> EFI_SUCCESS \<or> unat (hr_Elements r) = length rs) then None
                    else
                      let pages = EfiHvCountGpaPageRangePages rs (hr_Elements r) in
                      if \<not> pages \<le> PageCount then None
                      else if EfiHvConvertStatus (hr_Status r) \<noteq> EFI_SUCCESS \<or> PageCount - pages = 0
                      then Some (EfiHvConvertStatus (hr_Status r), processed + pages, s)
                      else pin_loop b w s Pin (PageCount - pages) GpaPageBase (processed + pages))))"
  by pat_completeness auto
termination
proof (relation "measure (\<lambda>(_, _, _, _, n, _, _). unat n)", goal_cases)
  case (2 b w s Pin PageCount GpaPageBase processed rs rangePageCount p r s' pages)
  have bound: "unat (count_pages xs) \<le> length xs * 2048 \<and> (xs \<noteq> [] \<longrightarrow> 0 < unat (count_pages xs))" if "length xs \<le> 4095" for xs
    using that
  proof (induction xs)
    case (Cons a xs)
    have "unat (AdditionalPages a) < 2 ^ 11" unfolding AdditionalPages_def unsigned_take_bit_eq by (rule take_bit_nat_less_exp)
    then have a: "unat (ucast (AdditionalPages a) :: u32) \<le> 2047" by (simp add: unsigned_ucast_eq take_bit_nat_eq_self)
    then have "unat (ucast (AdditionalPages a) + 1 :: u32) = unat (ucast (AdditionalPages a) :: u32) + 1" by (subst unat_add32) simp_all
    moreover have "unat (count_pages xs) \<le> length xs * 2048" using Cons by simp
    ultimately have "unat (count_pages (a # xs)) = unat (ucast (AdditionalPages a) :: u32) + 1 + unat (count_pages xs)"
      using Cons.prems a by (simp, subst unat_add32) simp_all
    then show ?case using Cons a by simp
  qed simp
  have "take (unat (hr_Elements r)) rs = rs" using 2 by auto
  then have "pages = count_pages rs" "rs \<noteq> []" "length rs \<le> 4095"
    using 2 by (auto simp: EfiHvCountGpaPageRangePages_def WINHVP_MAX_REPS_PER_HYPERCALL_def)
  with bound [of rs] have "0 < unat pages" by simp
  moreover have "unat (PageCount - pages) = unat PageCount - unat pages" using 2 by (simp add: unat_diff_le)
  moreover have "unat pages \<le> unat PageCount" using 2 by (simp add: word_le_nat_alt)
  ultimately show ?case by simp
qed simp

declare pin_loop.simps [simp del]

subsection \<open>Pinning\<close>

definition EfiHvpPinUnpinGpaPageRanges ::
  "build \<Rightarrow> hv_world \<Rightarrow> efi_hv \<Rightarrow> bool \<Rightarrow> u32 \<Rightarrow> u64 \<Rightarrow> (efi_status \<times> u32 \<times> efi_hv) option" where
  "EfiHvpPinUnpinGpaPageRanges b w s Pin PageCount GpaPageBase =
     (if PageCount = 0 then Some (EFI_INVALID_PARAMETER, 0, s) else pin_loop b w s Pin PageCount GpaPageBase 0)"

definition EfiHvpTrackPinnedGpaPageRange ::
  "hv_world \<Rightarrow> efi_hv \<Rightarrow> u64 \<Rightarrow> u32 \<Rightarrow> u64 \<Rightarrow> u32 \<Rightarrow> (efi_status \<times> efi_hv) option" where
  "EfiHvpTrackPinnedGpaPageRange w s RequestGpaPageBase RequestPageCount PinnedGpaPageBase PinnedPageCount =
     (if PinnedPageCount = 0 then None
      else
        let (pinObject, s) = AllocatePool w s in
        case pinObject of
          None \<Rightarrow> Some (EFI_OUT_OF_RESOURCES, s)
        | Some _ \<Rightarrow> Some (EFI_SUCCESS, s\<lparr>eh_PinnedPageList := eh_PinnedPageList s @
            [\<lparr>po_RequestGpaPageBase = RequestGpaPageBase, po_RequestNumberOfPages = RequestPageCount,
              po_GpaPageBase = PinnedGpaPageBase, po_NumberOfPages = PinnedPageCount\<rparr>]\<rparr>))"

text \<open>The loop over the tracked ranges: those that stay, the number of those that were unpinned.\<close>

primrec unpin_tracked ::
  "build \<Rightarrow> hv_world \<Rightarrow> u64 \<Rightarrow> u32 \<Rightarrow> efi_hv_pin_object list \<Rightarrow> u32 \<Rightarrow> efi_hv \<Rightarrow> (efi_hv_pin_object list \<times> u32 \<times> efi_hv) option" where
  "unpin_tracked b w RequestGpaPageBase RequestPageCount [] rangesUnpinned s = Some ([], rangesUnpinned, s)"
| "unpin_tracked b w RequestGpaPageBase RequestPageCount (pinObject # rest) rangesUnpinned s =
     (if po_RequestGpaPageBase pinObject \<noteq> RequestGpaPageBase \<or> po_RequestNumberOfPages pinObject \<noteq> RequestPageCount
      then do {
        (kept, n, s) \<leftarrow> unpin_tracked b w RequestGpaPageBase RequestPageCount rest rangesUnpinned s;
        Some (pinObject # kept, n, s)
      }
      else do {
        (status, _, s) \<leftarrow> EfiHvpPinUnpinGpaPageRanges b w s False (po_NumberOfPages pinObject) (po_GpaPageBase pinObject);
        if EFI_ERROR status then None
        else unpin_tracked b w RequestGpaPageBase RequestPageCount rest (rangesUnpinned + 1) s
      })"

definition EfiHvpUnpinTrackedGpaPageRanges :: "build \<Rightarrow> hv_world \<Rightarrow> efi_hv \<Rightarrow> u64 \<Rightarrow> u32 \<Rightarrow> (u32 \<times> efi_hv) option" where
  "EfiHvpUnpinTrackedGpaPageRanges b w s RequestGpaPageBase RequestPageCount = do {
     (kept, n, s) \<leftarrow> unpin_tracked b w RequestGpaPageBase RequestPageCount (eh_PinnedPageList s) 0 s;
     Some (n, s\<lparr>eh_PinnedPageList := kept\<rparr>)
   }"

definition EfiHvpGetGpaRangeBounds :: "u64 \<Rightarrow> u64 \<times> u64" where
  "EfiHvpGetGpaRangeBounds GpaRange =
     (let (BaseGpaPage, pageCount) =
        (if LargePage GpaRange
         then (BaseLargePfn GpaRange * 0x200, (AdditionalPages GpaRange + 1) * (if PageSize GpaRange then 0x40000 else 0x200))
         else (BasePfn GpaRange, AdditionalPages GpaRange + 1))
      in (BaseGpaPage, BaseGpaPage + pageCount))"

definition EfiHvpQueryAlwaysPinnedSubranges ::
  "build \<Rightarrow> hv_world \<Rightarrow> efi_hv \<Rightarrow> u64 \<Rightarrow> u32 \<Rightarrow> (efi_status \<times> hv_reply \<times> efi_hv) option" where
  "EfiHvpQueryAlwaysPinnedSubranges b w s GpaPageBase PageCount = do {
     (r, s) \<leftarrow> issue b w s (eh_UseBypassContext s) (HvCallQueryInformationGpaRange GpaPageBase (ucast PageCount)) False 0
       (EfiHvpBasePa s (HypercallInputPage s)) (EfiHvpBasePa s (HypercallOutputPage s));
     Some (EfiHvConvertStatus (hr_Status r), r, s)
   }"

definition EfiHvpPinAndTrackGpaPageRange ::
  "build \<Rightarrow> hv_world \<Rightarrow> efi_hv \<Rightarrow> u64 \<Rightarrow> u32 \<Rightarrow> u64 \<Rightarrow> u32 \<Rightarrow> bool \<Rightarrow> (efi_status \<times> bool \<times> efi_hv) option" where
  "EfiHvpPinAndTrackGpaPageRange b w s RequestGpaPageBase RequestPageCount GpaPageBase PageCount PinApplied =
     (if PageCount = 0 then None
      else do {
        (status, pageCountProcessed, s) \<leftarrow> EfiHvpPinUnpinGpaPageRanges b w s True PageCount GpaPageBase;
        if EFI_ERROR status then
          if pageCountProcessed \<noteq> 0 then do {
            (revert, _, s) \<leftarrow> EfiHvpPinUnpinGpaPageRanges b w s False pageCountProcessed GpaPageBase;
            if EFI_ERROR revert then None else Some (status, PinApplied, s)
          }
          else Some (status, PinApplied, s)
        else do {
          (status, s) \<leftarrow> EfiHvpTrackPinnedGpaPageRange w s RequestGpaPageBase RequestPageCount GpaPageBase PageCount;
          if EFI_ERROR status then do {
            (revert, _, s) \<leftarrow> EfiHvpPinUnpinGpaPageRanges b w s False PageCount GpaPageBase;
            if EFI_ERROR revert then None else Some (status, PinApplied, s)
          }
          else Some (EFI_SUCCESS, True, s)
        }
      })"

text \<open>The loop over the subranges: the status, and the page after the last one that is dealt with.\<close>

primrec pin_gaps ::
  "build \<Rightarrow> hv_world \<Rightarrow> hv_reply \<Rightarrow> u64 \<Rightarrow> u32 \<Rightarrow> u64 \<Rightarrow> nat list \<Rightarrow> u64 \<Rightarrow> bool \<Rightarrow> efi_hv \<Rightarrow> (efi_status \<times> u64 \<times> bool \<times> efi_hv) option" where
  "pin_gaps b w subranges RequestGpaPageBase RequestPageCount endGpaPage [] currentGpaPage PinApplied s =
     Some (EFI_SUCCESS, currentGpaPage, PinApplied, s)"
| "pin_gaps b w subranges RequestGpaPageBase RequestPageCount endGpaPage (index # indices) currentGpaPage PinApplied s =
     (let (subrangeBase, subrangeEnd) = EfiHvpGetGpaRangeBounds (hr_SubrangeList subranges index) in
      if subrangeEnd \<le> currentGpaPage \<or> endGpaPage \<le> subrangeBase
      then pin_gaps b w subranges RequestGpaPageBase RequestPageCount endGpaPage indices currentGpaPage PinApplied s
      else do {
        (status, PinApplied, s) \<leftarrow> (if currentGpaPage < subrangeBase
          then EfiHvpPinAndTrackGpaPageRange b w s RequestGpaPageBase RequestPageCount currentGpaPage (ucast (subrangeBase - currentGpaPage)) PinApplied
          else Some (EFI_SUCCESS, PinApplied, s));
        if EFI_ERROR status then Some (status, currentGpaPage, PinApplied, s)
        else pin_gaps b w subranges RequestGpaPageBase RequestPageCount endGpaPage indices (min subrangeEnd endGpaPage) PinApplied s
      })"

text \<open>The pages between the subranges, and those after the last.\<close>

definition pin_between ::
  "build \<Rightarrow> hv_world \<Rightarrow> hv_reply \<Rightarrow> efi_hv \<Rightarrow> u64 \<Rightarrow> u32 \<Rightarrow> u64 \<Rightarrow> u32 \<Rightarrow> bool \<Rightarrow> (efi_status \<times> bool \<times> efi_hv) option" where
  "pin_between b w subranges s RequestGpaPageBase RequestPageCount GpaPageBase PageCount PinApplied = do {
     let endGpaPage = GpaPageBase + ucast PageCount;
     (status, currentGpaPage, PinApplied, s) \<leftarrow> pin_gaps b w subranges RequestGpaPageBase RequestPageCount endGpaPage
       [0..<unat (hr_SubrangeCount subranges)] GpaPageBase PinApplied s;
     if EFI_ERROR status then Some (status, PinApplied, s)
     else if currentGpaPage < endGpaPage
     then EfiHvpPinAndTrackGpaPageRange b w s RequestGpaPageBase RequestPageCount currentGpaPage (ucast (endGpaPage - currentGpaPage)) PinApplied
     else Some (EFI_SUCCESS, PinApplied, s)
   }"

text \<open>The output page has room for 510 subranges; a full page may be incomplete, and the range is halved.\<close>

definition maxSubrangeCount :: u16 where "maxSubrangeCount = 510"

function EfiHvpPinGpaPageRangeSkippingAlwaysPinnedPages ::
  "build \<Rightarrow> hv_world \<Rightarrow> efi_hv \<Rightarrow> u64 \<Rightarrow> u32 \<Rightarrow> u64 \<Rightarrow> u32 \<Rightarrow> bool \<Rightarrow> (efi_status \<times> bool \<times> efi_hv) option" where
  "EfiHvpPinGpaPageRangeSkippingAlwaysPinnedPages b w s RequestGpaPageBase RequestPageCount GpaPageBase PageCount PinApplied =
     (if PageCount = 0 then None
      else
        (case EfiHvpQueryAlwaysPinnedSubranges b w s GpaPageBase PageCount of
           None \<Rightarrow> None
         | Some (status, subranges, s) \<Rightarrow>
           if EFI_ERROR status then Some (status, PinApplied, s)
           else if maxSubrangeCount < hr_SubrangeCount subranges then Some (EFI_BAD_BUFFER_SIZE, PinApplied, s)
           else if hr_SubrangeCount subranges = maxSubrangeCount \<and> 1 < PageCount then
             (case EfiHvpPinGpaPageRangeSkippingAlwaysPinnedPages b w s RequestGpaPageBase RequestPageCount
                GpaPageBase (PageCount div 2) PinApplied of
                None \<Rightarrow> None
              | Some (status, PinApplied, s) \<Rightarrow>
                  if EFI_ERROR status then Some (status, PinApplied, s)
                  else EfiHvpPinGpaPageRangeSkippingAlwaysPinnedPages b w s RequestGpaPageBase RequestPageCount
                    (GpaPageBase + ucast (PageCount div 2)) (PageCount - PageCount div 2) PinApplied)
           else pin_between b w subranges s RequestGpaPageBase RequestPageCount GpaPageBase PageCount PinApplied))"
  by pat_completeness auto
termination
proof -
  have halves: "unat (n div 2) < unat n \<and> unat (n - n div 2) < unat n" if "1 < n" for n :: u32
  proof -
    have n: "1 < unat n" using that by (simp add: word_less_nat_alt)
    have h: "unat (n div 2) = unat n div 2" by (simp add: unat_div)
    then have "unat (n - n div 2) = unat n - unat n div 2" by (simp add: unat_diff_le word_le_nat_alt)
    with n h show ?thesis by simp
  qed
  show ?thesis by (relation "measure (\<lambda>(_, _, _, _, _, _, n, _). unat n)") (auto dest: halves)
qed

declare EfiHvpPinGpaPageRangeSkippingAlwaysPinnedPages.simps [simp del]

text \<open>The status and whether a pin was applied.\<close>

definition EfiHvPinAddressRange :: "build \<Rightarrow> hv_world \<Rightarrow> efi_hv \<Rightarrow> u64 \<Rightarrow> u32 \<Rightarrow> (efi_status \<times> bool \<times> efi_hv) option" where
  "EfiHvPinAddressRange b w s BaseAddress ByteCount =
     (if BaseAddress AND 0xFFF \<noteq> 0 \<or> ByteCount AND 0xFFF \<noteq> 0 \<or> ByteCount = 0 then Some (EFI_INVALID_PARAMETER, False, s)
      else do {
        let pageCount = ByteCount div 0x1000;
        let gpaPageBase = BaseAddress div 0x1000;
        (status, pinApplied, s) \<leftarrow> EfiHvpPinGpaPageRangeSkippingAlwaysPinnedPages b w s gpaPageBase pageCount gpaPageBase pageCount False;
        if EFI_ERROR status then do {
          (_, s) \<leftarrow> EfiHvpUnpinTrackedGpaPageRanges b w s gpaPageBase pageCount;
          Some (status, False, s)
        }
        else Some (EFI_SUCCESS, pinApplied, s)
      })"

definition EfiHvUnpinAddressRange :: "build \<Rightarrow> hv_world \<Rightarrow> efi_hv \<Rightarrow> u64 \<Rightarrow> u32 \<Rightarrow> efi_hv option" where
  "EfiHvUnpinAddressRange b w s BaseAddress ByteCount =
     (if BaseAddress AND 0xFFF \<noteq> 0 \<or> ByteCount AND 0xFFF \<noteq> 0 \<or> ByteCount = 0 then None
      else do {
        (rangesUnpinned, s) \<leftarrow> EfiHvpUnpinTrackedGpaPageRanges b w s (BaseAddress div 0x1000) (ByteCount div 0x1000);
        if rangesUnpinned = 0 then None else Some s
      })"

subsection \<open>Visibility\<close>

definition HV_MAP_GPA_PERMISSIONS_NONE :: u32 where "HV_MAP_GPA_PERMISSIONS_NONE = 0"
definition HV_MAP_GPA_READABLE :: u32 where "HV_MAP_GPA_READABLE = 1"
definition HV_MAP_GPA_WRITABLE :: u32 where "HV_MAP_GPA_WRITABLE = 2"

text \<open>The input page has room for 510 page numbers.\<close>

definition possibleRepsPerCall :: u32 where "possibleRepsPerCall = 510"

definition page_numbers :: "u64 \<Rightarrow> u32 \<Rightarrow> u32 \<Rightarrow> u64 list" where
  "page_numbers GpaPageBase gpaPageBaseIndex reps = map (\<lambda>i. GpaPageBase + ucast (gpaPageBaseIndex + of_nat i)) [0..<unat reps]"

function modify_loop :: "build \<Rightarrow> hv_world \<Rightarrow> efi_hv \<Rightarrow> u32 \<Rightarrow> u32 \<Rightarrow> u64 \<Rightarrow> u32 \<Rightarrow> u32 \<Rightarrow> (efi_status \<times> u32 \<times> efi_hv) option" where
  "modify_loop b w s MapFlags PageCount GpaPageBase gpaPageBaseIndex processed =
     (if PageCount = 0 then None
      else
        let reps = min possibleRepsPerCall PageCount in
        (case issue b w s (eh_BypassOnly s)
                (HvCallModifySparseGpaPageHostVisibility MapFlags (page_numbers GpaPageBase gpaPageBaseIndex reps))
                False reps (EfiHvpBasePa s (HypercallInputPage s)) 0 of
           None \<Rightarrow> None
         | Some (r, s) \<Rightarrow>
             if \<not> hr_Elements r \<le> reps then None
             else if \<not> (EfiHvConvertStatus (hr_Status r) \<noteq> EFI_SUCCESS \<or> hr_Elements r = reps) then None
             else if EfiHvConvertStatus (hr_Status r) \<noteq> EFI_SUCCESS \<or> PageCount - hr_Elements r = 0
             then Some (EfiHvConvertStatus (hr_Status r), processed + hr_Elements r, s)
             else modify_loop b w s MapFlags (PageCount - hr_Elements r) GpaPageBase (gpaPageBaseIndex + reps) (processed + hr_Elements r)))"
  by pat_completeness auto
termination
proof -
  have less: "unat (n - min possibleRepsPerCall n) < unat n" if "n \<noteq> 0" for n
    using that by (auto simp: possibleRepsPerCall_def min_def unat_diff_le word_le_nat_alt unat_gt_0)
  show ?thesis
    by (relation "measure (\<lambda>(_, _, _, _, n, _, _, _). unat n)") (auto dest: less)
qed

declare modify_loop.simps [simp del]

definition no_paravisor :: "efi_hv \<Rightarrow> bool" where
  "no_paravisor s = IsHardwareIsolatedNoParavisorEx (eh_IsolationType s) (IsParavisorPresent (eh_Pcd s))"

definition accept :: "build \<Rightarrow> hv_world \<Rightarrow> efi_hv \<Rightarrow> bool \<Rightarrow> u64 \<Rightarrow> u32 \<Rightarrow> (efi_status \<times> efi_hv) option" where
  "accept b w s Accept GpaPageBase PageCount = do {
     (status, es) \<leftarrow> EfiUpdatePageRangeAcceptance b w (eh_Events s) (eh_IsolationType s) (eh_SvsmCallingArea s)
       GpaPageBase (ucast PageCount) Accept;
     if EFI_ERROR status then None else Some (status, s\<lparr>eh_Events := es\<rparr>)
   }"

text \<open>Before the connection to the hypervisor is there, pages are changed without hypercalls.\<close>

definition make_page_range ::
  "build \<Rightarrow> hv_world \<Rightarrow> efi_hv \<Rightarrow> u32 \<Rightarrow> u32 \<Rightarrow> u64 \<Rightarrow> (efi_status \<times> u32 \<times> efi_hv) option" where
  "make_page_range b w s MapFlags PageCount GpaPageBase = do {
     (status, pagesProcessed, es) \<leftarrow> (if MapFlags \<noteq> 0
       then EfiMakePageRangeHostVisible b w (eh_Pcd s) (eh_Events s) (eh_IsolationType s) (eh_SvsmCallingArea s) GpaPageBase (ucast PageCount)
       else EfiMakePageRangeHostNotVisible b w (eh_Pcd s) (eh_Events s) (eh_IsolationType s) (eh_SvsmCallingArea s) GpaPageBase (ucast PageCount));
     if EFI_ERROR status \<or> \<not> pagesProcessed \<le> ucast PageCount then None
     else Some (status, ucast pagesProcessed, s\<lparr>eh_Events := es\<rparr>)
   }"

text \<open>The status and the number of pages that were processed.\<close>

definition EfiHvpModifySparseGpaPageHostVisibility ::
  "build \<Rightarrow> hv_world \<Rightarrow> efi_hv \<Rightarrow> u32 \<Rightarrow> u32 \<Rightarrow> u64 \<Rightarrow> (efi_status \<times> u32 \<times> efi_hv) option" where
  "EfiHvpModifySparseGpaPageHostVisibility b w s MapFlags PageCount GpaPageBase =
     (if PageCount = 0 then Some (EFI_INVALID_PARAMETER, 0, s)
      else if no_paravisor s \<and> \<not> hc_Connected (eh_BypassContext s) then make_page_range b w s MapFlags PageCount GpaPageBase
      else do {
        (_, s) \<leftarrow> (if no_paravisor s \<and> MapFlags \<noteq> 0 then accept b w s False GpaPageBase PageCount else Some (EFI_SUCCESS, s));
        (status, n, s) \<leftarrow> modify_loop b w s MapFlags PageCount GpaPageBase 0 0;
        if no_paravisor s then
          if EFI_ERROR status then None
          else if MapFlags = 0 then do {
            (status, s) \<leftarrow> accept b w s True GpaPageBase n;
            Some (status, n, s)
          }
          else Some (status, n, s)
        else Some (status, n, s)
      })"

text \<open>On success the handle, a pointer to the tracking object.\<close>

definition EfiHvMakeAddressRangeHostVisible ::
  "build \<Rightarrow> hv_world \<Rightarrow> efi_hv \<Rightarrow> u32 \<Rightarrow> u64 \<Rightarrow> u32 \<Rightarrow> bool \<Rightarrow> (efi_status \<times> nat option \<times> efi_hv) option" where
  "EfiHvMakeAddressRangeHostVisible b w s MapFlags BaseAddress ByteCount ZeroPages =
     (if \<not> IsIsolatedEx (eh_IsolationType s) then Some (EFI_INVALID_PARAMETER, None, s)
      else if BaseAddress AND 0xFFF \<noteq> 0 \<or> ByteCount AND 0xFFF \<noteq> 0 \<or> MapFlags AND HV_MAP_GPA_READABLE = 0 \<or>
        MapFlags AND NOT (HV_MAP_GPA_READABLE OR HV_MAP_GPA_WRITABLE) \<noteq> 0 then Some (EFI_INVALID_PARAMETER, None, s)
      else if IsHardwareIsolatedEx (eh_IsolationType s) \<and>
        MapFlags AND (HV_MAP_GPA_READABLE OR HV_MAP_GPA_WRITABLE) = HV_MAP_GPA_READABLE then Some (EFI_INVALID_PARAMETER, None, s)
      else
        let (protectionObject, s) = AllocatePool w s in
        case protectionObject of
          None \<Rightarrow> Some (EFI_OUT_OF_RESOURCES, None, s)
        | Some pointer \<Rightarrow> do {
            let base = BaseAddress div 0x1000;
            let pages = ByteCount div 0x1000;
            let (s, ZeroPages) = (if IsSoftwareIsolatedEx (eh_IsolationType s)
              then (happen (ZeroMem_event BaseAddress ByteCount) s, False) else (s, ZeroPages));
            (status, pageCountProcessed, s) \<leftarrow> EfiHvpModifySparseGpaPageHostVisibility b w s MapFlags pages base;
            if EFI_ERROR status then
              if pageCountProcessed \<noteq> 0 then do {
                (revertStatus, _, s) \<leftarrow> EfiHvpModifySparseGpaPageHostVisibility b w s HV_MAP_GPA_PERMISSIONS_NONE pageCountProcessed base;
                if EFI_ERROR revertStatus then None else Some (status, None, s)
              }
              else Some (status, None, s)
            else do {
              let s = s\<lparr>eh_HostVisiblePageList := eh_HostVisiblePageList s @
                [\<lparr>pr_Pointer = pointer, pr_GpaPageBase = base, pr_NumberOfPages = pages\<rparr>]\<rparr>;
              let s = (if ZeroPages then happen (ZeroMem_event (EfiHvpSharedVa s BaseAddress) ByteCount) s else s);
              Some (status, Some pointer, s)
            }
          })"

text \<open>A handle that is null or does not point to a tracked range stops the firmware.\<close>

definition EfiHvMakeAddressRangeNotHostVisible :: "build \<Rightarrow> hv_world \<Rightarrow> efi_hv \<Rightarrow> nat option \<Rightarrow> efi_hv option" where
  "EfiHvMakeAddressRangeNotHostVisible b w s ProtectionHandle = do {
     pointer \<leftarrow> ProtectionHandle;
     protectionObject \<leftarrow> find (\<lambda>p. pr_Pointer p = pointer) (eh_HostVisiblePageList s);
     let s = s\<lparr>eh_HostVisiblePageList := remove1 protectionObject (eh_HostVisiblePageList s)\<rparr>;
     (status, _, s) \<leftarrow> EfiHvpModifySparseGpaPageHostVisibility b w s HV_MAP_GPA_PERMISSIONS_NONE
       (pr_NumberOfPages protectionObject) (pr_GpaPageBase protectionObject);
     if EFI_ERROR status then None else Some s
   }"

end
