(* ===== verification/Spec2Isabelle.thy ===== *)
theory Spec2Isabelle
  imports Vmbus_Properties Azihsm_Properties Event_Properties Iommu_Properties Hv_Ivm
begin

text \<open>
  Verification of the Hyper-V virtual machine firmware (\<^verbatim>\<open>MsvmPkg\<close>).
\<close>

end
